(* ===== verification/Prelude.thy ===== *)
theory Prelude
  imports Main "HOL-Library.Word"
begin

unbundle bit_operations_syntax

text \<open>
  Shared vocabulary of the development: the machine types of \<^verbatim>\<open>kernel/types.h\<close>, the outcome
  of a kernel routine, and little-endian access to byte-addressed memory with the
  lemmas on it that every component uses.
\<close>

section \<open>Machine types\<close>

type_synonym u8 = "8 word"
type_synonym u16 = "16 word"
type_synonym u32 = "32 word"
type_synonym u64 = "64 word"
type_synonym addr = "64 word"

section \<open>Outcomes of kernel code\<close>

text \<open>
  A kernel routine takes the kernel state and either returns a value with the new
  state (\<open>Ok\<close>), stops the machine in \<^verbatim>\<open>panic\<close> with its message (\<open>Panic\<close>), or has used up the
  step bound of a loop that the source does not bound (\<open>Diverge\<close>). The fourth outcome is a
  thread that switches away in \<^verbatim>\<open>sched\<close>: \<open>Sleep s k\<close> leaves the state \<open>s\<close> to the other threads, and
  when the scheduler switches back in a state \<open>t\<close> the routine goes on as \<open>k t\<close>.
\<close>

datatype ('s, 'a) out = Ok 'a 's | Panic string | Sleep 's "'s \<Rightarrow> ('s, 'a) out" | Diverge

primrec bnd :: "('s, 'a) out \<Rightarrow> ('a \<Rightarrow> 's \<Rightarrow> ('s, 'b) out) \<Rightarrow> ('s, 'b) out" where
  "bnd (Ok x s) f = f x s"
| "bnd (Panic m) f = Panic m"
| "bnd (Sleep s k) f = Sleep s (\<lambda>t. bnd (k t) f)"
| "bnd Diverge f = Diverge"

named_theorems out_iffs
named_theorems frames

lemma bnd_Ok_iff [out_iffs]: "bnd r f = Ok v t \<longleftrightarrow> (\<exists>x s. r = Ok x s \<and> f x s = Ok v t)"
  by (cases r) auto

lemma bnd_Panic_iff [out_iffs]:
  "bnd r f = Panic m \<longleftrightarrow> r = Panic m \<or> (\<exists>x s. r = Ok x s \<and> f x s = Panic m)"
  by (cases r) auto

lemma bnd_Diverge_iff [out_iffs]:
  "bnd r f = Diverge \<longleftrightarrow> r = Diverge \<or> (\<exists>x s. r = Ok x s \<and> f x s = Diverge)"
  by (cases r) auto

lemma bnd_assoc: "bnd (bnd r f) g = bnd r (\<lambda>x s. bnd (f x s) g)"
  by (induction r) auto

lemma bnd_ret [simp]: "bnd r Ok = r"
  by (induction r) auto

lemma bnd_cong [fundef_cong]:
  assumes "r = r'" and "\<And>x s. f x s = g x s"
  shows "bnd r f = bnd r' g"
proof -
  have "f = g" by (intro ext) (rule assms(2))
  then show ?thesis using assms(1) by simp
qed

text \<open>
  What a routine guarantees when other threads run while it sleeps: \<open>runs G R Q r\<close> says that \<open>r\<close> never
  panics and never runs out of steps, that it gives up the processor only in states that satisfy
  \<open>G\<close>, and that it returns with \<open>Q\<close>, provided the other threads change the state only by \<open>R\<close>.
\<close>

primrec runs :: "('s \<Rightarrow> bool) \<Rightarrow> ('s \<Rightarrow> 's \<Rightarrow> bool) \<Rightarrow> ('a \<Rightarrow> 's \<Rightarrow> bool) \<Rightarrow> ('s, 'a) out \<Rightarrow> bool" where
  "runs G R Q (Ok x s) \<longleftrightarrow> Q x s"
| "runs G R Q (Panic m) \<longleftrightarrow> False"
| "runs G R Q (Sleep s k) \<longleftrightarrow> G s \<and> (\<forall>t. R s t \<longrightarrow> runs G R Q (k t))"
| "runs G R Q Diverge \<longleftrightarrow> False"

lemma runs_bnd [simp]: "runs G R Q (bnd r f) \<longleftrightarrow> runs G R (\<lambda>x s. runs G R Q (f x s)) r"
  by (induction r) auto

lemma runs_mono: "runs G R Q r \<Longrightarrow> (\<And>x s. Q x s \<Longrightarrow> Q' x s) \<Longrightarrow> runs G R Q' r"
  by (induction r) auto

lemma runs_conseq:
  assumes "runs G R Q r" "\<And>s. G s \<Longrightarrow> G' s" "\<And>s t. G s \<Longrightarrow> R' s t \<Longrightarrow> R s t" "\<And>x s. Q x s \<Longrightarrow> Q' x s"
  shows "runs G' R' Q' r"
  using assms(1) by (induction r) (auto intro: assms(2-4))

section \<open>Loops over a fixed index list\<close>

text \<open>A \<^verbatim>\<open>for\<close> loop without exits, and one whose body may return from the enclosing routine.\<close>

primrec foreach :: "'i list \<Rightarrow> ('i \<Rightarrow> 's \<Rightarrow> ('s, unit) out) \<Rightarrow> 's \<Rightarrow> ('s, unit) out" where
  "foreach [] f s = Ok () s"
| "foreach (i # xs) f s = bnd (f i s) (\<lambda>_ s. foreach xs f s)"

primrec forret :: "'i list \<Rightarrow> ('i \<Rightarrow> 's \<Rightarrow> ('s, 'r option) out) \<Rightarrow> 's \<Rightarrow> ('s, 'r option) out" where
  "forret [] f s = Ok None s"
| "forret (i # xs) f s = bnd (f i s) (\<lambda>r s. case r of None \<Rightarrow> forret xs f s | Some v \<Rightarrow> Ok (Some v) s)"

lemma foreach_append: "foreach (xs @ ys) f s = bnd (foreach xs f s) (\<lambda>_ s. foreach ys f s)"
  by (induction xs arbitrary: s) (auto simp: bnd_assoc)

lemma foreach_snoc: "foreach (xs @ [x]) f s = bnd (foreach xs f s) (\<lambda>_ s. f x s)"
  by (simp add: foreach_append)

lemma foreach_invariant:
  assumes "I [] s"
    and "\<And>ds i rest s. xs = ds @ i # rest \<Longrightarrow> I ds s \<Longrightarrow> \<exists>t. f i s = Ok () t \<and> I (ds @ [i]) t"
  shows "\<exists>t. foreach xs f s = Ok () t \<and> I xs t"
proof -
  have "\<exists>t. foreach rest f s = Ok () t \<and> I xs t" if "xs = ds @ rest" "I ds s" for ds rest s
    using that
  proof (induction rest arbitrary: ds s)
    case (Cons i rest)
    then obtain t where "f i s = Ok () t" "I (ds @ [i]) t" using assms(2) by blast
    then show ?case using Cons.IH [of "ds @ [i]" t] Cons.prems(1) by auto
  qed auto
  from this [of "[]" xs s] show ?thesis using assms(1) by simp
qed

section \<open>Machine words as numbers\<close>

lemma unat_lt64: "unat (a :: u64) < 2 ^ 64"
  using unsigned_less [of a, where 'a = nat] by simp

lemma unat_of_nat_small: "i < 2 ^ 64 \<Longrightarrow> unat (of_nat i :: u64) = i"
  by (simp add: unat_of_nat take_bit_eq_mod)

lemma of_nat_u64_inj: "i < 2 ^ 64 \<Longrightarrow> j < 2 ^ 64 \<Longrightarrow> (of_nat i :: u64) = of_nat j \<longleftrightarrow> i = j"
  by (metis unat_of_nat_small)

section \<open>Little-endian words over bytes\<close>

definition byte_of :: "'a::len word \<Rightarrow> nat \<Rightarrow> u8" where
  "byte_of v i = ucast (drop_bit (8 * i) v)"

primrec le_bytes :: "nat \<Rightarrow> (nat \<Rightarrow> u8) \<Rightarrow> 'a::len word" where
  "le_bytes 0 f = 0"
| "le_bytes (Suc n) f = le_bytes n f OR push_bit (8 * n) (ucast (f n))"

lemma bit_byte_of: "bit (byte_of (v::'a::len word) i) n \<longleftrightarrow> n < 8 \<and> bit v (8 * i + n)"
  by (auto simp: byte_of_def bit_simps add.commute dest: bit_imp_le_length)

lemma bit_le_bytes:
  "bit (le_bytes n f :: 'a::len word) j \<longleftrightarrow>
     j < LENGTH('a) \<and> j div 8 < n \<and> bit (f (j div 8)) (j mod 8)"
proof (induction n)
  case 0
  then show ?case by simp
next
  case (Suc n)
  have "8 * n \<le> j \<and> j - 8 * n < 8 \<longleftrightarrow> j div 8 = n" by auto
  moreover have "j div 8 = n \<Longrightarrow> j - 8 * n = j mod 8"
    by (auto simp: minus_mult_div_eq_mod)
  ultimately show ?case
    using Suc by (auto simp: bit_simps less_Suc_eq dest: bit_imp_le_length)
qed

lemma le_bytes_byte_of:
  assumes "LENGTH('a) \<le> 8 * n"
  shows "le_bytes n (byte_of v) = (v :: 'a::len word)"
proof (rule bit_word_eqI)
  fix j assume "j < LENGTH('a)"
  moreover from this assms have "j div 8 < n"
    by (simp add: less_mult_imp_div_less mult.commute)
  ultimately show "bit (le_bytes n (byte_of v) :: 'a word) j = bit v j"
    by (simp add: bit_le_bytes bit_byte_of)
qed

lemma le_bytes_cong:
  "(\<And>i. i < n \<Longrightarrow> f i = g i) \<Longrightarrow> le_bytes n f = (le_bytes n g :: 'a::len word)"
  by (induction n) auto

end
