(* ===== verification/Mem.thy ===== *)
theory Mem
  imports Prelude
begin

unbundle bit_operations_syntax

text \<open>
  Physical memory: one byte per 64-bit address, with the aligned and unaligned loads and
  stores that the kernel's pointer accesses compile to (RISC-V is little-endian), and
  the separation lemmas for 4096-byte pages.
\<close>

type_synonym mem = "addr \<Rightarrow> u8"

section \<open>Loads and stores\<close>

definition load64 :: "mem \<Rightarrow> addr \<Rightarrow> u64" where
  "load64 m a = le_bytes 8 (\<lambda>i. m (a + of_nat i))"

definition load32 :: "mem \<Rightarrow> addr \<Rightarrow> u32" where
  "load32 m a = le_bytes 4 (\<lambda>i. m (a + of_nat i))"

definition store64 :: "mem \<Rightarrow> addr \<Rightarrow> u64 \<Rightarrow> mem" where
  "store64 m a v = (\<lambda>x. if unat (x - a) < 8 then byte_of v (unat (x - a)) else m x)"

definition store32 :: "mem \<Rightarrow> addr \<Rightarrow> u32 \<Rightarrow> mem" where
  "store32 m a v = (\<lambda>x. if unat (x - a) < 4 then byte_of v (unat (x - a)) else m x)"

lemma load64_store64 [simp]: "load64 (store64 m a v) a = v"
proof -
  have "load64 (store64 m a v) a = le_bytes 8 (byte_of v)"
    unfolding load64_def by (rule le_bytes_cong) (simp add: store64_def unat_of_nat_small)
  then show ?thesis by (simp add: le_bytes_byte_of)
qed

lemma load32_store32 [simp]: "load32 (store32 m a v) a = v"
proof -
  have "load32 (store32 m a v) a = le_bytes 4 (byte_of v)"
    unfolding load32_def by (rule le_bytes_cong) (simp add: store32_def unat_of_nat_small)
  then show ?thesis by (simp add: le_bytes_byte_of)
qed

lemma load64_cong: "(\<And>i. i < 8 \<Longrightarrow> m (a + of_nat i) = m' (a + of_nat i)) \<Longrightarrow> load64 m a = load64 m' a"
  unfolding load64_def by (rule le_bytes_cong)

section \<open>Pages\<close>

definition page_bytes :: "addr \<Rightarrow> addr set" where
  "page_bytes p = {x. unat (x - p) < 4096}"

definition page_aligned :: "addr \<Rightarrow> bool" where
  "page_aligned p \<longleftrightarrow> p mod 4096 = 0"

lemma page_aligned_unat: "page_aligned p \<longleftrightarrow> unat p mod 4096 = 0"
  by (simp add: page_aligned_def word_unat_eq_iff unat_mod)

lemma page_aligned_unatE:
  assumes "page_aligned p"
  obtains k where "unat p = 4096 * k" "k < 2 ^ 52"
proof -
  from assms obtain k where k: "unat p = 4096 * k"
    by (auto simp: page_aligned_unat mod_eq_0_iff_dvd elim: dvdE)
  moreover have "k < 2 ^ 52" using unat_lt64 [of p] k by simp
  ultimately show thesis by (rule that)
qed

lemma page_bytes_iff:
  assumes "page_aligned p"
  shows "x \<in> page_bytes p \<longleftrightarrow> unat x div 4096 = unat p div 4096"
proof
  assume "x \<in> page_bytes p"
  then have lt: "unat (x - p) < 4096" by (simp add: page_bytes_def)
  obtain k where k: "unat p = 4096 * k" "k < 2 ^ 52"
    using assms by (rule page_aligned_unatE)
  have "unat x = (unat (x - p) + unat p) mod 2 ^ 64"
    using unat_word_ariths(1) [of "x - p" p] by simp
  also have "\<dots> = unat (x - p) + 4096 * k"
    using lt k by simp
  finally show "unat x div 4096 = unat p div 4096"
    using lt k by simp
next
  assume eq: "unat x div 4096 = unat p div 4096"
  obtain k where k: "unat p = 4096 * k"
    using assms by (rule page_aligned_unatE)
  from eq k have "unat x div 4096 = k" by simp
  then have "4096 * k \<le> unat x" and lt: "unat x < 4096 * k + 4096" by auto
  then have "p \<le> x" using k by (simp add: word_le_nat_alt)
  then have "unat (x - p) = unat x - unat p" by (simp add: unat_sub)
  with lt k \<open>4096 * k \<le> unat x\<close> show "x \<in> page_bytes p"
    by (simp add: page_bytes_def)
qed

lemma page_bytes_disjoint:
  assumes "page_aligned p" "page_aligned q" "p \<noteq> q"
  shows "page_bytes p \<inter> page_bytes q = {}"
proof -
  have "unat p div 4096 \<noteq> unat q div 4096"
    using assms by (auto simp: page_aligned_unat word_unat_eq_iff)
  then show ?thesis using assms by (auto simp: page_bytes_iff)
qed

definition slot :: "addr \<Rightarrow> nat \<Rightarrow> addr" where
  "slot t i = t + 8 * of_nat i"

lemma slot_byte_in_page:
  assumes "i < 512" "j < 8"
  shows "slot t i + of_nat j \<in> page_bytes t"
proof -
  have "slot t i + of_nat j - t = of_nat (8 * i + j)"
    by (simp add: slot_def)
  moreover have "unat (of_nat (8 * i + j) :: u64) = 8 * i + j"
    using assms by (intro unat_of_nat_small) simp
  ultimately show ?thesis using assms unfolding page_bytes_def mem_Collect_eq
    by (simp only:)
qed

lemma load64_slot_cong:
  assumes "i < 512" "\<And>x. x \<in> page_bytes t \<Longrightarrow> m x = m' x"
  shows "load64 m (slot t i) = load64 m' (slot t i)"
  by (rule load64_cong) (use assms slot_byte_in_page in blast)

lemma store64_slot_bytes:
  assumes "i < 512" "unat (x - slot t i) < 8"
  shows "x \<in> page_bytes t"
proof -
  have "x = slot t i + of_nat (unat (x - slot t i))" by simp
  then show ?thesis using slot_byte_in_page [OF assms] by metis
qed

lemma store64_slot_outside:
  assumes "i < 512" "x \<notin> page_bytes t"
  shows "store64 m (slot t i) v x = m x"
  using assms store64_slot_bytes by (auto simp: store64_def)

lemma load64_store64_other_page:
  assumes "i < 512" "j < 512" "page_aligned t" "page_aligned u" "t \<noteq> u"
  shows "load64 (store64 m (slot t i) v) (slot u j) = load64 m (slot u j)"
proof (rule load64_slot_cong [OF assms(2)])
  fix x assume "x \<in> page_bytes u"
  then have "x \<notin> page_bytes t" using page_bytes_disjoint [of t u] assms by blast
  then show "store64 m (slot t i) v x = m x" by (rule store64_slot_outside [OF assms(1)])
qed

lemma load64_store64_same_page:
  assumes "i < 512" "j < 512" "i \<noteq> j"
  shows "load64 (store64 m (slot t i) v) (slot t j) = load64 m (slot t j)"
proof (rule load64_cong)
  fix k :: nat assume k: "k < 8"
  let ?x = "slot t j + of_nat k"
  have "\<not> unat (?x - slot t i) < 8"
  proof
    define l where "l = unat (?x - slot t i)"
    assume "unat (?x - slot t i) < 8"
    then have l: "l < 8" by (simp add: l_def)
    have "?x = slot t i + of_nat l" by (simp add: l_def)
    then have "of_nat (8 * j + k) = (of_nat (8 * i + l) :: u64)"
      by (simp add: slot_def)
    then have "8 * j + k = 8 * i + l"
      using assms k l by (subst (asm) of_nat_u64_inj) auto
    with k l assms(3) show False by presburger
  qed
  then show "store64 m (slot t i) v ?x = m ?x" by (simp add: store64_def)
qed

lemma load64_store64_slot:
  assumes "i < 512" "j < 512" "page_aligned t" "page_aligned u"
  shows "load64 (store64 m (slot t i) v) (slot u j) =
    (if t = u \<and> i = j then v else load64 m (slot u j))"
  using assms by (cases "t = u") (auto simp: load64_store64_other_page load64_store64_same_page)

end
