(* ===== verification/Riscv.thy ===== *)
theory Riscv
  imports Mem
begin

unbundle bit_operations_syntax

text \<open>
  The constants and macros of \<^verbatim>\<open>kernel/riscv.h\<close>, \<^verbatim>\<open>kernel/memlayout.h\<close> and
  \<^verbatim>\<open>kernel/param.h\<close>: Sv39 page-table entries, page rounding, the interrupt-enable bit and
  the address-space layout, on 64-bit words, with the arithmetic facts the virtual
  memory code relies on.
\<close>

section \<open>Pages and page-table entries\<close>

definition PGSIZE :: u64 where "PGSIZE = 4096"
definition PGSHIFT :: nat where "PGSHIFT = 12"

definition PGROUNDUP :: "u64 \<Rightarrow> u64" where
  "PGROUNDUP sz = (sz + PGSIZE - 1) AND NOT (PGSIZE - 1)"

definition PGROUNDDOWN :: "u64 \<Rightarrow> u64" where
  "PGROUNDDOWN a = a AND NOT (PGSIZE - 1)"

definition PTE_V :: u64 where "PTE_V = push_bit 0 1"
definition PTE_R :: u64 where "PTE_R = push_bit 1 1"
definition PTE_W :: u64 where "PTE_W = push_bit 2 1"
definition PTE_X :: u64 where "PTE_X = push_bit 3 1"
definition PTE_U :: u64 where "PTE_U = push_bit 4 1"
definition PTE_COW :: u64 where "PTE_COW = push_bit 8 1"

definition PA2PTE :: "u64 \<Rightarrow> u64" where "PA2PTE pa = push_bit 10 (drop_bit 12 pa)"
definition PTE2PA :: "u64 \<Rightarrow> u64" where "PTE2PA pte = push_bit 12 (drop_bit 10 pte)"
definition PTE_FLAGS :: "u64 \<Rightarrow> u64" where "PTE_FLAGS pte = pte AND 0x3FF"

definition PXMASK :: u64 where "PXMASK = 0x1FF"
definition PXSHIFT :: "nat \<Rightarrow> nat" where "PXSHIFT level = PGSHIFT + 9 * level"
definition PX :: "nat \<Rightarrow> u64 \<Rightarrow> u64" where "PX level va = drop_bit (PXSHIFT level) va AND PXMASK"

definition MAXVA :: u64 where "MAXVA = push_bit (9 + 9 + 9 + 12 - 1) 1"

definition SATP_SV39 :: u64 where "SATP_SV39 = push_bit 60 8"
definition MAKE_SATP :: "u64 \<Rightarrow> u64" where "MAKE_SATP pagetable = SATP_SV39 OR drop_bit 12 pagetable"

section \<open>The interrupt-enable bit of sstatus\<close>

definition SSTATUS_SPP :: u64 where "SSTATUS_SPP = push_bit 8 1"
definition SSTATUS_SPIE :: u64 where "SSTATUS_SPIE = push_bit 5 1"
definition SSTATUS_SIE :: u64 where "SSTATUS_SIE = push_bit 1 1"

definition intr_on :: "u64 \<Rightarrow> u64" where "intr_on sstatus = sstatus OR SSTATUS_SIE"
definition intr_off :: "u64 \<Rightarrow> u64" where "intr_off sstatus = sstatus AND NOT SSTATUS_SIE"
definition intr_get :: "u64 \<Rightarrow> bool" where "intr_get sstatus \<longleftrightarrow> sstatus AND SSTATUS_SIE \<noteq> 0"

section \<open>Layout and parameters\<close>

definition KERNBASE :: u64 where "KERNBASE = 0x80000000"
definition PHYSTOP :: u64 where "PHYSTOP = KERNBASE + 128 * 1024 * 1024"
definition UART0 :: u64 where "UART0 = 0x10000000"
definition VIRTIO0 :: u64 where "VIRTIO0 = 0x10001000"
definition PLIC :: u64 where "PLIC = 0x0c000000"

definition TRAMPOLINE :: u64 where "TRAMPOLINE = MAXVA - PGSIZE"
definition KSTACK :: "nat \<Rightarrow> u64" where
  "KSTACK p = TRAMPOLINE - (of_nat p + 1) * 2 * PGSIZE"
definition TRAPFRAME :: "nat \<Rightarrow> u64" where
  "TRAPFRAME p = TRAMPOLINE - (of_nat p + 1) * PGSIZE"

definition NPROC :: nat where "NPROC = 64"
definition NCPU :: nat where "NCPU = 8"
definition NOFILE :: nat where "NOFILE = 16"
definition NFILE :: nat where "NFILE = 100"
definition NINODE :: nat where "NINODE = 50"
definition NDEV :: int where "NDEV = 10"
definition ROOTDEV :: u32 where "ROOTDEV = 1"
definition MAXARG :: nat where "MAXARG = 32"
definition MAXOPBLOCKS :: nat where "MAXOPBLOCKS = 10"
definition LOGBLOCKS :: nat where "LOGBLOCKS = MAXOPBLOCKS * 3"
definition NBUF :: nat where "NBUF = MAXOPBLOCKS * 3"
definition FSSIZE :: nat where "FSSIZE = 2000"
definition MAXPATH :: nat where "MAXPATH = 128"
definition USERSTACK :: u64 where "USERSTACK = 1"
definition MAXVMA :: nat where "MAXVMA = 16"
definition NMLFQ :: int where "NMLFQ = 4"
definition MLFQ_BOOST :: u32 where "MLFQ_BOOST = 100"

lemmas pte_defs = PTE_V_def PTE_R_def PTE_W_def PTE_X_def PTE_U_def PTE_COW_def
lemmas layout_defs = PGSIZE_def PGSHIFT_def MAXVA_def TRAMPOLINE_def TRAPFRAME_def KSTACK_def
  KERNBASE_def PHYSTOP_def

section \<open>Rounding\<close>

lemma and_not_mask: "(a :: 'a::len word) AND NOT (mask n) = push_bit n (drop_bit n a)"
  by (rule bit_word_eqI) (auto simp: bit_simps)

lemma unat_drop_bit: "unat (drop_bit n (a :: u64)) = unat a div 2 ^ n"
  by (simp only: unat_drop_bit_eq drop_bit_eq_div [of n "unat a"])

lemma not_bit_of_less: "unat (w :: 'a::len word) < 2 ^ k \<Longrightarrow> k \<le> n \<Longrightarrow> \<not> bit w n"
proof
  assume lt: "unat w < 2 ^ k" and "k \<le> n" and "bit w n"
  then have "bit (unat w) n" by (simp add: bit_unsigned_iff)
  moreover have "unat w < 2 ^ n"
    using lt \<open>k \<le> n\<close> by (meson less_le_trans one_le_numeral power_increasing)
  ultimately show False by (simp add: bit_iff_odd)
qed

lemma unat_PGROUNDDOWN: "unat (PGROUNDDOWN a) = unat a div 4096 * 4096"
proof -
  have m: "PGSIZE - 1 = mask 12" by (simp add: PGSIZE_def mask_eq_exp_minus_1)
  have "unat a div 4096 * 4096 < 2 ^ 64"
    using unat_lt64 [of a] by (meson div_times_less_eq_dividend order_le_less_trans)
  then show ?thesis
    unfolding PGROUNDDOWN_def m and_not_mask
    by (simp add: unsigned_push_bit_eq take_bit_eq_mod unat_drop_bit push_bit_eq_mult [where 'a = nat])
qed

lemma PGROUNDDOWN_aligned [simp]: "page_aligned (PGROUNDDOWN a)"
  by (simp add: page_aligned_unat unat_PGROUNDDOWN)

lemma PGROUNDDOWN_le: "PGROUNDDOWN a \<le> a"
  by (simp add: word_le_nat_alt unat_PGROUNDDOWN)

lemma PGROUNDDOWN_id: "page_aligned a \<Longrightarrow> PGROUNDDOWN a = a"
  by (auto simp: word_unat_eq_iff unat_PGROUNDDOWN page_aligned_unat)

lemma PGROUNDDOWN_offset: "unat (a - PGROUNDDOWN a) = unat a mod 4096"
  by (simp add: unat_sub [OF PGROUNDDOWN_le] unat_PGROUNDDOWN minus_div_mult_eq_mod)

lemma PGROUNDUP_alt: "PGROUNDUP sz = PGROUNDDOWN (sz + 4095)"
  by (simp add: PGROUNDUP_def PGROUNDDOWN_def PGSIZE_def add.commute)

lemma unat_PGROUNDUP:
  assumes "unat sz + 4095 < 2 ^ 64"
  shows "unat (PGROUNDUP sz) = (unat sz + 4095) div 4096 * 4096"
proof -
  have "unat (sz + 4095) = unat sz + 4095"
    using assms by (simp add: unat_word_ariths)
  then show ?thesis by (simp add: PGROUNDUP_alt unat_PGROUNDDOWN)
qed

lemma PGROUNDUP_aligned [simp]: "page_aligned (PGROUNDUP a)"
  by (simp add: PGROUNDUP_alt)

section \<open>Page-table entries\<close>

lemma PTE2PA_PA2PTE:
  assumes "page_aligned pa" "unat pa < 2 ^ 56" "f < 1024"
  shows "PTE2PA (PA2PTE pa OR f) = pa"
proof (rule bit_word_eqI)
  fix n assume "n < LENGTH(64)"
  then have n64: "n < 64" by simp
  have low: "\<not> bit pa n" if "n < 12"
  proof -
    have "take_bit 12 pa = 0"
      using assms(1) by (simp add: page_aligned_def take_bit_eq_mod)
    with that show ?thesis by (metis bit_take_bit_iff bit_0_eq bot_apply bot_bool_def)
  qed
  have high: "\<not> bit pa n" if "56 \<le> n"
    using not_bit_of_less [OF assms(2) that] .
  have "unat f < 2 ^ 10" using assms(3) by (simp add: word_less_nat_alt)
  then have f: "\<not> bit f k" if "10 \<le> k" for k
    using that by (rule not_bit_of_less)
  show "bit (PTE2PA (PA2PTE pa OR f)) n = bit pa n"
    using n64 low high f [of "n - 2"]
    by (cases "n < 12"; cases "56 \<le> n") (auto simp: PTE2PA_def PA2PTE_def bit_simps)
qed

lemma PTE_FLAGS_PA2PTE:
  assumes "f < 1024"
  shows "PTE_FLAGS (PA2PTE pa OR f) = f"
proof (rule bit_word_eqI)
  fix n :: nat assume "n < LENGTH(64)"
  have m: "0x3FF = (mask 10 :: u64)" by (simp add: mask_eq_exp_minus_1)
  have "unat f < 2 ^ 10" using assms by (simp add: word_less_nat_alt)
  then have "bit f n \<Longrightarrow> n < 10" using not_bit_of_less [of f 10 n] by linarith
  then show "bit (PTE_FLAGS (PA2PTE pa OR f)) n = bit f n"
    unfolding PTE_FLAGS_def PA2PTE_def m by (auto simp: bit_simps)
qed

lemma PA2PTE_PTE2PA: "PA2PTE (PTE2PA pte) OR PTE_FLAGS pte = pte" if "unat pte < 2 ^ 54"
proof (rule bit_word_eqI)
  fix n :: nat assume n: "n < LENGTH(64)"
  have m: "0x3FF = (mask 10 :: u64)" by (simp add: mask_eq_exp_minus_1)
  have "bit pte n \<Longrightarrow> n < 54" using not_bit_of_less [OF that] not_le by blast
  with n show "bit (PA2PTE (PTE2PA pte) OR PTE_FLAGS pte) n = bit pte n"
    unfolding PTE_FLAGS_def PA2PTE_def PTE2PA_def m
    by (auto simp: bit_simps)
qed

lemma PTE2PA_aligned [simp]: "page_aligned (PTE2PA pte)"
proof -
  have "PTE2PA pte AND mask 12 = 0"
    by (rule bit_word_eqI) (auto simp: PTE2PA_def bit_simps)
  then show ?thesis
    by (simp add: page_aligned_def take_bit_eq_mod flip: take_bit_eq_mask)
qed

section \<open>Page-table indices\<close>

lemma unat_PX: "unat (PX l va) = unat va div 2 ^ (12 + 9 * l) mod 512"
proof -
  have m: "PXMASK = mask 9" by (simp add: PXMASK_def mask_eq_exp_minus_1)
  show ?thesis
    unfolding PX_def m PXSHIFT_def PGSHIFT_def take_bit_eq_mask [symmetric]
    by (simp add: unsigned_take_bit_eq unat_drop_bit take_bit_eq_mod [where 'a = nat])
qed

lemma PX_less [simp]: "unat (PX l va) < 512"
  by (simp add: unat_PX)

lemma unat_MAXVA: "unat MAXVA = 2 ^ 38"
  by (simp add: MAXVA_def)

lemma va_split:
  assumes "va < MAXVA"
  shows "unat va = unat (PX 2 va) * 2 ^ 30 + unat (PX 1 va) * 2 ^ 21 + unat (PX 0 va) * 2 ^ 12
    + unat va mod 4096"
proof -
  define n where "n = unat va"
  have n: "n < 2 ^ 38" using assms unat_MAXVA by (simp add: word_less_nat_alt n_def)
  have "n = n div 4096 * 4096 + n mod 4096" by simp
  moreover have "n div 4096 = n div 2097152 * 512 + n div 4096 mod 512"
    using div_mult_mod_eq [of "n div 4096" 512] by (simp add: div_mult2_eq [symmetric])
  moreover have "n div 2097152 = n div 1073741824 * 512 + n div 2097152 mod 512"
    using div_mult_mod_eq [of "n div 2097152" 512] by (simp add: div_mult2_eq [symmetric])
  moreover have top: "n div 1073741824 mod 512 = n div 1073741824" using n by simp
  ultimately have "n = n div 1073741824 * 1073741824 + n div 2097152 mod 512 * 2097152 +
    n div 4096 mod 512 * 4096 + n mod 4096" by linarith
  with top show ?thesis unfolding unat_PX n_def [symmetric] by simp
qed

lemma PX_inj:
  assumes "va < MAXVA" "vb < MAXVA" "page_aligned va" "page_aligned vb"
    and "PX 2 va = PX 2 vb" "PX 1 va = PX 1 vb" "PX 0 va = PX 0 vb"
  shows "va = vb"
  using va_split [OF assms(1)] va_split [OF assms(2)] assms(3-)
  by (simp add: word_unat_eq_iff page_aligned_unat)

end
