(* ===== verification/Kstring.thy ===== *)
theory Kstring
  imports Riscv
begin

text \<open>
  \<^verbatim>\<open>kernel/string.c\<close>. The block routines work on physical memory; the string routines read
  a C string through its bytes at offsets 0, 1, 2, \<dots> (a function \<open>nat \<Rightarrow> u8\<close>), so that
  the same definitions serve strings in memory and in kernel buffers.
\<close>

section \<open>Block routines\<close>

primrec memset_loop :: "mem \<Rightarrow> addr \<Rightarrow> u8 \<Rightarrow> nat \<Rightarrow> mem" where
  "memset_loop m dst c 0 = m"
| "memset_loop m dst c (Suc i) = (memset_loop m dst c i)(dst + of_nat i := c)"

definition memset :: "mem \<Rightarrow> addr \<Rightarrow> int \<Rightarrow> u32 \<Rightarrow> mem" where
  "memset m dst c n = memset_loop m dst (word_of_int c) (unat n)"

primrec memcmp_loop :: "mem \<Rightarrow> addr \<Rightarrow> addr \<Rightarrow> nat \<Rightarrow> int" where
  "memcmp_loop m s1 s2 0 = 0"
| "memcmp_loop m s1 s2 (Suc n) =
     (if m s1 \<noteq> m s2 then uint (m s1) - uint (m s2) else memcmp_loop m (s1 + 1) (s2 + 1) n)"

definition memcmp :: "mem \<Rightarrow> addr \<Rightarrow> addr \<Rightarrow> u32 \<Rightarrow> int" where
  "memcmp m v1 v2 n = memcmp_loop m v1 v2 (unat n)"

primrec copy_fwd :: "mem \<Rightarrow> addr \<Rightarrow> addr \<Rightarrow> nat \<Rightarrow> mem" where
  "copy_fwd m d s 0 = m"
| "copy_fwd m d s (Suc n) = copy_fwd (m(d := m s)) (d + 1) (s + 1) n"

primrec copy_bwd :: "mem \<Rightarrow> addr \<Rightarrow> addr \<Rightarrow> nat \<Rightarrow> mem" where
  "copy_bwd m d s 0 = m"
| "copy_bwd m d s (Suc n) = copy_bwd (m(d - 1 := m (s - 1))) (d - 1) (s - 1) n"

definition memmove :: "mem \<Rightarrow> addr \<Rightarrow> addr \<Rightarrow> u32 \<Rightarrow> mem" where
  "memmove m dst src n =
     (if n = 0 then m
      else if src < dst \<and> src + ucast n > dst then copy_bwd m (dst + ucast n) (src + ucast n) (unat n)
      else copy_fwd m dst src (unat n))"

definition memcpy :: "mem \<Rightarrow> addr \<Rightarrow> addr \<Rightarrow> u32 \<Rightarrow> mem" where
  "memcpy m dst src n = memmove m dst src n"

section \<open>String routines\<close>

primrec strncmp :: "(nat \<Rightarrow> u8) \<Rightarrow> (nat \<Rightarrow> u8) \<Rightarrow> nat \<Rightarrow> int" where
  "strncmp p q 0 = 0"
| "strncmp p q (Suc n) =
     (if p 0 \<noteq> 0 \<and> p 0 = q 0 then strncmp (\<lambda>i. p (Suc i)) (\<lambda>i. q (Suc i)) n
      else uint (p 0) - uint (q 0))"

primrec strncpy_pad :: "(nat \<Rightarrow> u8) \<Rightarrow> nat \<Rightarrow> nat \<Rightarrow> (nat \<Rightarrow> u8)" where
  "strncpy_pad s i 0 = s"
| "strncpy_pad s i (Suc n) = strncpy_pad (s(i := 0)) (Suc i) n"

primrec strncpy_copy :: "(nat \<Rightarrow> u8) \<Rightarrow> (nat \<Rightarrow> u8) \<Rightarrow> nat \<Rightarrow> nat \<Rightarrow> (nat \<Rightarrow> u8)" where
  "strncpy_copy s t i 0 = s"
| "strncpy_copy s t i (Suc n) =
     (if t i \<noteq> 0 then strncpy_copy (s(i := t i)) t (Suc i) n
      else strncpy_pad (s(i := t i)) (Suc i) n)"

definition strncpy :: "(nat \<Rightarrow> u8) \<Rightarrow> (nat \<Rightarrow> u8) \<Rightarrow> int \<Rightarrow> (nat \<Rightarrow> u8)" where
  "strncpy s t n = strncpy_copy s t 0 (nat n)"

primrec safestrcpy_copy :: "(nat \<Rightarrow> u8) \<Rightarrow> (nat \<Rightarrow> u8) \<Rightarrow> nat \<Rightarrow> nat \<Rightarrow> (nat \<Rightarrow> u8)" where
  "safestrcpy_copy s t i 0 = s(i := 0)"
| "safestrcpy_copy s t i (Suc n) =
     (if t i \<noteq> 0 then safestrcpy_copy (s(i := t i)) t (Suc i) n
      else s(i := t i, Suc i := 0))"

definition safestrcpy :: "(nat \<Rightarrow> u8) \<Rightarrow> (nat \<Rightarrow> u8) \<Rightarrow> int \<Rightarrow> (nat \<Rightarrow> u8)" where
  "safestrcpy s t n = (if n \<le> 0 then s else safestrcpy_copy s t 0 (nat (n - 1)))"

partial_function (option) strlen_from :: "(nat \<Rightarrow> u8) \<Rightarrow> nat \<Rightarrow> nat option" where
  "strlen_from s n = (if s n = 0 then Some n else strlen_from s (Suc n))"

definition strlen :: "(nat \<Rightarrow> u8) \<Rightarrow> nat option" where
  "strlen s = strlen_from s 0"

section \<open>Correctness of the block routines\<close>

lemma memset_loop_eq:
  "n \<le> 2 ^ 64 \<Longrightarrow> memset_loop m dst c n = (\<lambda>x. if unat (x - dst) < n then c else m x)"
proof (induction n)
  case 0
  then show ?case by simp
next
  case (Suc n)
  have "x = dst + of_nat n \<longleftrightarrow> unat (x - dst) = n" for x
  proof
    assume "unat (x - dst) = n"
    then have "x - dst = of_nat n" by auto
    then show "x = dst + of_nat n" by (simp add: algebra_simps)
  qed (use Suc.prems in \<open>simp add: unat_of_nat_small\<close>)
  with Suc show ?case by (auto simp: less_Suc_eq fun_eq_iff)
qed

lemma memset_eq:
  "memset m dst c n = (\<lambda>x. if unat (x - dst) < unat n then word_of_int c else m x)"
proof -
  have "unat n \<le> 2 ^ 64" using unsigned_less [of n, where 'a = nat] by simp
  then show ?thesis by (simp add: memset_def memset_loop_eq)
qed

lemma memset_page:
  "memset m p c 4096 = (\<lambda>x. if x \<in> page_bytes p then word_of_int c else m x)"
  by (simp add: memset_eq page_bytes_def)

lemma copy_fwd_eq:
  assumes "unat d + n \<le> 2 ^ 64" "unat s + n \<le> 2 ^ 64"
    and "\<not> (s < d \<and> unat d < unat s + n)"
  shows "copy_fwd m d s n = (\<lambda>x. if unat (x - d) < n then m (s + (x - d)) else m x)"
  using assms
proof (induction n arbitrary: m d s)
  case 0
  then show ?case by simp
next
  case (Suc n)
  show ?case
  proof (cases "n = 0")
    case True
    have "unat (x - d) = 0 \<longleftrightarrow> x = d" for x by (metis eq_iff_diff_eq_0 unat_eq_zero)
    then show ?thesis using True by (auto simp: fun_eq_iff)
  next
    case False
    have d1: "unat (d + 1) = unat d + 1" and s1: "unat (s + 1) = unat s + 1"
      using Suc.prems False by (simp_all add: unat_word_ariths)
    have IH: "copy_fwd (m(d := m s)) (d + 1) (s + 1) n =
      (\<lambda>x. if unat (x - (d + 1)) < n then (m(d := m s)) ((s + 1) + (x - (d + 1))) else (m(d := m s)) x)"
      using Suc.prems d1 s1 by (intro Suc.IH) (auto simp: word_less_nat_alt)
    have "copy_fwd m d s (Suc n) x = (if unat (x - d) < Suc n then m (s + (x - d)) else m x)" for x
    proof (cases "x = d")
      case True
      have "unat (- 1 :: u64) = 2 ^ 64 - 1" by (simp add: unsigned_minus_1_eq_mask mask_eq_exp_minus_1)
      then have "\<not> unat (d - (d + 1)) < n" using Suc.prems by simp
      then show ?thesis using True IH by simp
    next
      case ne: False
      then have nz: "x - d \<noteq> 0" by simp
      have "x - (d + 1) = (x - d) - 1" by simp
      then have "unat (x - (d + 1)) = unat (x - d) - 1" using unat_minus_one [OF nz] by metis
      moreover have "0 < unat (x - d)" using nz by (simp add: unat_gt_0)
      ultimately have u: "unat (x - d) = Suc (unat (x - (d + 1)))" by simp
      have same: "(s + 1) + (x - (d + 1)) = s + (x - d)" by simp
      have "s + (x - d) \<noteq> d" if "unat (x - d) < Suc n"
      proof
        assume eq: "s + (x - d) = d"
        have "unat (s + (x - d)) = unat s + unat (x - d)"
          using that Suc.prems by (simp add: unat_word_ariths)
        with eq have "unat d = unat s + unat (x - d)" by metis
        moreover have "0 < unat (x - d)" using u by simp
        ultimately have "s < d \<and> unat d < unat s + Suc n"
          using that by (simp add: word_less_nat_alt)
        with Suc.prems show False by simp
      qed
      then show ?thesis using IH ne u same by auto
    qed
    then show ?thesis by blast
  qed
qed

lemma copy_bwd_eq:
  assumes "unat d + n \<le> 2 ^ 64" "unat s + n \<le> 2 ^ 64" "s < d"
  shows "copy_bwd m (d + of_nat n) (s + of_nat n) n =
    (\<lambda>x. if unat (x - d) < n then m (s + (x - d)) else m x)"
  using assms
proof (induction n arbitrary: m)
  case 0
  then show ?case by simp
next
  case (Suc n)
  have at: "x = d + of_nat n \<longleftrightarrow> unat (x - d) = n" for x
  proof
    assume "unat (x - d) = n"
    then have "x - d = of_nat n" by auto
    then show "x = d + of_nat n" by (simp add: algebra_simps)
  qed (use Suc.prems in \<open>simp add: unat_of_nat_small\<close>)
  have apart: "s + (x - d) \<noteq> d + of_nat n" if "unat (x - d) < n" for x
  proof
    assume "s + (x - d) = d + of_nat n"
    moreover have "unat (s + (x - d)) = unat s + unat (x - d)"
      using that Suc.prems by (simp add: unat_word_ariths)
    moreover have "unat (d + of_nat n) = unat d + n"
      using Suc.prems by (simp add: unat_word_ariths unat_of_nat_small)
    ultimately have "unat s + unat (x - d) = unat d + n" by metis
    with that Suc.prems show False by (simp add: word_less_nat_alt)
  qed
  let ?m = "m(d + of_nat n := m (s + of_nat n))"
  have "copy_bwd m (d + of_nat (Suc n)) (s + of_nat (Suc n)) (Suc n)
      = copy_bwd ?m (d + of_nat n) (s + of_nat n) n"
    by (simp add: algebra_simps)
  also have "\<dots> = (\<lambda>x. if unat (x - d) < n then ?m (s + (x - d)) else ?m x)"
    using Suc.prems by (intro Suc.IH) auto
  also have "\<dots> = (\<lambda>x. if unat (x - d) < Suc n then m (s + (x - d)) else m x)"
    using at apart by (auto simp: fun_eq_iff less_Suc_eq)
  finally show ?case .
qed

lemma memmove_eq:
  assumes "unat dst + unat n \<le> 2 ^ 64" "unat src + unat n \<le> 2 ^ 64"
  shows "memmove m dst src n = (\<lambda>x. if unat (x - dst) < unat n then m (src + (x - dst)) else m x)"
proof (cases "n = 0")
  case True
  then show ?thesis by (simp add: memmove_def)
next
  case False
  show ?thesis
  proof (cases "src < dst \<and> src + ucast n > dst")
    case True
    then show ?thesis using False assms copy_bwd_eq [of dst "unat n" src m]
      by (simp add: memmove_def)
  next
    case fwd: False
    have "\<not> (src < dst \<and> unat dst < unat src + unat n)"
    proof
      assume a: "src < dst \<and> unat dst < unat src + unat n"
      show False
      proof (cases "unat src + unat n < 2 ^ 64")
        case True
        then have "unat (src + ucast n) = unat src + unat n"
          by (simp add: unat_word_ariths unsigned_ucast_eq take_bit_nat_eq_self)
        with a fwd show False by (simp add: word_less_nat_alt)
      next
        case False
        with assms(2) a have "unat src + unat n = 2 ^ 64" by simp
        with a assms(1) show False by (simp add: word_less_nat_alt)
      qed
    qed
    then show ?thesis using False fwd assms copy_fwd_eq [of dst "unat n" src m]
      by (auto simp: memmove_def)
  qed
qed

section \<open>Correctness of the string routines\<close>

text \<open>The C string of at most \<open>n\<close> bytes that starts at offset 0.\<close>

definition cstr :: "nat \<Rightarrow> (nat \<Rightarrow> u8) \<Rightarrow> u8 list" where
  "cstr n p = takeWhile (\<lambda>c. c \<noteq> 0) (map p [0..<n])"

lemma cstr_0 [simp]: "cstr 0 p = []"
  by (simp add: cstr_def)

lemma cstr_Suc [simp]: "cstr (Suc n) p = (if p 0 = 0 then [] else p 0 # cstr n (\<lambda>i. p (Suc i)))"
proof -
  have "map p [0..<Suc n] = p 0 # map (\<lambda>i. p (Suc i)) [0..<n]"
    by (simp add: upt_conv_Cons map_Suc_upt [symmetric] del: upt_Suc)
  then show ?thesis unfolding cstr_def by (simp only: takeWhile.simps) auto
qed

lemma strncmp_0_iff: "strncmp p q n = 0 \<longleftrightarrow> cstr n p = cstr n q"
  by (induction n arbitrary: p q) (auto simp: word_uint_eq_iff)

lemma strncpy_pad_eq: "strncpy_pad s i n = (\<lambda>j. if i \<le> j \<and> j < i + n then 0 else s j)"
  by (induction n arbitrary: s i) (auto simp: fun_eq_iff)

lemma strncpy_copy_eq:
  "strncpy_copy s t i n =
     (\<lambda>j. if i \<le> j \<and> j < i + n then (if \<exists>k. i \<le> k \<and> k \<le> j \<and> t k = 0 then 0 else t j) else s j)"
proof (induction n arbitrary: s i)
  case 0
  then show ?case by (intro ext) auto
next
  case (Suc n)
  show ?case
  proof (cases "t i = 0")
    case True
    then show ?thesis by (auto simp: strncpy_pad_eq fun_eq_iff)
  next
    case False
    have "(\<exists>k. i \<le> k \<and> k \<le> j \<and> t k = 0) \<longleftrightarrow> (\<exists>k. Suc i \<le> k \<and> k \<le> j \<and> t k = 0)" for j
      using False by (metis Suc_leD le_antisym not_less_eq_eq)
    then show ?thesis using False by (intro ext) (auto simp: Suc.IH)
  qed
qed

lemma cstr_strncpy_copy:
  "cstr n (strncpy s t (int n)) = cstr n t"
proof -
  have "cstr n (\<lambda>j. if j < n then (if \<exists>k\<le>j. t k = 0 then 0 else t j) else s j) = cstr n t"
  proof (induction n arbitrary: t s)
    case (Suc n)
    show ?case
    proof (cases "t 0 = 0")
      case False
      have ex: "(\<exists>k\<le>Suc j. t k = 0) = (\<exists>k\<le>j. t (Suc k) = 0)" for j
        using False by (metis Suc_le_mono not0_implies_Suc)
      show ?thesis using False Suc.IH [of "\<lambda>i. t (Suc i)" "\<lambda>i. s (Suc i)"]
        by (simp only: cstr_Suc ex) simp
    qed auto
  qed simp
  then show ?thesis by (simp add: strncpy_def strncpy_copy_eq cong: if_cong)
qed

lemma safestrcpy_copy_outside: "j < i \<or> i + n < j \<Longrightarrow> safestrcpy_copy s t i n j = s j"
  by (induction n arbitrary: s i) auto

lemma cstr_safestrcpy_copy:
  "cstr (Suc n) (\<lambda>j. safestrcpy_copy s t i n (i + j)) = cstr n (\<lambda>j. t (i + j))"
proof (induction n arbitrary: s i)
  case (Suc n)
  define r where "r = safestrcpy_copy (s(i := t i)) t (Suc i) n"
  have "r i = t i" by (simp add: r_def safestrcpy_copy_outside)
  moreover have "cstr (Suc n) (\<lambda>j. r (Suc (i + j))) = cstr n (\<lambda>j. t (Suc (i + j)))"
    unfolding r_def using Suc.IH [of "s(i := t i)" "Suc i"] by (simp only: add_Suc)
  ultimately show ?case
    by (simp add: r_def [symmetric] cstr_Suc [of "Suc n"] del: cstr_Suc) (simp add: cstr_Suc)
qed simp

lemma strlen_from_Some:
  "(\<And>j. i \<le> j \<Longrightarrow> j < k \<Longrightarrow> s j \<noteq> 0) \<Longrightarrow> i \<le> k \<Longrightarrow> s k = 0 \<Longrightarrow> strlen_from s i = Some k"
proof (induction "k - i" arbitrary: i)
  case 0
  then show ?case by (subst strlen_from.simps) simp
next
  case (Suc n)
  then have "s i \<noteq> 0" "i < k" by auto
  moreover have "strlen_from s (Suc i) = Some k"
    using Suc by (intro Suc.hyps) auto
  ultimately show ?case by (subst strlen_from.simps) simp
qed

end
