(* ===== verification/Spinlock.thy ===== *)
theory Spinlock
  imports Riscv
begin

unbundle bit_operations_syntax

text \<open>
  \<^verbatim>\<open>kernel/spinlock.c\<close> at two levels. The lower level has every hart with its interrupt
  nesting depth and its \<^verbatim>\<open>sstatus\<close>, and the memory words of the locks; on it the
  interleaved executions of all harts are a step relation. The upper level is the view one
  hart has of its own critical sections, the set of locks it holds, which the other
  components use. The locale \<open>spin_api\<close> is the contract between the two.
\<close>

section \<open>Locks of the kernel\<close>

datatype lock =
    KmemLock | PidLock | WaitLock | ProcLock nat | TicksLock | FutexLock
  | FtableLock | ItableLock | BcacheLock | LogLock | PipeLock addr | ConsLock
  | BufSleep nat | InodeSleep nat | VdiskLock | TxLock | PrLock

record spinlock =
  locked :: u32
  lcpu :: "nat option"

record cpu =
  noff :: int
  intena :: bool

record harts =
  locks :: "lock \<Rightarrow> spinlock"
  cpus :: "nat \<Rightarrow> cpu"
  sstatus :: "nat \<Rightarrow> u64"

section \<open>The routines on one hart\<close>

definition initlock_hw :: "lock \<Rightarrow> harts \<Rightarrow> harts" where
  "initlock_hw lk s = s\<lparr>locks := (locks s)(lk := \<lparr>locked = 0, lcpu = None\<rparr>)\<rparr>"

definition holding_hw :: "nat \<Rightarrow> lock \<Rightarrow> harts \<Rightarrow> bool" where
  "holding_hw c lk s \<longleftrightarrow> locked (locks s lk) \<noteq> 0 \<and> lcpu (locks s lk) = Some c"

definition push_off :: "nat \<Rightarrow> harts \<Rightarrow> harts" where
  "push_off c s =
     (let old = intr_get (sstatus s c);
          s1 = s\<lparr>sstatus := (sstatus s)(c := intr_off (sstatus s c))\<rparr>;
          s2 = (if noff (cpus s1 c) = 0
                then s1\<lparr>cpus := (cpus s1)(c := (cpus s1 c)\<lparr>intena := old\<rparr>)\<rparr> else s1)
      in s2\<lparr>cpus := (cpus s2)(c := (cpus s2 c)\<lparr>noff := noff (cpus s2 c) + 1\<rparr>)\<rparr>)"

definition pop_off :: "nat \<Rightarrow> harts \<Rightarrow> (harts, unit) out" where
  "pop_off c s =
     (if intr_get (sstatus s c) then Panic ''pop_off - interruptible''
      else if noff (cpus s c) < 1 then Panic ''pop_off''
      else
        let s1 = s\<lparr>cpus := (cpus s)(c := (cpus s c)\<lparr>noff := noff (cpus s c) - 1\<rparr>)\<rparr>
        in if noff (cpus s1 c) = 0 \<and> intena (cpus s1 c)
           then Ok () (s1\<lparr>sstatus := (sstatus s1)(c := intr_on (sstatus s1 c))\<rparr>)
           else Ok () s1)"

text \<open>
  \<^verbatim>\<open>acquire\<close> in three pieces: up to the spin loop, one atomic test-and-set (its result is the
  old value of the word), and the record of the owner after the loop. \<open>acquire_hw\<close> is the
  whole routine when no other hart runs: a lock that another hart holds is never
  released, so the loop does not end.
\<close>

definition acquire_enter :: "nat \<Rightarrow> lock \<Rightarrow> harts \<Rightarrow> (harts, unit) out" where
  "acquire_enter c lk s =
     (let s1 = push_off c s
      in if holding_hw c lk s1 then Panic ''acquire'' else Ok () s1)"

definition test_and_set :: "lock \<Rightarrow> harts \<Rightarrow> u32 \<times> harts" where
  "test_and_set lk s =
     (locked (locks s lk), s\<lparr>locks := (locks s)(lk := (locks s lk)\<lparr>locked := 1\<rparr>)\<rparr>)"

definition acquire_done :: "nat \<Rightarrow> lock \<Rightarrow> harts \<Rightarrow> harts" where
  "acquire_done c lk s = s\<lparr>locks := (locks s)(lk := (locks s lk)\<lparr>lcpu := Some c\<rparr>)\<rparr>"

definition acquire_hw :: "nat \<Rightarrow> lock \<Rightarrow> harts \<Rightarrow> (harts, unit) out" where
  "acquire_hw c lk s =
     bnd (acquire_enter c lk s) (\<lambda>_ s.
     let (old, s) = test_and_set lk s
     in if old \<noteq> 0 then Diverge else Ok () (acquire_done c lk s))"

definition release_enter :: "nat \<Rightarrow> lock \<Rightarrow> harts \<Rightarrow> (harts, unit) out" where
  "release_enter c lk s =
     (if \<not> holding_hw c lk s then Panic ''release''
      else Ok () (s\<lparr>locks := (locks s)(lk := (locks s lk)\<lparr>lcpu := None\<rparr>)\<rparr>))"

definition release_done :: "nat \<Rightarrow> lock \<Rightarrow> harts \<Rightarrow> (harts, unit) out" where
  "release_done c lk s =
     pop_off c (s\<lparr>locks := (locks s)(lk := (locks s lk)\<lparr>locked := 0\<rparr>)\<rparr>)"

definition release_hw :: "nat \<Rightarrow> lock \<Rightarrow> harts \<Rightarrow> (harts, unit) out" where
  "release_hw c lk s = bnd (release_enter c lk s) (\<lambda>_ s. release_done c lk s)"

section \<open>All harts together\<close>

text \<open>
  Where a hart stands in the routines: outside, in the spin loop of \<^verbatim>\<open>acquire\<close>, past the
  loop but before the owner is recorded, or in \<^verbatim>\<open>release\<close> after the owner is cleared and
  before the word is.
\<close>

datatype lpc = Out | Spin lock | Got lock | Rel lock

record sys = harts +
  pc :: "nat \<Rightarrow> lpc"

definition init_sys :: "(nat \<Rightarrow> u64) \<Rightarrow> sys" where
  "init_sys ss = \<lparr>locks = (\<lambda>_. \<lparr>locked = 0, lcpu = None\<rparr>),
     cpus = (\<lambda>_. \<lparr>noff = 0, intena = False\<rparr>), sstatus = ss, pc = (\<lambda>_. Out)\<rparr>"

definition with_pc :: "sys \<Rightarrow> harts \<Rightarrow> nat \<Rightarrow> lpc \<Rightarrow> sys" where
  "with_pc s h c p = \<lparr>locks = locks h, cpus = cpus h, sstatus = sstatus h, pc = (pc s)(c := p)\<rparr>"

definition hw :: "sys \<Rightarrow> harts" where
  "hw s = harts.truncate s"

inductive lstep :: "sys \<Rightarrow> sys \<Rightarrow> bool" where
  enter: "pc s c = Out \<Longrightarrow> acquire_enter c lk (hw s) = Ok () h \<Longrightarrow> lstep s (with_pc s h c (Spin lk))"
| busy: "pc s c = Spin lk \<Longrightarrow> test_and_set lk (hw s) = (old, h) \<Longrightarrow> old \<noteq> 0 \<Longrightarrow>
     lstep s (with_pc s h c (Spin lk))"
| got: "pc s c = Spin lk \<Longrightarrow> test_and_set lk (hw s) = (0, h) \<Longrightarrow> lstep s (with_pc s h c (Got lk))"
| recorded: "pc s c = Got lk \<Longrightarrow> lstep s (with_pc s (acquire_done c lk (hw s)) c Out)"
| rel: "pc s c = Out \<Longrightarrow> release_enter c lk (hw s) = Ok () h \<Longrightarrow> lstep s (with_pc s h c (Rel lk))"
| freed: "pc s c = Rel lk \<Longrightarrow> release_done c lk (hw s) = Ok () h \<Longrightarrow> lstep s (with_pc s h c Out)"
| intr: "pc s c = Out \<Longrightarrow> noff (cpus s c) = 0 \<Longrightarrow> lstep s (s\<lparr>sstatus := (sstatus s)(c := x)\<rparr>)"

inductive lreach :: "(nat \<Rightarrow> u64) \<Rightarrow> sys \<Rightarrow> bool" for ss where
  start: "lreach ss (init_sys ss)"
| step: "lreach ss s \<Longrightarrow> lstep s t \<Longrightarrow> lreach ss t"

text \<open>Hart \<open>c\<close> is inside the critical section of \<open>lk\<close>: from the successful test-and-set to the store that frees the word.\<close>

definition owns :: "sys \<Rightarrow> nat \<Rightarrow> lock \<Rightarrow> bool" where
  "owns s c lk \<longleftrightarrow> pc s c = Got lk \<or> lcpu (locks s lk) = Some c \<or> pc s c = Rel lk"

section \<open>Interrupt nesting\<close>

lemma intr_get_bit: "intr_get x \<longleftrightarrow> bit x 1"
  unfolding intr_get_def SSTATUS_SIE_def by (rule bit_iff_and_push_bit_not_eq_0 [symmetric])

lemma intr_get_on [simp]: "intr_get (intr_on x)"
  by (simp add: intr_get_bit intr_on_def SSTATUS_SIE_def bit_simps)

lemma intr_get_off [simp]: "\<not> intr_get (intr_off x)"
  by (simp add: intr_get_bit intr_off_def SSTATUS_SIE_def bit_simps)

lemma push_off_simps [simp]:
  "locks (push_off c s) = locks s"
  "noff (cpus (push_off c s) c) = noff (cpus s c) + 1"
  "d \<noteq> c \<Longrightarrow> cpus (push_off c s) d = cpus s d"
  "d \<noteq> c \<Longrightarrow> sstatus (push_off c s) d = sstatus s d"
  "\<not> intr_get (sstatus (push_off c s) c)"
  by (simp_all add: push_off_def Let_def)

lemma pop_off_Ok:
  assumes "pop_off c s = Ok u t"
  shows "locks t = locks s" "noff (cpus t c) = noff (cpus s c) - 1"
    "\<And>d. d \<noteq> c \<Longrightarrow> cpus t d = cpus s d" "\<And>d. d \<noteq> c \<Longrightarrow> sstatus t d = sstatus s d"
    "0 < noff (cpus t c) \<Longrightarrow> \<not> intr_get (sstatus t c)" "1 \<le> noff (cpus s c)"
  using assms by (auto simp: pop_off_def Let_def split: if_splits)

lemma pop_off_succeeds:
  assumes "\<not> intr_get (sstatus s c)" "1 \<le> noff (cpus s c)"
  shows "\<exists>t. pop_off c s = Ok () t"
  using assms by (auto simp: pop_off_def Let_def)

lemma push_off_pop_off:
  assumes "0 \<le> noff (cpus s c)" "0 < noff (cpus s c) \<Longrightarrow> \<not> intr_get (sstatus s c)"
  shows "\<exists>t. pop_off c (push_off c s) = Ok () t \<and> noff (cpus t c) = noff (cpus s c)
    \<and> intr_get (sstatus t c) = intr_get (sstatus s c) \<and> locks t = locks s"
  using assms by (auto simp: pop_off_def push_off_def Let_def)

section \<open>Mutual exclusion\<close>

lemma hw_simps [simp]: "locks (hw s) = locks s" "cpus (hw s) = cpus s" "sstatus (hw s) = sstatus s"
  by (simp_all add: hw_def harts.truncate_def)

lemma with_pc_simps [simp]:
  "locks (with_pc s h c p) = locks h" "cpus (with_pc s h c p) = cpus h"
  "sstatus (with_pc s h c p) = sstatus h" "pc (with_pc s h c p) = (pc s)(c := p)"
  by (simp_all add: with_pc_def)

definition owned :: "sys \<Rightarrow> nat \<Rightarrow> lock set" where
  "owned s c = {lk. owns s c lk}"

definition spinning :: "sys \<Rightarrow> nat \<Rightarrow> int" where
  "spinning s c = (case pc s c of Spin _ \<Rightarrow> 1 | _ \<Rightarrow> 0)"

definition linv :: "sys \<Rightarrow> bool" where
  "linv s \<longleftrightarrow>
     (\<forall>lk. locked (locks s lk) = 0 \<longrightarrow> (\<forall>c. \<not> owns s c lk)) \<and>
     (\<forall>lk c d. owns s c lk \<longrightarrow> owns s d lk \<longrightarrow> c = d) \<and>
     (\<forall>lk c. pc s c = Rel lk \<longrightarrow> lcpu (locks s lk) = None) \<and>
     (\<forall>c. finite (owned s c) \<and> noff (cpus s c) = int (card (owned s c)) + spinning s c) \<and>
     (\<forall>c. 0 < noff (cpus s c) \<longrightarrow> \<not> intr_get (sstatus s c))"

lemma linvD:
  assumes "linv s"
  shows "locked (locks s lk) = 0 \<Longrightarrow> \<not> owns s c lk"
    "owns s c lk \<Longrightarrow> owns s d lk \<Longrightarrow> c = d"
    "pc s c = Rel lk \<Longrightarrow> lcpu (locks s lk) = None"
    "finite (owned s c)" "noff (cpus s c) = int (card (owned s c)) + spinning s c"
    "0 < noff (cpus s c) \<Longrightarrow> \<not> intr_get (sstatus s c)"
  using assms by (auto simp: linv_def)

lemma linv_init: "linv (init_sys ss)"
  by (simp add: linv_def init_sys_def owns_def owned_def spinning_def)

lemma linv_frame:
  assumes inv: "linv s"
    and owns: "\<And>d lk. owns t d lk = owns s d lk"
    and locked: "\<And>lk. locked (locks s lk) \<noteq> 0 \<Longrightarrow> locked (locks t lk) \<noteq> 0"
    and rel: "\<And>lk d. pc t d = Rel lk \<Longrightarrow> lcpu (locks t lk) = None"
    and noff: "\<And>d. noff (cpus t d) - spinning t d = noff (cpus s d) - spinning s d"
    and intr: "\<And>d. 0 < noff (cpus t d) \<Longrightarrow> \<not> intr_get (sstatus t d)"
  shows "linv t"
proof -
  have "owned t d = owned s d" for d by (simp add: owned_def owns)
  moreover have "noff (cpus t d) = int (card (owned s d)) + spinning t d" for d
    using linvD(5) [OF inv, of d] noff [of d] by simp
  moreover have "\<not> owns t c lk" if "locked (locks t lk) = 0" for c lk
    using that linvD(1) [OF inv] locked owns by metis
  ultimately show ?thesis
    using linvD(2,4) [OF inv] rel intr owns unfolding linv_def by metis
qed

lemma linv_enter:
  assumes "linv s" "pc s c = Out" "acquire_enter c lk (hw s) = Ok () h"
  shows "linv (with_pc s h c (Spin lk))"
proof -
  have h: "h = push_off c (hw s)"
    using assms(3) by (auto simp: acquire_enter_def Let_def split: if_splits)
  show ?thesis
  proof (rule linv_frame [OF assms(1)])
    fix d
    show "noff (cpus (with_pc s h c (Spin lk)) d) - spinning (with_pc s h c (Spin lk)) d =
      noff (cpus s d) - spinning s d"
      using assms(2) by (cases "d = c") (simp_all add: h spinning_def)
    show "0 < noff (cpus (with_pc s h c (Spin lk)) d) \<Longrightarrow>
        \<not> intr_get (sstatus (with_pc s h c (Spin lk)) d)"
      using linvD(6) [OF assms(1)] by (cases "d = c") (simp_all add: h)
  qed (use assms(2) linvD(3) [OF assms(1)] in \<open>auto simp: owns_def h split: if_splits\<close>)
qed

lemma linv_busy:
  assumes "linv s" "pc s c = Spin lk" "test_and_set lk (hw s) = (old, h)" "old \<noteq> 0"
  shows "linv (with_pc s h c (Spin lk))"
proof -
  have h: "h = (hw s)\<lparr>locks := (locks s)(lk := (locks s lk)\<lparr>locked := 1\<rparr>)\<rparr>"
    using assms(3) by (auto simp: test_and_set_def)
  show ?thesis
    by (rule linv_frame [OF assms(1)])
      (use assms(2,4) linvD(3,6) [OF assms(1)] in
        \<open>auto simp: owns_def h spinning_def split: if_splits\<close>)
qed

lemma linv_got:
  assumes inv: "linv s" and pc: "pc s c = Spin lk" and tas: "test_and_set lk (hw s) = (0, h)"
  shows "linv (with_pc s h c (Got lk))"
proof -
  let ?t = "with_pc s h c (Got lk)"
  have free: "locked (locks s lk) = 0" and
    h: "h = (hw s)\<lparr>locks := (locks s)(lk := (locks s lk)\<lparr>locked := 1\<rparr>)\<rparr>"
    using tas by (auto simp: test_and_set_def)
  note none = linvD(1) [OF inv free]
  have owns: "owns ?t d l \<longleftrightarrow> owns s d l \<or> d = c \<and> l = lk" for d l
    using pc by (auto simp: owns_def h split: if_splits)
  have oc: "owned ?t c = insert lk (owned s c)" and
    od: "d \<noteq> c \<Longrightarrow> owned ?t d = owned s d" for d
    by (auto simp: owned_def owns)
  have "lk \<notin> owned s c" using none by (simp add: owned_def)
  then have noff: "finite (owned ?t d) \<and> noff (cpus ?t d) = int (card (owned ?t d)) + spinning ?t d" for d
    using linvD(4,5) [OF inv, of d] pc oc od
    by (cases "d = c") (simp_all add: h spinning_def)
  have "locked (locks ?t l) = (if l = lk then 1 else locked (locks s l))" for l
    by (simp add: h)
  then have "locked (locks ?t l) = 0 \<longrightarrow> \<not> owns ?t d l" for l d
    using linvD(1) [OF inv, of l d] by (auto simp: owns)
  moreover have "owns ?t d l \<longrightarrow> owns ?t e l \<longrightarrow> d = e" for l d e
    using linvD(2) [OF inv] none by (auto simp: owns)
  moreover have "pc ?t d = Rel l \<longrightarrow> lcpu (locks ?t l) = None" for d l
    using linvD(3) [OF inv, of d l] by (auto simp: h)
  moreover have "0 < noff (cpus ?t d) \<longrightarrow> \<not> intr_get (sstatus ?t d)" for d
    using linvD(6) [OF inv, of d] by (simp add: h)
  ultimately show ?thesis using noff unfolding linv_def by blast
qed

lemma linv_recorded:
  assumes inv: "linv s" and pc: "pc s c = Got lk"
  shows "linv (with_pc s (acquire_done c lk (hw s)) c Out)"
proof -
  let ?t = "with_pc s (acquire_done c lk (hw s)) c Out"
  have c: "owns s c lk" using pc by (simp add: owns_def)
  have owns: "owns ?t d l = owns s d l" for d l
  proof (cases "d = c")
    case True
    then show ?thesis using pc by (auto simp: owns_def acquire_done_def)
  next
    case False
    then have "lcpu (locks s lk) \<noteq> Some d"
      using linvD(2) [OF inv c, of d] by (auto simp: owns_def)
    with False show ?thesis by (auto simp: owns_def acquire_done_def)
  qed
  have "lcpu (locks ?t l) = None" if "pc ?t d = Rel l" for d l
  proof (cases "l = lk")
    case True
    with that have "pc s d = Rel lk" "d \<noteq> c" by (auto split: if_splits)
    then have "owns s d lk" by (simp add: owns_def)
    with linvD(2) [OF inv c] \<open>d \<noteq> c\<close> show ?thesis by blast
  next
    case False
    with that show ?thesis using linvD(3) [OF inv] by (auto simp: acquire_done_def split: if_splits)
  qed
  then show ?thesis
    by (intro linv_frame [OF inv] owns)
      (use pc linvD(6) [OF inv] in \<open>auto simp: acquire_done_def spinning_def\<close>)
qed

lemma linv_rel:
  assumes inv: "linv s" and pc: "pc s c = Out" and "release_enter c lk (hw s) = Ok () h"
  shows "linv (with_pc s h c (Rel lk))"
proof -
  have own: "lcpu (locks s lk) = Some c" and
    h: "h = (hw s)\<lparr>locks := (locks s)(lk := (locks s lk)\<lparr>lcpu := None\<rparr>)\<rparr>"
    using assms(3) by (auto simp: release_enter_def holding_hw_def split: if_splits)
  then have c: "owns s c lk" by (simp add: owns_def)
  show ?thesis
    by (rule linv_frame [OF inv])
      (use pc own linvD(3,6) [OF inv] in \<open>auto simp: owns_def h spinning_def split: if_splits\<close>)
qed

lemma linv_freed:
  assumes inv: "linv s" and pc: "pc s c = Rel lk" and rd: "release_done c lk (hw s) = Ok () h"
  shows "linv (with_pc s h c Out)"
proof -
  let ?t = "with_pc s h c Out"
  let ?s = "(hw s)\<lparr>locks := (locks s)(lk := (locks s lk)\<lparr>locked := 0\<rparr>)\<rparr>"
  have po: "pop_off c ?s = Ok () h" using rd by (simp add: release_done_def)
  note pop = pop_off_Ok [OF po]
  have c: "owns s c lk" using pc by (simp add: owns_def)
  have cpu: "lcpu (locks s lk) = None" by (rule linvD(3) [OF inv pc])
  have owns: "owns ?t d l \<longleftrightarrow> owns s d l \<and> l \<noteq> lk" for d l
  proof (cases "d = c")
    case True
    then show ?thesis using pc cpu by (auto simp: owns_def pop)
  next
    case False
    then have "\<not> owns s d lk" using linvD(2) [OF inv c, of d] by blast
    with False show ?thesis by (auto simp: owns_def pop)
  qed
  have oc: "owned ?t c = owned s c - {lk}"
    by (auto simp: owned_def owns)
  have od: "d \<noteq> c \<Longrightarrow> owned ?t d = owned s d" for d
    using linvD(2) [OF inv c, of d] unfolding owned_def owns by blast
  have mem: "lk \<in> owned s c" using c by (simp add: owned_def)
  have "card (owned s c) = Suc (card (owned ?t c))"
    unfolding oc using linvD(4) [OF inv] mem by (rule card.remove)
  then have noff: "finite (owned ?t d) \<and> noff (cpus ?t d) = int (card (owned ?t d)) + spinning ?t d" for d
    using linvD(4,5) [OF inv, of d] pc oc od [of d] pop(2) pop(3) [of d]
    by (cases "d = c") (simp_all add: spinning_def)
  have "l \<noteq> lk \<Longrightarrow> locked (locks ?t l) = locked (locks s l)" for l
    by (simp add: pop)
  then have "locked (locks ?t l) = 0 \<longrightarrow> \<not> owns ?t d l" for l d
    using linvD(1) [OF inv, of l d] owns by metis
  moreover have "owns ?t d l \<longrightarrow> owns ?t e l \<longrightarrow> d = e" for l d e
    using linvD(2) [OF inv] by (auto simp: owns)
  moreover have "pc ?t d = Rel l \<longrightarrow> lcpu (locks ?t l) = None" for d l
    using linvD(3) [OF inv, of d l] by (auto simp: pop)
  moreover have "0 < noff (cpus ?t d) \<longrightarrow> \<not> intr_get (sstatus ?t d)" for d
    using linvD(6) [OF inv, of d] pop(3,4) [of d] pop(5) by (cases "d = c") auto
  ultimately show ?thesis using noff unfolding linv_def by blast
qed

lemma linv_step: "lstep s t \<Longrightarrow> linv s \<Longrightarrow> linv t"
proof (induction rule: lstep.induct)
  case (intr s c x)
  show ?case
    by (rule linv_frame [OF intr.prems])
      (use intr linvD(3,6) [OF intr.prems] in \<open>auto simp: owns_def spinning_def\<close>)
qed (blast intro: linv_enter linv_busy linv_got linv_recorded linv_rel linv_freed)+

lemma linv_reach: "lreach ss s \<Longrightarrow> linv s"
  by (induction rule: lreach.induct) (auto intro: linv_init linv_step)

text \<open>
  (C5) Mutual exclusion and interrupt discipline of the spin locks, in every state that
  any interleaving of the harts can reach: at most one hart is inside the critical section
  of a lock, a lock some hart is inside has a non-zero word, and a hart inside any critical
  section has its interrupts off.
\<close>

theorem spinlock_mutual_exclusion:
  assumes "lreach ss s" "owns s c lk"
  shows "(\<forall>d. owns s d lk \<longrightarrow> d = c) \<and> locked (locks s lk) \<noteq> 0 \<and> \<not> intr_get (sstatus s c)"
proof -
  have inv: "linv s" using assms(1) by (rule linv_reach)
  have "lk \<in> owned s c" using assms(2) by (simp add: owned_def)
  then have "0 < card (owned s c)" using linvD(4) [OF inv] by (auto simp: card_gt_0_iff)
  then have "0 < noff (cpus s c)"
    using linvD(5) [OF inv, of c] by (auto simp: spinning_def split: lpc.splits)
  then show ?thesis using linvD(1,2,6) [OF inv] assms(2) by blast
qed

lemma lock_demo: "\<exists>s. lreach (\<lambda>_. 2) s \<and> owns s 0 KmemLock"
proof -
  define s1 where
    "s1 = with_pc (init_sys (\<lambda>_. 2)) (push_off 0 (hw (init_sys (\<lambda>_. 2)))) 0 (Spin KmemLock)"
  have "acquire_enter 0 KmemLock (hw (init_sys (\<lambda>_. 2))) = Ok () (push_off 0 (hw (init_sys (\<lambda>_. 2))))"
    by (simp add: acquire_enter_def holding_hw_def init_sys_def)
  then have 1: "lreach (\<lambda>_. 2) s1"
    unfolding s1_def by (intro lreach.step [OF lreach.start] lstep.enter) (simp_all add: init_sys_def)
  obtain h where h: "test_and_set KmemLock (hw s1) = (0, h)"
    by (simp add: test_and_set_def s1_def init_sys_def)
  have "lreach (\<lambda>_. 2) (with_pc s1 h 0 (Got KmemLock))"
    by (rule lreach.step [OF 1 lstep.got [OF _ h]]) (simp add: s1_def)
  then show ?thesis by (rule_tac x = "with_pc s1 h 0 (Got KmemLock)" in exI) (simp add: owns_def)
qed

theorem spinlock_mutual_exclusion_witness:
  "\<exists>s. lreach (\<lambda>_. 2) s \<and> owns s 0 KmemLock \<and> locked (locks s KmemLock) \<noteq> 0
     \<and> \<not> intr_get (sstatus s 0)"
  using lock_demo spinlock_mutual_exclusion by blast

section \<open>The contract of the lock routines\<close>

locale spin_api =
  fixes acq :: "lock \<Rightarrow> 's \<Rightarrow> ('s, unit) out"
    and rel :: "lock \<Rightarrow> 's \<Rightarrow> ('s, unit) out"
    and hld :: "'s \<Rightarrow> lock set"
    and inv :: "'s \<Rightarrow> bool"
  assumes acq_held: "inv s \<Longrightarrow> lk \<in> hld s \<Longrightarrow> acq lk s = Panic ''acquire''"
    and acq_ok: "inv s \<Longrightarrow> acq lk s = Ok u t \<Longrightarrow> hld t = insert lk (hld s) \<and> lk \<notin> hld s \<and> inv t"
    and rel_free: "inv s \<Longrightarrow> lk \<notin> hld s \<Longrightarrow> rel lk s = Panic ''release''"
    and rel_ok: "inv s \<Longrightarrow> lk \<in> hld s \<Longrightarrow> \<exists>t. rel lk s = Ok () t \<and> hld t = hld s - {lk} \<and> inv t"
begin

lemma reentry: "inv s \<Longrightarrow> acq lk s = Ok u t \<Longrightarrow> acq lk t = Panic ''acquire''"
  using acq_ok acq_held by blast

lemma bracket:
  assumes "inv s" "acq lk s = Ok u t"
  shows "\<exists>r. rel lk t = Ok () r \<and> hld r = hld s \<and> inv r"
  using acq_ok [OF assms] rel_ok [of t lk] by auto

lemma double_release:
  assumes "inv s" "rel lk s = Ok u t"
  shows "rel lk t = Panic ''release''"
proof -
  have "lk \<in> hld s" using assms rel_free by (metis out.distinct(1))
  then show ?thesis using assms rel_ok [OF assms(1)] rel_free by fastforce
qed

lemma nested:
  assumes "inv s" "acq a s = Ok u t" "acq b t = Ok v r"
  shows "\<exists>w x. rel a r = Ok () w \<and> rel b w = Ok () x \<and> hld x = hld s \<and> inv x"
proof -
  have t: "hld t = insert a (hld s)" "a \<notin> hld s" "inv t" using acq_ok [OF assms(1,2)] by auto
  have r: "hld r = insert b (hld t)" "b \<notin> hld t" "inv r" using acq_ok [OF t(3) assms(3)] by auto
  from r t obtain w where w: "rel a r = Ok () w" "hld w = hld r - {a}" "inv w"
    using rel_ok [of r a] by auto
  then obtain x where "rel b w = Ok () x" "hld x = hld w - {b}" "inv x"
    using rel_ok [of w b] r t by auto
  then show ?thesis using w r t by auto
qed

end

section \<open>The hart implements the contract\<close>

definition held_hw :: "nat \<Rightarrow> harts \<Rightarrow> lock set" where
  "held_hw c s = {lk. holding_hw c lk s}"

definition hart_inv :: "nat \<Rightarrow> harts \<Rightarrow> bool" where
  "hart_inv c s \<longleftrightarrow> finite (held_hw c s) \<and> noff (cpus s c) = int (card (held_hw c s)) \<and>
     (0 < noff (cpus s c) \<longrightarrow> \<not> intr_get (sstatus s c))"

lemma held_push_off [simp]: "held_hw c (push_off c s) = held_hw c s"
  by (simp add: held_hw_def holding_hw_def)

lemma acquire_hw_Ok:
  assumes "acquire_hw c lk s = Ok u t"
  shows "held_hw c t = insert lk (held_hw c s)" "lk \<notin> held_hw c s"
    "noff (cpus t c) = noff (cpus s c) + 1" "\<not> intr_get (sstatus t c)"
  using assms
  by (auto simp: acquire_hw_def acquire_enter_def test_and_set_def acquire_done_def held_hw_def
      holding_hw_def Let_def split: if_splits)

lemma release_hw_Ok:
  assumes "hart_inv c s" "lk \<in> held_hw c s"
  shows "\<exists>t. release_hw c lk s = Ok () t \<and> held_hw c t = held_hw c s - {lk} \<and> hart_inv c t"
proof -
  let ?s = "s\<lparr>locks := (locks s)(lk := (locks s lk)\<lparr>lcpu := None, locked := 0\<rparr>)\<rparr>"
  have n: "noff (cpus s c) = int (card (held_hw c s))" and fin: "finite (held_hw c s)"
    using assms(1) by (auto simp: hart_inv_def)
  have card: "card (held_hw c s) = Suc (card (held_hw c s - {lk}))"
    using fin assms(2) by (rule card.remove)
  then have pos: "1 \<le> noff (cpus s c)" and off: "\<not> intr_get (sstatus s c)"
    using n assms(1) by (auto simp: hart_inv_def)
  obtain t where t: "pop_off c ?s = Ok () t"
    using pop_off_succeeds [of ?s c] pos off by auto
  have "release_hw c lk s = Ok () t"
    using t assms(2)
    by (simp add: release_hw_def release_enter_def release_done_def held_hw_def)
  moreover have held: "held_hw c t = held_hw c s - {lk}"
    using pop_off_Ok(1) [OF t] by (auto simp: held_hw_def holding_hw_def)
  moreover have "hart_inv c t"
    using pop_off_Ok(2,5) [OF t] held card n fin by (simp add: hart_inv_def)
  ultimately show ?thesis by blast
qed

interpretation hart: spin_api "acquire_hw c" "release_hw c" "held_hw c" "hart_inv c" for c
proof (unfold_locales)
  fix s lk assume "lk \<in> held_hw c s"
  then show "acquire_hw c lk s = Panic ''acquire''"
    by (simp add: acquire_hw_def acquire_enter_def held_hw_def holding_hw_def)
next
  fix s lk u t assume "hart_inv c s" "acquire_hw c lk s = Ok u t"
  then show "held_hw c t = insert lk (held_hw c s) \<and> lk \<notin> held_hw c s \<and> hart_inv c t"
    using acquire_hw_Ok [of c lk s u t] by (auto simp: hart_inv_def)
next
  fix s lk assume "lk \<notin> held_hw c s"
  then show "release_hw c lk s = Panic ''release''"
    by (simp add: release_hw_def release_enter_def held_hw_def)
next
  fix s lk assume "hart_inv c s" "lk \<in> held_hw c s"
  then show "\<exists>t. release_hw c lk s = Ok () t \<and> held_hw c t = held_hw c s - {lk} \<and> hart_inv c t"
    by (rule release_hw_Ok)
qed

section \<open>The view of the other components\<close>

record kcpu =
  held :: "lock set"

definition acquire :: "lock \<Rightarrow> 'a kcpu_scheme \<Rightarrow> ('a kcpu_scheme, unit) out" where
  "acquire lk s =
     (if lk \<in> held s then Panic ''acquire'' else Ok () (s\<lparr>held := insert lk (held s)\<rparr>))"

definition release :: "lock \<Rightarrow> 'a kcpu_scheme \<Rightarrow> ('a kcpu_scheme, unit) out" where
  "release lk s =
     (if lk \<notin> held s then Panic ''release'' else Ok () (s\<lparr>held := held s - {lk}\<rparr>))"

definition initlock :: "lock \<Rightarrow> 'a kcpu_scheme \<Rightarrow> 'a kcpu_scheme" where
  "initlock lk s = s\<lparr>held := held s - {lk}\<rparr>"

lemma held_id [simp]: "s\<lparr>held := held s\<rparr> = s"
  by simp

interpretation kern: spin_api acquire release held "\<lambda>_. True"
  by unfold_locales (auto simp: acquire_def release_def split: if_splits)

lemma acquire_free [simp]: "lk \<notin> held s \<Longrightarrow> acquire lk s = Ok () (s\<lparr>held := insert lk (held s)\<rparr>)"
  by (simp add: acquire_def)

lemma acquire_own [simp]: "lk \<in> held s \<Longrightarrow> acquire lk s = Panic ''acquire''"
  by (simp add: acquire_def)

lemma release_own [simp]: "lk \<in> held s \<Longrightarrow> release lk s = Ok () (s\<lparr>held := held s - {lk}\<rparr>)"
  by (simp add: release_def)

lemma release_other [simp]: "lk \<notin> held s \<Longrightarrow> release lk s = Panic ''release''"
  by (simp add: release_def)

text \<open>
  (C30) Refinement of the lock routines: whenever \<^verbatim>\<open>acquire\<close> and \<^verbatim>\<open>release\<close> on a hart come to an
  end, their effect on the set of locks the hart holds, and the panics they raise, are
  those of the set-level routines that the other components call.
\<close>

theorem lock_routines_refine:
  assumes "hart_inv c h" "held s = held_hw c h"
  shows "(\<forall>u h'. acquire_hw c lk h = Ok u h' \<longrightarrow>
            (\<exists>s'. acquire lk s = Ok () s' \<and> held s' = held_hw c h' \<and> hart_inv c h')) \<and>
         (\<forall>m. acquire_hw c lk h = Panic m \<longleftrightarrow> acquire lk s = Panic m) \<and>
         (\<forall>u h'. release_hw c lk h = Ok u h' \<longrightarrow>
            (\<exists>s'. release lk s = Ok () s' \<and> held s' = held_hw c h' \<and> hart_inv c h')) \<and>
         (\<forall>m. release_hw c lk h = Panic m \<longleftrightarrow> release lk s = Panic m)"
proof -
  have "(\<exists>m. acquire_hw c lk h = Panic m) \<longleftrightarrow> lk \<in> held_hw c h"
    by (auto simp: acquire_hw_def acquire_enter_def test_and_set_def held_hw_def holding_hw_def
        Let_def split: if_splits)
  then have a: "acquire_hw c lk h = Panic m \<longleftrightarrow> acquire lk s = Panic m" for m
    using hart.acq_held [OF assms(1), of lk] assms(2) by (auto simp: acquire_def)
  have b: "release_hw c lk h = Panic m \<longleftrightarrow> release lk s = Panic m" for m
    using hart.rel_free [OF assms(1), of lk] hart.rel_ok [OF assms(1), of lk] assms(2)
    by (auto simp: release_def)
  have c: "\<exists>s'. acquire lk s = Ok () s' \<and> held s' = held_hw c h' \<and> hart_inv c h'"
    if "acquire_hw c lk h = Ok u h'" for u h'
    using hart.acq_ok [OF assms(1) that] assms(2) by (simp add: acquire_def)
  have d: "\<exists>s'. release lk s = Ok () s' \<and> held s' = held_hw c h' \<and> hart_inv c h'"
    if "release_hw c lk h = Ok u h'" for u h'
  proof (cases "lk \<in> held_hw c h")
    case True
    then show ?thesis using hart.rel_ok [OF assms(1) True] that assms(2) by (auto simp: release_def)
  next
    case False
    then show ?thesis using hart.rel_free [OF assms(1) False] that by simp
  qed
  show ?thesis using a b c d by blast
qed

definition boot_harts :: harts where
  "boot_harts = \<lparr>locks = (\<lambda>_. \<lparr>locked = 0, lcpu = None\<rparr>),
     cpus = (\<lambda>_. \<lparr>noff = 0, intena = False\<rparr>), sstatus = (\<lambda>_. 2)\<rparr>"

theorem lock_routines_refine_witness:
  "hart_inv 0 boot_harts \<and> held \<lparr>held = {}\<rparr> = held_hw 0 boot_harts \<and>
   (\<forall>m. acquire_hw 0 PidLock boot_harts = Panic m \<longleftrightarrow> acquire PidLock \<lparr>held = {}\<rparr> = Panic m)"
proof -
  have e: "held_hw 0 boot_harts = {}" by (simp add: boot_harts_def held_hw_def holding_hw_def)
  then have i: "hart_inv 0 boot_harts" by (simp add: hart_inv_def boot_harts_def)
  have "held \<lparr>held = {}\<rparr> = held_hw 0 boot_harts" using e by simp
  then show ?thesis using i lock_routines_refine [OF i, of "\<lparr>held = {}\<rparr>" PidLock] by blast
qed

end
