(* ===== verification/Kalloc.thy ===== *)
theory Kalloc
  imports Kstring Spinlock
begin

unbundle bit_operations_syntax

text \<open>
  \<^verbatim>\<open>kernel/kalloc.c\<close>: the allocator of physical pages. The free list is threaded through the
  free pages themselves (the first eight bytes of a free page hold the address of the
  next one), and every page has a reference count, which copy-on-write fork raises. The
  address \<^verbatim>\<open>end\<close>, which the linker sets, is the field \<open>kend\<close> of the state.
\<close>

record kmem = kcpu +
  mem :: mem
  freelist :: addr
  refcnt :: "nat \<Rightarrow> int"
  kend :: addr

section \<open>The routines\<close>

definition pa2idx :: "addr \<Rightarrow> nat" where
  "pa2idx pa = unat ((pa - KERNBASE) div PGSIZE)"

definition kfree :: "addr \<Rightarrow> 'a kmem_scheme \<Rightarrow> ('a kmem_scheme, unit) out" where
  "kfree pa s =
     (if pa mod PGSIZE \<noteq> 0 \<or> pa < kend s \<or> pa \<ge> PHYSTOP then Panic ''kfree''
      else bnd (acquire KmemLock s) (\<lambda>_ s.
        let idx = pa2idx pa in
        if refcnt s idx < 1 then Panic ''kfree ref''
        else
          let s = s\<lparr>refcnt := (refcnt s)(idx := refcnt s idx - 1)\<rparr> in
          if refcnt s idx > 0 then release KmemLock s
          else
            let s = s\<lparr>mem := memset (mem s) pa 1 4096\<rparr>;
                s = s\<lparr>mem := store64 (mem s) pa (freelist s)\<rparr>;
                s = s\<lparr>freelist := pa\<rparr>
            in release KmemLock s))"

text \<open>The loop of \<^verbatim>\<open>freerange\<close>, with a bound on its iterations.\<close>

primrec freerange_loop :: "nat \<Rightarrow> addr \<Rightarrow> addr \<Rightarrow> 'a kmem_scheme \<Rightarrow> ('a kmem_scheme, unit) out" where
  "freerange_loop 0 p pa_end s = Diverge"
| "freerange_loop (Suc n) p pa_end s =
     (if p + PGSIZE \<le> pa_end
      then bnd (kfree p (s\<lparr>refcnt := (refcnt s)(pa2idx p := 1)\<rparr>)) (\<lambda>_ s.
             freerange_loop n (p + PGSIZE) pa_end s)
      else Ok () s)"

definition freerange :: "addr \<Rightarrow> addr \<Rightarrow> 'a kmem_scheme \<Rightarrow> ('a kmem_scheme, unit) out" where
  "freerange pa_start pa_end s =
     freerange_loop (Suc (unat (pa_end div PGSIZE))) (PGROUNDUP pa_start) pa_end s"

definition kinit :: "'a kmem_scheme \<Rightarrow> ('a kmem_scheme, unit) out" where
  "kinit s = freerange (kend s) PHYSTOP ((initlock KmemLock s)\<lparr>refcnt := (\<lambda>_. 0)\<rparr>)"

definition kalloc :: "'a kmem_scheme \<Rightarrow> ('a kmem_scheme, addr) out" where
  "kalloc s =
     bnd (acquire KmemLock s) (\<lambda>_ s.
     let r = freelist s;
         s = (if r \<noteq> 0
              then s\<lparr>freelist := load64 (mem s) r, refcnt := (refcnt s)(pa2idx r := 1)\<rparr> else s)
     in bnd (release KmemLock s) (\<lambda>_ s.
        Ok r (if r \<noteq> 0 then s\<lparr>mem := memset (mem s) r 5 4096\<rparr> else s)))"

definition krefinc :: "addr \<Rightarrow> 'a kmem_scheme \<Rightarrow> ('a kmem_scheme, unit) out" where
  "krefinc pa s =
     (if pa mod PGSIZE \<noteq> 0 \<or> pa < kend s \<or> pa \<ge> PHYSTOP then Panic ''krefinc''
      else bnd (acquire KmemLock s) (\<lambda>_ s.
        let idx = pa2idx pa in
        if refcnt s idx < 1 then Panic ''krefinc ref''
        else release KmemLock (s\<lparr>refcnt := (refcnt s)(idx := refcnt s idx + 1)\<rparr>)))"

definition krefcnt :: "addr \<Rightarrow> 'a kmem_scheme \<Rightarrow> ('a kmem_scheme, int) out" where
  "krefcnt pa s =
     (if pa mod PGSIZE \<noteq> 0 \<or> pa < kend s \<or> pa \<ge> PHYSTOP then Panic ''krefcnt''
      else bnd (acquire KmemLock s) (\<lambda>_ s.
        let rc = refcnt s (pa2idx pa)
        in bnd (release KmemLock s) (\<lambda>_ s. Ok rc s)))"

primrec kfreepages_loop :: "nat \<Rightarrow> addr \<Rightarrow> int \<Rightarrow> 'a kmem_scheme \<Rightarrow> ('a kmem_scheme, int) out" where
  "kfreepages_loop 0 r count s = Diverge"
| "kfreepages_loop (Suc n) r count s =
     (if r \<noteq> 0 then kfreepages_loop n (load64 (mem s) r) (count + 1) s else Ok count s)"

text \<open>The walk visits each page at most once when the list has no cycle, so the number of pages of RAM, plus one, bounds it.\<close>

definition kfreepages :: "'a kmem_scheme \<Rightarrow> ('a kmem_scheme, int) out" where
  "kfreepages s =
     bnd (acquire KmemLock s) (\<lambda>_ s.
     bnd (kfreepages_loop (Suc (unat ((PHYSTOP - KERNBASE) div PGSIZE))) (freelist s) 0 s) (\<lambda>count s.
     bnd (release KmemLock s) (\<lambda>_ s. Ok count s)))"

section \<open>The invariant\<close>

definition kpage :: "'a kmem_scheme \<Rightarrow> addr \<Rightarrow> bool" where
  "kpage s p \<longleftrightarrow> page_aligned p \<and> kend s \<le> p \<and> p < PHYSTOP"

primrec flist :: "mem \<Rightarrow> addr \<Rightarrow> addr list \<Rightarrow> bool" where
  "flist m p [] \<longleftrightarrow> p = 0"
| "flist m p (x # xs) \<longleftrightarrow> p = x \<and> x \<noteq> 0 \<and> flist m (load64 m x) xs"

definition refs :: "'a kmem_scheme \<Rightarrow> addr \<Rightarrow> int" where
  "refs s p = refcnt s (pa2idx p)"

definition free_pages :: "'a kmem_scheme \<Rightarrow> addr set" where
  "free_pages s = {p. kpage s p \<and> refs s p = 0}"

definition kmem_ok :: "'a kmem_scheme \<Rightarrow> bool" where
  "kmem_ok s \<longleftrightarrow> KERNBASE \<le> kend s \<and> kend s \<le> PHYSTOP \<and> (\<forall>p. kpage s p \<longrightarrow> 0 \<le> refs s p) \<and>
     (\<exists>fl. flist (mem s) (freelist s) fl \<and> distinct fl \<and> set fl = free_pages s)"

text \<open>The allocator at rest: the invariant holds and this hart does not hold the allocator's lock.\<close>

definition kmem_inv :: "'a kmem_scheme \<Rightarrow> bool" where
  "kmem_inv s \<longleftrightarrow> kmem_ok s \<and> KmemLock \<notin> held s"

text \<open>The kernel state is that of \<open>s\<close> but for the fields the allocator owns.\<close>

definition kmem_frame :: "'a kmem_scheme \<Rightarrow> 'a kmem_scheme \<Rightarrow> bool" where
  "kmem_frame s t \<longleftrightarrow> t = s\<lparr>mem := mem t, freelist := freelist t, refcnt := refcnt t\<rparr>"

section \<open>Pages and their indices\<close>

lemma kpage_aligned: "kpage s p \<Longrightarrow> page_aligned p"
  by (simp add: kpage_def)

lemma bad_page_iff: "p mod PGSIZE \<noteq> 0 \<or> p < kend s \<or> p \<ge> PHYSTOP \<longleftrightarrow> \<not> kpage s p"
  unfolding kpage_def page_aligned_def PGSIZE_def by (simp add: not_less not_le disj_imp)

lemma unat_KERNBASE: "unat KERNBASE = 2147483648"
  by (simp add: KERNBASE_def)

lemma unat_PHYSTOP: "unat PHYSTOP = 2281701376"
  by (simp add: PHYSTOP_def KERNBASE_def)

lemma pa2idx_unat: "KERNBASE \<le> p \<Longrightarrow> pa2idx p = (unat p - 2147483648) div 4096"
  by (simp add: pa2idx_def unat_div unat_sub unat_KERNBASE PGSIZE_def)

lemma pa2idx_inj:
  assumes "KERNBASE \<le> p" "KERNBASE \<le> q" "page_aligned p" "page_aligned q"
  shows "pa2idx p = pa2idx q \<longleftrightarrow> p = q"
proof
  assume "pa2idx p = pa2idx q"
  moreover obtain k l where "unat p = 4096 * k" "unat q = 4096 * l"
    using assms(3,4) by (metis page_aligned_unatE)
  moreover have "2147483648 \<le> unat p" "2147483648 \<le> unat q"
    using assms(1,2) unat_KERNBASE by (simp_all add: word_le_nat_alt)
  ultimately have "unat p = unat q" using assms(1,2) by (simp add: pa2idx_unat)
  then show "p = q" by (simp add: word_unat_eq_iff)
qed simp

lemma kmem_ok_kend: "kmem_ok s \<Longrightarrow> KERNBASE \<le> kend s"
  by (simp add: kmem_ok_def)

lemma kpage_ge: "kmem_ok s \<Longrightarrow> kpage s p \<Longrightarrow> KERNBASE \<le> p"
  using kmem_ok_kend by (auto simp: kpage_def intro: order_trans)

lemma kpage_nonzero: "kmem_ok s \<Longrightarrow> kpage s p \<Longrightarrow> p \<noteq> 0"
  using kpage_ge [of s p] by (auto simp: KERNBASE_def)

lemma kpage_small: "kpage s p \<Longrightarrow> unat p < 2 ^ 56"
  using unat_PHYSTOP by (simp add: kpage_def word_less_nat_alt)

lemma pa2idx_kpage:
  "kmem_ok s \<Longrightarrow> kpage s p \<Longrightarrow> kpage s q \<Longrightarrow> pa2idx p = pa2idx q \<longleftrightarrow> p = q"
  by (simp add: pa2idx_inj kpage_ge kpage_aligned)

lemma kmem_frame_iff: "kmem_frame s t \<longleftrightarrow> (\<exists>m f r. t = s\<lparr>mem := m, freelist := f, refcnt := r\<rparr>)"
  unfolding kmem_frame_def by (auto intro!: exI)

lemma kmem_frameD [frames]:
  assumes "kmem_frame s t"
  shows "held t = held s" "kend t = kend s" "kmem.more t = kmem.more s" "kpage t p = kpage s p"
  using assms by (auto simp: kmem_frame_iff kpage_def)

lemma kmem_frame_refl [simp]: "kmem_frame s s"
  by (simp add: kmem_frame_def)

lemma kmem_frame_trans: "kmem_frame s t \<Longrightarrow> kmem_frame t u \<Longrightarrow> kmem_frame s u"
proof -
  assume "kmem_frame s t" "kmem_frame t u"
  then obtain m f r where "u = s\<lparr>mem := m, freelist := f, refcnt := r\<rparr>"
    by (auto simp: kmem_frame_iff)
  then show ?thesis by (simp add: kmem_frame_def)
qed

lemma kmem_frame_mem: "kmem_frame s t \<Longrightarrow> kmem_frame s (t\<lparr>mem := m\<rparr>)"
proof -
  assume "kmem_frame s t"
  then obtain a f r where "t = s\<lparr>mem := a, freelist := f, refcnt := r\<rparr>"
    by (auto simp: kmem_frame_iff)
  then show ?thesis by (simp add: kmem_frame_def)
qed

section \<open>The free list in memory\<close>

lemma flist_nonzero: "flist m p xs \<Longrightarrow> 0 \<notin> set xs"
  by (induction xs arbitrary: p) auto

lemma flist_cong:
  assumes "\<And>x. x \<in> set xs \<Longrightarrow> load64 m x = load64 m' x"
  shows "flist m p xs = flist m' p xs"
  using assms by (induction xs arbitrary: p) auto

lemma load64_outside:
  assumes "page_aligned p" "page_aligned q" "p \<noteq> q" "\<And>x. x \<notin> page_bytes p \<Longrightarrow> m' x = m x"
  shows "load64 m' q = load64 m q"
proof -
  have "load64 m' (slot q 0) = load64 m (slot q 0)"
    by (rule load64_slot_cong) (use page_bytes_disjoint [of p q] assms in auto)
  then show ?thesis by (simp add: slot_def)
qed

lemma store64_outside_page: "x \<notin> page_bytes p \<Longrightarrow> store64 m p v x = m x"
  using store64_slot_outside [of 0 x p m v] by (simp add: slot_def)

section \<open>What each routine does\<close>

lemma kmem_okE:
  assumes "kmem_ok s"
  obtains fl where "flist (mem s) (freelist s) fl" "distinct fl" "set fl = free_pages s"
  using assms by (auto simp: kmem_ok_def)

lemma kmem_okI:
  assumes "KERNBASE \<le> kend s" "kend s \<le> PHYSTOP" "\<And>p. kpage s p \<Longrightarrow> 0 \<le> refs s p"
    "flist (mem s) (freelist s) fl" "distinct fl" "set fl = free_pages s"
  shows "kmem_ok s"
  using assms unfolding kmem_ok_def by blast

lemma free_page_aligned: "p \<in> free_pages s \<Longrightarrow> page_aligned p"
  by (auto simp: free_pages_def intro: kpage_aligned)

lemma refs_upd:
  assumes "kmem_ok s" "kpage s p" "kpage s q"
  shows "refs (s\<lparr>refcnt := (refcnt s)(pa2idx p := c)\<rparr>) q = (if q = p then c else refs s q)"
  using assms by (auto simp: refs_def pa2idx_kpage)

lemma kalloc_empty:
  assumes "kmem_inv s" "free_pages s = {}"
  shows "kalloc s = Ok 0 s"
proof -
  have "freelist s = 0" using assms by (auto simp: kmem_inv_def elim!: kmem_okE)
  then show ?thesis using assms(1) by (simp add: kalloc_def kmem_inv_def)
qed

lemma kalloc_page:
  assumes inv: "kmem_inv s" and ne: "free_pages s \<noteq> {}"
  obtains p t where "kalloc s = Ok p t" "p \<in> free_pages s" "p \<noteq> 0" "kmem_inv t" "kmem_frame s t"
    "refcnt t = (refcnt s)(pa2idx p := 1)" "free_pages t = free_pages s - {p}"
    "mem t = memset (mem s) p 5 4096"
proof -
  have ok: "kmem_ok s" and lk: "KmemLock \<notin> held s" using inv by (auto simp: kmem_inv_def)
  obtain fl where fl: "flist (mem s) (freelist s) fl" "distinct fl" "set fl = free_pages s"
    using ok by (rule kmem_okE)
  with ne obtain p ps where ps: "fl = p # ps" by (cases fl) auto
  with fl have p: "freelist s = p" "p \<noteq> 0" "flist (mem s) (load64 (mem s) p) ps" "p \<notin> set ps"
    by auto
  have pf: "p \<in> free_pages s" using fl ps by auto
  then have kp: "kpage s p" by (simp add: free_pages_def)
  define t where "t = s\<lparr>freelist := load64 (mem s) p, refcnt := (refcnt s)(pa2idx p := 1),
    mem := memset (mem s) p 5 4096\<rparr>"
  have run: "kalloc s = Ok p t"
    using p lk by (simp add: kalloc_def t_def)
  have refs: "kpage s q \<Longrightarrow> refs t q = (if q = p then 1 else refs s q)" for q
    using refs_upd [OF ok kp, of q 1] by (simp add: t_def refs_def)
  have kpt: "kpage t q = kpage s q" for q by (simp add: t_def kpage_def)
  have free: "free_pages t = free_pages s - {p}"
    using refs kpt by (auto simp: free_pages_def split: if_splits)
  have "flist (mem t) (freelist t) ps"
  proof -
    have "load64 (mem t) x = load64 (mem s) x" if "x \<in> set ps" for x
    proof (rule load64_outside [of p])
      show "page_aligned p" using kp by (rule kpage_aligned)
      show "page_aligned x" using that fl(3) ps by (intro free_page_aligned) auto
      show "p \<noteq> x" using that p by auto
    qed (simp add: t_def memset_page)
    then have "flist (mem t) q ps = flist (mem s) q ps" for q by (rule flist_cong)
    then show ?thesis using p by (simp add: t_def)
  qed
  moreover have "distinct ps" "set ps = free_pages t" using fl ps free by auto
  moreover have "0 \<le> refs t q" if "kpage t q" for q
    using that ok refs [of q] kpt by (auto simp: kmem_ok_def)
  moreover have "KERNBASE \<le> kend t" "kend t \<le> PHYSTOP" using ok by (auto simp: kmem_ok_def t_def)
  ultimately have "kmem_ok t" by (intro kmem_okI)
  then have "kmem_inv t" using lk by (simp add: kmem_inv_def t_def)
  moreover have "kmem_frame s t" by (simp add: kmem_frame_def t_def)
  ultimately show thesis using that run pf p(2) free by (simp add: t_def)
qed

lemma kfree_bad: "\<not> kpage s p \<Longrightarrow> kfree p s = Panic ''kfree''"
  using bad_page_iff [of p s] by (simp add: kfree_def)

lemma kfree_free:
  assumes "kmem_inv s" "p \<in> free_pages s"
  shows "kfree p s = Panic ''kfree ref''"
  using assms bad_page_iff [of p s] by (simp add: kfree_def free_pages_def refs_def kmem_inv_def)

lemma kfree_shared:
  assumes "kmem_inv s" "kpage s p" "1 < refs s p"
  shows "kfree p s = Ok () (s\<lparr>refcnt := (refcnt s)(pa2idx p := refs s p - 1)\<rparr>)"
  using assms bad_page_iff [of p s] by (simp add: kfree_def refs_def kmem_inv_def Let_def)

lemma kfree_last:
  assumes "kmem_inv s" "kpage s p" "refs s p = 1"
  shows "kfree p s = Ok () (s\<lparr>refcnt := (refcnt s)(pa2idx p := 0),
    mem := store64 (memset (mem s) p 1 4096) p (freelist s), freelist := p\<rparr>)"
  using assms bad_page_iff [of p s] by (simp add: kfree_def refs_def kmem_inv_def Let_def)

lemma kmem_ok_refcnt:
  assumes ok: "kmem_ok s" and p: "kpage s p" and c: "1 \<le> c" "refs s p \<noteq> 0"
  shows "kmem_ok (s\<lparr>refcnt := (refcnt s)(pa2idx p := c)\<rparr>)"
proof -
  let ?t = "s\<lparr>refcnt := (refcnt s)(pa2idx p := c)\<rparr>"
  have kp: "kpage ?t q = kpage s q" for q by (simp add: kpage_def)
  have refs: "kpage s q \<Longrightarrow> refs ?t q = (if q = p then c else refs s q)" for q
    by (rule refs_upd [OF ok p])
  have "free_pages ?t = free_pages s"
    using refs kp c by (auto simp: free_pages_def split: if_splits)
  moreover have "0 \<le> refs ?t q" if "kpage ?t q" for q
    using that ok refs [of q] kp c by (auto simp: kmem_ok_def)
  ultimately show ?thesis using ok by (simp add: kmem_ok_def)
qed

lemma kfree_spec:
  assumes inv: "kmem_inv s" and p: "kpage s p" "1 \<le> refs s p"
  obtains t where "kfree p s = Ok () t" "kmem_inv t" "kmem_frame s t"
    "refcnt t = (refcnt s)(pa2idx p := refs s p - 1)"
    "\<And>x. x \<notin> page_bytes p \<Longrightarrow> mem t x = mem s x"
    "1 < refs s p \<Longrightarrow> mem t = mem s"
    "free_pages t = (if refs s p = 1 then insert p (free_pages s) else free_pages s)"
proof (cases "1 < refs s p")
  case True
  let ?t = "s\<lparr>refcnt := (refcnt s)(pa2idx p := refs s p - 1)\<rparr>"
  have ok: "kmem_ok s" using inv by (simp add: kmem_inv_def)
  have "kmem_inv ?t"
    using inv True p kmem_ok_refcnt [OF ok p(1), of "refs s p - 1"] by (simp add: kmem_inv_def)
  moreover have "free_pages ?t = free_pages s"
    using refs_upd [OF ok p(1), of _ "refs s p - 1"] True by (auto simp: free_pages_def kpage_def split: if_splits)
  ultimately show thesis
    using that [of ?t] kfree_shared [OF inv p(1) True] True by (simp add: kmem_frame_def)
next
  case False
  with p have one: "refs s p = 1" by simp
  have ok: "kmem_ok s" and lk: "KmemLock \<notin> held s" using inv by (auto simp: kmem_inv_def)
  obtain fl where fl: "flist (mem s) (freelist s) fl" "distinct fl" "set fl = free_pages s"
    using ok by (rule kmem_okE)
  define t where "t = s\<lparr>refcnt := (refcnt s)(pa2idx p := 0),
    mem := store64 (memset (mem s) p 1 4096) p (freelist s), freelist := p\<rparr>"
  have run: "kfree p s = Ok () t" unfolding t_def by (rule kfree_last [OF inv p(1) one])
  have out: "mem t x = mem s x" if "x \<notin> page_bytes p" for x
    using that by (simp add: t_def store64_outside_page memset_page)
  have refs: "kpage s q \<Longrightarrow> refs t q = (if q = p then 0 else refs s q)" for q
    using refs_upd [OF ok p(1), of q 0] by (simp add: t_def refs_def)
  have kpt: "kpage t q = kpage s q" for q by (simp add: t_def kpage_def)
  have free: "free_pages t = insert p (free_pages s)"
    using refs kpt p(1) by (auto simp: free_pages_def split: if_splits)
  have notin: "p \<notin> set fl" using fl(3) one by (simp add: free_pages_def)
  have "load64 (mem t) x = load64 (mem s) x" if "x \<in> set fl" for x
  proof (rule load64_outside [of p])
    show "page_aligned p" using p(1) by (rule kpage_aligned)
    show "page_aligned x" using that fl(3) by (intro free_page_aligned) auto
    show "p \<noteq> x" using that notin by auto
  qed (rule out)
  then have "flist (mem t) (freelist s) fl" using fl(1) flist_cong by metis
  then have "flist (mem t) (freelist t) (p # fl)"
    using kpage_nonzero [OF ok p(1)] by (simp add: t_def)
  moreover have "distinct (p # fl)" "set (p # fl) = free_pages t" using fl notin free by auto
  moreover have "0 \<le> refs t q" if "kpage t q" for q
    using that ok refs [of q] kpt by (auto simp: kmem_ok_def)
  moreover have "KERNBASE \<le> kend t" "kend t \<le> PHYSTOP" using ok by (auto simp: kmem_ok_def t_def)
  ultimately have "kmem_ok t" by (intro kmem_okI)
  then have "kmem_inv t" using lk by (simp add: kmem_inv_def t_def)
  then show thesis
    using that [OF run] one free out by (simp add: t_def kmem_frame_def)
qed

lemma krefinc_spec:
  assumes "kmem_inv s" "kpage s p" "1 \<le> refs s p"
  shows "krefinc p s = Ok () (s\<lparr>refcnt := (refcnt s)(pa2idx p := refs s p + 1)\<rparr>)"
    "kmem_inv (s\<lparr>refcnt := (refcnt s)(pa2idx p := refs s p + 1)\<rparr>)"
  using assms bad_page_iff [of p s] kmem_ok_refcnt [of s p "refs s p + 1"]
  by (simp_all add: krefinc_def kmem_inv_def Let_def refs_def)

lemma krefcnt_spec:
  assumes "kmem_inv s" "kpage s p"
  shows "krefcnt p s = Ok (refs s p) s"
  using assms bad_page_iff [of p s] by (simp add: krefcnt_def kmem_inv_def Let_def refs_def)

section \<open>Initialisation\<close>

text \<open>The free list holds exactly the allocatable pages below \<open>p\<close>, and no page is in use.\<close>

definition freed_below :: "addr \<Rightarrow> 'a kmem_scheme \<Rightarrow> bool" where
  "freed_below p s \<longleftrightarrow> KmemLock \<notin> held s \<and> refcnt s = (\<lambda>_. 0) \<and>
     (\<exists>fl. flist (mem s) (freelist s) fl \<and> distinct fl \<and> set fl = {q. kpage s q \<and> q < p})"

lemma aligned_next:
  assumes "page_aligned p" "page_aligned q" "unat p + 4096 < 2 ^ 64"
  shows "q < p + PGSIZE \<longleftrightarrow> q \<le> p"
proof -
  obtain k l where k: "unat p = 4096 * k" "unat q = 4096 * l"
    using assms(1,2) by (metis page_aligned_unatE)
  have "unat (p + PGSIZE) = 4096 * k + 4096"
    using assms(3) k by (simp add: PGSIZE_def unat_word_ariths)
  then show ?thesis using k by (simp add: word_less_nat_alt word_le_nat_alt) linarith
qed

lemma page_aligned_add: "page_aligned p \<Longrightarrow> page_aligned q \<Longrightarrow> page_aligned (p + q)"
proof -
  assume "page_aligned p" "page_aligned q"
  then have "4096 dvd unat p + unat q" by (auto simp: page_aligned_unat mod_eq_0_iff_dvd)
  moreover have "(4096::nat) dvd 2 ^ 64" by simp
  ultimately have "4096 dvd unat (p + q)" by (simp add: unat_word_ariths dvd_mod)
  then show ?thesis by (simp add: page_aligned_unat mod_eq_0_iff_dvd)
qed

lemma page_aligned_next: "page_aligned p \<Longrightarrow> page_aligned (p + PGSIZE)"
  by (rule page_aligned_add) (simp_all add: page_aligned_def PGSIZE_def)

lemma freed_below_step:
  assumes fb: "freed_below p s" and kb: "KERNBASE \<le> kend s" and p: "kpage s p"
    and lt: "unat p + 4096 < 2 ^ 64"
  shows "\<exists>t. kfree p (s\<lparr>refcnt := (refcnt s)(pa2idx p := 1)\<rparr>) = Ok () t \<and> freed_below (p + PGSIZE) t
    \<and> kmem_frame s t"
proof -
  obtain fl where fl: "flist (mem s) (freelist s) fl" "distinct fl" "set fl = {q. kpage s q \<and> q < p}"
    using fb by (auto simp: freed_below_def)
  have s: "refcnt s = (\<lambda>_. 0)" "KmemLock \<notin> held s" using fb by (auto simp: freed_below_def)
  define t where "t = s\<lparr>refcnt := (\<lambda>_. 0),
    mem := store64 (memset (mem s) p 1 4096) p (freelist s), freelist := p\<rparr>"
  have "kpage (s\<lparr>refcnt := (refcnt s)(pa2idx p := 1)\<rparr>) p" using p by (simp add: kpage_def)
  then have run: "kfree p (s\<lparr>refcnt := (refcnt s)(pa2idx p := 1)\<rparr>) = Ok () t"
    using bad_page_iff [of p s] p s by (simp add: kfree_def Let_def t_def fun_upd_idem)
  have out: "mem t x = mem s x" if "x \<notin> page_bytes p" for x
    using that by (simp add: t_def store64_outside_page memset_page)
  have "load64 (mem t) x = load64 (mem s) x" if "x \<in> set fl" for x
  proof (rule load64_outside [of p])
    have "kpage s x" "x < p" using that fl(3) by auto
    then show "page_aligned x" "p \<noteq> x" by (auto intro: kpage_aligned)
  qed (use p kpage_aligned out in auto)
  then have "flist (mem t) (freelist s) fl" using fl(1) flist_cong by metis
  moreover have "p \<noteq> 0" using p kb by (auto simp: kpage_def KERNBASE_def)
  ultimately have "flist (mem t) (freelist t) (p # fl)" by (simp add: t_def)
  moreover have "distinct (p # fl)" using fl by simp
  moreover have "set (p # fl) = {q. kpage t q \<and> q < p + PGSIZE}"
  proof -
    have "q < p + PGSIZE \<longleftrightarrow> q = p \<or> q < p" if "kpage s q" for q
      using aligned_next [OF kpage_aligned [OF p] kpage_aligned [OF that] lt] by auto
    moreover have "kpage t q = kpage s q" for q by (simp add: t_def kpage_def)
    ultimately show ?thesis using fl(3) p by auto
  qed
  moreover have "KmemLock \<notin> held t" "refcnt t = (\<lambda>_. 0)" using s by (auto simp: t_def)
  ultimately have "freed_below (p + PGSIZE) t" unfolding freed_below_def by blast
  moreover have "kmem_frame s t" by (simp add: kmem_frame_def t_def)
  ultimately show ?thesis using run by blast
qed

lemma round_up_least: "e \<le> 4096 * k \<Longrightarrow> (e + 4095) div 4096 * 4096 \<le> (4096 * k :: nat)"
  using div_le_mono [of "e + 4095" "4096 * k + 4095" 4096] by simp

lemma freerange_loop_ok:
  assumes "freed_below p s" "KERNBASE \<le> kend s" "page_aligned p" "kend s \<le> p" "p \<le> PHYSTOP"
    "unat PHYSTOP < unat p + 4096 * n"
  shows "\<exists>t. freerange_loop n p PHYSTOP s = Ok () t \<and> freed_below PHYSTOP t \<and> kmem_frame s t"
  using assms
proof (induction n arbitrary: p s)
  case 0
  then show ?case by (simp add: word_le_nat_alt)
next
  case (Suc n)
  have small: "unat p + 4096 < 2 ^ 64" and next_pa: "unat (p + PGSIZE) = unat p + 4096"
    using Suc.prems(5) unat_PHYSTOP by (auto simp: word_le_nat_alt PGSIZE_def unat_word_ariths)
  show ?case
  proof (cases "p + PGSIZE \<le> PHYSTOP")
    case True
    then have p: "kpage s p"
      using Suc.prems next_pa by (auto simp: kpage_def word_le_nat_alt word_less_nat_alt)
    obtain t where t: "kfree p (s\<lparr>refcnt := (refcnt s)(pa2idx p := 1)\<rparr>) = Ok () t"
      "freed_below (p + PGSIZE) t" "kmem_frame s t"
      using freed_below_step [OF Suc.prems(1,2) p small] by blast
    have "kend t \<le> p + PGSIZE"
      using Suc.prems(4) next_pa kmem_frameD(2) [OF t(3)] by (simp add: word_le_nat_alt)
    then have "\<exists>u. freerange_loop n (p + PGSIZE) PHYSTOP t = Ok () u \<and> freed_below PHYSTOP u \<and> kmem_frame t u"
      using Suc.prems True next_pa kmem_frameD(2) [OF t(3)]
      by (intro Suc.IH t(2)) (auto intro: page_aligned_next)
    then show ?thesis using True t kmem_frame_trans [OF t(3)] by auto
  next
    case False
    have "\<not> p < PHYSTOP"
    proof
      assume "p < PHYSTOP"
      moreover obtain k where "unat p = 4096 * k" using Suc.prems(3) by (metis page_aligned_unatE)
      ultimately show False
        using False next_pa by (simp add: word_le_nat_alt word_less_nat_alt unat_PHYSTOP)
    qed
    then have "p = PHYSTOP" using Suc.prems(5) by simp
    then show ?thesis using False Suc.prems(1) by (intro exI [of _ s]) simp
  qed
qed

lemma kmem_inv_freed:
  assumes "freed_below PHYSTOP s" "KERNBASE \<le> kend s" "kend s \<le> PHYSTOP"
  shows "kmem_inv s" "free_pages s = {p. kpage s p}"
proof -
  show free: "free_pages s = {p. kpage s p}"
    using assms(1) by (auto simp: free_pages_def freed_below_def refs_def)
  obtain fl where "flist (mem s) (freelist s) fl" "distinct fl" "set fl = free_pages s"
  proof -
    have "{q. kpage s q \<and> q < PHYSTOP} = {p. kpage s p}" by (auto simp: kpage_def)
    then show ?thesis using that assms(1) unfolding free freed_below_def by auto
  qed
  then have "kmem_ok s"
    using assms by (intro kmem_okI) (auto simp: refs_def freed_below_def)
  then show "kmem_inv s" using assms(1) by (simp add: kmem_inv_def freed_below_def)
qed

lemma finite_kpages: "finite {p. kpage s p}"
  by (rule finite_subset [OF subset_UNIV]) simp

lemma finite_free_pages [simp]: "finite (free_pages s)"
  by (rule finite_subset [OF _ finite_kpages]) (auto simp: free_pages_def)

lemma card_kpages:
  assumes "kmem_ok s"
  shows "card (free_pages s) \<le> 32768"
proof -
  have "inj_on pa2idx (free_pages s)"
    using pa2idx_kpage [OF assms] by (auto simp: inj_on_def free_pages_def)
  moreover have "pa2idx p < 32768" if "p \<in> free_pages s" for p
  proof -
    have "kpage s p" using that by (simp add: free_pages_def)
    then have "KERNBASE \<le> p" "unat p < 2281701376"
      using kpage_ge [OF assms] unat_PHYSTOP by (auto simp: kpage_def word_less_nat_alt)
    then show ?thesis by (simp add: pa2idx_unat less_mult_imp_div_less)
  qed
  ultimately have "card (free_pages s) \<le> card {..<32768::nat}"
    by (intro card_inj_on_le [of pa2idx]) auto
  then show ?thesis by simp
qed

lemma kfreepages_loop_flist:
  "flist (mem s) r fl \<Longrightarrow> length fl < n \<Longrightarrow> kfreepages_loop n r c s = Ok (c + int (length fl)) s"
proof (induction fl arbitrary: n r c)
  case Nil
  then show ?case by (cases n) auto
next
  case (Cons x fl)
  then obtain m where "n = Suc m" by (cases n) auto
  then show ?case using Cons by auto
qed

lemma kfreepages_spec:
  assumes "kmem_inv s"
  shows "kfreepages s = Ok (int (card (free_pages s))) s"
proof -
  have ok: "kmem_ok s" and lk: "KmemLock \<notin> held s" using assms by (auto simp: kmem_inv_def)
  obtain fl where fl: "flist (mem s) (freelist s) fl" "distinct fl" "set fl = free_pages s"
    using ok by (rule kmem_okE)
  have len: "length fl = card (free_pages s)" using fl(2,3) distinct_card by fastforce
  have n: "unat ((PHYSTOP - KERNBASE) div PGSIZE) = 32768"
    by (simp add: PHYSTOP_def KERNBASE_def PGSIZE_def)
  define s1 where "s1 = s\<lparr>held := insert KmemLock (held s)\<rparr>"
  have acq: "acquire KmemLock s = Ok () s1" using lk by (simp add: s1_def)
  have rel: "release KmemLock s1 = Ok () s" using lk by (simp add: s1_def)
  have "kfreepages_loop (Suc 32768) (freelist s1) 0 s1 = Ok (0 + int (length fl)) s1"
    using fl(1) card_kpages [OF ok] len by (intro kfreepages_loop_flist) (auto simp: s1_def)
  then show ?thesis by (simp add: kfreepages_def acq rel n len del: kfreepages_loop.simps)
qed

section \<open>The contract of a page allocator\<close>

text \<open>
  What the virtual-memory code relies on: allocation takes one free page and gives it
  one reference, freeing the last reference gives it back, and the free set is finite.
\<close>

locale page_alloc =
  fixes alloc :: "'s \<Rightarrow> ('s, addr) out"
    and free :: "addr \<Rightarrow> 's \<Rightarrow> ('s, unit) out"
    and ok :: "'s \<Rightarrow> bool"
    and avail :: "'s \<Rightarrow> addr set"
    and rc :: "'s \<Rightarrow> addr \<Rightarrow> int"
    and page :: "'s \<Rightarrow> addr \<Rightarrow> bool"
  assumes alloc_none: "ok s \<Longrightarrow> avail s = {} \<Longrightarrow> alloc s = Ok 0 s"
    and alloc_some: "ok s \<Longrightarrow> avail s \<noteq> {} \<Longrightarrow>
      \<exists>p t. alloc s = Ok p t \<and> p \<in> avail s \<and> p \<noteq> 0 \<and> ok t \<and> avail t = avail s - {p} \<and>
        rc t p = 1 \<and> page t p \<and> (\<forall>q. page s q \<longrightarrow> page t q \<and> (q \<noteq> p \<longrightarrow> rc t q = rc s q))"
    and free_last: "ok s \<Longrightarrow> page s p \<Longrightarrow> rc s p = 1 \<Longrightarrow>
      \<exists>t. free p s = Ok () t \<and> ok t \<and> avail t = insert p (avail s) \<and>
        (\<forall>q. page s q \<longrightarrow> page t q \<and> (q \<noteq> p \<longrightarrow> rc t q = rc s q))"
    and avail_finite: "ok s \<Longrightarrow> finite (avail s)"
    and avail_page: "ok s \<Longrightarrow> p \<in> avail s \<Longrightarrow> page s p"
begin

lemma alloc_then_free:
  assumes "ok s" "avail s \<noteq> {}"
  shows "\<exists>p t. bnd (alloc s) (\<lambda>p t. bnd (free p t) (\<lambda>_ u. Ok p u)) = Ok p t \<and> ok t \<and>
    avail t = avail s \<and> p \<in> avail s"
proof -
  obtain p t where t: "alloc s = Ok p t" "p \<in> avail s" "ok t" "avail t = avail s - {p}" "rc t p = 1" "page t p"
    using alloc_some [OF assms] by blast
  obtain u where "free p t = Ok () u" "ok u" "avail u = insert p (avail t)"
    using free_last [OF t(3,6,5)] by blast
  then show ?thesis using t by (intro exI [of _ p] exI [of _ u]) auto
qed

lemma alloc_distinct:
  assumes "ok s" "2 \<le> card (avail s)"
  shows "\<exists>p q t. bnd (alloc s) (\<lambda>p t. bnd (alloc t) (\<lambda>q u. Ok (p, q) u)) = Ok (p, q) t \<and>
    ok t \<and> p \<noteq> q \<and> p \<noteq> 0 \<and> q \<noteq> 0 \<and> rc t p = 1 \<and> rc t q = 1 \<and> avail t = avail s - {p, q}"
proof -
  obtain p t where t: "alloc s = Ok p t" "p \<in> avail s" "p \<noteq> 0" "ok t" "avail t = avail s - {p}"
    "rc t p = 1" "page t p"
  proof -
    have "avail s \<noteq> {}" using assms(2) by auto
    then show thesis using alloc_some [OF assms(1)] that by blast
  qed
  have "card (avail t) = card (avail s) - 1"
    using t(2,5) avail_finite [OF assms(1)] by simp
  then have "avail t \<noteq> {}" using assms(2) by fastforce
  then obtain q u where u: "alloc t = Ok q u" "q \<in> avail t" "q \<noteq> 0" "ok u" "avail u = avail t - {q}"
    "rc u q = 1" "\<forall>x. page t x \<longrightarrow> page u x \<and> (x \<noteq> q \<longrightarrow> rc u x = rc t x)"
    using alloc_some [OF t(4)] by blast
  have "p \<noteq> q" using u(2) t(5) by auto
  moreover from this have "rc u p = 1" using u(7) t(6,7) by simp
  moreover have "avail u = avail s - {p, q}" using u(5) t(5) by auto
  ultimately show ?thesis using t(1,3) u(1,3,4,6) by auto
qed

end

lemma kalloc_contract:
  assumes "kmem_inv s" "free_pages s \<noteq> {}"
  shows "\<exists>p t. kalloc s = Ok p t \<and> p \<in> free_pages s \<and> p \<noteq> 0 \<and> kmem_inv t \<and>
    free_pages t = free_pages s - {p} \<and> refs t p = 1 \<and> kpage t p \<and>
    (\<forall>q. kpage s q \<longrightarrow> kpage t q \<and> (q \<noteq> p \<longrightarrow> refs t q = refs s q))"
proof -
  obtain p t where t: "kalloc s = Ok p t" "p \<in> free_pages s" "p \<noteq> 0" "kmem_inv t" "kmem_frame s t"
    "refcnt t = (refcnt s)(pa2idx p := 1)" "free_pages t = free_pages s - {p}"
    using assms by (rule kalloc_page)
  have ok: "kmem_ok s" and p: "kpage s p" using assms t(2) by (auto simp: kmem_inv_def free_pages_def)
  have "refs t p = 1" using t(6) by (simp add: refs_def)
  moreover have "kpage s q \<Longrightarrow> q \<noteq> p \<Longrightarrow> refs t q = refs s q" for q
    using t(6) pa2idx_kpage [OF ok p, of q] by (auto simp: refs_def)
  ultimately show ?thesis using t p kmem_frameD(4) [OF t(5)] by blast
qed

lemma kfree_contract:
  assumes "kmem_inv s" "kpage s p" "refs s p = 1"
  shows "\<exists>t. kfree p s = Ok () t \<and> kmem_inv t \<and> free_pages t = insert p (free_pages s) \<and>
    (\<forall>q. kpage s q \<longrightarrow> kpage t q \<and> (q \<noteq> p \<longrightarrow> refs t q = refs s q))"
proof -
  have one: "1 \<le> refs s p" using assms by simp
  obtain t where t: "kfree p s = Ok () t" "kmem_inv t" "kmem_frame s t"
    "refcnt t = (refcnt s)(pa2idx p := refs s p - 1)"
    "free_pages t = (if refs s p = 1 then insert p (free_pages s) else free_pages s)"
    by (rule kfree_spec [OF assms(1,2) one])
  have "kpage s q \<Longrightarrow> q \<noteq> p \<Longrightarrow> refs t q = refs s q" for q
    using t(4) pa2idx_kpage [OF _ assms(2), of q] assms(1) by (auto simp: refs_def kmem_inv_def)
  then show ?thesis using t assms kmem_frameD(4) [OF t(3)] by auto
qed

interpretation pages: page_alloc kalloc kfree kmem_inv free_pages refs kpage
proof unfold_locales
  fix s :: "'a kmem_scheme" and p :: addr
  assume "kmem_inv s"
  then show "free_pages s = {} \<Longrightarrow> kalloc s = Ok 0 s" by (rule kalloc_empty)
  show "finite (free_pages s)" by (rule finite_free_pages)
  show "p \<in> free_pages s \<Longrightarrow> kpage s p" by (simp add: free_pages_def)
qed (rule kalloc_contract kfree_contract; assumption)+

section \<open>Properties\<close>

text \<open>A kernel image that ends sixteen pages below the top of memory.\<close>

definition small_boot :: kmem where
  "small_boot = \<lparr>held = {}, mem = (\<lambda>_. 0), freelist = 0, refcnt = (\<lambda>_. 0), kend = PHYSTOP - 0x10000\<rparr>"

text \<open>A machine with a single allocatable page, used \<open>c\<close> times.\<close>

definition one_page :: "int \<Rightarrow> kmem" where
  "one_page c = \<lparr>held = {}, mem = (\<lambda>_. 0), freelist = (if c = 0 then PHYSTOP - 4096 else 0),
     refcnt = (\<lambda>_. c), kend = PHYSTOP - 4096\<rparr>"

lemma one_page_kpage: "kpage (one_page c) p \<longleftrightarrow> p = PHYSTOP - 4096"
proof
  assume k: "kpage (one_page c) p"
  then obtain k where up: "unat p = 4096 * k" by (metis kpage_aligned page_aligned_unatE)
  have last: "unat (PHYSTOP - 4096) = 2281697280" by (simp add: PHYSTOP_def KERNBASE_def)
  have "4096 * k < 2281701376" "2281697280 \<le> 4096 * k"
    using k up last unat_PHYSTOP by (auto simp: one_page_def kpage_def word_le_nat_alt word_less_nat_alt)
  then have "k = 557055" by linarith
  then have "unat p = unat (PHYSTOP - 4096)" using up last by simp
  then show "p = PHYSTOP - 4096" by (simp add: word_unat_eq_iff)
qed (simp add: kpage_def one_page_def PHYSTOP_def KERNBASE_def page_aligned_def)

lemma one_page_free: "free_pages (one_page c) = (if c = 0 then {PHYSTOP - 4096} else {})"
proof -
  have "refs (one_page c) p = c" for p by (simp add: refs_def one_page_def)
  then show ?thesis by (auto simp: free_pages_def one_page_kpage)
qed

lemma load64_zero: "load64 (\<lambda>_. 0) a = 0"
proof -
  have "le_bytes n (\<lambda>_. 0) = (0 :: u64)" for n by (induction n) auto
  then show ?thesis by (simp add: load64_def)
qed

lemma one_page_inv: "0 \<le> c \<Longrightarrow> kmem_inv (one_page c)"
proof -
  assume c: "0 \<le> c"
  have "kmem_ok (one_page c)"
  proof (rule kmem_okI)
    show "flist (mem (one_page c)) (freelist (one_page c)) (if c = 0 then [PHYSTOP - 4096] else [])"
      by (auto simp: one_page_def load64_zero PHYSTOP_def KERNBASE_def)
  qed (use c one_page_free [of c] in \<open>auto simp: one_page_def PHYSTOP_def KERNBASE_def refs_def\<close>)
  then show ?thesis by (simp add: kmem_inv_def one_page_def)
qed

text \<open>
  (C28) Boot of the allocator: from an empty free list \<^verbatim>\<open>kinit\<close> returns with the allocator's invariant in
  place and with every page between \<^verbatim>\<open>end\<close> and \<^verbatim>\<open>PHYSTOP\<close> free, exactly once on the list;
  \<^verbatim>\<open>kfreepages\<close> then counts them.
\<close>

theorem kinit_frees_all:
  assumes "freelist s = 0" "KERNBASE \<le> kend s" "kend s \<le> PHYSTOP"
  shows "\<exists>t. kinit s = Ok () t \<and> kmem_inv t \<and> free_pages t = {p. kpage s p} \<and>
    kfreepages t = Ok (int (card {p. kpage s p})) t"
proof -
  define s0 where "s0 = (initlock KmemLock s)\<lparr>refcnt := (\<lambda>_. 0)\<rparr>"
  define p where "p = PGROUNDUP (kend s)"
  have ke: "unat (kend s) \<le> 2281701376"
    using assms(3) unat_PHYSTOP by (simp add: word_le_nat_alt)
  have up: "unat p = (unat (kend s) + 4095) div 4096 * 4096"
    unfolding p_def using ke by (intro unat_PGROUNDUP) simp
  have al: "page_aligned p" using up by (simp add: page_aligned_unat)
  have "unat (kend s) \<le> unat p" "unat p \<le> unat PHYSTOP"
    unfolding up unat_PHYSTOP using ke by (auto simp: dest: div_le_mono [of _ _ 4096])
  then have le: "kend s \<le> p" "p \<le> PHYSTOP" by (simp_all add: word_le_nat_alt)
  have kp: "kpage s0 = kpage s" by (rule ext) (simp add: s0_def initlock_def kpage_def)
  have "\<not> (kpage s0 q \<and> q < p)" for q
  proof
    assume q: "kpage s0 q \<and> q < p"
    then obtain k where "unat q = 4096 * k" by (metis kpage_aligned page_aligned_unatE)
    moreover have "unat (kend s) \<le> unat q" "unat q < unat p"
      using q kp by (auto simp: kpage_def word_le_nat_alt word_less_nat_alt)
    ultimately show False unfolding up using round_up_least by (metis not_less)
  qed
  then have "freed_below p s0"
    using assms(1) by (auto simp: freed_below_def s0_def initlock_def intro!: exI [of _ "[]"])
  moreover have "unat (PHYSTOP div PGSIZE) = 557056" by (simp add: PHYSTOP_def KERNBASE_def PGSIZE_def)
  ultimately obtain t where t: "freerange (kend s) PHYSTOP s0 = Ok () t" "freed_below PHYSTOP t" "kmem_frame s0 t"
    using freerange_loop_ok [of p s0 "Suc 557056"] al le assms(2) unat_PHYSTOP
    unfolding freerange_def p_def [symmetric] by (auto simp: s0_def initlock_def)
  have "kend t = kend s" using kmem_frameD(2) [OF t(3)] by (simp add: s0_def initlock_def)
  then have "kmem_inv t" "free_pages t = {q. kpage s q}"
    using kmem_inv_freed [OF t(2)] assms(2,3) kmem_frameD(4) [OF t(3)] kp by auto
  then show ?thesis using t(1) kfreepages_spec [of t] by (simp add: kinit_def s0_def)
qed

theorem kinit_frees_all_witness:
  "\<exists>t. kinit small_boot = Ok () t \<and> kmem_inv t \<and> free_pages t = {p. kpage small_boot p} \<and>
    kfreepages t = Ok (int (card {p. kpage small_boot p})) t"
  by (rule kinit_frees_all) (simp_all add: small_boot_def PHYSTOP_def KERNBASE_def)

text \<open>
  (C9) \<^verbatim>\<open>kalloc\<close> returns 0 and changes nothing when no page is free. Otherwise it returns a
  page that was free, now with one reference and filled with the junk byte 5; it leaves every
  other page's bytes and reference count alone and keeps the allocator's invariant.
\<close>

theorem kalloc_correct:
  assumes "kmem_inv s"
  shows "if free_pages s = {} then kalloc s = Ok 0 s
    else \<exists>p t. kalloc s = Ok p t \<and> p \<in> free_pages s \<and> p \<noteq> 0 \<and> kmem_inv t \<and> kmem_frame s t \<and>
      free_pages t = free_pages s - {p} \<and> refs t p = 1 \<and>
      (\<forall>q. kpage s q \<and> q \<noteq> p \<longrightarrow> refs t q = refs s q) \<and>
      (\<forall>x. mem t x = (if x \<in> page_bytes p then 5 else mem s x))"
proof (cases "free_pages s = {}")
  case True
  then show ?thesis using kalloc_empty assms by simp
next
  case False
  obtain p t where t: "kalloc s = Ok p t" "p \<in> free_pages s" "p \<noteq> 0" "kmem_inv t" "kmem_frame s t"
    "refcnt t = (refcnt s)(pa2idx p := 1)" "free_pages t = free_pages s - {p}"
    "mem t = memset (mem s) p 5 4096"
    using kalloc_page [OF assms False] .
  moreover have "refs t p = 1" "\<forall>q. kpage s q \<and> q \<noteq> p \<longrightarrow> refs t q = refs s q"
    using kalloc_contract [OF assms False] t(1) by auto
  ultimately show ?thesis using False by (auto simp: memset_page)
qed

theorem kalloc_correct_witness:
  "kalloc (one_page 1) = Ok 0 (one_page 1) \<and>
   (\<exists>t. kalloc (one_page 0) = Ok (PHYSTOP - 4096) t \<and> kmem_inv t \<and> free_pages t = {})"
proof -
  have ne: "free_pages (one_page 0) \<noteq> {}" by (simp add: one_page_free)
  have "\<exists>p t. kalloc (one_page 0) = Ok p t \<and> p \<in> free_pages (one_page 0) \<and> kmem_inv t \<and>
      free_pages t = free_pages (one_page 0) - {p}"
    using kalloc_correct [OF one_page_inv [of 0]] unfolding if_not_P [OF ne] by blast
  moreover have "kalloc (one_page 1) = Ok 0 (one_page 1)"
    using kalloc_correct [OF one_page_inv [of 1]] by (simp add: one_page_free)
  ultimately show ?thesis by (auto simp: one_page_free)
qed

text \<open>
  (C2) \<^verbatim>\<open>kfree\<close> on every branch. A bad address and a page that is already free stop the
  kernel. A shared page loses one reference and keeps its contents. The last reference
  puts the page on the free list, changes no byte outside it and keeps the invariant.
\<close>

theorem kfree_correct:
  assumes "kmem_inv s"
  shows "if \<not> kpage s p then kfree p s = Panic ''kfree''
    else if refs s p = 0 then kfree p s = Panic ''kfree ref''
    else \<exists>t. kfree p s = Ok () t \<and> kmem_inv t \<and> kmem_frame s t \<and> refs t p = refs s p - 1 \<and>
      (\<forall>q. kpage s q \<and> q \<noteq> p \<longrightarrow> refs t q = refs s q) \<and>
      (if 1 < refs s p then mem t = mem s \<and> free_pages t = free_pages s
       else free_pages t = insert p (free_pages s) \<and> (\<forall>x. x \<notin> page_bytes p \<longrightarrow> mem t x = mem s x))"
proof -
  have "\<exists>t. kfree p s = Ok () t \<and> kmem_inv t \<and> kmem_frame s t \<and> refs t p = refs s p - 1 \<and>
      (\<forall>q. kpage s q \<and> q \<noteq> p \<longrightarrow> refs t q = refs s q) \<and>
      (if 1 < refs s p then mem t = mem s \<and> free_pages t = free_pages s
       else free_pages t = insert p (free_pages s) \<and> (\<forall>x. x \<notin> page_bytes p \<longrightarrow> mem t x = mem s x))"
    if p: "kpage s p" "1 \<le> refs s p"
  proof -
    obtain t where t: "kfree p s = Ok () t" "kmem_inv t" "kmem_frame s t"
      "refcnt t = (refcnt s)(pa2idx p := refs s p - 1)"
      "\<And>x. x \<notin> page_bytes p \<Longrightarrow> mem t x = mem s x" "1 < refs s p \<Longrightarrow> mem t = mem s"
      "free_pages t = (if refs s p = 1 then insert p (free_pages s) else free_pages s)"
      by (rule kfree_spec [OF assms p]) blast
    have "refs t q = refs s q" if "kpage s q \<and> q \<noteq> p" for q
      using t(4) pa2idx_kpage [OF _ p(1), of q] assms that by (auto simp: refs_def kmem_inv_def)
    moreover have "refs t p = refs s p - 1" using t(4) by (simp add: refs_def)
    ultimately show ?thesis using t p by (intro exI [of _ t]) auto
  qed
  moreover have "kpage s p \<Longrightarrow> refs s p = 0 \<or> 1 \<le> refs s p"
    using assms by (fastforce simp: kmem_inv_def kmem_ok_def)
  moreover have "kpage s p \<Longrightarrow> refs s p = 0 \<Longrightarrow> p \<in> free_pages s" by (simp add: free_pages_def)
  ultimately show ?thesis
    using kfree_bad [of s p] kfree_free [OF assms, of p]
    by (cases "kpage s p"; cases "refs s p = 0") (simp_all only: if_False if_True not_True_eq_False simp_thms)
qed

theorem kfree_correct_witness:
  "kfree 0 (one_page 1) = Panic ''kfree'' \<and>
   kfree (PHYSTOP - 4096) (one_page 0) = Panic ''kfree ref'' \<and>
   (\<exists>t. kfree (PHYSTOP - 4096) (one_page 1) = Ok () t \<and> free_pages t = {PHYSTOP - 4096})"
proof -
  let ?p = "PHYSTOP - 4096"
  have r: "refs (one_page c) p = c" for c p by (simp add: refs_def one_page_def)
  have n: "\<not> kpage (one_page 1) 0" by (simp add: one_page_kpage PHYSTOP_def KERNBASE_def)
  have k: "\<not> \<not> kpage (one_page c) ?p" for c by (simp add: one_page_kpage)
  have "\<exists>t. kfree ?p (one_page 1) = Ok () t \<and> free_pages t = insert ?p (free_pages (one_page 1))"
    using kfree_correct [OF one_page_inv [of 1], of ?p] unfolding if_not_P [OF k] r by auto
  moreover have "kfree 0 (one_page 1) = Panic ''kfree''"
    using kfree_correct [OF one_page_inv [of 1], of 0] unfolding if_P [OF n] by simp
  moreover have "kfree ?p (one_page 0) = Panic ''kfree ref''"
    using kfree_correct [OF one_page_inv [of 0], of ?p] unfolding if_not_P [OF k] r by simp
  ultimately show ?thesis by (simp add: one_page_free)
qed

text \<open>
  (C29) A page that \<^verbatim>\<open>kalloc\<close> handed out and that is freed again leaves the set of free pages
  as it was.
\<close>

theorem kalloc_kfree_roundtrip:
  assumes "kmem_inv s" "free_pages s \<noteq> {}"
  shows "\<exists>p t. bnd (kalloc s) (\<lambda>p t. bnd (kfree p t) (\<lambda>_ u. Ok p u)) = Ok p t \<and> kmem_inv t \<and>
    free_pages t = free_pages s \<and> p \<in> free_pages s"
  using assms by (rule pages.alloc_then_free)

theorem kalloc_kfree_roundtrip_witness:
  "\<exists>p t. bnd (kalloc (one_page 0)) (\<lambda>p t. bnd (kfree p t) (\<lambda>_ u. Ok p u)) = Ok p t \<and> kmem_inv t \<and>
    free_pages t = {PHYSTOP - 4096} \<and> p = PHYSTOP - 4096"
  using kalloc_kfree_roundtrip [of "one_page 0"] by (simp add: one_page_inv one_page_free)

end
