(* ===== verification/Vm.thy ===== *)
theory Vm
  imports Kalloc
begin

unbundle bit_operations_syntax

text \<open>
  \<^verbatim>\<open>kernel/vm.c\<close>, the part that builds and edits page tables: the three-level walk, mapping and
  unmapping, growing and shrinking a process, the copy of an address space for fork, and the
  kernel's own page table (with \<^verbatim>\<open>proc_mapstacks\<close> of \<^verbatim>\<open>kernel/proc.c\<close>, which it calls).
  Page tables are the words that the walk reads in memory. Fault handling and the copies
  between user and kernel space, which need the process and the file system, are in \<open>Usermem\<close>.
\<close>

text \<open>The kernel's page table, the addresses the linker gives, and the hart's \<^verbatim>\<open>satp\<close> register.\<close>

record kvm = kmem +
  kernel_pagetable :: addr
  etext :: addr
  trampoline :: addr
  satp :: u64

section \<open>The walk\<close>

primrec walk_level :: "nat \<Rightarrow> addr \<Rightarrow> u64 \<Rightarrow> bool \<Rightarrow> 'a kmem_scheme \<Rightarrow> ('a kmem_scheme, addr) out" where
  "walk_level 0 pagetable va alloc s = Ok (slot pagetable (unat (PX 0 va))) s"
| "walk_level (Suc l) pagetable va alloc s =
     (let pte = slot pagetable (unat (PX (Suc l) va)) in
      if load64 (mem s) pte AND PTE_V \<noteq> 0
      then walk_level l (PTE2PA (load64 (mem s) pte)) va alloc s
      else if \<not> alloc then Ok 0 s
      else bnd (kalloc s) (\<lambda>pagetable s.
        if pagetable = 0 then Ok 0 s
        else
          let s = s\<lparr>mem := memset (mem s) pagetable 0 4096\<rparr>;
              s = s\<lparr>mem := store64 (mem s) pte (PA2PTE pagetable OR PTE_V)\<rparr>
          in walk_level l pagetable va alloc s))"

definition walk :: "addr \<Rightarrow> u64 \<Rightarrow> bool \<Rightarrow> 'a kmem_scheme \<Rightarrow> ('a kmem_scheme, addr) out" where
  "walk pagetable va alloc s =
     (if va \<ge> MAXVA then Panic ''walk'' else walk_level 2 pagetable va alloc s)"

definition walkaddr :: "addr \<Rightarrow> u64 \<Rightarrow> 'a kmem_scheme \<Rightarrow> ('a kmem_scheme, addr) out" where
  "walkaddr pagetable va s =
     (if va \<ge> MAXVA then Ok 0 s
      else bnd (walk pagetable va False s) (\<lambda>pte s.
        if pte = 0 then Ok 0 s
        else if load64 (mem s) pte AND PTE_V = 0 then Ok 0 s
        else if load64 (mem s) pte AND PTE_U = 0 then Ok 0 s
        else Ok (PTE2PA (load64 (mem s) pte)) s))"

definition ismapped :: "addr \<Rightarrow> u64 \<Rightarrow> 'a kmem_scheme \<Rightarrow> ('a kmem_scheme, bool) out" where
  "ismapped pagetable va s =
     bnd (walk pagetable va False s) (\<lambda>pte s.
       if pte = 0 then Ok False s
       else if load64 (mem s) pte AND PTE_V \<noteq> 0 then Ok True s
       else Ok False s)"

section \<open>Mapping and unmapping\<close>

primrec mappages_loop ::
  "nat \<Rightarrow> addr \<Rightarrow> u64 \<Rightarrow> u64 \<Rightarrow> u64 \<Rightarrow> u64 \<Rightarrow> 'a kmem_scheme \<Rightarrow> ('a kmem_scheme, int) out" where
  "mappages_loop 0 pagetable a last_va pa perm s = Diverge"
| "mappages_loop (Suc n) pagetable a last_va pa perm s =
     bnd (walk pagetable a True s) (\<lambda>pte s.
       if pte = 0 then Ok (-1) s
       else if load64 (mem s) pte AND PTE_V \<noteq> 0 then Panic ''mappages: remap''
       else
         let s = s\<lparr>mem := store64 (mem s) pte (PA2PTE pa OR perm OR PTE_V)\<rparr> in
         if a = last_va then Ok 0 s
         else mappages_loop n pagetable (a + PGSIZE) last_va (pa + PGSIZE) perm s)"

text \<open>The loop ends at the last page, so the number of pages bounds it.\<close>

definition mappages ::
  "addr \<Rightarrow> u64 \<Rightarrow> u64 \<Rightarrow> u64 \<Rightarrow> u64 \<Rightarrow> 'a kmem_scheme \<Rightarrow> ('a kmem_scheme, int) out" where
  "mappages pagetable va sz pa perm s =
     (if va mod PGSIZE \<noteq> 0 then Panic ''mappages: va not aligned''
      else if sz mod PGSIZE \<noteq> 0 then Panic ''mappages: size not aligned''
      else if sz = 0 then Panic ''mappages: size''
      else mappages_loop (unat (sz div PGSIZE)) pagetable va (va + sz - PGSIZE) pa perm s)"

definition uvmcreate :: "'a kmem_scheme \<Rightarrow> ('a kmem_scheme, addr) out" where
  "uvmcreate s =
     bnd (kalloc s) (\<lambda>pagetable s.
       if pagetable = 0 then Ok 0 s
       else Ok pagetable (s\<lparr>mem := memset (mem s) pagetable 0 4096\<rparr>))"

primrec uvmunmap_loop :: "nat \<Rightarrow> addr \<Rightarrow> u64 \<Rightarrow> u64 \<Rightarrow> bool \<Rightarrow> 'a kmem_scheme \<Rightarrow> ('a kmem_scheme, unit) out" where
  "uvmunmap_loop 0 pagetable a lim do_free s = Diverge"
| "uvmunmap_loop (Suc n) pagetable a lim do_free s =
     (if a < lim then
        bnd (walk pagetable a False s) (\<lambda>pte s.
          if pte = 0 then uvmunmap_loop n pagetable (a + PGSIZE) lim do_free s
          else if load64 (mem s) pte AND PTE_V = 0
          then uvmunmap_loop n pagetable (a + PGSIZE) lim do_free s
          else
            bnd (if do_free then kfree (PTE2PA (load64 (mem s) pte)) s else Ok () s) (\<lambda>_ s.
              uvmunmap_loop n pagetable (a + PGSIZE) lim do_free
                (s\<lparr>mem := store64 (mem s) pte 0\<rparr>)))
      else Ok () s)"

definition uvmunmap :: "addr \<Rightarrow> u64 \<Rightarrow> u64 \<Rightarrow> bool \<Rightarrow> 'a kmem_scheme \<Rightarrow> ('a kmem_scheme, unit) out" where
  "uvmunmap pagetable va npages do_free s =
     (if va mod PGSIZE \<noteq> 0 then Panic ''uvmunmap: not aligned''
      else uvmunmap_loop (Suc (unat npages)) pagetable va (va + npages * PGSIZE) do_free s)"

text \<open>The page count goes through an \<^verbatim>\<open>int\<close>, which keeps its low 32 bits, with their sign.\<close>

definition uvmdealloc :: "addr \<Rightarrow> u64 \<Rightarrow> u64 \<Rightarrow> 'a kmem_scheme \<Rightarrow> ('a kmem_scheme, u64) out" where
  "uvmdealloc pagetable oldsz newsz s =
     (if newsz \<ge> oldsz then Ok oldsz s
      else if PGROUNDUP newsz < PGROUNDUP oldsz then
        let npages = ucast ((PGROUNDUP oldsz - PGROUNDUP newsz) div PGSIZE) :: u32 in
        bnd (uvmunmap pagetable (PGROUNDUP newsz) (scast npages) True s) (\<lambda>_ s. Ok newsz s)
      else Ok newsz s)"

primrec uvmalloc_loop ::
  "nat \<Rightarrow> addr \<Rightarrow> u64 \<Rightarrow> u64 \<Rightarrow> u64 \<Rightarrow> u64 \<Rightarrow> 'a kmem_scheme \<Rightarrow> ('a kmem_scheme, u64) out" where
  "uvmalloc_loop 0 pagetable oldsz a newsz xperm s = Diverge"
| "uvmalloc_loop (Suc n) pagetable oldsz a newsz xperm s =
     (if a < newsz then
        bnd (kalloc s) (\<lambda>pa s.
          if pa = 0 then bnd (uvmdealloc pagetable a oldsz s) (\<lambda>_ s. Ok 0 s)
          else
            let s = s\<lparr>mem := memset (mem s) pa 0 4096\<rparr> in
            bnd (mappages pagetable a PGSIZE pa (PTE_R OR PTE_U OR xperm) s) (\<lambda>r s.
              if r \<noteq> 0
              then bnd (kfree pa s) (\<lambda>_ s. bnd (uvmdealloc pagetable a oldsz s) (\<lambda>_ s. Ok 0 s))
              else uvmalloc_loop n pagetable oldsz (a + PGSIZE) newsz xperm s))
      else Ok newsz s)"

definition uvmalloc :: "addr \<Rightarrow> u64 \<Rightarrow> u64 \<Rightarrow> u64 \<Rightarrow> 'a kmem_scheme \<Rightarrow> ('a kmem_scheme, u64) out" where
  "uvmalloc pagetable oldsz newsz xperm s =
     (if newsz < oldsz then Ok oldsz s
      else uvmalloc_loop (unat (newsz div PGSIZE) + 2) pagetable (PGROUNDUP oldsz) (PGROUNDUP oldsz) newsz xperm s)"

text \<open>The recursion of \<^verbatim>\<open>freewalk\<close>, bounded by the depth of the tree; an Sv39 table has three levels.\<close>

primrec freewalk :: "nat \<Rightarrow> addr \<Rightarrow> 'a kmem_scheme \<Rightarrow> ('a kmem_scheme, unit) out" where
  "freewalk 0 pagetable s = Diverge"
| "freewalk (Suc n) pagetable s =
     bnd (foreach [0..<512] (\<lambda>i s.
       let pte = load64 (mem s) (slot pagetable i) in
       if pte AND PTE_V \<noteq> 0 \<and> pte AND (PTE_R OR PTE_W OR PTE_X) = 0 then
         bnd (freewalk n (PTE2PA pte) s) (\<lambda>_ s. Ok () (s\<lparr>mem := store64 (mem s) (slot pagetable i) 0\<rparr>))
       else if pte AND PTE_V \<noteq> 0 then Panic ''freewalk: leaf''
       else Ok () s) s) (\<lambda>_ s. kfree pagetable s)"

definition uvmfree :: "addr \<Rightarrow> u64 \<Rightarrow> 'a kmem_scheme \<Rightarrow> ('a kmem_scheme, unit) out" where
  "uvmfree pagetable sz s =
     bnd (if sz > 0 then uvmunmap pagetable 0 (PGROUNDUP sz div PGSIZE) True s else Ok () s) (\<lambda>_ s.
     freewalk 3 pagetable s)"

section \<open>Fork and exec support\<close>

primrec uvmcopy_loop :: "nat \<Rightarrow> addr \<Rightarrow> addr \<Rightarrow> u64 \<Rightarrow> u64 \<Rightarrow> 'a kmem_scheme \<Rightarrow> ('a kmem_scheme, int) out" where
  "uvmcopy_loop 0 old new i sz s = Diverge"
| "uvmcopy_loop (Suc n) old new i sz s =
     (if i < sz then
        bnd (walk old i False s) (\<lambda>pte s.
          if pte = 0 then uvmcopy_loop n old new (i + PGSIZE) sz s
          else if load64 (mem s) pte AND PTE_V = 0 then uvmcopy_loop n old new (i + PGSIZE) sz s
          else
            let pa = PTE2PA (load64 (mem s) pte);
                flags = PTE_FLAGS (load64 (mem s) pte);
                (flags, s) =
                  (if flags AND PTE_W \<noteq> 0
                   then let flags = flags AND NOT PTE_W OR PTE_COW
                        in (flags, s\<lparr>mem := store64 (mem s) pte (PA2PTE pa OR flags)\<rparr>)
                   else (flags, s))
            in bnd (mappages new i PGSIZE pa flags s) (\<lambda>r s.
                 if r \<noteq> 0 then bnd (uvmunmap new 0 (i div PGSIZE) True s) (\<lambda>_ s. Ok (-1) s)
                 else bnd (krefinc pa s) (\<lambda>_ s. uvmcopy_loop n old new (i + PGSIZE) sz s)))
      else Ok 0 s)"

definition uvmcopy :: "addr \<Rightarrow> addr \<Rightarrow> u64 \<Rightarrow> 'a kmem_scheme \<Rightarrow> ('a kmem_scheme, int) out" where
  "uvmcopy old new sz s = uvmcopy_loop (unat (sz div PGSIZE) + 2) old new 0 sz s"

definition uvmclear :: "addr \<Rightarrow> u64 \<Rightarrow> 'a kmem_scheme \<Rightarrow> ('a kmem_scheme, unit) out" where
  "uvmclear pagetable va s =
     bnd (walk pagetable va False s) (\<lambda>pte s.
       if pte = 0 then Panic ''uvmclear''
       else Ok () (s\<lparr>mem := store64 (mem s) pte (load64 (mem s) pte AND NOT PTE_U)\<rparr>))"

section \<open>The kernel page table\<close>

definition kvmmap ::
  "addr \<Rightarrow> u64 \<Rightarrow> u64 \<Rightarrow> u64 \<Rightarrow> u64 \<Rightarrow> 'a kmem_scheme \<Rightarrow> ('a kmem_scheme, unit) out" where
  "kvmmap kpgtbl va pa sz perm s =
     bnd (mappages kpgtbl va sz pa perm s) (\<lambda>r s. if r \<noteq> 0 then Panic ''kvmmap'' else Ok () s)"

definition proc_mapstacks :: "addr \<Rightarrow> 'a kmem_scheme \<Rightarrow> ('a kmem_scheme, unit) out" where
  "proc_mapstacks kpgtbl s =
     foreach [0..<NPROC] (\<lambda>p s.
       bnd (kalloc s) (\<lambda>pa s.
         if pa = 0 then Panic ''kalloc''
         else kvmmap kpgtbl (KSTACK p) pa PGSIZE (PTE_R OR PTE_W) s)) s"

definition kvmmake :: "'a kvm_scheme \<Rightarrow> ('a kvm_scheme, addr) out" where
  "kvmmake s =
     bnd (kalloc s) (\<lambda>kpgtbl s.
     let s = s\<lparr>mem := memset (mem s) kpgtbl 0 4096\<rparr> in
     bnd (kvmmap kpgtbl UART0 UART0 PGSIZE (PTE_R OR PTE_W) s) (\<lambda>_ s.
     bnd (kvmmap kpgtbl VIRTIO0 VIRTIO0 PGSIZE (PTE_R OR PTE_W) s) (\<lambda>_ s.
     bnd (kvmmap kpgtbl PLIC PLIC 0x4000000 (PTE_R OR PTE_W) s) (\<lambda>_ s.
     bnd (kvmmap kpgtbl KERNBASE KERNBASE (etext s - KERNBASE) (PTE_R OR PTE_X) s) (\<lambda>_ s.
     bnd (kvmmap kpgtbl (etext s) (etext s) (PHYSTOP - etext s) (PTE_R OR PTE_W) s) (\<lambda>_ s.
     bnd (kvmmap kpgtbl TRAMPOLINE (trampoline s) PGSIZE (PTE_R OR PTE_X) s) (\<lambda>_ s.
     bnd (proc_mapstacks kpgtbl s) (\<lambda>_ s. Ok kpgtbl s))))))))"

definition kvminit :: "'a kvm_scheme \<Rightarrow> ('a kvm_scheme, unit) out" where
  "kvminit s = bnd (kvmmake s) (\<lambda>kpgtbl s. Ok () (s\<lparr>kernel_pagetable := kpgtbl\<rparr>))"

definition kvminithart :: "'a kvm_scheme \<Rightarrow> 'a kvm_scheme" where
  "kvminithart s = s\<lparr>satp := MAKE_SATP (kernel_pagetable s)\<rparr>"

end
