(* ===== verification/Ptree.thy ===== *)
theory Ptree
  imports Vm
begin

unbundle bit_operations_syntax

text \<open>
  The tree that a page table in memory represents: its table pages, the leaf entry of a
  virtual address, the well-formedness that the kernel keeps, and how stores to entries
  and new table pages change it. Every routine of \<^verbatim>\<open>kernel/vm.c\<close> is specified through
  the leaf entries.
\<close>

section \<open>Table pages and leaf entries\<close>

text \<open>A table page is named by the indices that lead to it, the last one first.\<close>

primrec tbl :: "mem \<Rightarrow> addr \<Rightarrow> nat list \<Rightarrow> addr option" where
  "tbl m r [] = Some r"
| "tbl m r (i # p) = (case tbl m r p of
     None \<Rightarrow> None
   | Some t \<Rightarrow> (if load64 m (slot t i) AND PTE_V \<noteq> 0 then Some (PTE2PA (load64 m (slot t i))) else None))"

definition paths :: "nat list set" where
  "paths = {p. length p \<le> 2 \<and> set p \<subseteq> {..<512}}"

definition tabs :: "mem \<Rightarrow> addr \<Rightarrow> addr set" where
  "tabs m r = {t. \<exists>p \<in> paths. tbl m r p = Some t}"

definition lpath :: "u64 \<Rightarrow> nat list" where
  "lpath va = [unat (PX 1 va), unat (PX 2 va)]"

text \<open>The entry that maps \<open>va\<close>; 0, an invalid entry, when its table page does not exist.\<close>

definition leaf :: "mem \<Rightarrow> addr \<Rightarrow> u64 \<Rightarrow> u64" where
  "leaf m r va = (case tbl m r (lpath va) of None \<Rightarrow> 0 | Some t \<Rightarrow> load64 m (slot t (unat (PX 0 va))))"

definition pteaddr :: "mem \<Rightarrow> addr \<Rightarrow> u64 \<Rightarrow> addr" where
  "pteaddr m r va = (case tbl m r (lpath va) of None \<Rightarrow> 0 | Some t \<Rightarrow> slot t (unat (PX 0 va)))"

definition tbl_inj :: "mem \<Rightarrow> addr \<Rightarrow> bool" where
  "tbl_inj m r \<longleftrightarrow> (\<forall>p \<in> paths. \<forall>q \<in> paths. \<forall>t. tbl m r p = Some t \<and> tbl m r q = Some t \<longrightarrow> p = q)"

text \<open>
  A page table is well formed when its table pages are distinct allocatable pages, each with
  exactly one reference, and its inner entries carry no permission.
\<close>

definition pt_ok :: "'a kmem_scheme \<Rightarrow> addr \<Rightarrow> bool" where
  "pt_ok s r \<longleftrightarrow> tbl_inj (mem s) r \<and> (\<forall>t \<in> tabs (mem s) r. kpage s t \<and> refs s t = 1) \<and>
     (\<forall>p \<in> paths. \<forall>t i. length p \<le> 1 \<and> tbl (mem s) r p = Some t \<and> i < 512 \<and>
        load64 (mem s) (slot t i) AND PTE_V \<noteq> 0 \<longrightarrow>
        load64 (mem s) (slot t i) AND (PTE_R OR PTE_W OR PTE_X) = 0)"

lemma paths_Nil [simp]: "[] \<in> paths"
  by (simp add: paths_def)

lemma paths_tl: "i # p \<in> paths \<Longrightarrow> p \<in> paths \<and> i < 512 \<and> length p \<le> 1"
  by (simp add: paths_def)

lemma paths_Cons: "p \<in> paths \<Longrightarrow> length p \<le> 1 \<Longrightarrow> i < 512 \<Longrightarrow> i # p \<in> paths"
  by (simp add: paths_def)

lemma lpath_paths [simp]: "lpath va \<in> paths"
  by (simp add: lpath_def paths_def)

lemma tabsI: "tbl m r p = Some t \<Longrightarrow> p \<in> paths \<Longrightarrow> t \<in> tabs m r"
  by (auto simp: tabs_def)

lemma root_tabs [simp]: "r \<in> tabs m r"
  by (rule tabsI [of _ _ "[]"]) auto

lemma tbl_injD: "tbl_inj m r \<Longrightarrow> p \<in> paths \<Longrightarrow> q \<in> paths \<Longrightarrow> tbl m r p = Some t \<Longrightarrow> tbl m r q = Some t \<Longrightarrow> p = q"
  by (auto simp: tbl_inj_def)

section \<open>Memory that the tree does not use\<close>

lemma tbl_cong:
  assumes "\<And>t x. t \<in> tabs m r \<Longrightarrow> x \<in> page_bytes t \<Longrightarrow> m' x = m x" "p \<in> paths"
  shows "tbl m' r p = tbl m r p"
  using assms(2)
proof (induction p)
  case (Cons i p)
  then have p: "p \<in> paths" "i < 512" using paths_tl by auto
  have "load64 m' (slot t i) = load64 m (slot t i)" if "tbl m r p = Some t" for t
    using that p tabsI [OF that] by (intro load64_slot_cong assms(1)) auto
  then show ?case using Cons.IH p by (auto split: option.splits)
qed simp

lemma tabs_cong:
  assumes "\<And>t x. t \<in> tabs m r \<Longrightarrow> x \<in> page_bytes t \<Longrightarrow> m' x = m x"
  shows "tabs m' r = tabs m r"
  using tbl_cong [OF assms] by (auto simp: tabs_def)

lemma leaf_cong:
  assumes "\<And>t x. t \<in> tabs m r \<Longrightarrow> x \<in> page_bytes t \<Longrightarrow> m' x = m x"
  shows "leaf m' r va = leaf m r va" "pteaddr m' r va = pteaddr m r va"
proof -
  have t: "tbl m' r (lpath va) = tbl m r (lpath va)" by (rule tbl_cong [OF assms]) auto
  have "load64 m' (slot t (unat (PX 0 va))) = load64 m (slot t (unat (PX 0 va)))"
    if "tbl m r (lpath va) = Some t" for t
    using tabsI [OF that lpath_paths] by (intro load64_slot_cong assms) auto
  then show "leaf m' r va = leaf m r va" "pteaddr m' r va = pteaddr m r va"
    using t by (auto simp: leaf_def pteaddr_def split: option.splits)
qed

section \<open>Changing a leaf entry\<close>

lemma tbl_store_leaf:
  assumes inj: "tbl_inj m r" and al: "\<And>t. t \<in> tabs m r \<Longrightarrow> page_aligned t"
    and t: "tbl m r q = Some t" "q \<in> paths" "length q = 2" and i: "i < 512" and p: "p \<in> paths"
  shows "tbl (store64 m (slot t i) v) r p = tbl m r p"
  using p
proof (induction p)
  case (Cons j p)
  then have p: "p \<in> paths" "j < 512" "length p \<le> 1" using paths_tl by auto
  have "load64 (store64 m (slot t i) v) (slot u j) = load64 m (slot u j)" if "tbl m r p = Some u" for u
  proof -
    have "t \<noteq> u" using tbl_injD [OF inj t(2) p(1) t(1)] that t(3) p(3) by auto
    then show ?thesis
      using i p al tabsI [OF t(1,2)] tabsI [OF that p(1)] by (intro load64_store64_other_page) auto
  qed
  then show ?case using Cons.IH p by (auto split: option.splits)
qed simp

text \<open>Two addresses on the same page.\<close>

definition same_page :: "u64 \<Rightarrow> u64 \<Rightarrow> bool" where
  "same_page a b \<longleftrightarrow> PGROUNDDOWN a = PGROUNDDOWN b"

lemma same_page_unat: "same_page a b \<longleftrightarrow> unat a div 4096 = unat b div 4096"
  by (auto simp: same_page_def word_unat_eq_iff unat_PGROUNDDOWN)

lemma same_page_refl [simp]: "same_page a a"
  by (simp add: same_page_def)

lemma same_page_aligned: "page_aligned a \<Longrightarrow> page_aligned b \<Longrightarrow> same_page a b \<longleftrightarrow> a = b"
  by (simp add: same_page_def PGROUNDDOWN_id)

lemma page_number: "n = 4096 * k + n mod 4096 \<Longrightarrow> n div 4096 = (k :: nat)"
  using mult_div_mod_eq [of 4096 n] by linarith

lemma PX_same_page:
  assumes "va < MAXVA" "vb < MAXVA"
  shows "same_page va vb \<longleftrightarrow> lpath va = lpath vb \<and> unat (PX 0 va) = unat (PX 0 vb)"
proof
  assume "same_page va vb"
  then have e: "unat va div 4096 = unat vb div 4096" by (simp add: same_page_unat)
  have "unat v div 2 ^ (12 + 9 * l) = unat v div 4096 div 2 ^ (9 * l)" for v :: u64 and l
    by (simp add: div_mult2_eq power_add)
  then have "unat (PX l va) = unat (PX l vb)" for l using e by (simp add: unat_PX)
  then show "lpath va = lpath vb \<and> unat (PX 0 va) = unat (PX 0 vb)" by (simp add: lpath_def)
next
  assume e: "lpath va = lpath vb \<and> unat (PX 0 va) = unat (PX 0 vb)"
  let ?k = "unat (PX 2 va) * 2 ^ 18 + unat (PX 1 va) * 2 ^ 9 + unat (PX 0 va)"
  have "unat va = 4096 * ?k + unat va mod 4096" using va_split [OF assms(1)] by simp
  moreover have "unat vb = 4096 * ?k + unat vb mod 4096"
    using va_split [OF assms(2)] e by (simp add: lpath_def)
  ultimately have "unat va div 4096 = ?k" "unat vb div 4096 = ?k"
    by (blast intro: page_number)+
  then show "same_page va vb" by (simp add: same_page_unat)
qed

lemma leaf_store:
  assumes inj: "tbl_inj m r" and al: "\<And>t. t \<in> tabs m r \<Longrightarrow> page_aligned t"
    and t: "tbl m r (lpath va) = Some t" and va: "va < MAXVA" "vb < MAXVA"
  shows "leaf (store64 m (slot t (unat (PX 0 va))) v) r vb = (if same_page va vb then v else leaf m r vb)"
proof -
  let ?m = "store64 m (slot t (unat (PX 0 va))) v"
  have tb: "tbl ?m r (lpath vb) = tbl m r (lpath vb)"
    by (rule tbl_store_leaf [OF inj al t lpath_paths _ PX_less lpath_paths]) (auto simp: lpath_def)
  show ?thesis
  proof (cases "tbl m r (lpath vb)")
    case None
    then have "\<not> same_page va vb" using t PX_same_page [OF va] by auto
    then show ?thesis using None tb by (simp add: leaf_def)
  next
    case (Some u)
    have "t = u \<longleftrightarrow> lpath va = lpath vb"
    proof
      assume "t = u"
      then show "lpath va = lpath vb" using tbl_injD [OF inj lpath_paths lpath_paths t] Some by blast
    qed (use t Some in simp)
    moreover have "page_aligned t" "page_aligned u"
      using al [OF tabsI [OF t]] al [OF tabsI [OF Some]] by simp_all
    ultimately show ?thesis
      using tb Some PX_same_page [OF va] by (auto simp: leaf_def load64_store64_slot)
  qed
qed

section \<open>A new table page\<close>

lemma load64_memset0:
  assumes "i < 512"
  shows "load64 (memset m p 0 4096) (slot p i) = 0"
proof -
  have "load64 (memset m p 0 4096) (slot p i) = load64 (\<lambda>_. 0) (slot p i)"
    by (rule load64_slot_cong [OF assms]) (simp add: memset_page)
  then show ?thesis by (simp add: load64_zero)
qed

lemma PTE_V_new: "(PA2PTE pa OR f OR PTE_V) AND PTE_V \<noteq> 0" "(PA2PTE pa OR PTE_V) AND PTE_V \<noteq> 0"
proof -
  have "bit ((w OR PTE_V) AND PTE_V) 0" for w by (simp add: PTE_V_def bit_simps)
  then have *: "(w OR PTE_V) AND PTE_V \<noteq> 0" for w by (metis bit_0_eq bot_apply bot_bool_def)
  show "(PA2PTE pa OR f OR PTE_V) AND PTE_V \<noteq> 0" "(PA2PTE pa OR PTE_V) AND PTE_V \<noteq> 0"
    using * [of "PA2PTE pa OR f"] * [of "PA2PTE pa"] by (simp_all add: or.assoc)
qed

lemma PTE2PA_new: "page_aligned pa \<Longrightarrow> unat pa < 2 ^ 56 \<Longrightarrow> PTE2PA (PA2PTE pa OR PTE_V) = pa"
  by (rule PTE2PA_PA2PTE) (auto simp: PTE_V_def)

lemma PTE_flagless_new: "(PA2PTE pa OR PTE_V) AND (PTE_R OR PTE_W OR PTE_X) = 0"
proof (rule bit_word_eqI)
  fix n assume "n < LENGTH(64)"
  have "bit (14 :: u64) n \<Longrightarrow> n < 10 \<and> n \<noteq> 0"
    using not_bit_of_less [of "14 :: u64" 4 n] by (cases "4 \<le> n"; cases n) auto
  then show "bit ((PA2PTE pa OR PTE_V) AND (PTE_R OR PTE_W OR PTE_X)) n = bit (0 :: u64) n"
    by (auto simp: pte_defs PA2PTE_def bit_simps)
qed

text \<open>Facts about the step that hangs the new table page \<open>pg\<close> into slot \<open>i\<close> of the table at \<open>q\<close>.\<close>

definition hang :: "mem \<Rightarrow> addr \<Rightarrow> nat \<Rightarrow> addr \<Rightarrow> mem" where
  "hang m t i pg = store64 (memset m pg 0 4096) (slot t i) (PA2PTE pg OR PTE_V)"

lemma hang_load:
  assumes "page_aligned pg" "page_aligned t" "page_aligned u" "t \<noteq> pg" "i < 512" "j < 512"
  shows "load64 (hang m t i pg) (slot u j) =
    (if u = t \<and> j = i then PA2PTE pg OR PTE_V else if u = pg then 0 else load64 m (slot u j))"
proof -
  have "load64 (memset m pg 0 4096) (slot u j) = (if u = pg then 0 else load64 m (slot u j))"
  proof (cases "u = pg")
    case False
    then have "page_bytes pg \<inter> page_bytes u = {}" using assms page_bytes_disjoint by blast
    then have "load64 (memset m pg 0 4096) (slot u j) = load64 m (slot u j)"
      by (intro load64_slot_cong [OF assms(6)]) (auto simp: memset_page)
    then show ?thesis using False by simp
  qed (simp add: load64_memset0 assms)
  then show ?thesis using assms by (auto simp: hang_def load64_store64_slot)
qed

lemma hang_outside: "i < 512 \<Longrightarrow> x \<notin> page_bytes pg \<Longrightarrow> x \<notin> page_bytes t \<Longrightarrow> hang m t i pg x = m x"
  by (simp add: hang_def store64_slot_outside memset_page)

lemma tbl_hang:
  assumes inj: "tbl_inj m r" and al: "\<And>t. t \<in> tabs m r \<Longrightarrow> page_aligned t"
    and q: "tbl m r q = Some t" "q \<in> paths" "length q \<le> 1" and i: "i < 512"
    and inv: "load64 m (slot t i) AND PTE_V = 0"
    and pg: "page_aligned pg" "unat pg < 2 ^ 56" "pg \<notin> tabs m r" and p: "p \<in> paths"
  shows "tbl (hang m t i pg) r p = (if p = i # q then Some pg else tbl m r p)"
  using p
proof (induction p)
  case (Cons j p)
  then have p: "p \<in> paths" "j < 512" "length p \<le> 1" using paths_tl by auto
  have ld: "load64 (hang m t i pg) (slot u j) =
      (if u = t \<and> j = i then PA2PTE pg OR PTE_V else load64 m (slot u j))" if "tbl m r p = Some u" for u
  proof -
    have "t \<noteq> pg" "u \<noteq> pg" "page_aligned t" "page_aligned u"
      using tabsI [OF that p(1)] tabsI [OF q(1,2)] al pg by auto
    then show ?thesis using hang_load [of pg t u i j m] pg i p by simp
  qed
  have "tbl (hang m t i pg) r p = (if p = i # q then Some pg else tbl m r p)"
    using Cons.IH p by simp
  moreover have "tbl m r (i # q) = None" using q inv by simp
  moreover have "load64 (hang m t i pg) (slot pg j) = 0"
    using hang_load [of pg t pg i j m] tabsI [OF q(1,2)] al pg i p by auto
  moreover have "u = t \<longleftrightarrow> p = q" if "tbl m r p = Some u" for u
    using that q tbl_injD [OF inj p(1) q(2)] by auto
  ultimately show ?case
    using ld q PTE_V_new(2) PTE2PA_new [OF pg(1,2)] by (auto split: option.splits)
qed simp

lemma leaf_hang:
  assumes inj: "tbl_inj m r" and al: "\<And>t. t \<in> tabs m r \<Longrightarrow> page_aligned t"
    and q: "tbl m r q = Some t" "q \<in> paths" "length q \<le> 1" and i: "i < 512"
    and inv: "load64 m (slot t i) AND PTE_V = 0"
    and pg: "page_aligned pg" "unat pg < 2 ^ 56" "pg \<notin> tabs m r"
  shows "leaf (hang m t i pg) r va = leaf m r va"
proof -
  have tb: "tbl (hang m t i pg) r (lpath va) = (if lpath va = i # q then Some pg else tbl m r (lpath va))"
    by (rule tbl_hang [OF assms lpath_paths])
  have t: "t \<in> tabs m r" "page_aligned t" "t \<noteq> pg" using tabsI [OF q(1,2)] al pg by auto
  show ?thesis
  proof (cases "lpath va = i # q")
    case True
    have "tbl m r (lpath va) = None" using True q inv by simp
    then show ?thesis
      using tb True hang_load [of pg t pg i "unat (PX 0 va)" m] t pg i by (auto simp: leaf_def)
  next
    case False
    have "load64 (hang m t i pg) (slot u (unat (PX 0 va))) = load64 m (slot u (unat (PX 0 va)))"
      if u: "tbl m r (lpath va) = Some u" for u
    proof -
      have "u \<noteq> t" using tbl_injD [OF inj lpath_paths q(2) u] q by (auto simp: lpath_def)
      moreover have "u \<in> tabs m r" using tabsI [OF u lpath_paths] .
      ultimately show ?thesis using hang_load [of pg t u i "unat (PX 0 va)" m] t pg i al by auto
    qed
    then show ?thesis using tb False by (auto simp: leaf_def split: option.splits)
  qed
qed

section \<open>Changes to one page table\<close>

text \<open>
  The state \<open>t\<close> differs from \<open>s\<close> only in the page table \<open>r\<close>, which is still well formed and has lost no
  table page, and in the pages \<open>P\<close>. New table pages were free before, or come from \<open>P\<close>.
\<close>

definition vmod :: "'a kmem_scheme \<Rightarrow> 'a kmem_scheme \<Rightarrow> addr \<Rightarrow> addr set \<Rightarrow> bool" where
  "vmod s t r P \<longleftrightarrow> kmem_inv t \<and> kmem_frame s t \<and> pt_ok t r \<and> tabs (mem s) r \<subseteq> tabs (mem t) r \<and>
     tabs (mem t) r - tabs (mem s) r \<subseteq> free_pages s \<union> P \<and>
     (\<forall>x. (\<forall>p \<in> tabs (mem t) r \<union> P. x \<notin> page_bytes p) \<longrightarrow> mem t x = mem s x) \<and>
     (\<forall>q. kpage s q \<and> q \<notin> tabs (mem t) r \<union> P \<longrightarrow> refs t q = refs s q)"

lemma vmodD:
  assumes "vmod s t r P"
  shows "kmem_inv t" "kmem_frame s t" "pt_ok t r" "tabs (mem s) r \<subseteq> tabs (mem t) r"
    "tabs (mem t) r - tabs (mem s) r \<subseteq> free_pages s \<union> P"
    "(\<And>p. p \<in> tabs (mem t) r \<union> P \<Longrightarrow> x \<notin> page_bytes p) \<Longrightarrow> mem t x = mem s x"
    "kpage s q \<Longrightarrow> q \<notin> tabs (mem t) r \<union> P \<Longrightarrow> refs t q = refs s q"
  using assms by (auto simp: vmod_def)

lemma pt_ok_tabs: "pt_ok s r \<Longrightarrow> t \<in> tabs (mem s) r \<Longrightarrow> kpage s t \<and> refs s t = 1 \<and> page_aligned t"
  by (auto simp: pt_ok_def kpage_def)

lemma pt_ok_inj: "pt_ok s r \<Longrightarrow> tbl_inj (mem s) r"
  by (simp add: pt_ok_def)

lemma pt_ok_not_free: "pt_ok s r \<Longrightarrow> t \<in> tabs (mem s) r \<Longrightarrow> t \<notin> free_pages s"
  by (auto simp: free_pages_def dest: pt_ok_tabs)

lemma vmod_refl: "kmem_inv s \<Longrightarrow> pt_ok s r \<Longrightarrow> vmod s s r P"
  by (simp add: vmod_def)

lemma vmod_trans:
  assumes a: "vmod s t r P" and b: "vmod t u r Q"
  shows "vmod s u r (P \<union> Q)"
proof -
  note a = vmodD [OF a] and b = vmodD [OF b]
  have kp: "kpage t q = kpage s q" for q using a(2) by (rule kmem_frameD)
  have "free_pages t \<subseteq> free_pages s \<union> P \<union> tabs (mem t) r"
    using a(7) kp by (fastforce simp: free_pages_def)
  then have "tabs (mem u) r - tabs (mem s) r \<subseteq> free_pages s \<union> (P \<union> Q)"
    using a(4,5) b(4,5) pt_ok_not_free [OF a(3)] by blast
  moreover have "mem u x = mem s x" if "\<forall>p \<in> tabs (mem u) r \<union> (P \<union> Q). x \<notin> page_bytes p" for x
  proof -
    have "mem t x = mem s x" by (rule a(6)) (use that b(4) in blast)
    moreover have "mem u x = mem t x" by (rule b(6)) (use that in blast)
    ultimately show ?thesis by simp
  qed
  moreover have "refs u q = refs s q" if "kpage s q \<and> q \<notin> tabs (mem u) r \<union> (P \<union> Q)" for q
  proof -
    have "refs t q = refs s q" by (rule a(7)) (use that b(4) in blast)+
    moreover have "refs u q = refs t q" by (rule b(7)) (use that kp in blast)+
    ultimately show ?thesis by simp
  qed
  moreover have "kmem_frame s u" "tabs (mem s) r \<subseteq> tabs (mem u) r"
    using kmem_frame_trans [OF a(2) b(2)] a(4) b(4) by auto
  ultimately show ?thesis using b(1,3) unfolding vmod_def by blast
qed

lemma vmod_mono: "vmod s t r P \<Longrightarrow> P \<subseteq> Q \<Longrightarrow> vmod s t r Q"
  unfolding vmod_def by blast

text \<open>Pages that are in use and not part of the page table keep their contents and their count.\<close>

lemma vmod_page:
  assumes v: "vmod s t r P" and q: "kpage s q" "refs s q \<noteq> 0" "q \<notin> tabs (mem s) r" "q \<notin> P"
    and P: "\<And>p. p \<in> P \<Longrightarrow> page_aligned p"
  shows "refs t q = refs s q" "x \<in> page_bytes q \<Longrightarrow> mem t x = mem s x" "q \<notin> tabs (mem t) r"
proof -
  show n: "q \<notin> tabs (mem t) r" using vmodD(5) [OF v] q by (auto simp: free_pages_def)
  then show "refs t q = refs s q" using vmodD(7) [OF v q(1)] q by auto
  assume x: "x \<in> page_bytes q"
  have "page_aligned p \<and> p \<noteq> q" if "p \<in> tabs (mem t) r \<union> P" for p
    using that n q P pt_ok_tabs [OF vmodD(3) [OF v]] by auto
  then have "x \<notin> page_bytes p" if "p \<in> tabs (mem t) r \<union> P" for p
    using that x page_bytes_disjoint [of p q] kpage_aligned [OF q(1)] by blast
  then show "mem t x = mem s x" by (rule vmodD(6) [OF v])
qed

lemma pt_ok_cong:
  assumes ok: "pt_ok s r" and "\<And>p x. p \<in> tabs (mem s) r \<Longrightarrow> x \<in> page_bytes p \<Longrightarrow> mem t x = mem s x"
    and "\<And>p. p \<in> tabs (mem s) r \<Longrightarrow> refs t p = refs s p" and "kend t = kend s"
  shows "pt_ok t r" "tabs (mem t) r = tabs (mem s) r" "leaf (mem t) r = leaf (mem s) r"
    "pteaddr (mem t) r = pteaddr (mem s) r"
proof -
  have tb: "tbl (mem t) r p = tbl (mem s) r p" if "p \<in> paths" for p using assms(2) that by (rule tbl_cong)
  show tt: "tabs (mem t) r = tabs (mem s) r" using assms(2) by (rule tabs_cong)
  show "leaf (mem t) r = leaf (mem s) r" by (rule ext) (rule leaf_cong(1) [OF assms(2)])
  show "pteaddr (mem t) r = pteaddr (mem s) r" by (rule ext) (rule leaf_cong(2) [OF assms(2)])
  have kp: "kpage t p = kpage s p" for p using assms(4) by (simp add: kpage_def)
  have ld: "load64 (mem t) (slot u i) = load64 (mem s) (slot u i)" if "u \<in> tabs (mem s) r" "i < 512" for u i
    using that by (intro load64_slot_cong assms(2))
  have "tbl_inj (mem t) r" using pt_ok_inj [OF ok] tb by (auto simp: tbl_inj_def)
  moreover have "\<forall>u \<in> tabs (mem t) r. kpage t u \<and> refs t u = 1"
    using pt_ok_tabs [OF ok] assms(3) tt kp by auto
  moreover have "load64 (mem t) (slot u i) AND (PTE_R OR PTE_W OR PTE_X) = 0"
    if "p \<in> paths" "length p \<le> 1" "tbl (mem t) r p = Some u" "i < 512" "load64 (mem t) (slot u i) AND PTE_V \<noteq> 0"
    for p u i
  proof -
    have u: "tbl (mem s) r p = Some u" using that tb by simp
    then have "load64 (mem t) (slot u i) = load64 (mem s) (slot u i)" using that ld tabsI by blast
    then show ?thesis using ok that(1,2,4,5) u unfolding pt_ok_def by metis
  qed
  ultimately show "pt_ok t r" unfolding pt_ok_def by blast
qed

text \<open>Another page table, with table pages of its own, is not affected.\<close>

lemma vmod_other:
  assumes v: "vmod s t r P" and ok: "pt_ok s r'" and d: "tabs (mem s) r' \<inter> (tabs (mem s) r \<union> P) = {}"
    and P: "\<And>p. p \<in> P \<Longrightarrow> page_aligned p"
  shows "pt_ok t r'" "tabs (mem t) r' = tabs (mem s) r'" "leaf (mem t) r' = leaf (mem s) r'"
    "pteaddr (mem t) r' = pteaddr (mem s) r'" "tabs (mem t) r' \<inter> tabs (mem t) r = {}"
proof -
  have q: "kpage s q" "refs s q \<noteq> 0" "q \<notin> tabs (mem s) r" "q \<notin> P" if "q \<in> tabs (mem s) r'" for q
    using that d pt_ok_tabs [OF ok that] by auto
  have ke: "kend t = kend s" using vmodD(2) [OF v] by (rule kmem_frameD)
  have me: "mem t x = mem s x" if "q \<in> tabs (mem s) r'" "x \<in> page_bytes q" for q x
    using v q [OF that(1)] P that(2) by (rule vmod_page(2))
  have re: "refs t q = refs s q" if "q \<in> tabs (mem s) r'" for q
    using v q [OF that] P by (rule vmod_page(1))
  show "pt_ok t r'" by (rule pt_ok_cong(1) [OF ok me re ke]; assumption)
  show c: "tabs (mem t) r' = tabs (mem s) r'" by (rule pt_ok_cong(2) [OF ok me re ke]; assumption)
  show "leaf (mem t) r' = leaf (mem s) r'" by (rule pt_ok_cong(3) [OF ok me re ke]; assumption)
  show "pteaddr (mem t) r' = pteaddr (mem s) r'" by (rule pt_ok_cong(4) [OF ok me re ke]; assumption)
  have "q \<notin> tabs (mem t) r" if "q \<in> tabs (mem s) r'" for q
    using v q [OF that] P by (rule vmod_page(3))
  then show "tabs (mem t) r' \<inter> tabs (mem t) r = {}" using c by blast
qed

declare tbl.simps(2) [simp del]

end
