(* ===== verification/Vmspec.thy ===== *)
theory Vmspec
  imports Ptree
begin

unbundle bit_operations_syntax

text \<open>
  What the routines of \<^verbatim>\<open>kernel/vm.c\<close> do, in terms of the leaf entries of the page table.
\<close>

section \<open>The walk\<close>

lemma kmem_inv_mem:
  assumes inv: "kmem_inv s" and m: "\<And>p x. p \<in> free_pages s \<Longrightarrow> x \<in> page_bytes p \<Longrightarrow> m x = mem s x"
  shows "kmem_inv (s\<lparr>mem := m\<rparr>)"
proof -
  have ok: "kmem_ok s" using inv by (simp add: kmem_inv_def)
  obtain fl where fl: "flist (mem s) (freelist s) fl" "distinct fl" "set fl = free_pages s"
    using ok by (rule kmem_okE)
  have "load64 m x = load64 (mem s) x" if "x \<in> set fl" for x
    using load64_slot_cong [of 0 x m "mem s"] m that fl(3) by (auto simp: slot_def)
  then have "flist m (freelist s) fl" using fl(1) flist_cong by metis
  moreover have "free_pages (s\<lparr>mem := m\<rparr>) = free_pages s" by (simp add: free_pages_def kpage_def refs_def)
  ultimately have "kmem_ok (s\<lparr>mem := m\<rparr>)"
    using ok fl by (intro kmem_okI) (auto simp: kmem_ok_def kpage_def refs_def)
  then show ?thesis using inv by (simp add: kmem_inv_def)
qed

lemma walk_False: "va < MAXVA \<Longrightarrow> walk r va False s = Ok (pteaddr (mem s) r va) s"
  by (simp add: walk_def numeral_2_eq_2 pteaddr_def lpath_def tbl.simps Let_def not_le)

lemma slot_nonzero:
  assumes "kmem_inv s" "kpage s t" "i < 512"
  shows "slot t i \<noteq> 0"
proof
  assume "slot t i = 0"
  then have "0 \<in> page_bytes t" using slot_byte_in_page [OF assms(3), of 0 t] by simp
  then have "unat t div 4096 = 0" using page_bytes_iff [OF kpage_aligned [OF assms(2)]] by simp
  moreover have "2147483648 \<le> unat t"
    using kpage_ge [of s t] assms unat_KERNBASE by (simp add: kmem_inv_def word_le_nat_alt)
  ultimately show False by simp
qed

lemma pt_grow:
  assumes inv: "kmem_inv s" and ok: "pt_ok s r"
    and q: "tbl (mem s) r q = Some t" "q \<in> paths" "length q \<le> 1" and i: "i < 512"
    and e: "load64 (mem s) (slot t i) AND PTE_V = 0" and al: "kalloc s = Ok pg s1" and nz: "pg \<noteq> 0"
  defines "s2 \<equiv> s1\<lparr>mem := store64 (memset (mem s1) pg 0 4096) (slot t i) (PA2PTE pg OR PTE_V)\<rparr>"
  shows "vmod s s2 r {}" "leaf (mem s2) r = leaf (mem s) r" "tbl (mem s2) r (i # q) = Some pg"
proof -
  have "free_pages s \<noteq> {}" using al nz kalloc_empty [OF inv] by auto
  then obtain pg' s1' where k: "kalloc s = Ok pg' s1'" "pg' \<in> free_pages s" "pg' \<noteq> 0" "kmem_inv s1'"
    "kmem_frame s s1'" "refcnt s1' = (refcnt s)(pa2idx pg' := 1)" "free_pages s1' = free_pages s - {pg'}"
    "mem s1' = memset (mem s) pg' 5 4096"
    by (rule kalloc_page [OF inv])
  then have k: "pg \<in> free_pages s" "kmem_inv s1" "kmem_frame s s1" "refcnt s1 = (refcnt s)(pa2idx pg := 1)"
    "free_pages s1 = free_pages s - {pg}" "mem s1 = memset (mem s) pg 5 4096"
    using al by auto
  have kp: "kpage s pg" using k(1) by (simp add: free_pages_def)
  have m2: "mem s2 = hang (mem s) t i pg"
    unfolding s2_def hang_def k(6) by (simp add: memset_page cong: if_cong)
  have pg: "page_aligned pg" "unat pg < 2 ^ 56" "pg \<notin> tabs (mem s) r"
    using kpage_aligned [OF kp] kpage_small [OF kp] k(1) pt_ok_not_free [OF ok] by auto
  have alg: "\<And>t. t \<in> tabs (mem s) r \<Longrightarrow> page_aligned t" using pt_ok_tabs [OF ok] by blast
  have tb: "tbl (mem s2) r p = (if p = i # q then Some pg else tbl (mem s) r p)" if "p \<in> paths" for p
    unfolding m2 using tbl_hang [OF pt_ok_inj [OF ok] alg q i e pg that] by blast
  show "leaf (mem s2) r = leaf (mem s) r"
    unfolding m2 using leaf_hang [OF pt_ok_inj [OF ok] alg q i e pg] by blast
  have iq: "i # q \<in> paths" using q i by (intro paths_Cons)
  show "tbl (mem s2) r (i # q) = Some pg" using tb [OF iq] by simp
  have none: "tbl (mem s) r (i # q) = None" using q e by (simp add: tbl.simps)
  have ta: "tabs (mem s2) r = insert pg (tabs (mem s) r)"
  proof
    show "tabs (mem s2) r \<subseteq> insert pg (tabs (mem s) r)"
      using tb by (auto simp: tabs_def split: if_splits)
    have "tbl (mem s2) r p = Some x" if "p \<in> paths" "tbl (mem s) r p = Some x" for p x
      using that tb [OF that(1)] none by (metis option.distinct(1))
    then show "insert pg (tabs (mem s) r) \<subseteq> tabs (mem s2) r"
      using tb [OF iq] iq unfolding tabs_def by auto
  qed
  have rf: "refs s2 x = refs s x" if "kpage s x" "x \<noteq> pg" for x
    using that k(4) pa2idx_kpage [OF _ kp that(1)] inv by (auto simp: refs_def s2_def kmem_inv_def)
  have ke: "kend s2 = kend s" using kmem_frameD(2) [OF k(3)] by (simp add: s2_def)
  have tt: "t \<in> tabs (mem s) r" using q(1,2) by (rule tabsI)
  have "tbl_inj (mem s2) r"
    using pt_ok_inj [OF ok] tb pg(3) unfolding tbl_inj_def tabs_def by (auto split: if_splits)
  moreover have "\<forall>u \<in> tabs (mem s2) r. kpage s2 u \<and> refs s2 u = 1"
  proof -
    have "refs s2 pg = 1" using k(4) by (simp add: refs_def s2_def)
    moreover have "kpage s2 u = kpage s u" for u using ke by (simp add: kpage_def)
    moreover have "kpage s u" "refs s2 u = 1" if "u \<in> tabs (mem s) r" for u
      using that pt_ok_tabs [OF ok that] rf [of u] pg(3) by auto
    ultimately show ?thesis using ta kp by auto
  qed
  moreover have "load64 (mem s2) (slot u j) AND (PTE_R OR PTE_W OR PTE_X) = 0"
    if p: "p \<in> paths" "length p \<le> 1" "tbl (mem s2) r p = Some u" "j < 512"
      "load64 (mem s2) (slot u j) AND PTE_V \<noteq> 0" for p u j
  proof -
    have "page_aligned t" "t \<noteq> pg" using tt alg pg by auto
    moreover have "page_aligned u" using tabsI [OF p(3,1)] ta alg pg by auto
    ultimately have ld: "load64 (mem s2) (slot u j) = (if u = t \<and> j = i then PA2PTE pg OR PTE_V
        else if u = pg then 0 else load64 (mem s) (slot u j))"
      unfolding m2 using pg i p by (intro hang_load) auto
    show ?thesis
    proof (cases "u = t \<and> j = i \<or> u = pg")
      case True
      then show ?thesis using ld PTE_flagless_new by auto
    next
      case False
      then have "tbl (mem s) r p = Some u" using tb [OF p(1)] p(3) by (auto split: if_splits)
      then show ?thesis using False ld p ok unfolding pt_ok_def by metis
    qed
  qed
  ultimately have ok2: "pt_ok s2 r" unfolding pt_ok_def by blast
  have "kmem_inv s2"
    unfolding s2_def
  proof (rule kmem_inv_mem [OF k(2)])
    fix p x assume p: "p \<in> free_pages s1" and x: "x \<in> page_bytes p"
    then have "p \<noteq> pg" "p \<noteq> t" "page_aligned p"
      using k(5) tt pt_ok_not_free [OF ok] free_page_aligned [of p s1] by auto
    then have "x \<notin> page_bytes pg" "x \<notin> page_bytes t"
      using x page_bytes_disjoint [of p] pg(1) alg [OF tt] by auto
    then show "store64 (memset (mem s1) pg 0 4096) (slot t i) (PA2PTE pg OR PTE_V) x = mem s1 x"
      using i by (simp add: store64_slot_outside memset_page)
  qed
  moreover have "kmem_frame s s2" unfolding s2_def by (rule kmem_frame_mem [OF k(3)])
  moreover have "mem s2 x = mem s x" if "\<forall>p \<in> tabs (mem s2) r \<union> {}. x \<notin> page_bytes p" for x
    unfolding m2 using that ta tt by (intro hang_outside i) auto
  ultimately show "vmod s s2 r {}" using ok2 ta k(1) rf unfolding vmod_def by auto
qed

lemma walk_down:
  assumes inv: "kmem_inv s" and ok: "pt_ok s r"
    and q: "tbl (mem s) r q = Some pt" "q \<in> paths" "length q \<le> 1" and i: "i = unat (PX (Suc l) va)"
  obtains "walk_level (Suc l) pt va True s = Ok 0 s" "free_pages s = {}"
  | t pt' where "walk_level (Suc l) pt va True s = walk_level l pt' va True t" "vmod s t r {}"
      "leaf (mem t) r = leaf (mem s) r" "tbl (mem t) r (i # q) = Some pt'"
proof (cases "load64 (mem s) (slot pt i) AND PTE_V = 0")
  case False
  then have "walk_level (Suc l) pt va True s = walk_level l (PTE2PA (load64 (mem s) (slot pt i))) va True s"
    using i by simp
  then show thesis using that(2) False q vmod_refl [OF inv ok] by (simp add: tbl.simps)
next
  case True
  show thesis
  proof (cases "free_pages s = {}")
    case empty: True
    then show thesis using that(1) True i kalloc_empty [OF inv] by simp
  next
    case False
    obtain pg s1 where k: "kalloc s = Ok pg s1" "pg \<noteq> 0"
      using kalloc_page [OF inv False] by metis
    have i5: "i < 512" using i by simp
    let ?t = "s1\<lparr>mem := store64 (memset (mem s1) pg 0 4096) (slot pt i) (PA2PTE pg OR PTE_V)\<rparr>"
    have "walk_level (Suc l) pt va True s = walk_level l pg va True ?t"
      using True i k by (simp add: Let_def)
    then show thesis using that(2) pt_grow [OF inv ok q i5 True k] by blast
  qed
qed

text \<open>
  The allocating walk returns the address of the entry for \<open>va\<close>, or 0 when memory is used up.
  It adds table pages and changes no leaf entry.
\<close>

lemma walk_True:
  assumes inv: "kmem_inv s" and ok: "pt_ok s r" and va: "va < MAXVA"
  obtains a t where "walk r va True s = Ok a t" "vmod s t r {}" "leaf (mem t) r = leaf (mem s) r"
    "a = 0 \<Longrightarrow> free_pages t = {}"
    "a \<noteq> 0 \<Longrightarrow> \<exists>pt. tbl (mem t) r (lpath va) = Some pt \<and> a = slot pt (unat (PX 0 va))"
proof -
  have w: "walk r va True s = walk_level (Suc (Suc 0)) r va True s"
    using va by (simp add: walk_def numeral_2_eq_2 not_le [symmetric] del: walk_level.simps)
  have root: "tbl (mem s) r [] = Some r" by simp
  show thesis
  proof (rule walk_down [OF inv ok root, of "unat (PX 2 va)" "Suc 0" va])
    assume "walk_level (Suc (Suc 0)) r va True s = Ok 0 s" "free_pages s = {}"
    then show thesis using that [of 0 s] w vmod_refl [OF inv ok] by simp
  next
    fix t pt assume t: "walk_level (Suc (Suc 0)) r va True s = walk_level (Suc 0) pt va True t"
      "vmod s t r {}" "leaf (mem t) r = leaf (mem s) r" "tbl (mem t) r [unat (PX 2 va)] = Some pt"
    have p2: "[unat (PX 2 va)] \<in> paths" by (simp add: paths_def)
    show thesis
    proof (rule walk_down [OF vmodD(1) [OF t(2)] vmodD(3) [OF t(2)] t(4) p2, of "unat (PX 1 va)" 0 va])
      assume "walk_level (Suc 0) pt va True t = Ok 0 t" "free_pages t = {}"
      then show thesis using that [of 0 t] w t by simp
    next
      fix u pt' assume u: "walk_level (Suc 0) pt va True t = walk_level 0 pt' va True u" "vmod t u r {}"
        "leaf (mem u) r = leaf (mem t) r" "tbl (mem u) r [unat (PX 1 va), unat (PX 2 va)] = Some pt'"
      have "vmod s u r {}" using vmod_trans [OF t(2) u(2)] by simp
      moreover have "slot pt' (unat (PX 0 va)) \<noteq> 0"
        using vmodD(1,3) [OF u(2)] tabsI [OF u(4)] pt_ok_tabs by (intro slot_nonzero [of u]) (auto simp: paths_def)
      ultimately show thesis
        using that [of "slot pt' (unat (PX 0 va))" u] w t(1,3) u(1,3,4) by (simp add: lpath_def)
    qed simp_all
  qed (simp_all add: numeral_2_eq_2)
qed

section \<open>Writing a leaf entry\<close>

lemma leaf_eq: "tbl m r (lpath va) = Some pt \<Longrightarrow> leaf m r va = load64 m (slot pt (unat (PX 0 va)))"
  by (simp add: leaf_def)

lemma set_leaf:
  fixes v :: u64
  assumes inv: "kmem_inv s" and ok: "pt_ok s r" and va: "va < MAXVA"
    and pt: "tbl (mem s) r (lpath va) = Some pt"
  defines "t \<equiv> s\<lparr>mem := store64 (mem s) (slot pt (unat (PX 0 va))) v\<rparr>"
  shows "vmod s t r {}" "tabs (mem t) r = tabs (mem s) r"
    "vb < MAXVA \<Longrightarrow> leaf (mem t) r vb = (if same_page va vb then v else leaf (mem s) r vb)"
proof -
  have alg: "\<And>t. t \<in> tabs (mem s) r \<Longrightarrow> page_aligned t" using pt_ok_tabs [OF ok] by blast
  have l2: "length (lpath va) = 2" by (simp add: lpath_def)
  have tb: "tbl (mem t) r p = tbl (mem s) r p" if "p \<in> paths" for p
    unfolding t_def using tbl_store_leaf [OF pt_ok_inj [OF ok] alg pt lpath_paths l2 PX_less that] by simp
  show ta: "tabs (mem t) r = tabs (mem s) r" using tb by (auto simp: tabs_def)
  show "vb < MAXVA \<Longrightarrow> leaf (mem t) r vb = (if same_page va vb then v else leaf (mem s) r vb)"
    unfolding t_def using leaf_store [OF pt_ok_inj [OF ok] alg pt va] by simp
  have ptab: "pt \<in> tabs (mem s) r" using pt lpath_paths by (rule tabsI)
  have "kmem_inv t"
    unfolding t_def
  proof (rule kmem_inv_mem [OF inv])
    fix p x assume p: "p \<in> free_pages s" and x: "x \<in> page_bytes p"
    then have "p \<noteq> pt" using ptab pt_ok_not_free [OF ok] by auto
    then have "x \<notin> page_bytes pt"
      using x page_bytes_disjoint [of p pt] free_page_aligned [OF p] alg [OF ptab] by auto
    then show "store64 (mem s) (slot pt (unat (PX 0 va))) v x = mem s x" by (simp add: store64_slot_outside)
  qed
  moreover have "pt_ok t r"
  proof -
    have "tbl_inj (mem t) r" using pt_ok_inj [OF ok] tb by (auto simp: tbl_inj_def)
    moreover have "\<forall>u \<in> tabs (mem t) r. kpage t u \<and> refs t u = 1"
      using pt_ok_tabs [OF ok] ta by (simp add: t_def kpage_def refs_def)
    moreover have "load64 (mem t) (slot u j) AND (PTE_R OR PTE_W OR PTE_X) = 0"
      if p: "p \<in> paths" "length p \<le> 1" "tbl (mem t) r p = Some u" "j < 512"
        "load64 (mem t) (slot u j) AND PTE_V \<noteq> 0" for p u j
    proof -
      have u: "tbl (mem s) r p = Some u" using p tb by simp
      have "pt \<noteq> u" using tbl_injD [OF pt_ok_inj [OF ok] lpath_paths p(1) pt] u l2 p(2) by auto
      then have "load64 (mem t) (slot u j) = load64 (mem s) (slot u j)"
        unfolding t_def using p(4) alg [OF ptab] alg [OF tabsI [OF u p(1)]]
        by (simp add: load64_store64_other_page)
      then show ?thesis using p u ok unfolding pt_ok_def by metis
    qed
    ultimately show ?thesis unfolding pt_ok_def by blast
  qed
  moreover have "kmem_frame s t" unfolding t_def by (rule kmem_frame_mem) simp
  moreover have "mem t x = mem s x" if "\<forall>p \<in> tabs (mem t) r \<union> {}. x \<notin> page_bytes p" for x
    using that ta ptab unfolding t_def by (simp add: store64_slot_outside)
  ultimately show "vmod s t r {}"
    using ta unfolding vmod_def by (auto simp: t_def refs_def)
qed

section \<open>Mapping\<close>

definition in_range :: "u64 \<Rightarrow> nat \<Rightarrow> u64 \<Rightarrow> bool" where
  "in_range a n v \<longleftrightarrow> unat a \<le> unat v \<and> unat v < unat a + 4096 * n"

lemma in_range_0 [simp]: "\<not> in_range a 0 v"
  by (simp add: in_range_def)

lemma same_page_range: "page_aligned a \<Longrightarrow> same_page a v \<longleftrightarrow> in_range a 1 v"
proof -
  assume "page_aligned a"
  then obtain k where "unat a = 4096 * k" by (rule page_aligned_unatE)
  then show ?thesis unfolding same_page_unat in_range_def by auto
qed

lemma unat_next: "unat a + 4096 \<le> 2 ^ 38 \<Longrightarrow> unat (a + PGSIZE) = unat a + 4096"
  by (simp add: PGSIZE_def unat_word_ariths)

lemma in_range_Suc:
  assumes "page_aligned a" "unat a + 4096 \<le> 2 ^ 38"
  shows "in_range a (Suc n) v \<longleftrightarrow> same_page a v \<or> in_range (a + PGSIZE) n v"
    "\<not> (same_page a v \<and> in_range (a + PGSIZE) n v)"
  using unat_next [OF assms(2)] unfolding same_page_range [OF assms(1)] in_range_def by auto

text \<open>The leaf entry of \<open>v\<close> once \<open>n\<close> pages from \<open>a\<close> are mapped to the pages from \<open>pa\<close>.\<close>

definition mapped :: "u64 \<Rightarrow> nat \<Rightarrow> u64 \<Rightarrow> u64 \<Rightarrow> (u64 \<Rightarrow> u64) \<Rightarrow> u64 \<Rightarrow> u64" where
  "mapped a n pa perm f v =
     (if in_range a n v then PA2PTE (pa + (PGROUNDDOWN v - a)) OR perm OR PTE_V else f v)"

lemma mapped_0 [simp]: "mapped a 0 pa perm f = f"
  by (simp add: mapped_def fun_eq_iff)

lemma mapped_1:
  "page_aligned a \<Longrightarrow> mapped a 1 pa perm f v = (if same_page a v then PA2PTE pa OR perm OR PTE_V else f v)"
proof -
  assume a: "page_aligned a"
  then have "same_page a v \<Longrightarrow> PGROUNDDOWN v = a" by (simp add: same_page_def PGROUNDDOWN_id)
  then show ?thesis unfolding mapped_def same_page_range [OF a, symmetric] by simp
qed

lemma mapped_Suc:
  assumes "page_aligned a" "unat a + 4096 \<le> 2 ^ 38"
  shows "mapped a (Suc n) pa perm f v =
    mapped (a + PGSIZE) n (pa + PGSIZE) perm (mapped a 1 pa perm f) v"
  using in_range_Suc [OF assms, where n = n and v = v] mapped_1 [OF assms(1), of pa perm f v]
  by (auto simp: mapped_def [of _ "Suc n"] mapped_def [of _ n] same_page_def PGROUNDDOWN_id assms algebra_simps)

lemma less_MAXVA: "v < MAXVA \<longleftrightarrow> unat v < 2 ^ 38"
  using unat_MAXVA by (simp add: word_less_nat_alt)

lemma leaf_same_page: "same_page va v \<Longrightarrow> va < MAXVA \<Longrightarrow> v < MAXVA \<Longrightarrow> leaf m r v = leaf m r va"
  using PX_same_page [of va v] by (simp add: leaf_def split: option.split)

lemma mappages_step:
  assumes inv: "kmem_inv s" and ok: "pt_ok s r" and al: "page_aligned a" and a: "a < MAXVA"
    and e: "leaf (mem s) r a AND PTE_V = 0"
  obtains t where "mappages_loop (Suc n) r a last_va pa perm s = Ok (- 1) t" "vmod s t r {}"
      "leaf (mem t) r = leaf (mem s) r" "free_pages t = {}"
  | t where "vmod s t r {}" "\<And>v. v < MAXVA \<Longrightarrow> leaf (mem t) r v = mapped a 1 pa perm (leaf (mem s) r) v"
      "mappages_loop (Suc n) r a last_va pa perm s =
        (if a = last_va then Ok 0 t else mappages_loop n r (a + PGSIZE) last_va (pa + PGSIZE) perm t)"
proof (rule walk_True [OF inv ok a])
  fix p t assume w: "walk r a True s = Ok p t" "vmod s t r {}" "leaf (mem t) r = leaf (mem s) r"
    "p = 0 \<Longrightarrow> free_pages t = {}"
    "p \<noteq> 0 \<Longrightarrow> \<exists>pt. tbl (mem t) r (lpath a) = Some pt \<and> p = slot pt (unat (PX 0 a))"
  show thesis
  proof (cases "p = 0")
    case True
    then show thesis using that(1) [of t] w by simp
  next
    case False
    then obtain pt where pt: "tbl (mem t) r (lpath a) = Some pt" "p = slot pt (unat (PX 0 a))"
      using w(5) by blast
    let ?u = "t\<lparr>mem := store64 (mem t) (slot pt (unat (PX 0 a))) (PA2PTE pa OR perm OR PTE_V)\<rparr>"
    note sl = set_leaf [OF vmodD(1,3) [OF w(2)] a pt(1), where v = "PA2PTE pa OR perm OR PTE_V"]
    have "load64 (mem t) p AND PTE_V = 0" using e w(3) leaf_eq [OF pt(1)] pt(2) by simp
    then have "mappages_loop (Suc n) r a last_va pa perm s =
        (if a = last_va then Ok 0 ?u else mappages_loop n r (a + PGSIZE) last_va (pa + PGSIZE) perm ?u)"
      using w(1) False pt(2) by simp
    moreover have "vmod s ?u r {}" using vmod_trans [OF w(2) sl(1)] by simp
    moreover have "leaf (mem ?u) r v = mapped a 1 pa perm (leaf (mem s) r) v" if "v < MAXVA" for v
      using sl(3) [OF that] w(3) mapped_1 [OF al] by simp
    ultimately show thesis using that(2) by blast
  qed
qed

lemma mappages_loop_ok:
  assumes "kmem_inv s" "pt_ok s r" "page_aligned a" "unat a + 4096 * Suc n \<le> 2 ^ 38"
    "\<And>v. in_range a (Suc n) v \<Longrightarrow> leaf (mem s) r v AND PTE_V = 0"
  shows "\<exists>c t k. mappages_loop (Suc n) r a (a + of_nat n * PGSIZE) pa perm s = Ok c t \<and> vmod s t r {} \<and>
    (\<forall>v < MAXVA. leaf (mem t) r v = mapped a k pa perm (leaf (mem s) r) v) \<and> k \<le> Suc n \<and>
    c = (if k = Suc n then 0 else - 1) \<and> (k < Suc n \<longrightarrow> free_pages t = {})"
  using assms
proof (induction n arbitrary: s a pa)
  case (0 s a pa)
  have a: "a < MAXVA" "leaf (mem s) r a AND PTE_V = 0"
    using 0(4) 0(5) [of a] by (simp_all add: less_MAXVA in_range_def)
  show ?case
    by (rule mappages_step [OF 0(1-3) a, of 0 a pa perm]) (force, force intro: exI [of _ "Suc 0"])
next
  case (Suc n s a pa)
  have a: "a < MAXVA" "leaf (mem s) r a AND PTE_V = 0" "unat a + 4096 \<le> 2 ^ 38"
    using Suc.prems(4) Suc.prems(5) [of a] by (simp_all add: less_MAXVA in_range_def)
  let ?last = "a + of_nat (Suc n) * PGSIZE"
  show ?case
  proof (rule mappages_step [OF Suc.prems(1-3) a(1,2), of "Suc n" ?last pa perm])
    fix t assume "mappages_loop (Suc (Suc n)) r a ?last pa perm s = Ok (- 1) t" "vmod s t r {}"
      "leaf (mem t) r = leaf (mem s) r" "free_pages t = {}"
    then show ?thesis by (intro exI [of _ "- 1"] exI [of _ t] exI [of _ 0]) simp
  next
    fix t assume t: "vmod s t r {}" "\<And>v. v < MAXVA \<Longrightarrow> leaf (mem t) r v = mapped a 1 pa perm (leaf (mem s) r) v"
      "mappages_loop (Suc (Suc n)) r a ?last pa perm s = (if a = ?last then Ok 0 t
        else mappages_loop (Suc n) r (a + PGSIZE) ?last (pa + PGSIZE) perm t)"
    have l: "?last = a + PGSIZE + of_nat n * PGSIZE" by (simp add: algebra_simps)
    have "unat (of_nat (4096 * Suc n) :: u64) = 4096 * Suc n"
      using Suc.prems(4) by (intro unat_of_nat_small) simp
    then have "of_nat (4096 * Suc n) \<noteq> (0 :: u64)" by (metis unat_0 mult_eq_0_iff nat.simps(3) zero_neq_numeral)
    then have ne: "a \<noteq> ?last" by (simp add: PGSIZE_def algebra_simps)
    have nx: "unat (a + PGSIZE) = unat a + 4096" using a(3) by (rule unat_next)
    have free: "leaf (mem t) r v AND PTE_V = 0" if v: "in_range (a + PGSIZE) (Suc n) v" for v
    proof -
      have "v < MAXVA" using v nx Suc.prems(4) by (simp add: less_MAXVA in_range_def)
      moreover have "\<not> in_range a 1 v" "in_range a (Suc (Suc n)) v"
        using v nx by (auto simp: in_range_def)
      ultimately show ?thesis using t(2) [of v] Suc.prems(5) [of v] by (simp add: mapped_def)
    qed
    have "unat (a + PGSIZE) + 4096 * Suc n \<le> 2 ^ 38" using nx Suc.prems(4) by simp
    from Suc.IH [OF vmodD(1,3) [OF t(1)] page_aligned_next [OF Suc.prems(3)] this free, of "pa + PGSIZE"]
    obtain c u k where u: "mappages_loop (Suc n) r (a + PGSIZE) ?last (pa + PGSIZE) perm t = Ok c u"
      "vmod t u r {}" "\<forall>v < MAXVA. leaf (mem u) r v = mapped (a + PGSIZE) k (pa + PGSIZE) perm (leaf (mem t) r) v"
      "k \<le> Suc n" "c = (if k = Suc n then 0 else - 1)" "k < Suc n \<longrightarrow> free_pages u = {}"
      unfolding l by blast
    have "leaf (mem u) r v = mapped a (Suc k) pa perm (leaf (mem s) r) v" if v: "v < MAXVA" for v
      using u(3) v t(2) [OF v] mapped_Suc [OF Suc.prems(3) a(3), of k pa perm "leaf (mem s) r" v]
      by (simp add: mapped_def [of "a + PGSIZE"])
    moreover have "vmod s u r {}" using vmod_trans [OF t(1) u(2)] by simp
    ultimately show ?thesis
      using t(3) ne u by (intro exI [of _ c] exI [of _ u] exI [of _ "Suc k"]) auto
  qed
qed

lemma mappages_ok:
  assumes "kmem_inv s" "pt_ok s r" "page_aligned va" "0 < n" "unat va + 4096 * n \<le> 2 ^ 38"
    "\<And>v. in_range va n v \<Longrightarrow> leaf (mem s) r v AND PTE_V = 0"
  obtains c t k where "mappages r va (of_nat n * PGSIZE) pa perm s = Ok c t" "vmod s t r {}"
    "\<And>v. v < MAXVA \<Longrightarrow> leaf (mem t) r v = mapped va k pa perm (leaf (mem s) r) v" "k \<le> n"
    "c = (if k = n then 0 else - 1)" "k < n \<longrightarrow> free_pages t = {}"
proof -
  obtain m where n: "n = Suc m" using assms(4) by (cases n) auto
  define sz where "sz = of_nat n * PGSIZE"
  have "sz = of_nat (4096 * n)" by (simp add: PGSIZE_def sz_def)
  then have u: "unat sz = 4096 * n" using assms(5) by (simp add: unat_of_nat_small del: of_nat_mult)
  have P: "unat PGSIZE = 4096" by (simp add: PGSIZE_def)
  have "va mod PGSIZE = 0" using assms(3) by (simp add: page_aligned_def PGSIZE_def)
  moreover have "sz mod PGSIZE = 0" "unat (sz div PGSIZE) = n" "sz \<noteq> 0"
    unfolding word_unat_eq_iff unat_mod unat_div u P using assms(4) by simp_all
  moreover have lv: "va + sz - PGSIZE = va + of_nat m * PGSIZE" by (simp add: n sz_def algebra_simps)
  ultimately have "mappages r va sz pa perm s =
      mappages_loop (Suc m) r va (va + of_nat m * PGSIZE) pa perm s"
    unfolding mappages_def lv by (simp add: n del: mappages_loop.simps)
  moreover have "\<exists>c t k. mappages_loop (Suc m) r va (va + of_nat m * PGSIZE) pa perm s = Ok c t \<and> vmod s t r {} \<and>
    (\<forall>v < MAXVA. leaf (mem t) r v = mapped va k pa perm (leaf (mem s) r) v) \<and> k \<le> n \<and>
    c = (if k = n then 0 else - 1) \<and> (k < n \<longrightarrow> free_pages t = {})"
    unfolding n by (rule mappages_loop_ok [OF assms(1-3)]) (use assms(5,6) n in auto)
  ultimately show thesis using that unfolding sz_def by auto
qed

lemma mappages_page:
  assumes "kmem_inv s" "pt_ok s r" "page_aligned va" "va < MAXVA" "leaf (mem s) r va AND PTE_V = 0"
  obtains t where "mappages r va PGSIZE pa perm s = Ok 0 t" "vmod s t r {}"
      "\<And>v. v < MAXVA \<Longrightarrow>
        leaf (mem t) r v = (if same_page va v then PA2PTE pa OR perm OR PTE_V else leaf (mem s) r v)"
  | t where "mappages r va PGSIZE pa perm s = Ok (- 1) t" "vmod s t r {}"
      "\<And>v. v < MAXVA \<Longrightarrow> leaf (mem t) r v = leaf (mem s) r v" "free_pages t = {}"
proof -
  obtain k where k: "unat va = 4096 * k" using assms(3) by (rule page_aligned_unatE)
  then have lim: "unat va + 4096 * 1 \<le> 2 ^ 38" using assms(4) by (simp add: less_MAXVA)
  have free: "leaf (mem s) r v AND PTE_V = 0" if "in_range va 1 v" for v
  proof -
    have "same_page va v" using that same_page_range [OF assms(3)] by simp
    moreover have "v < MAXVA" using that lim by (simp add: less_MAXVA in_range_def)
    ultimately show ?thesis using leaf_same_page [OF _ assms(4)] assms(5) by metis
  qed
  show thesis
  proof (rule mappages_ok [OF assms(1-3) zero_less_one lim, of pa perm])
    fix c t j assume t: "mappages r va (of_nat 1 * PGSIZE) pa perm s = Ok c t" "vmod s t r {}"
      "\<And>v. v < MAXVA \<Longrightarrow> leaf (mem t) r v = mapped va j pa perm (leaf (mem s) r) v" "j \<le> 1"
      "c = (if j = 1 then 0 else - 1)" "j < 1 \<longrightarrow> free_pages t = {}"
    show thesis
    proof (cases "j = 1")
      case True
      then show thesis using t that(1) [of t] mapped_1 [OF assms(3)] by simp
    next
      case False
      then have "j = 0" using t(4) by simp
      then show thesis using t that(2) [of t] by simp
    qed
  qed (rule free)
qed

section \<open>Unmapping\<close>

lemma kfree_vmod:
  assumes inv: "kmem_inv s" and ok: "pt_ok s r" and p: "kpage s p" "1 \<le> refs s p" "p \<notin> tabs (mem s) r"
  obtains t where "kfree p s = Ok () t" "vmod s t r {p}" "leaf (mem t) r = leaf (mem s) r"
    "pteaddr (mem t) r = pteaddr (mem s) r" "tabs (mem t) r = tabs (mem s) r"
    "\<And>q. kpage s q \<Longrightarrow> refs t q = (if q = p then refs s p - 1 else refs s q)"
    "1 < refs s p \<Longrightarrow> mem t = mem s"
proof (rule kfree_spec [OF inv p(1,2)])
  fix t assume t: "kfree p s = Ok () t" "kmem_inv t" "kmem_frame s t"
    "refcnt t = (refcnt s)(pa2idx p := refs s p - 1)"
    "\<And>x. x \<notin> page_bytes p \<Longrightarrow> mem t x = mem s x" "1 < refs s p \<Longrightarrow> mem t = mem s"
    "free_pages t = (if refs s p = 1 then insert p (free_pages s) else free_pages s)"
  have rf: "refs t q = (if q = p then refs s p - 1 else refs s q)" if "kpage s q" for q
    using t(4) pa2idx_kpage [OF _ p(1) that] inv by (auto simp: refs_def kmem_inv_def)
  have m: "mem t x = mem s x" if "q \<in> tabs (mem s) r" "x \<in> page_bytes q" for q x
  proof (rule t(5))
    have "page_aligned q" "q \<noteq> p" using that(1) p(3) pt_ok_tabs [OF ok] by auto
    then show "x \<notin> page_bytes p" using that(2) page_bytes_disjoint [of q p] kpage_aligned [OF p(1)] by auto
  qed
  have re: "refs t q = refs s q" if "q \<in> tabs (mem s) r" for q
    using that rf [of q] p(3) pt_ok_tabs [OF ok that] by auto
  have ke: "kend t = kend s" using t(3) by (rule kmem_frameD)
  have c: "pt_ok t r" by (rule pt_ok_cong(1) [OF ok m re ke]; assumption)
  have ta: "tabs (mem t) r = tabs (mem s) r" by (rule pt_ok_cong(2) [OF ok m re ke]; assumption)
  have lf: "leaf (mem t) r = leaf (mem s) r" by (rule pt_ok_cong(3) [OF ok m re ke]; assumption)
  have pa: "pteaddr (mem t) r = pteaddr (mem s) r" by (rule pt_ok_cong(4) [OF ok m re ke]; assumption)
  have "vmod s t r {p}" using t(2,3,5) c ta rf unfolding vmod_def by auto
  then show thesis using that t(1,6) lf pa ta rf by blast
qed

text \<open>The physical pages that \<open>n\<close> pages from \<open>a\<close> are mapped to, and the entries once they are unmapped.\<close>

primrec pages_of :: "(u64 \<Rightarrow> u64) \<Rightarrow> u64 \<Rightarrow> nat \<Rightarrow> addr list" where
  "pages_of f a 0 = []"
| "pages_of f a (Suc n) =
     (if f a AND PTE_V \<noteq> 0 then [PTE2PA (f a)] else []) @ pages_of f (a + PGSIZE) n"

definition unmapped :: "u64 \<Rightarrow> nat \<Rightarrow> (u64 \<Rightarrow> u64) \<Rightarrow> u64 \<Rightarrow> u64" where
  "unmapped a n f v = (if in_range a n v \<and> f v AND PTE_V \<noteq> 0 then 0 else f v)"

lemma unmapped_0 [simp]: "unmapped a 0 f = f"
  by (simp add: unmapped_def fun_eq_iff)

lemma unmapped_Suc:
  assumes "page_aligned a" "unat a + 4096 \<le> 2 ^ 38"
  shows "unmapped a (Suc n) f v = unmapped (a + PGSIZE) n (unmapped a 1 f) v"
  using in_range_Suc [OF assms, where n = n and v = v] same_page_range [OF assms(1), of v]
  by (auto simp: unmapped_def)

lemma unmapped_1:
  assumes "page_aligned a"
  shows "unmapped a 1 f v = (if same_page a v \<and> f v AND PTE_V \<noteq> 0 then 0 else f v)"
  unfolding unmapped_def same_page_range [OF assms] by simp

lemma pages_of_cong:
  assumes "\<And>v. in_range a n v \<Longrightarrow> f v = g v" "page_aligned a" "unat a + 4096 * n \<le> 2 ^ 38"
  shows "pages_of f a n = pages_of g a n"
  using assms
proof (induction n arbitrary: a)
  case (Suc n)
  have lim: "unat a + 4096 \<le> 2 ^ 38" using Suc.prems(3) by simp
  have "f v = g v" if "in_range (a + PGSIZE) n v" for v
    using that Suc.prems(1) in_range_Suc(1) [OF Suc.prems(2) lim] by blast
  then have "pages_of f (a + PGSIZE) n = pages_of g (a + PGSIZE) n"
    using Suc.prems unat_next [OF lim] by (intro Suc.IH page_aligned_next) auto
  moreover have "f a = g a" using Suc.prems(1) [of a] by (simp add: in_range_def)
  ultimately show ?case by simp
qed simp

text \<open>One pass of the loop body, for a page that is mapped.\<close>

lemma unmap_step:
  assumes inv: "kmem_inv s" and ok: "pt_ok s r" and al: "page_aligned a" and a: "a < MAXVA"
    and e: "leaf (mem s) r a AND PTE_V \<noteq> 0"
    and fr: "do_free \<Longrightarrow> kpage s pa \<and> 1 \<le> refs s pa \<and> pa \<notin> tabs (mem s) r" and pa: "pa = PTE2PA (leaf (mem s) r a)"
  obtains u where "a < lim \<Longrightarrow> uvmunmap_loop (Suc n) r a lim do_free s = uvmunmap_loop n r (a + PGSIZE) lim do_free u"
    "vmod s u r (if do_free then {pa} else {})" "tabs (mem u) r = tabs (mem s) r"
    "\<And>v. v < MAXVA \<Longrightarrow> leaf (mem u) r v = unmapped a 1 (leaf (mem s) r) v"
    "\<And>q. kpage s q \<Longrightarrow> refs u q = (if do_free \<and> q = pa then refs s pa - 1 else refs s q)"
    "\<And>x. (\<And>p. p \<in> tabs (mem s) r \<Longrightarrow> x \<notin> page_bytes p) \<Longrightarrow> (do_free \<and> refs s pa = 1 \<Longrightarrow> x \<notin> page_bytes pa) \<Longrightarrow>
      mem u x = mem s x"
proof -
  obtain pt where pt: "tbl (mem s) r (lpath a) = Some pt"
    using e by (cases "tbl (mem s) r (lpath a)") (auto simp: leaf_def)
  let ?p = "slot pt (unat (PX 0 a))"
  have ptk: "kpage s pt" using pt_ok_tabs [OF ok tabsI [OF pt]] by simp
  have w: "walk r a False s = Ok ?p s" using pt by (simp add: walk_False [OF a] pteaddr_def)
  have nz: "?p \<noteq> 0" using inv ptk by (rule slot_nonzero) simp
  have ld: "load64 (mem s) ?p = leaf (mem s) r a" using pt by (simp add: leaf_def)
  obtain t where t: "(if do_free then kfree pa s else Ok () s) = Ok () t" "vmod s t r (if do_free then {pa} else {})"
    "leaf (mem t) r = leaf (mem s) r" "tbl (mem t) r (lpath a) = Some pt" "tabs (mem t) r = tabs (mem s) r"
    "\<And>q. kpage s q \<Longrightarrow> refs t q = (if do_free \<and> q = pa then refs s pa - 1 else refs s q)"
    "\<And>x. (\<And>p. p \<in> tabs (mem s) r \<Longrightarrow> x \<notin> page_bytes p) \<Longrightarrow> (do_free \<and> refs s pa = 1 \<Longrightarrow> x \<notin> page_bytes pa) \<Longrightarrow>
      mem t x = mem s x"
  proof (cases do_free)
    case True
    then have p: "kpage s pa" "1 \<le> refs s pa" "pa \<notin> tabs (mem s) r" using fr by auto
    show thesis
    proof (rule kfree_vmod [OF inv ok p])
      fix t assume t: "kfree pa s = Ok () t" "vmod s t r {pa}" "leaf (mem t) r = leaf (mem s) r"
        "pteaddr (mem t) r = pteaddr (mem s) r" "tabs (mem t) r = tabs (mem s) r"
        "\<And>q. kpage s q \<Longrightarrow> refs t q = (if q = pa then refs s pa - 1 else refs s q)" "1 < refs s pa \<Longrightarrow> mem t = mem s"
      have "mem t x = mem s x" if "\<And>p. p \<in> tabs (mem s) r \<Longrightarrow> x \<notin> page_bytes p" "refs s pa = 1 \<Longrightarrow> x \<notin> page_bytes pa" for x
        using t(7) vmodD(6) [OF t(2), of x] that t(5) p(2) by (cases "refs s pa = 1") auto
      moreover have "pteaddr (mem t) r a = ?p" using t(4) pt by (simp add: pteaddr_def)
      then have "tbl (mem t) r (lpath a) = Some pt"
        using nz by (auto simp: pteaddr_def slot_def split: option.splits)
      ultimately show thesis using that t True by simp
    qed
  next
    case False
    then show thesis using that [of s] pt vmod_refl [OF inv ok] by simp
  qed
  let ?u = "t\<lparr>mem := store64 (mem t) ?p 0\<rparr>"
  note sl = set_leaf [OF vmodD(1,3) [OF t(2)] a t(4), where v = 0]
  have "uvmunmap_loop (Suc n) r a lim do_free s = uvmunmap_loop n r (a + PGSIZE) lim do_free ?u" if "a < lim"
    using that w nz ld e t(1) unfolding pa by (simp split: if_splits)
  moreover have "vmod s ?u r (if do_free then {pa} else {})" using vmod_trans [OF t(2) sl(1)] by simp
  moreover have "leaf (mem ?u) r v = unmapped a 1 (leaf (mem s) r) v" if "v < MAXVA" for v
    using sl(3) [OF that] t(3) e leaf_same_page [OF _ a that, of "mem s" r] unmapped_1 [OF al] by simp
  moreover have "refs ?u q = refs t q" for q by (simp add: refs_def)
  moreover have "mem ?u x = mem s x" if "\<And>p. p \<in> tabs (mem s) r \<Longrightarrow> x \<notin> page_bytes p"
    "do_free \<and> refs s pa = 1 \<Longrightarrow> x \<notin> page_bytes pa" for x
    using t(7) [OF that] that(1) [OF tabsI [OF pt lpath_paths]] by (simp add: store64_slot_outside)
  ultimately show thesis using that [of ?u] sl(2) t(5,6) by simp
qed

lemma unmap_skip:
  assumes "a < MAXVA" "a < lim" "leaf (mem s) r a AND PTE_V = 0"
  shows "uvmunmap_loop (Suc n) r a lim do_free s = uvmunmap_loop n r (a + PGSIZE) lim do_free s"
  using assms by (simp add: walk_False pteaddr_def leaf_def split: option.splits)

text \<open>
  The pages of a range can be freed: each is an allocatable page outside the page table, with at
  least as many references as the range has mappings of it.
\<close>

definition freeable :: "'a kmem_scheme \<Rightarrow> addr \<Rightarrow> addr list \<Rightarrow> bool" where
  "freeable s r ps \<longleftrightarrow> (\<forall>p \<in> set ps. kpage s p \<and> p \<notin> tabs (mem s) r \<and> int (count_list ps p) \<le> refs s p)"

lemma unmap_loop_ok:
  assumes "kmem_inv s" "pt_ok s r" "page_aligned a" "unat a + 4096 * n \<le> 2 ^ 38"
    "unat lim = unat a + 4096 * n" "do_free \<Longrightarrow> freeable s r (pages_of (leaf (mem s) r) a n)"
  shows "\<exists>t. uvmunmap_loop (Suc n) r a lim do_free s = Ok () t \<and>
    vmod s t r (if do_free then set (pages_of (leaf (mem s) r) a n) else {}) \<and> tabs (mem t) r = tabs (mem s) r \<and>
    (\<forall>v < MAXVA. leaf (mem t) r v = unmapped a n (leaf (mem s) r) v) \<and>
    (\<forall>q. kpage s q \<longrightarrow> refs t q = refs s q -
      (if do_free then int (count_list (pages_of (leaf (mem s) r) a n) q) else 0)) \<and>
    (\<forall>x. (\<forall>p \<in> tabs (mem s) r. x \<notin> page_bytes p) \<and>
      (\<forall>p \<in> set (pages_of (leaf (mem s) r) a n). do_free \<and> refs t p = 0 \<longrightarrow> x \<notin> page_bytes p) \<longrightarrow> mem t x = mem s x)"
  using assms
proof (induction n arbitrary: s a)
  case (0 s a)
  then have "\<not> a < lim" by (simp add: word_less_nat_alt)
  then show ?case using 0 vmod_refl by simp
next
  case (Suc n s a)
  let ?f = "leaf (mem s) r"
  have lim: "unat a + 4096 \<le> 2 ^ 38" and a1: "a < MAXVA"
    using Suc.prems(4,5) by (simp_all add: less_MAXVA)
  have a2: "a < lim" using Suc.prems(5) by (simp add: word_less_nat_alt)
  note a = a1 a2
  have nx: "page_aligned (a + PGSIZE)" "unat (a + PGSIZE) + 4096 * n \<le> 2 ^ 38"
    "unat lim = unat (a + PGSIZE) + 4096 * n"
    using Suc.prems(3-5) unat_next [OF lim] by (auto intro: page_aligned_next)
  show ?case
  proof (cases "?f a AND PTE_V = 0")
    case True
    then have "pages_of ?f a (Suc n) = pages_of ?f (a + PGSIZE) n" by simp
    moreover have "unmapped a (Suc n) ?f v = unmapped (a + PGSIZE) n ?f v" if "v < MAXVA" for v
    proof -
      have "unmapped a 1 ?f v' = ?f v'" if "v' < MAXVA" for v'
        using True leaf_same_page [OF _ a(1) that, of "mem s" r] unmapped_1 [OF Suc.prems(3)] by auto
      then show ?thesis
        using that unmapped_Suc [OF Suc.prems(3) lim, of n ?f v] by (simp add: unmapped_def [of "a + PGSIZE"])
    qed
    moreover note Suc.IH [OF Suc.prems(1,2) nx]
    ultimately show ?thesis using unmap_skip [OF a True, of "Suc n" do_free] Suc.prems(6) by auto
  next
    case False
    let ?pa = "PTE2PA (?f a)" and ?ps = "pages_of ?f (a + PGSIZE) n"
    have ps: "pages_of ?f a (Suc n) = ?pa # ?ps" using False by simp
    have "do_free \<Longrightarrow> kpage s ?pa \<and> 1 \<le> refs s ?pa \<and> ?pa \<notin> tabs (mem s) r"
      using Suc.prems(6) unfolding ps freeable_def by force
    then show ?thesis
    proof (rule unmap_step [OF Suc.prems(1-3) a(1) False _ refl, where lim = lim and n = "Suc n" and do_free = do_free])
      fix u assume u: "a < lim \<Longrightarrow> uvmunmap_loop (Suc (Suc n)) r a lim do_free s = uvmunmap_loop (Suc n) r (a + PGSIZE) lim do_free u"
        "vmod s u r (if do_free then {?pa} else {})" "tabs (mem u) r = tabs (mem s) r"
        "\<And>v. v < MAXVA \<Longrightarrow> leaf (mem u) r v = unmapped a 1 ?f v"
        "\<And>q. kpage s q \<Longrightarrow> refs u q = (if do_free \<and> q = ?pa then refs s ?pa - 1 else refs s q)"
        "\<And>x. (\<And>p. p \<in> tabs (mem s) r \<Longrightarrow> x \<notin> page_bytes p) \<Longrightarrow>
          (do_free \<and> refs s ?pa = 1 \<Longrightarrow> x \<notin> page_bytes ?pa) \<Longrightarrow> mem u x = mem s x"
      have kp: "kpage u q = kpage s q" for q using vmodD(2) [OF u(2)] by (rule kmem_frameD)
      have "leaf (mem u) r v = ?f v" if "in_range (a + PGSIZE) n v" for v
      proof -
        have "v < MAXVA" using that nx(2) by (simp add: less_MAXVA in_range_def)
        moreover have "\<not> same_page a v" using that in_range_Suc(2) [OF Suc.prems(3) lim] by blast
        ultimately show ?thesis using u(4) unmapped_1 [OF Suc.prems(3)] by simp
      qed
      then have ps2: "pages_of (leaf (mem u) r) (a + PGSIZE) n = ?ps" using nx(1,2) by (rule pages_of_cong)
      have "do_free \<Longrightarrow> freeable u r (pages_of (leaf (mem u) r) (a + PGSIZE) n)"
        using Suc.prems(6) u(3,5) kp unfolding ps2 ps freeable_def by fastforce
      from Suc.IH [OF vmodD(1,3) [OF u(2)] nx this] obtain t where
        t: "uvmunmap_loop (Suc n) r (a + PGSIZE) lim do_free u = Ok () t"
        "vmod u t r (if do_free then set ?ps else {})" "tabs (mem t) r = tabs (mem u) r"
        "\<forall>v < MAXVA. leaf (mem t) r v = unmapped (a + PGSIZE) n (leaf (mem u) r) v"
        "\<forall>q. kpage u q \<longrightarrow> refs t q = refs u q - (if do_free then int (count_list ?ps q) else 0)"
        "\<forall>x. (\<forall>p \<in> tabs (mem u) r. x \<notin> page_bytes p) \<and>
          (\<forall>p \<in> set ?ps. do_free \<and> refs t p = 0 \<longrightarrow> x \<notin> page_bytes p) \<longrightarrow> mem t x = mem u x"
        unfolding ps2 by blast
      have "vmod s t r (if do_free then set (?pa # ?ps) else {})"
        using vmod_trans [OF u(2) t(2)] by (simp split: if_splits)
      moreover have "leaf (mem t) r v = unmapped a (Suc n) ?f v" if "v < MAXVA" for v
        using t(4) that u(4) [OF that] unmapped_Suc [OF Suc.prems(3) lim, of n ?f v] by (simp add: unmapped_def [of "a + PGSIZE"])
      moreover have "refs t q = refs s q - (if do_free then int (count_list (?pa # ?ps) q) else 0)" if "kpage s q" for q
        using t(5) u(5) [OF that] that kp by auto
      moreover have "mem t x = mem s x" if "\<forall>p \<in> tabs (mem s) r. x \<notin> page_bytes p"
        "\<forall>p \<in> set (?pa # ?ps). do_free \<and> refs t p = 0 \<longrightarrow> x \<notin> page_bytes p" for x
      proof -
        have "refs t ?pa = 0" if "do_free \<and> refs s ?pa = 1"
        proof -
          have "kpage s ?pa" "int (count_list ?ps ?pa) = 0"
            using Suc.prems(6) that unfolding ps freeable_def by auto
          then show ?thesis using t(5) u(5) [of ?pa] that kp by auto
        qed
        then have "mem u x = mem s x" using that by (intro u(6)) auto
        moreover have "mem t x = mem u x" using t(6) that u(3) by auto
        ultimately show ?thesis by simp
      qed
      ultimately show ?thesis unfolding ps using u(1) [OF a2] u(3) t(1,3) by auto
    qed
  qed
qed

lemma uvmunmap_ok:
  assumes "kmem_inv s" "pt_ok s r" "page_aligned va" "unat va + 4096 * n \<le> 2 ^ 38"
    "do_free \<Longrightarrow> freeable s r (pages_of (leaf (mem s) r) va n)"
  obtains t where "uvmunmap r va (of_nat n) do_free s = Ok () t"
    "vmod s t r (if do_free then set (pages_of (leaf (mem s) r) va n) else {})"
    "tabs (mem t) r = tabs (mem s) r"
    "\<And>v. v < MAXVA \<Longrightarrow> leaf (mem t) r v = unmapped va n (leaf (mem s) r) v"
    "\<And>q. kpage s q \<Longrightarrow> refs t q = refs s q -
      (if do_free then int (count_list (pages_of (leaf (mem s) r) va n) q) else 0)"
    "\<And>x. (\<forall>p \<in> tabs (mem s) r. x \<notin> page_bytes p) \<Longrightarrow>
      (\<forall>p \<in> set (pages_of (leaf (mem s) r) va n). do_free \<and> refs t p = 0 \<longrightarrow> x \<notin> page_bytes p) \<Longrightarrow> mem t x = mem s x"
proof -
  have "unat (of_nat (4096 * n) :: u64) = 4096 * n" using assms(4) by (intro unat_of_nat_small) simp
  then have lim: "unat (va + of_nat n * PGSIZE) = unat va + 4096 * n"
    using assms(4) by (simp add: PGSIZE_def unat_word_ariths mult.commute)
  have "unat (of_nat n :: u64) = n" using assms(4) by (intro unat_of_nat_small) simp
  moreover have "va mod PGSIZE = 0" using assms(3) by (simp add: page_aligned_def PGSIZE_def)
  ultimately have "uvmunmap r va (of_nat n) do_free s =
      uvmunmap_loop (Suc n) r va (va + of_nat n * PGSIZE) do_free s"
    by (simp add: uvmunmap_def del: uvmunmap_loop.simps)
  moreover note unmap_loop_ok [where do_free = do_free, OF assms(1-4) lim assms(5)]
  ultimately show thesis using that by (auto simp del: uvmunmap_loop.simps)
qed

section \<open>Copying an address space\<close>

text \<open>The changes of a routine that edits the leaf entries of \<open>old\<close> and maps into \<open>new\<close>.\<close>

definition vmod2 :: "'a kmem_scheme \<Rightarrow> 'a kmem_scheme \<Rightarrow> addr \<Rightarrow> addr \<Rightarrow> bool" where
  "vmod2 s t old new \<longleftrightarrow> kmem_inv t \<and> kmem_frame s t \<and> pt_ok t old \<and> pt_ok t new \<and>
     tabs (mem t) old = tabs (mem s) old \<and> tabs (mem s) new \<subseteq> tabs (mem t) new \<and>
     tabs (mem t) new - tabs (mem s) new \<subseteq> free_pages s \<and> tabs (mem t) old \<inter> tabs (mem t) new = {} \<and>
     (\<forall>x. (\<forall>p \<in> tabs (mem t) old \<union> tabs (mem t) new. x \<notin> page_bytes p) \<longrightarrow> mem t x = mem s x) \<and>
     free_pages t \<subseteq> free_pages s"

lemma vmod2D:
  assumes "vmod2 s t old new"
  shows "kmem_inv t" "kmem_frame s t" "pt_ok t old" "pt_ok t new" "tabs (mem t) old = tabs (mem s) old"
    "tabs (mem s) new \<subseteq> tabs (mem t) new" "tabs (mem t) new - tabs (mem s) new \<subseteq> free_pages s"
    "tabs (mem t) old \<inter> tabs (mem t) new = {}"
    "(\<And>p. p \<in> tabs (mem t) old \<union> tabs (mem t) new \<Longrightarrow> x \<notin> page_bytes p) \<Longrightarrow> mem t x = mem s x"
    "free_pages t \<subseteq> free_pages s"
  using assms unfolding vmod2_def by auto

lemma vmod2_trans:
  assumes "vmod2 s t old new" "vmod2 t u old new"
  shows "vmod2 s u old new"
proof -
  note a = vmod2D [OF assms(1)] and b = vmod2D [OF assms(2)]
  have "mem u x = mem s x" if "\<forall>p \<in> tabs (mem u) old \<union> tabs (mem u) new. x \<notin> page_bytes p" for x
  proof -
    have "mem t x = mem s x" by (rule a(9)) (use that b(5,6) in blast)
    moreover have "mem u x = mem t x" by (rule b(9)) (use that in blast)
    ultimately show ?thesis by simp
  qed
  moreover have "tabs (mem u) new - tabs (mem s) new \<subseteq> free_pages s" using a(7,10) b(7) by blast
  moreover have "kmem_frame s u" using a(2) b(2) by (rule kmem_frame_trans)
  moreover have "tabs (mem u) old = tabs (mem s) old" "tabs (mem s) new \<subseteq> tabs (mem u) new"
    "free_pages u \<subseteq> free_pages s" using a(5,6,10) b(5,6,10) by auto
  ultimately show ?thesis using b(1,3,4,8) unfolding vmod2_def by simp
qed

lemma vmod_free:
  assumes "vmod s t r {}" "pt_ok s r"
  shows "free_pages t \<subseteq> free_pages s"
proof
  fix q assume q: "q \<in> free_pages t"
  then have "q \<notin> tabs (mem t) r" using pt_ok_not_free [OF vmodD(3) [OF assms(1)]] by blast
  then show "q \<in> free_pages s"
    using q vmodD(7) [OF assms(1), of q] kmem_frameD(4) [OF vmodD(2) [OF assms(1)]]
    by (auto simp: free_pages_def)
qed

lemma vmod2_old:
  assumes v: "vmod s t old {}" "tabs (mem t) old = tabs (mem s) old" and ok: "pt_ok s old" "pt_ok s new"
    and d: "tabs (mem s) old \<inter> tabs (mem s) new = {}"
  shows "vmod2 s t old new" "leaf (mem t) new = leaf (mem s) new" "pteaddr (mem t) new = pteaddr (mem s) new"
proof -
  have d': "tabs (mem s) new \<inter> (tabs (mem s) old \<union> {}) = {}" using d by auto
  note o = vmod_other [OF v(1) ok(2) d', simplified]
  show "leaf (mem t) new = leaf (mem s) new" "pteaddr (mem t) new = pteaddr (mem s) new" using o by auto
  show "vmod2 s t old new"
    using vmodD(1-3) [OF v(1)] vmodD(6) [OF v(1)] v(2) o(1,2) d vmod_free [OF v(1) ok(1)]
    unfolding vmod2_def by auto
qed

lemma vmod2_new:
  assumes v: "vmod s t new {}" and ok: "pt_ok s old" "pt_ok s new"
    and d: "tabs (mem s) old \<inter> tabs (mem s) new = {}"
  shows "vmod2 s t old new" "leaf (mem t) old = leaf (mem s) old"
proof -
  have d': "tabs (mem s) old \<inter> (tabs (mem s) new \<union> {}) = {}" using d by auto
  note o = vmod_other [OF v(1) ok(1) d', simplified]
  show "leaf (mem t) old = leaf (mem s) old" using o by auto
  show "vmod2 s t old new"
    using vmodD(1-5) [OF v(1)] vmodD(6) [OF v(1)] o(1,2,5) vmod_free [OF v(1) ok(2)]
    unfolding vmod2_def by auto
qed

end
