(* ===== verification/Vmcopy.thy ===== *)
theory Vmcopy
  imports Vmspec
begin

unbundle bit_operations_syntax

text \<open>
  The copy of an address space for fork (\<^verbatim>\<open>uvmcopy\<close> of \<^verbatim>\<open>kernel/vm.c\<close>): parent and child share
  every page, writable pages become read-only and copy-on-write in both, and each shared page
  gains one reference.
\<close>

section \<open>Entries of shared pages\<close>

definition cow_flags :: "u64 \<Rightarrow> u64" where
  "cow_flags f = (if f AND PTE_W \<noteq> 0 then f AND NOT PTE_W OR PTE_COW else f)"

text \<open>The entry of the child, and that of the parent, for a page whose entry was \<open>e\<close>.\<close>

definition shared :: "u64 \<Rightarrow> u64" where
  "shared e = PA2PTE (PTE2PA e) OR cow_flags (PTE_FLAGS e)"

definition cowed :: "u64 \<Rightarrow> u64" where
  "cowed e = (if PTE_FLAGS e AND PTE_W \<noteq> 0 then shared e else e)"

lemma and_flag_iff: "(w :: u64) AND push_bit n 1 \<noteq> 0 \<longleftrightarrow> bit w n" if "n < 64"
proof -
  have "w AND push_bit n 1 = (if bit w n then push_bit n 1 else 0)"
    by (rule bit_word_eqI) (auto simp: bit_simps)
  moreover have "push_bit n 1 \<noteq> (0 :: u64)"
  proof
    assume "push_bit n 1 = (0 :: u64)"
    then have "bit (push_bit n 1 :: u64) n = bit (0 :: u64) n" by (simp only:)
    then show False using that by (simp add: bit_simps)
  qed
  ultimately show ?thesis by simp
qed

lemma flag_iffs:
  "w AND PTE_V \<noteq> 0 \<longleftrightarrow> bit w 0" "w AND PTE_R \<noteq> 0 \<longleftrightarrow> bit w 1" "w AND PTE_W \<noteq> 0 \<longleftrightarrow> bit w 2"
  "w AND PTE_X \<noteq> 0 \<longleftrightarrow> bit w 3" "w AND PTE_U \<noteq> 0 \<longleftrightarrow> bit w 4" "w AND PTE_COW \<noteq> 0 \<longleftrightarrow> bit w 8"
  unfolding PTE_V_def PTE_R_def PTE_W_def PTE_X_def PTE_U_def PTE_COW_def by (rule and_flag_iff; simp)+

lemma bit_flag: "bit PTE_W n \<longleftrightarrow> n = 2" "bit PTE_COW n \<longleftrightarrow> n = 8" "bit PTE_V n \<longleftrightarrow> n = 0"
proof -
  have *: "bit (push_bit k 1 :: u64) n \<longleftrightarrow> n = k" if "k < 64" for k
    using that by (auto simp: bit_simps)
  show "bit PTE_W n \<longleftrightarrow> n = 2" "bit PTE_COW n \<longleftrightarrow> n = 8" "bit PTE_V n \<longleftrightarrow> n = 0"
    unfolding PTE_W_def PTE_COW_def PTE_V_def by (rule *; simp)+
qed

lemma bit_PTE_FLAGS: "bit (PTE_FLAGS e) n \<longleftrightarrow> n < 10 \<and> bit e n"
proof -
  have "PTE_FLAGS e = take_bit 10 e"
    by (simp add: PTE_FLAGS_def take_bit_eq_mask mask_eq_exp_minus_1)
  then show ?thesis by (simp add: bit_simps)
qed

lemma bit_cow_flags:
  "bit (cow_flags f) n \<longleftrightarrow> (if n = 2 then False else if n = 8 then bit f 8 \<or> bit f 2 else bit f n)"
proof -
  have "n < 64" if "bit f n" for n using bit_imp_le_length [OF that] by simp
  then show ?thesis unfolding cow_flags_def flag_iffs by (auto simp: bit_simps bit_flag)
qed

lemma bit_shared:
  "bit (shared e) n \<longleftrightarrow> (if n = 2 then False else if n = 8 then bit e 8 \<or> bit e 2 else n < 62 \<and> bit e n)"
proof -
  have "n < 64" if "bit e n" for n using bit_imp_le_length [OF that] by simp
  moreover have "bit (PA2PTE (PTE2PA e)) n \<longleftrightarrow> 10 \<le> n \<and> n < 62 \<and> bit e n"
    using bit_imp_le_length [of e n] by (auto simp: PA2PTE_def PTE2PA_def bit_simps)
  ultimately show ?thesis unfolding shared_def by (auto simp: bit_simps bit_cow_flags bit_PTE_FLAGS)
qed

lemma shared_props:
  "PTE2PA (shared e) = PTE2PA e" "shared e AND PTE_W = 0"
  "shared e AND PTE_V \<noteq> 0 \<longleftrightarrow> e AND PTE_V \<noteq> 0" "shared e AND PTE_U \<noteq> 0 \<longleftrightarrow> e AND PTE_U \<noteq> 0"
  "e AND PTE_W \<noteq> 0 \<Longrightarrow> shared e AND PTE_COW \<noteq> 0" "e AND PTE_V \<noteq> 0 \<Longrightarrow> shared e OR PTE_V = shared e"
proof -
  show "PTE2PA (shared e) = PTE2PA e"
    by (rule bit_word_eqI) (auto simp: PTE2PA_def bit_simps bit_shared)
  show "shared e AND PTE_W = 0" using flag_iffs(3) [of "shared e"] by (simp add: bit_shared)
  show "shared e AND PTE_V \<noteq> 0 \<longleftrightarrow> e AND PTE_V \<noteq> 0" "shared e AND PTE_U \<noteq> 0 \<longleftrightarrow> e AND PTE_U \<noteq> 0"
    unfolding flag_iffs by (simp_all add: bit_shared)
  show "e AND PTE_W \<noteq> 0 \<Longrightarrow> shared e AND PTE_COW \<noteq> 0" unfolding flag_iffs by (simp add: bit_shared)
  show "shared e OR PTE_V = shared e" if "e AND PTE_V \<noteq> 0"
    using that unfolding flag_iffs by (intro bit_word_eqI) (auto simp: bit_simps bit_flag bit_shared)
qed

lemma cowed_props:
  "PTE2PA (cowed e) = PTE2PA e" "cowed e AND PTE_W = 0"
  "cowed e AND PTE_V \<noteq> 0 \<longleftrightarrow> e AND PTE_V \<noteq> 0" "cowed e AND PTE_U \<noteq> 0 \<longleftrightarrow> e AND PTE_U \<noteq> 0"
  "e AND PTE_W \<noteq> 0 \<Longrightarrow> cowed e AND PTE_COW \<noteq> 0"
proof -
  have w: "PTE_FLAGS e AND PTE_W \<noteq> 0 \<longleftrightarrow> e AND PTE_W \<noteq> 0" unfolding flag_iffs by (simp add: bit_PTE_FLAGS)
  show "PTE2PA (cowed e) = PTE2PA e" "cowed e AND PTE_V \<noteq> 0 \<longleftrightarrow> e AND PTE_V \<noteq> 0"
    "cowed e AND PTE_U \<noteq> 0 \<longleftrightarrow> e AND PTE_U \<noteq> 0" using shared_props(3,4) [of e] by (auto simp: cowed_def shared_props(1))
  show "cowed e AND PTE_W = 0" "e AND PTE_W \<noteq> 0 \<Longrightarrow> cowed e AND PTE_COW \<noteq> 0"
    using w by (auto simp: cowed_def shared_props)
qed

section \<open>One page\<close>

lemma krefinc_vmod2:
  assumes inv: "kmem_inv s" and ok: "pt_ok s old" "pt_ok s new" and d: "tabs (mem s) old \<inter> tabs (mem s) new = {}"
    and p: "kpage s pa" "1 \<le> refs s pa" "pa \<notin> tabs (mem s) old \<union> tabs (mem s) new"
  obtains t where "krefinc pa s = Ok () t" "vmod2 s t old new" "mem t = mem s"
    "\<And>q. kpage s q \<Longrightarrow> refs t q = (if q = pa then refs s pa + 1 else refs s q)"
proof -
  let ?t = "s\<lparr>refcnt := (refcnt s)(pa2idx pa := refs s pa + 1)\<rparr>"
  have ko: "kmem_ok s" using inv by (simp add: kmem_inv_def)
  have rf: "refs ?t q = (if q = pa then refs s pa + 1 else refs s q)" if "kpage s q" for q
    using refs_upd [OF ko p(1) that] .
  have kp: "kpage ?t q = kpage s q" for q by (simp add: kpage_def)
  have re: "refs ?t q = refs s q" if "q \<in> tabs (mem s) r" "r = old \<or> r = new" for q r
  proof -
    have "kpage s q" "q \<noteq> pa" using that p(3) pt_ok_tabs ok by blast+
    then show ?thesis using rf [of q] by simp
  qed
  have "pt_ok ?t old" by (rule pt_ok_cong(1) [OF ok(1)]) (use re in auto)
  moreover have "pt_ok ?t new" by (rule pt_ok_cong(1) [OF ok(2)]) (use re in auto)
  moreover have "kmem_frame s ?t" by (simp add: kmem_frame_def)
  moreover have "free_pages ?t \<subseteq> free_pages s"
    using rf kp p(2) by (auto simp: free_pages_def split: if_splits)
  ultimately have "vmod2 s ?t old new"
    using krefinc_spec(2) [OF inv p(1,2)] d unfolding vmod2_def by simp
  then show thesis using that [of ?t] krefinc_spec(1) [OF inv p(1,2)] rf by simp
qed

text \<open>The first half of the loop body: the parent's entry loses its write permission.\<close>

lemma cow_parent:
  assumes inv: "kmem_inv s" and ok: "pt_ok s old" "pt_ok s new" and d: "tabs (mem s) old \<inter> tabs (mem s) new = {}"
    and a: "i < MAXVA" and pt: "tbl (mem s) old (lpath i) = Some pt" and e: "e = leaf (mem s) old i"
  obtains t where "t = (if PTE_FLAGS e AND PTE_W \<noteq> 0
      then s\<lparr>mem := store64 (mem s) (slot pt (unat (PX 0 i))) (shared e)\<rparr> else s)"
    "vmod2 s t old new" "\<And>v. v < MAXVA \<Longrightarrow> leaf (mem t) old v = (if same_page i v then cowed e else leaf (mem s) old v)"
    "leaf (mem t) new = leaf (mem s) new" "\<And>q. refs t q = refs s q"
proof (cases "PTE_FLAGS e AND PTE_W \<noteq> 0")
  case True
  note sl = set_leaf [OF inv ok(1) a pt, where v = "shared e"]
  show thesis
    using that [OF _ vmod2_old(1) [OF sl(1,2) ok d]] True sl(3) vmod2_old(2) [OF sl(1,2) ok d]
    by (simp add: cowed_def refs_def)
next
  case False
  have "vmod2 s s old new" using inv ok d by (simp add: vmod2_def)
  moreover have "leaf (mem s) old v = cowed e" if "v < MAXVA" "same_page i v" for v
    using False leaf_same_page [OF that(2) a that(1)] e by (simp add: cowed_def)
  ultimately show thesis using that [of s] False by auto
qed

lemma copy_step:
  assumes inv: "kmem_inv s" and ok: "pt_ok s old" "pt_ok s new" and d: "tabs (mem s) old \<inter> tabs (mem s) new = {}"
    and al: "page_aligned i" and a: "i < MAXVA" and sz: "i < sz" and e: "e = leaf (mem s) old i" "e AND PTE_V \<noteq> 0"
    and p: "kpage s (PTE2PA e)" "1 \<le> refs s (PTE2PA e)" "PTE2PA e \<notin> tabs (mem s) old \<union> tabs (mem s) new"
    and n: "leaf (mem s) new i AND PTE_V = 0"
  obtains t where "uvmcopy_loop (Suc n) old new i sz s = uvmcopy_loop n old new (i + PGSIZE) sz t" "vmod2 s t old new"
      "\<And>v. v < MAXVA \<Longrightarrow> leaf (mem t) old v = (if same_page i v then cowed e else leaf (mem s) old v)"
      "\<And>v. v < MAXVA \<Longrightarrow> leaf (mem t) new v = (if same_page i v then shared e else leaf (mem s) new v)"
      "\<And>q. kpage s q \<Longrightarrow> q \<notin> tabs (mem t) new \<Longrightarrow> refs t q = refs s q + (if q = PTE2PA e then 1 else 0)"
  | t where "uvmcopy_loop (Suc n) old new i sz s =
        bnd (uvmunmap new 0 (i div PGSIZE) True t) (\<lambda>_ s. Ok (- 1) s)" "vmod2 s t old new"
      "\<And>v. v < MAXVA \<Longrightarrow> leaf (mem t) old v = (if same_page i v then cowed e else leaf (mem s) old v)"
      "\<And>v. v < MAXVA \<Longrightarrow> leaf (mem t) new v = leaf (mem s) new v"
      "\<And>q. kpage s q \<Longrightarrow> q \<notin> tabs (mem t) new \<Longrightarrow> refs t q = refs s q"
proof -
  obtain pt where pt: "tbl (mem s) old (lpath i) = Some pt"
    using e by (cases "tbl (mem s) old (lpath i)") (auto simp: leaf_def)
  let ?p = "slot pt (unat (PX 0 i))"
  have nz: "?p \<noteq> 0" using inv pt_ok_tabs [OF ok(1) tabsI [OF pt]] by (intro slot_nonzero) auto
  have w: "walk old i False s = Ok ?p s" using pt by (simp add: walk_False [OF a] pteaddr_def)
  have ld: "load64 (mem s) ?p = e" using pt e(1) by (simp add: leaf_def)
  obtain t where tdef: "t = (if PTE_FLAGS e AND PTE_W \<noteq> 0 then s\<lparr>mem := store64 (mem s) ?p (shared e)\<rparr> else s)"
    and t: "vmod2 s t old new"
    "\<And>v. v < MAXVA \<Longrightarrow> leaf (mem t) old v = (if same_page i v then cowed e else leaf (mem s) old v)"
    "leaf (mem t) new = leaf (mem s) new" "\<And>q. refs t q = refs s q"
    by (rule cow_parent [OF inv ok d a pt e(1)]) blast
  have run: "uvmcopy_loop (Suc n) old new i sz s =
      bnd (mappages new i PGSIZE (PTE2PA e) (cow_flags (PTE_FLAGS e)) t) (\<lambda>r s.
        if r \<noteq> 0 then bnd (uvmunmap new 0 (i div PGSIZE) True s) (\<lambda>_ s. Ok (- 1) s)
        else bnd (krefinc (PTE2PA e) s) (\<lambda>_ s. uvmcopy_loop n old new (i + PGSIZE) sz s))"
    using sz w nz ld e(2)
    by (cases "PTE_FLAGS e AND PTE_W = 0") (simp_all add: tdef Let_def cow_flags_def shared_def)
  note t0 = vmod2D [OF t(1)]
  have n': "leaf (mem t) new i AND PTE_V = 0" using n t(3) by simp
  have sh: "PA2PTE (PTE2PA e) OR cow_flags (PTE_FLAGS e) OR PTE_V = shared e"
    using shared_props(6) [OF e(2)] by (simp add: shared_def or.assoc)
  have kt: "kpage t q = kpage s q" for q using t0(2) by (rule kmem_frameD)
  have pt: "kpage t (PTE2PA e)" "refs t (PTE2PA e) \<noteq> 0" "PTE2PA e \<notin> tabs (mem t) new" "PTE2PA e \<notin> {}"
    using p kt t(4) t0(5,7) by (auto simp: free_pages_def)
  show thesis
  proof (rule mappages_page [OF t0(1) t0(4) al a n', of "PTE2PA e" "cow_flags (PTE_FLAGS e)"])
    fix u assume u: "mappages new i PGSIZE (PTE2PA e) (cow_flags (PTE_FLAGS e)) t = Ok 0 u" "vmod t u new {}"
      "\<And>v. v < MAXVA \<Longrightarrow> leaf (mem u) new v =
        (if same_page i v then PA2PTE (PTE2PA e) OR cow_flags (PTE_FLAGS e) OR PTE_V else leaf (mem t) new v)"
    note u2 = vmod2_new [OF u(2) t0(3,4,8)]
    note u0 = vmod2D [OF u2(1)]
    have ku: "kpage u q = kpage t q" for q using u0(2) by (rule kmem_frameD)
    have ru: "refs u q = refs s q" if "kpage s q" "q \<notin> tabs (mem u) new" for q
      using vmodD(7) [OF u(2), of q] that kt t(4) by simp
    have pu: "PTE2PA e \<notin> tabs (mem u) new" using vmod_page(3) [OF u(2) pt] by simp
    have pk: "kpage u (PTE2PA e)" "1 \<le> refs u (PTE2PA e)" "PTE2PA e \<notin> tabs (mem u) old \<union> tabs (mem u) new"
      using ru [OF p(1) pu] p u0(5) t0(5) pu ku kt by auto
    show thesis
    proof (rule krefinc_vmod2 [OF u0(1,3,4,8) pk])
      fix x assume x: "krefinc (PTE2PA e) u = Ok () x" "vmod2 u x old new" "mem x = mem u"
        "\<And>q. kpage u q \<Longrightarrow> refs x q = (if q = PTE2PA e then refs u (PTE2PA e) + 1 else refs u q)"
      show thesis
      proof (rule that(1) [of x])
        show "uvmcopy_loop (Suc n) old new i sz s = uvmcopy_loop n old new (i + PGSIZE) sz x"
          unfolding run using u(1) x(1) by simp
        show "vmod2 s x old new" using vmod2_trans [OF vmod2_trans [OF t(1) u2(1)] x(2)] .
        show "leaf (mem x) old v = (if same_page i v then cowed e else leaf (mem s) old v)" if "v < MAXVA" for v
          using x(3) u2(2) t(2) [OF that] by simp
        show "leaf (mem x) new v = (if same_page i v then shared e else leaf (mem s) new v)" if "v < MAXVA" for v
          using x(3) u(3) [OF that] t(3) sh by simp
        show "refs x q = refs s q + (if q = PTE2PA e then 1 else 0)" if "kpage s q" "q \<notin> tabs (mem x) new" for q
          using x(3,4) ru that ku kt by auto
      qed
    qed
  next
    fix u assume u: "mappages new i PGSIZE (PTE2PA e) (cow_flags (PTE_FLAGS e)) t = Ok (- 1) u" "vmod t u new {}"
      "\<And>v. v < MAXVA \<Longrightarrow> leaf (mem u) new v = leaf (mem t) new v" "free_pages u = {}"
    note u2 = vmod2_new [OF u(2) t0(3,4,8)]
    show thesis
    proof (rule that(2) [of u])
      show "uvmcopy_loop (Suc n) old new i sz s = bnd (uvmunmap new 0 (i div PGSIZE) True u) (\<lambda>_ s. Ok (- 1) s)"
        unfolding run using u(1) by simp
      show "vmod2 s u old new" using vmod2_trans [OF t(1) u2(1)] .
      show "leaf (mem u) old v = (if same_page i v then cowed e else leaf (mem s) old v)" if "v < MAXVA" for v
        using u2(2) t(2) [OF that] by simp
      show "leaf (mem u) new v = leaf (mem s) new v" if "v < MAXVA" for v
        using u(3) [OF that] t(3) by simp
      show "refs u q = refs s q" if "kpage s q" "q \<notin> tabs (mem u) new" for q
        using vmodD(7) [OF u(2), of q] that kt t(4) by simp
    qed
  qed
qed

section \<open>The loop\<close>

lemma pages_of_append:
  "pages_of f a (n + m) = pages_of f a n @ pages_of f (a + of_nat n * PGSIZE) m"
  by (induction n arbitrary: a) (simp_all add: algebra_simps)

lemma pages_of_in:
  assumes "p \<in> set (pages_of f a n)" "page_aligned a" "unat a + 4096 * n \<le> 2 ^ 38"
  shows "\<exists>v. in_range a n v \<and> page_aligned v \<and> f v AND PTE_V \<noteq> 0 \<and> p = PTE2PA (f v)"
  using assms
proof (induction n arbitrary: a)
  case (Suc n)
  have lim: "unat a + 4096 \<le> 2 ^ 38" using Suc.prems(3) by simp
  show ?case
  proof (cases "p \<in> set (pages_of f (a + PGSIZE) n)")
    case True
    then obtain v where "in_range (a + PGSIZE) n v" "page_aligned v" "f v AND PTE_V \<noteq> 0" "p = PTE2PA (f v)"
      using Suc.IH [of "a + PGSIZE"] Suc.prems page_aligned_next unat_next [OF lim] by auto
    then show ?thesis using in_range_Suc(1) [OF Suc.prems(2) lim] by blast
  next
    case False
    then have "f a AND PTE_V \<noteq> 0" "p = PTE2PA (f a)" using Suc.prems(1) by (auto split: if_splits)
    then show ?thesis using Suc.prems(2) by (intro exI [of _ a]) (simp add: in_range_def)
  qed
qed simp

text \<open>The state \<open>t\<close> after the first \<open>k\<close> pages of the copy that started in \<open>s\<close>.\<close>

definition copied :: "'a kmem_scheme \<Rightarrow> addr \<Rightarrow> addr \<Rightarrow> nat \<Rightarrow> 'a kmem_scheme \<Rightarrow> bool" where
  "copied s old new k t \<longleftrightarrow> vmod2 s t old new \<and>
     (\<forall>v < MAXVA. leaf (mem t) old v =
        (if in_range 0 k v \<and> leaf (mem s) old v AND PTE_V \<noteq> 0 then cowed (leaf (mem s) old v)
         else leaf (mem s) old v)) \<and>
     (\<forall>v < MAXVA. leaf (mem t) new v =
        (if in_range 0 k v \<and> leaf (mem s) old v AND PTE_V \<noteq> 0 then shared (leaf (mem s) old v)
         else leaf (mem s) new v)) \<and>
     (\<forall>q. kpage s q \<and> q \<notin> tabs (mem t) new \<longrightarrow>
        refs t q = refs s q + int (count_list (pages_of (leaf (mem s) old) 0 k) q))"

text \<open>
  The caller's side: the page tables are well formed and apart from each other, every page mapped
  below the limit is an allocatable page in use that is no table page, and the child has no
  mapping there.
\<close>

definition copy_pre :: "'a kmem_scheme \<Rightarrow> addr \<Rightarrow> addr \<Rightarrow> nat \<Rightarrow> bool" where
  "copy_pre s old new n \<longleftrightarrow> kmem_inv s \<and> pt_ok s old \<and> pt_ok s new \<and> tabs (mem s) old \<inter> tabs (mem s) new = {} \<and>
     4096 * n \<le> 2 ^ 38 \<and>
     (\<forall>v. in_range 0 n v \<longrightarrow> leaf (mem s) new v AND PTE_V = 0 \<and>
        (leaf (mem s) old v AND PTE_V \<noteq> 0 \<longrightarrow> kpage s (PTE2PA (leaf (mem s) old v)) \<and>
           1 \<le> refs s (PTE2PA (leaf (mem s) old v)) \<and>
           PTE2PA (leaf (mem s) old v) \<notin> tabs (mem s) old \<union> tabs (mem s) new))"

lemma copied_0: "copy_pre s old new n \<Longrightarrow> copied s old new 0 s"
  by (simp add: copied_def copy_pre_def vmod2_def)

lemma in_range_step:
  assumes "unat i = 4096 * k"
  shows "in_range 0 (Suc k) v \<longleftrightarrow> in_range 0 k v \<or> same_page i v" "\<not> (in_range 0 k v \<and> same_page i v)"
  using assms by (auto simp: in_range_def same_page_unat)

text \<open>What \<^verbatim>\<open>fork\<close> finds after a copy that ran out of memory.\<close>

definition copy_failed :: "'a kmem_scheme \<Rightarrow> addr \<Rightarrow> addr \<Rightarrow> nat \<Rightarrow> 'a kmem_scheme \<Rightarrow> bool" where
  "copy_failed s old new n t \<longleftrightarrow> vmod2 s t old new \<and>
     (\<forall>v < MAXVA. leaf (mem t) old v = leaf (mem s) old v \<or>
        leaf (mem s) old v AND PTE_V \<noteq> 0 \<and> leaf (mem t) old v = cowed (leaf (mem s) old v)) \<and>
     (\<forall>v. in_range 0 n v \<longrightarrow> leaf (mem t) new v AND PTE_V = 0) \<and>
     (\<forall>q. kpage s q \<and> q \<notin> tabs (mem t) new \<longrightarrow> refs t q = refs s q)"

lemma in_range_MAXVA: "in_range 0 n v \<Longrightarrow> 4096 * n \<le> 2 ^ 38 \<Longrightarrow> v < MAXVA"
  by (simp add: in_range_def less_MAXVA)

lemma copied_pages:
  assumes pre: "copy_pre s old new n" and c: "copied s old new k t" and k: "k \<le> n"
  shows "pages_of (leaf (mem t) new) 0 k = pages_of (leaf (mem s) old) 0 k"
proof -
  let ?f = "leaf (mem s) old" and ?g = "leaf (mem t) new"
  have lim: "4096 * k \<le> 2 ^ 38" "4096 * n \<le> 2 ^ 38" using pre k by (auto simp: copy_pre_def)
  have e: "?g v AND PTE_V \<noteq> 0 \<longleftrightarrow> ?f v AND PTE_V \<noteq> 0" "?f v AND PTE_V \<noteq> 0 \<Longrightarrow> PTE2PA (?g v) = PTE2PA (?f v)"
    if "in_range 0 k v" for v
  proof -
    have "v < MAXVA" "in_range 0 n v" using that k in_range_MAXVA [OF that lim(1)] by (auto simp: in_range_def)
    then show "?g v AND PTE_V \<noteq> 0 \<longleftrightarrow> ?f v AND PTE_V \<noteq> 0" "?f v AND PTE_V \<noteq> 0 \<Longrightarrow> PTE2PA (?g v) = PTE2PA (?f v)"
      using c pre that shared_props(1,3) by (auto simp: copied_def copy_pre_def)
  qed
  have "pages_of ?g a m = pages_of ?f a m"
    if "page_aligned a" "unat a + 4096 * m = 4096 * k" for a m
    using that
  proof (induction m arbitrary: a)
    case (Suc m)
    have "unat a + 4096 \<le> 2 ^ 38" using Suc.prems(2) lim by simp
    then have "pages_of ?g (a + PGSIZE) m = pages_of ?f (a + PGSIZE) m"
      using Suc.prems unat_next by (intro Suc.IH page_aligned_next) auto
    moreover have "in_range 0 k a" using Suc.prems(2) by (simp add: in_range_def)
    ultimately show ?case using e [of a] by simp
  qed simp
  then show ?thesis by (simp add: page_aligned_def)
qed

lemma copied_user_page:
  assumes pre: "copy_pre s old new n" and v: "vmod2 s t old new" and p: "p \<in> set (pages_of (leaf (mem s) old) 0 k)" and k: "k \<le> n"
  shows "kpage s p" "1 \<le> refs s p" "p \<notin> tabs (mem s) old" "p \<notin> tabs (mem t) new"
proof -
  have "unat 0 + 4096 * k \<le> 2 ^ 38" using pre k by (simp add: copy_pre_def)
  from pages_of_in [OF p _ this] obtain v where "in_range 0 k v" "leaf (mem s) old v AND PTE_V \<noteq> 0" "p = PTE2PA (leaf (mem s) old v)"
    by (auto simp: page_aligned_def)
  moreover from this(1) have "in_range 0 n v" using k by (simp add: in_range_def)
  ultimately have a: "kpage s p" "1 \<le> refs s p" "p \<notin> tabs (mem s) old" "p \<notin> tabs (mem s) new"
    using pre by (auto simp: copy_pre_def)
  then show "kpage s p" "1 \<le> refs s p" "p \<notin> tabs (mem s) old" by auto
  show "p \<notin> tabs (mem t) new" using a vmod2D(7) [OF v] by (auto simp: free_pages_def)
qed

lemma copy_abort:
  assumes pre: "copy_pre s old new n" and v: "vmod2 s u old new" and k: "k \<le> n"
    and ps: "pages_of (leaf (mem u) new) 0 k = pages_of (leaf (mem s) old) 0 k"
    and lo: "\<And>v. v < MAXVA \<Longrightarrow> leaf (mem u) old v = leaf (mem s) old v \<or>
        leaf (mem s) old v AND PTE_V \<noteq> 0 \<and> leaf (mem u) old v = cowed (leaf (mem s) old v)"
    and ln: "\<And>v. in_range 0 n v \<Longrightarrow> \<not> in_range 0 k v \<Longrightarrow> leaf (mem u) new v AND PTE_V = 0"
    and rf: "\<And>q. kpage s q \<Longrightarrow> q \<notin> tabs (mem u) new \<Longrightarrow>
        refs u q = refs s q + int (count_list (pages_of (leaf (mem s) old) 0 k) q)"
  shows "\<exists>w. uvmunmap new 0 (of_nat k) True u = Ok () w \<and> copy_failed s old new n w"
proof -
  let ?ps = "pages_of (leaf (mem s) old) 0 k"
  note u = vmod2D [OF v]
  have kp: "kpage u q = kpage s q" for q using u(2) by (rule kmem_frameD)
  note up = copied_user_page [OF pre v _ k]
  have fr: "freeable u new (pages_of (leaf (mem u) new) 0 k)"
    unfolding ps freeable_def using up kp rf by fastforce
  have al: "page_aligned 0" "unat (0 :: u64) + 4096 * k \<le> 2 ^ 38" "4096 * n \<le> 2 ^ 38"
    using pre k by (auto simp: copy_pre_def page_aligned_def)
  show ?thesis
  proof (rule uvmunmap_ok [OF u(1,4) al(1,2), of True])
    show "freeable u new (pages_of (leaf (mem u) new) 0 k)" by (rule fr)
    fix w assume w: "uvmunmap new 0 (of_nat k) True u = Ok () w"
      "vmod u w new (if True then set (pages_of (leaf (mem u) new) 0 k) else {})" "tabs (mem w) new = tabs (mem u) new"
      "\<And>v. v < MAXVA \<Longrightarrow> leaf (mem w) new v = unmapped 0 k (leaf (mem u) new) v"
      "\<And>q. kpage u q \<Longrightarrow> refs w q = refs u q - (if True then int (count_list (pages_of (leaf (mem u) new) 0 k) q) else 0)"
      "\<And>x. (\<forall>p \<in> tabs (mem u) new. x \<notin> page_bytes p) \<Longrightarrow>
        (\<forall>p \<in> set (pages_of (leaf (mem u) new) 0 k). True \<and> refs w p = 0 \<longrightarrow> x \<notin> page_bytes p) \<Longrightarrow> mem w x = mem u x"
    have rw: "refs w q = refs s q" if "kpage s q" "q \<notin> tabs (mem w) new" for q
      using w(5) [of q] rf [of q] that kp w(3) ps by simp
    have "mem w x = mem u x" if "\<forall>p \<in> tabs (mem u) new. x \<notin> page_bytes p" for x
    proof (rule w(6) [OF that], intro ballI impI)
      fix p assume "p \<in> set (pages_of (leaf (mem u) new) 0 k)" "True \<and> refs w p = 0"
      then show "x \<notin> page_bytes p" using up [of p] rw [of p] w(3) ps by auto
    qed
    note mw = this
    have d: "tabs (mem u) old \<inter> (tabs (mem u) new \<union> (if True then set (pages_of (leaf (mem u) new) 0 k) else {})) = {}"
      using u(5,8) up ps by auto
    have alg: "page_aligned p" if "p \<in> (if True then set (pages_of (leaf (mem u) new) 0 k) else {})" for p
      using that up(1) [of p] ps by (auto intro: kpage_aligned)
    have o: "pt_ok w old" "tabs (mem w) old = tabs (mem u) old" "leaf (mem w) old = leaf (mem u) old"
      "tabs (mem w) old \<inter> tabs (mem w) new = {}"
      by (rule vmod_other [OF w(2) u(3) d]; rule alg; assumption)+
    have kw: "kpage w q = kpage s q" for q using kmem_frameD(4) [OF vmodD(2) [OF w(2)]] kp by simp
    have "free_pages w \<subseteq> free_pages s"
    proof
      fix q assume q: "q \<in> free_pages w"
      then have "q \<notin> tabs (mem w) new" using pt_ok_not_free [OF vmodD(3) [OF w(2)]] by blast
      then show "q \<in> free_pages s" using q rw [of q] kw by (simp add: free_pages_def)
    qed
    moreover have "mem w x = mem s x" if "\<forall>p \<in> tabs (mem w) old \<union> tabs (mem w) new. x \<notin> page_bytes p" for x
      using mw [of x] u(9) [of x] that o(2) w(3) by auto
    moreover have "kmem_frame s w" using u(2) vmodD(2) [OF w(2)] by (rule kmem_frame_trans)
    ultimately have "vmod2 s w old new"
      using vmodD(1,3) [OF w(2)] o(1,2,4) u(5-7) w(3) unfolding vmod2_def by simp
    moreover have "leaf (mem w) new v AND PTE_V = 0" if "in_range 0 n v" for v
      using w(4) [OF in_range_MAXVA [OF that al(3)]] ln [OF that] by (auto simp: unmapped_def)
    ultimately have "copy_failed s old new n w" using lo rw o(3) by (simp add: copy_failed_def)
    then show ?thesis using w(1) by blast
  qed
qed

lemma copied_Suc:
  assumes c: "copied s old new k t" and ui: "unat i = 4096 * k" and im: "i < MAXVA"
    and e: "e = leaf (mem s) old i" "e AND PTE_V \<noteq> 0" and w: "vmod2 t w old new"
    "\<And>v. v < MAXVA \<Longrightarrow> leaf (mem w) old v = (if same_page i v then cowed e else leaf (mem t) old v)"
    "\<And>v. v < MAXVA \<Longrightarrow> leaf (mem w) new v = (if same_page i v then shared e else leaf (mem t) new v)"
    "\<And>q. kpage t q \<Longrightarrow> q \<notin> tabs (mem w) new \<Longrightarrow> refs w q = refs t q + (if q = PTE2PA e then 1 else 0)"
  shows "copied s old new (Suc k) w"
proof -
  let ?f = "leaf (mem s) old"
  have v: "vmod2 s t old new" using c by (simp add: copied_def)
  have "unat (of_nat (4096 * k) :: u64) = 4096 * k"
    using ui unat_lt64 [of i] by (intro unat_of_nat_small) simp
  then have "of_nat k * PGSIZE = i" using ui by (simp add: word_unat_eq_iff PGSIZE_def mult.commute)
  then have pg: "pages_of ?f 0 (Suc k) = pages_of ?f 0 k @ [PTE2PA e]"
    using pages_of_append [of ?f 0 k 1] e by simp
  have sp: "same_page i v \<Longrightarrow> ?f v = e" if "v < MAXVA" for v
    using leaf_same_page [OF _ im that] e(1) by simp
  have "leaf (mem w) old v = (if in_range 0 (Suc k) v \<and> ?f v AND PTE_V \<noteq> 0 then cowed (?f v) else ?f v)" if "v < MAXVA" for v
    using w(2) [OF that] sp [OF that] c that in_range_step [OF ui] e(2) by (auto simp: copied_def)
  moreover have "leaf (mem w) new v = (if in_range 0 (Suc k) v \<and> ?f v AND PTE_V \<noteq> 0 then shared (?f v) else leaf (mem s) new v)"
    if "v < MAXVA" for v
    using w(3) [OF that] sp [OF that] c that in_range_step [OF ui] e(2) by (auto simp: copied_def)
  moreover have "refs w q = refs s q + int (count_list (pages_of ?f 0 (Suc k)) q)"
    if "kpage s q" "q \<notin> tabs (mem w) new" for q
  proof -
    have "q \<notin> tabs (mem t) new" using that(2) vmod2D(6) [OF w(1)] by blast
    then show ?thesis
      using that w(4) [of q] c kmem_frameD(4) [OF vmod2D(2) [OF v]] pg by (auto simp: copied_def)
  qed
  ultimately show ?thesis using vmod2_trans [OF v w(1)] by (simp add: copied_def)
qed

lemma copied_abort:
  assumes pre: "copy_pre s old new n" and c: "copied s old new k t" and k: "k \<le> n" and im: "i < MAXVA"
    and e: "e = leaf (mem s) old i" "e AND PTE_V \<noteq> 0" and w: "vmod2 t w old new"
    "\<And>v. v < MAXVA \<Longrightarrow> leaf (mem w) old v = (if same_page i v then cowed e else leaf (mem t) old v)"
    "\<And>v. v < MAXVA \<Longrightarrow> leaf (mem w) new v = leaf (mem t) new v"
    and rf: "\<And>q. kpage s q \<Longrightarrow> q \<notin> tabs (mem w) new \<Longrightarrow> refs w q = refs t q"
  shows "\<exists>y. uvmunmap new 0 (of_nat k) True w = Ok () y \<and> copy_failed s old new n y"
proof (rule copy_abort [OF pre _ k])
  have v: "vmod2 s t old new" using c by (simp add: copied_def)
  then show "vmod2 s w old new" using w(1) by (rule vmod2_trans)
  have lim: "unat 0 + 4096 * k \<le> 2 ^ 38" "4096 * n \<le> 2 ^ 38" using pre k by (auto simp: copy_pre_def)
  have "pages_of (leaf (mem w) new) 0 k = pages_of (leaf (mem t) new) 0 k"
    using w(3) lim in_range_MAXVA by (intro pages_of_cong) (auto simp: page_aligned_def)
  then show "pages_of (leaf (mem w) new) 0 k = pages_of (leaf (mem s) old) 0 k"
    using copied_pages [OF pre c k] by simp
  fix v
  show "leaf (mem w) old v = leaf (mem s) old v \<or>
      leaf (mem s) old v AND PTE_V \<noteq> 0 \<and> leaf (mem w) old v = cowed (leaf (mem s) old v)" if "v < MAXVA"
    using w(2) [OF that] leaf_same_page [OF _ im that, of "mem s" old] e c that by (auto simp: copied_def)
  show "leaf (mem w) new v AND PTE_V = 0" if "in_range 0 n v" "\<not> in_range 0 k v"
    using w(3) [of v] in_range_MAXVA [OF that(1) lim(2)] c that pre by (auto simp: copied_def copy_pre_def)
next
  fix q assume q: "kpage s q" "q \<notin> tabs (mem w) new"
  then have "q \<notin> tabs (mem t) new" using vmod2D(6) [OF w(1)] by blast
  then show "refs w q = refs s q + int (count_list (pages_of (leaf (mem s) old) 0 k) q)"
    using rf [OF q] c q(1) by (simp add: copied_def)
qed

lemma copy_loop_ok:
  assumes pre: "copy_pre s old new n" and sz: "n = (unat sz + 4095) div 4096"
  shows "copied s old new k t \<Longrightarrow> k + m = n \<Longrightarrow> \<exists>u c. uvmcopy_loop (m + Suc x) old new (of_nat k * PGSIZE) sz t = Ok c u \<and>
    (c = 0 \<and> copied s old new n u \<or> c = - 1 \<and> copy_failed s old new n u)"
proof (induction m arbitrary: k t)
  case 0
  have "unat (of_nat (4096 * k) :: u64) = 4096 * k"
    using pre 0(2) by (intro unat_of_nat_small) (simp add: copy_pre_def)
  moreover have "unat sz \<le> 4096 * k" using sz 0(2) by simp
  ultimately have "\<not> of_nat k * PGSIZE < sz" by (simp add: word_less_nat_alt PGSIZE_def mult.commute)
  then show ?case using 0 by simp
next
  case (Suc m)
  define i where "i = of_nat k * PGSIZE"
  have pr: "kmem_inv s" "pt_ok s old" "pt_ok s new" "4096 * n \<le> 2 ^ 38" using pre by (auto simp: copy_pre_def)
  have kn: "k < n" using Suc.prems(2) by simp
  have "unat (of_nat (4096 * k) :: u64) = 4096 * k" using pr(4) kn by (intro unat_of_nat_small) simp
  then have ui: "unat i = 4096 * k" by (simp add: i_def PGSIZE_def mult.commute)
  then have al: "page_aligned i" by (simp add: page_aligned_unat)
  have im: "i < MAXVA" using ui kn pr(4) by (simp add: less_MAXVA)
  have isz: "i < sz" using ui kn sz by (simp add: word_less_nat_alt)
  have nx: "i + PGSIZE = of_nat (Suc k) * PGSIZE" by (simp add: i_def algebra_simps)
  have rn: "in_range 0 n i" "\<not> in_range 0 k i" using ui kn by (auto simp: in_range_def)
  let ?f = "leaf (mem s) old" and ?e = "leaf (mem s) old i"
  have c: "vmod2 s t old new" using Suc.prems(1) by (simp add: copied_def)
  note t = vmod2D [OF c]
  have lo: "leaf (mem t) old i = ?e" and lnw: "leaf (mem t) new i = leaf (mem s) new i"
    using Suc.prems(1) im rn(2) by (auto simp: copied_def)
  have pg: "pages_of ?f 0 (Suc k) = pages_of ?f 0 k @ (if ?e AND PTE_V \<noteq> 0 then [PTE2PA ?e] else [])"
    using pages_of_append [of ?f 0 k 1] by (simp add: i_def)
  have ih: "\<exists>u c. uvmcopy_loop (m + Suc x) old new (i + PGSIZE) sz w = Ok c u \<and>
      (c = 0 \<and> copied s old new n u \<or> c = - 1 \<and> copy_failed s old new n u)" if "copied s old new (Suc k) w" for w
    unfolding nx by (rule Suc.IH [OF that]) (use Suc.prems(2) in simp)
  show ?case
    unfolding i_def [symmetric] add_Suc
  proof (cases "?e AND PTE_V = 0")
    case True
    have "copied s old new (Suc k) t"
    proof -
      have "\<not> (same_page i v \<and> ?f v AND PTE_V \<noteq> 0)" if "v < MAXVA" for v
        using True leaf_same_page [OF _ im that, of "mem s" old] by auto
      then show ?thesis
        using Suc.prems(1) in_range_step [OF ui] pg True by (auto simp: copied_def)
    qed
    moreover have "uvmcopy_loop (Suc (m + Suc x)) old new i sz t = uvmcopy_loop (m + Suc x) old new (i + PGSIZE) sz t"
      using True lo isz by (simp add: walk_False [OF im] pteaddr_def leaf_def split: option.splits)
    ultimately show "\<exists>u c. uvmcopy_loop (Suc (m + Suc x)) old new i sz t = Ok c u \<and>
      (c = 0 \<and> copied s old new n u \<or> c = - 1 \<and> copy_failed s old new n u)" using ih by metis
  next
    case False
    have pin: "PTE2PA ?e \<in> set (pages_of ?f 0 (Suc k))" using False pg by simp
    note up = copied_user_page [OF pre c pin Suc_leI [OF kn]]
    have kp: "kpage t q = kpage s q" for q using t(2) by (rule kmem_frameD)
    have p: "kpage t (PTE2PA ?e)" "1 \<le> refs t (PTE2PA ?e)" "PTE2PA ?e \<notin> tabs (mem t) old \<union> tabs (mem t) new"
      using up kp t(5) Suc.prems(1) by (auto simp: copied_def)
    have nv: "leaf (mem t) new i AND PTE_V = 0" using lnw pre rn(1) by (simp add: copy_pre_def)
    show "\<exists>u c. uvmcopy_loop (Suc (m + Suc x)) old new i sz t = Ok c u \<and>
      (c = 0 \<and> copied s old new n u \<or> c = - 1 \<and> copy_failed s old new n u)"
    proof (rule copy_step [OF t(1,3,4,8) al im isz lo [symmetric] False p nv, where n = "m + Suc x"])
      fix w assume w: "uvmcopy_loop (Suc (m + Suc x)) old new i sz t = uvmcopy_loop (m + Suc x) old new (i + PGSIZE) sz w"
        "vmod2 t w old new"
        "\<And>v. v < MAXVA \<Longrightarrow> leaf (mem w) old v = (if same_page i v then cowed ?e else leaf (mem t) old v)"
        "\<And>v. v < MAXVA \<Longrightarrow> leaf (mem w) new v = (if same_page i v then shared ?e else leaf (mem t) new v)"
        "\<And>q. kpage t q \<Longrightarrow> q \<notin> tabs (mem w) new \<Longrightarrow> refs w q = refs t q + (if q = PTE2PA ?e then 1 else 0)"
      have "copied s old new (Suc k) w"
        by (rule copied_Suc [OF Suc.prems(1) ui im refl False w(2-5)])
      then show ?thesis using ih w(1) by metis
    next
      fix w assume w: "uvmcopy_loop (Suc (m + Suc x)) old new i sz t =
          bnd (uvmunmap new 0 (i div PGSIZE) True w) (\<lambda>_ s. Ok (- 1) s)" "vmod2 t w old new"
        "\<And>v. v < MAXVA \<Longrightarrow> leaf (mem w) old v = (if same_page i v then cowed ?e else leaf (mem t) old v)"
        "\<And>v. v < MAXVA \<Longrightarrow> leaf (mem w) new v = leaf (mem t) new v"
        "\<And>q. kpage t q \<Longrightarrow> q \<notin> tabs (mem w) new \<Longrightarrow> refs w q = refs t q"
      have wk: "kpage s q \<Longrightarrow> q \<notin> tabs (mem w) new \<Longrightarrow> refs w q = refs t q" for q using w(5) kp by simp
      have "\<exists>y. uvmunmap new 0 (of_nat k) True w = Ok () y \<and> copy_failed s old new n y"
        by (rule copied_abort [OF pre Suc.prems(1) less_imp_le [OF kn] im refl False w(2-4) wk])
      moreover have "unat (of_nat k :: u64) = k" using pr(4) kn by (intro unat_of_nat_small) simp
      then have "i div PGSIZE = of_nat k" using ui by (simp add: word_unat_eq_iff unat_div PGSIZE_def)
      ultimately show ?thesis using w(1) by auto
    qed
  qed
qed

section \<open>The routine\<close>

text \<open>The number of pages of a process of \<open>sz\<close> bytes.\<close>

definition npages :: "u64 \<Rightarrow> nat" where
  "npages sz = (unat sz + 4095) div 4096"

lemma uvmcopy_ok:
  assumes "copy_pre s old new (npages sz)"
  obtains t where "uvmcopy old new sz s = Ok 0 t" "copied s old new (npages sz) t"
  | t where "uvmcopy old new sz s = Ok (- 1) t" "copy_failed s old new (npages sz) t"
proof -
  have u: "unat (sz div PGSIZE) = unat sz div 4096" by (simp add: unat_div PGSIZE_def)
  have "npages sz \<le> unat sz div 4096 + 1" unfolding npages_def by linarith
  then obtain x where x: "unat sz div 4096 + 2 = npages sz + Suc x"
    using le_Suc_ex [of "npages sz" "unat sz div 4096 + 1"] by auto
  have "\<exists>t c. uvmcopy_loop (npages sz + Suc x) old new (of_nat 0 * PGSIZE) sz s = Ok c t \<and>
    (c = 0 \<and> copied s old new (npages sz) t \<or> c = - 1 \<and> copy_failed s old new (npages sz) t)"
    by (rule copy_loop_ok [OF assms _ copied_0 [OF assms]]) (simp_all add: npages_def)
  then show thesis using that unfolding uvmcopy_def u x by auto
qed

end
