(* ===== verification/Vmdemo.thy ===== *)
theory Vmdemo
  imports Vmcopy
begin

unbundle bit_operations_syntax

text \<open>
  A small concrete machine on which the hypotheses of the page-table properties hold: sixteen
  allocatable pages, all in use, and two page tables with one leaf table each. The first maps
  virtual page 0, writable, to page 3; the second maps nothing.
\<close>

definition Q :: "nat \<Rightarrow> addr" where
  "Q k = PHYSTOP - 0x10000 + 0x1000 * of_nat k"

definition demo_mem :: mem where
  "demo_mem =
     store64 (store64 (store64 (store64 (store64 (\<lambda>_. 0)
       (slot (Q 0) 0) (PA2PTE (Q 1) OR PTE_V))
       (slot (Q 1) 0) (PA2PTE (Q 2) OR PTE_V))
       (slot (Q 2) 0) (PA2PTE (Q 3) OR PTE_R OR PTE_W OR PTE_U OR PTE_V))
       (slot (Q 4) 0) (PA2PTE (Q 5) OR PTE_V))
       (slot (Q 5) 0) (PA2PTE (Q 6) OR PTE_V)"

definition demo :: kmem where
  "demo = \<lparr>held = {}, mem = demo_mem, freelist = 0, refcnt = (\<lambda>_. 1), kend = PHYSTOP - 0x10000\<rparr>"

lemma Q_unat: "k < 16 \<Longrightarrow> unat (Q k) = 2281635840 + 4096 * k"
proof -
  assume k: "k < 16"
  have "Q k = of_nat (2281635840 + 4096 * k)" by (simp add: Q_def PHYSTOP_def KERNBASE_def)
  moreover have "unat (of_nat (2281635840 + 4096 * k) :: u64) = 2281635840 + 4096 * k"
    using k by (intro unat_of_nat_small) simp
  ultimately show ?thesis by (simp only:)
qed

lemma Q_eq: "j < 16 \<Longrightarrow> k < 16 \<Longrightarrow> Q j = Q k \<longleftrightarrow> j = k"
  by (auto simp: word_unat_eq_iff Q_unat)

lemma Q_aligned: "k < 16 \<Longrightarrow> page_aligned (Q k)"
  by (simp add: page_aligned_unat Q_unat)

lemma Q_pa: "k < 16 \<Longrightarrow> PTE2PA (PA2PTE (Q k) OR PTE_V) = Q k"
  by (rule PTE2PA_new) (simp_all add: Q_aligned Q_unat)

lemma demo_load:
  assumes "k < 16" "i < 512"
  shows "load64 demo_mem (slot (Q k) i) =
    (if i \<noteq> 0 then 0 else if k = 0 then PA2PTE (Q 1) OR PTE_V else if k = 1 then PA2PTE (Q 2) OR PTE_V
     else if k = 2 then PA2PTE (Q 3) OR PTE_R OR PTE_W OR PTE_U OR PTE_V
     else if k = 4 then PA2PTE (Q 5) OR PTE_V else if k = 5 then PA2PTE (Q 6) OR PTE_V else 0)"
  unfolding demo_mem_def using assms by (simp add: load64_store64_slot Q_aligned Q_eq load64_zero)

lemma demo_kpage: "k < 16 \<Longrightarrow> kpage demo (Q k)"
  using Q_unat [of k] Q_unat [of 0] Q_aligned [of k] unat_PHYSTOP
  by (simp add: kpage_def demo_def word_le_nat_alt word_less_nat_alt PHYSTOP_def KERNBASE_def)

lemma demo_refs [simp]: "refs demo p = 1"
  by (simp add: refs_def demo_def)

lemma demo_inv: "kmem_inv demo"
proof -
  have "kmem_ok demo"
    by (rule kmem_okI [where fl = "[]"])
      (auto simp: free_pages_def, auto simp: demo_def PHYSTOP_def KERNBASE_def)
  then show ?thesis by (simp add: kmem_inv_def demo_def)
qed

lemma demo_free: "free_pages demo = {}"
  by (simp add: free_pages_def)

lemma paths_cases:
  assumes "p \<in> paths"
  obtains "p = []" | i where "i < 512" "p = [i]" | i j where "i < 512" "j < 512" "p = [j, i]"
proof (cases p)
  case (Cons a q)
  then show thesis using assms that by (cases q) (auto simp: paths_def)
qed (use that in auto)

lemma demo_tbl:
  assumes "b = 0 \<or> b = 4" "p \<in> paths"
  shows "tbl demo_mem (Q b) p =
    (if p = [] then Some (Q b) else if p = [0] then Some (Q (b + 1)) else if p = [0, 0] then Some (Q (b + 2)) else None)"
proof -
  have v: "PTE_V \<noteq> 0" by (simp add: PTE_V_def)
  have "load64 demo_mem (slot (Q b) i) = (if i = 0 then PA2PTE (Q (b + 1)) OR PTE_V else 0)" if "i < 512" for i
    using assms(1) that by (auto simp: demo_load)
  then have one: "tbl demo_mem (Q b) [i] = (if i = 0 then Some (Q (b + 1)) else None)" if "i < 512" for i
    using assms(1) that v by (auto simp: tbl.simps Q_pa)
  show ?thesis using assms(2)
  proof (cases rule: paths_cases)
    case (2 i)
    then show ?thesis using one [of i] by (simp split: if_splits)
  next
    case (3 i j)
    have "load64 demo_mem (slot (Q (b + 1)) j) = (if j = 0 then PA2PTE (Q (b + 2)) OR PTE_V else 0)"
      using assms(1) 3(2) by (auto simp: demo_load numeral_2_eq_2)
    then have "tbl demo_mem (Q b) [j, i] = (if i = 0 \<and> j = 0 then Some (Q (b + 2)) else None)"
      unfolding tbl.simps(2) [of _ _ j] one [OF 3(1)] using v assms(1) by (cases "j = 0") (auto simp: Q_pa)
    then show ?thesis using 3(3) by simp
  qed simp
qed

lemma demo_tabs: "b = 0 \<or> b = 4 \<Longrightarrow> tabs demo_mem (Q b) = {Q b, Q (b + 1), Q (b + 2)}"
proof -
  assume b: "b = 0 \<or> b = 4"
  have "[] \<in> paths" "[0] \<in> paths" "[0, 0] \<in> paths" by (auto simp: paths_def)
  then show ?thesis using demo_tbl [OF b] unfolding tabs_def by (auto split: if_splits)
qed

lemma demo_pt_ok: "b = 0 \<or> b = 4 \<Longrightarrow> pt_ok demo (Q b)"
proof -
  assume b: "b = 0 \<or> b = 4"
  have m: "mem demo = demo_mem" by (simp add: demo_def)
  have "tbl_inj demo_mem (Q b)"
    unfolding tbl_inj_def using b by (auto simp: demo_tbl Q_eq split: if_splits)
  moreover have "\<forall>t \<in> tabs demo_mem (Q b). kpage demo t \<and> refs demo t = 1"
    unfolding demo_tabs [OF b] using b demo_kpage by auto
  moreover have "load64 demo_mem (slot t i) AND (PTE_R OR PTE_W OR PTE_X) = 0"
    if p: "p \<in> paths" "length p \<le> 1" "tbl demo_mem (Q b) p = Some t" "i < 512" for p t i
  proof -
    have "t = Q b \<or> t = Q (b + 1)" using p demo_tbl [OF b p(1)] by (auto split: if_splits)
    then show ?thesis using b p(4) PTE_flagless_new by (auto simp: demo_load)
  qed
  ultimately show ?thesis unfolding pt_ok_def m by blast
qed

lemma demo_leaf:
  assumes "v < MAXVA"
  shows "leaf demo_mem (Q 0) v = (if same_page 0 v then PA2PTE (Q 3) OR PTE_R OR PTE_W OR PTE_U OR PTE_V else 0)"
    "leaf demo_mem (Q 4) v = 0"
proof -
  have z: "(0 :: u64) < MAXVA" by (simp add: less_MAXVA)
  have l0: "lpath 0 = [0, 0]" "unat (PX 0 0) = 0" by (simp_all add: lpath_def unat_PX)
  note sp = PX_same_page [OF z assms, unfolded l0]
  have tb: "tbl demo_mem (Q b) (lpath v) = (if lpath v = [0, 0] then Some (Q (b + 2)) else None)" if "b = 0 \<or> b = 4" for b
    using demo_tbl [OF that lpath_paths, of v] by (simp add: lpath_def)
  show "leaf demo_mem (Q 0) v = (if same_page 0 v then PA2PTE (Q 3) OR PTE_R OR PTE_W OR PTE_U OR PTE_V else 0)"
    using tb [of 0] demo_load [of 2 "unat (PX 0 v)"] sp unfolding leaf_def
    by (cases "lpath v = [0, 0]"; cases "unat (PX 0 v) = 0") (simp_all add: numeral_2_eq_2)
  show "leaf demo_mem (Q 4) v = 0"
    using tb [of 4] demo_load [of 6 "unat (PX 0 v)"] unfolding leaf_def
    by (cases "lpath v = [0, 0]"; cases "unat (PX 0 v) = 0") simp_all
qed

lemma demo_entry:
  "(PA2PTE (Q 3) OR PTE_R OR PTE_W OR PTE_U OR PTE_V) AND PTE_V \<noteq> 0"
  "(PA2PTE (Q 3) OR PTE_R OR PTE_W OR PTE_U OR PTE_V) AND PTE_W \<noteq> 0"
  "PTE2PA (PA2PTE (Q 3) OR PTE_R OR PTE_W OR PTE_U OR PTE_V) = Q 3"
proof -
  show "PTE2PA (PA2PTE (Q 3) OR PTE_R OR PTE_W OR PTE_U OR PTE_V) = Q 3"
    by (rule PTE2PA_PA2PTE) (simp_all add: Q_aligned Q_unat pte_defs)
  show "(PA2PTE (Q 3) OR PTE_R OR PTE_W OR PTE_U OR PTE_V) AND PTE_V \<noteq> 0"
    "(PA2PTE (Q 3) OR PTE_R OR PTE_W OR PTE_U OR PTE_V) AND PTE_W \<noteq> 0"
    unfolding flag_iffs by (simp_all add: bit_simps bit_flag)
qed

lemma demo_copy_pre: "copy_pre demo (Q 0) (Q 4) (npages 4096)"
proof -
  have n: "npages 4096 = 1" by (simp add: npages_def)
  have v: "v < MAXVA" if "in_range 0 1 v" for v using that by (simp add: in_range_def less_MAXVA)
  have m: "mem demo = demo_mem" by (simp add: demo_def)
  have "tabs demo_mem (Q 0) \<inter> tabs demo_mem (Q 4) = {}" "Q 3 \<notin> tabs demo_mem (Q 0) \<union> tabs demo_mem (Q 4)"
    using demo_tabs [of 0] demo_tabs [of 4] by (auto simp: Q_eq)
  then show ?thesis
    unfolding copy_pre_def n m
    using demo_inv demo_pt_ok v demo_leaf demo_entry(3) demo_kpage [of 3] by auto
qed

end
