(* ===== verification/Vmprops.thy ===== *)
theory Vmprops
  imports Vmdemo
begin

unbundle bit_operations_syntax

text \<open>
  The properties of the page-table routines, in terms of leaf entries, reference counts and the
  bytes that a user address reads.
\<close>

text \<open>The byte that user code reads at a mapped address.\<close>

definition ubyte :: "mem \<Rightarrow> addr \<Rightarrow> u64 \<Rightarrow> u8" where
  "ubyte m r v = m (PTE2PA (leaf m r v) + (v - PGROUNDDOWN v))"

lemma offset_in_page: "p + (v - PGROUNDDOWN v) \<in> page_bytes p"
  using PGROUNDDOWN_offset [of v] by (simp add: page_bytes_def)

lemma vmod2_page:
  assumes v: "vmod2 s t old new" and q: "kpage s q" "1 \<le> refs s q" "q \<notin> tabs (mem s) old \<union> tabs (mem s) new"
    and x: "x \<in> page_bytes q"
  shows "mem t x = mem s x"
proof (rule vmod2D(9) [OF v])
  fix p assume p: "p \<in> tabs (mem t) old \<union> tabs (mem t) new"
  have "q \<notin> tabs (mem t) new" using q vmod2D(7) [OF v] by (auto simp: free_pages_def)
  moreover have "q \<notin> tabs (mem t) old" using q vmod2D(5) [OF v] by auto
  ultimately have "p \<noteq> q" using p by auto
  moreover have "page_aligned p" using p pt_ok_tabs [OF vmod2D(3) [OF v]] pt_ok_tabs [OF vmod2D(4) [OF v]] by blast
  ultimately show "x \<notin> page_bytes p" using x page_bytes_disjoint [of p q] kpage_aligned [OF q(1)] by blast
qed

lemma ubyte_vmod2:
  assumes pre: "copy_pre s old new n" and v: "vmod2 s t old new" and w: "in_range 0 n w" "leaf (mem s) old w AND PTE_V \<noteq> 0"
    and pa: "PTE2PA (leaf (mem t) r w) = PTE2PA (leaf (mem s) old w)"
  shows "ubyte (mem t) r w = ubyte (mem s) old w"
proof -
  let ?q = "PTE2PA (leaf (mem s) old w)"
  have "kpage s ?q" "1 \<le> refs s ?q" "?q \<notin> tabs (mem s) old \<union> tabs (mem s) new"
    using pre w by (auto simp: copy_pre_def)
  then have "mem t x = mem s x" if "x \<in> page_bytes ?q" for x using vmod2_page [OF v] that by blast
  then show ?thesis unfolding ubyte_def pa using offset_in_page by blast
qed

text \<open>
  (C6) Fork shares memory. When \<^verbatim>\<open>uvmcopy\<close> succeeds, every page that the parent had mapped is mapped in
  parent and child to the same physical page, writable by neither of them, with the copy-on-write
  mark where it was writable; both read the bytes the parent read before; and each physical
  page has gained one reference for each of its mappings in the child.
  When memory runs out the routine returns -1, the child is left without a mapping, every reference count is as
  before, and the parent still reads the same bytes. Both page tables stay well formed.
\<close>

theorem uvmcopy_shares_or_undoes:
  assumes "copy_pre s old new (npages sz)"
  shows "\<exists>c t. uvmcopy old new sz s = Ok c t \<and> kmem_inv t \<and> pt_ok t old \<and> pt_ok t new \<and>
    (\<forall>v. in_range 0 (npages sz) v \<and> leaf (mem s) old v AND PTE_V \<noteq> 0 \<longrightarrow> ubyte (mem t) old v = ubyte (mem s) old v) \<and>
    (c = 0 \<and>
       (\<forall>v. in_range 0 (npages sz) v \<and> leaf (mem s) old v AND PTE_V \<noteq> 0 \<longrightarrow>
          leaf (mem t) old v = cowed (leaf (mem s) old v) \<and> leaf (mem t) new v = shared (leaf (mem s) old v) \<and>
          leaf (mem t) old v AND PTE_W = 0 \<and> leaf (mem t) new v AND PTE_W = 0 \<and>
          ubyte (mem t) new v = ubyte (mem s) old v) \<and>
       (\<forall>q. kpage s q \<and> q \<notin> tabs (mem t) new \<longrightarrow>
          refs t q = refs s q + int (count_list (pages_of (leaf (mem s) old) 0 (npages sz)) q)) \<or>
     c = - 1 \<and>
       (\<forall>v. in_range 0 (npages sz) v \<longrightarrow> leaf (mem t) new v AND PTE_V = 0) \<and>
       (\<forall>q. kpage s q \<and> q \<notin> tabs (mem t) new \<longrightarrow> refs t q = refs s q))"
  using assms
proof (cases rule: uvmcopy_ok)
  case (1 t)
  have v: "vmod2 s t old new" using 1(2) by (simp add: copied_def)
  have lim: "4096 * npages sz \<le> 2 ^ 38" using assms by (simp add: copy_pre_def)
  have lf: "leaf (mem t) old v = cowed (leaf (mem s) old v)" "leaf (mem t) new v = shared (leaf (mem s) old v)"
    if "in_range 0 (npages sz) v" "leaf (mem s) old v AND PTE_V \<noteq> 0" for v
    using 1(2) that in_range_MAXVA [OF that(1) lim] by (auto simp: copied_def)
  have ub: "ubyte (mem t) old v = ubyte (mem s) old v" "ubyte (mem t) new v = ubyte (mem s) old v"
    if "in_range 0 (npages sz) v" "leaf (mem s) old v AND PTE_V \<noteq> 0" for v
    using lf [OF that] by (intro ubyte_vmod2 [OF assms v that]; simp add: cowed_props shared_props)+
  show ?thesis
    using 1(1) vmod2D(1,3,4) [OF v] 1(2) lf ub
    by (intro exI [of _ 0] exI [of _ t]) (auto simp: copied_def cowed_props shared_props)
next
  case (2 t)
  have v: "vmod2 s t old new" using 2(2) by (simp add: copy_failed_def)
  have lim: "4096 * npages sz \<le> 2 ^ 38" using assms by (simp add: copy_pre_def)
  have "ubyte (mem t) old v = ubyte (mem s) old v"
    if "in_range 0 (npages sz) v" "leaf (mem s) old v AND PTE_V \<noteq> 0" for v
  proof (rule ubyte_vmod2 [OF assms v that])
    show "PTE2PA (leaf (mem t) old v) = PTE2PA (leaf (mem s) old v)"
      using 2(2) in_range_MAXVA [OF that(1) lim] by (auto simp: copy_failed_def cowed_props)
  qed
  then show ?thesis
    using 2(1) vmod2D(1,3,4) [OF v] 2(2)
    by (intro exI [of _ "- 1"] exI [of _ t]) (auto simp: copy_failed_def)
qed

theorem uvmcopy_shares_or_undoes_witness:
  "copy_pre demo (Q 0) (Q 4) (npages 4096) \<and> leaf (mem demo) (Q 0) 0 AND PTE_W \<noteq> 0 \<and>
   (\<exists>c t. uvmcopy (Q 0) (Q 4) 4096 demo = Ok c t \<and> kmem_inv t \<and> pt_ok t (Q 0) \<and> pt_ok t (Q 4) \<and>
      ubyte (mem t) (Q 0) 0 = ubyte (mem demo) (Q 0) 0)"
proof -
  have z: "(0 :: u64) < MAXVA" by (simp add: less_MAXVA)
  have "mem demo = demo_mem" by (simp add: demo_def)
  then have l: "leaf (mem demo) (Q 0) 0 AND PTE_V \<noteq> 0" "leaf (mem demo) (Q 0) 0 AND PTE_W \<noteq> 0"
    using demo_leaf(1) [OF z] demo_entry by simp_all
  moreover have "in_range 0 (npages 4096) 0" by (simp add: in_range_def npages_def)
  ultimately show ?thesis using uvmcopy_shares_or_undoes [OF demo_copy_pre] demo_copy_pre by blast
qed

text \<open>
  (C17) \<^verbatim>\<open>mappages\<close> on an unmapped range: it returns 0 after mapping every page of the range to the
  corresponding physical page with the given permissions, or -1 with only a prefix of it mapped, and then no
  page is free. It changes no other mapping of this page table, and none of any other one.
\<close>

theorem mappages_maps:
  assumes "kmem_inv s" "pt_ok s r" "page_aligned va" "0 < n" "unat va + 4096 * n \<le> 2 ^ 38"
    "\<forall>v. in_range va n v \<longrightarrow> leaf (mem s) r v AND PTE_V = 0"
  shows "\<exists>c t k. mappages r va (of_nat n * PGSIZE) pa perm s = Ok c t \<and> kmem_inv t \<and> pt_ok t r \<and> k \<le> n \<and>
    c = (if k = n then 0 else - 1) \<and> (k < n \<longrightarrow> free_pages t = {}) \<and>
    (\<forall>v < MAXVA. leaf (mem t) r v =
       (if in_range va k v then PA2PTE (pa + (PGROUNDDOWN v - va)) OR perm OR PTE_V else leaf (mem s) r v)) \<and>
    (\<forall>r'. pt_ok s r' \<and> tabs (mem s) r' \<inter> tabs (mem s) r = {} \<longrightarrow>
       pt_ok t r' \<and> leaf (mem t) r' = leaf (mem s) r')"
proof (rule mappages_ok [OF assms(1-5), of pa perm])
  fix c t k assume t: "mappages r va (of_nat n * PGSIZE) pa perm s = Ok c t" "vmod s t r {}"
    "\<And>v. v < MAXVA \<Longrightarrow> leaf (mem t) r v = mapped va k pa perm (leaf (mem s) r) v" "k \<le> n"
    "c = (if k = n then 0 else - 1)" "k < n \<longrightarrow> free_pages t = {}"
  have "pt_ok t r' \<and> leaf (mem t) r' = leaf (mem s) r'" if "pt_ok s r' \<and> tabs (mem s) r' \<inter> tabs (mem s) r = {}" for r'
    using vmod_other(1,3) [OF t(2), of r'] that by simp
  then show ?thesis
    using t vmodD(1,3) [OF t(2)] by (intro exI [of _ c] exI [of _ t] exI [of _ k]) (simp add: mapped_def)
qed (use assms(6) in blast)

theorem mappages_maps_witness:
  "\<exists>c t k. mappages (Q 4) 0 (of_nat 2 * PGSIZE) (Q 8) PTE_R demo = Ok c t \<and> kmem_inv t \<and> pt_ok t (Q 4) \<and> k \<le> 2 \<and>
     c = (if k = 2 then 0 else - 1) \<and> (k < 2 \<longrightarrow> free_pages t = {}) \<and>
     (\<forall>v < MAXVA. leaf (mem t) (Q 4) v =
        (if in_range 0 k v then PA2PTE (Q 8 + (PGROUNDDOWN v - 0)) OR PTE_R OR PTE_V else leaf (mem demo) (Q 4) v)) \<and>
     (\<forall>r'. pt_ok demo r' \<and> tabs (mem demo) r' \<inter> tabs (mem demo) (Q 4) = {} \<longrightarrow>
        pt_ok t r' \<and> leaf (mem t) r' = leaf (mem demo) r')"
proof (rule mappages_maps)
  show "\<forall>v. in_range 0 2 v \<longrightarrow> leaf (mem demo) (Q 4) v AND PTE_V = 0"
    using demo_leaf(2) by (auto simp: demo_def in_range_def less_MAXVA)
qed (simp_all add: demo_inv demo_pt_ok page_aligned_def)

text \<open>
  (C18) \<^verbatim>\<open>uvmunmap\<close> invalidates the mappings of the range and of nothing else. With \<^verbatim>\<open>do_free\<close> every
  physical page of the range loses one reference per mapping and the others keep theirs; a byte
  outside the page table changes only in a page whose last reference is gone.
\<close>

theorem uvmunmap_unmaps:
  assumes "kmem_inv s" "pt_ok s r" "page_aligned va" "unat va + 4096 * n \<le> 2 ^ 38"
    "do_free \<longrightarrow> freeable s r (pages_of (leaf (mem s) r) va n)"
  shows "\<exists>t. uvmunmap r va (of_nat n) do_free s = Ok () t \<and> kmem_inv t \<and> pt_ok t r \<and>
    (\<forall>v < MAXVA. leaf (mem t) r v =
       (if in_range va n v \<and> leaf (mem s) r v AND PTE_V \<noteq> 0 then 0 else leaf (mem s) r v)) \<and>
    (\<forall>q. kpage s q \<longrightarrow> refs t q = refs s q -
       (if do_free then int (count_list (pages_of (leaf (mem s) r) va n) q) else 0)) \<and>
    (\<forall>x. (\<forall>p \<in> tabs (mem s) r. x \<notin> page_bytes p) \<and>
       (\<forall>p \<in> set (pages_of (leaf (mem s) r) va n). do_free \<and> refs t p = 0 \<longrightarrow> x \<notin> page_bytes p) \<longrightarrow>
       mem t x = mem s x)"
proof (rule uvmunmap_ok [OF assms(1-4), of do_free])
  show "do_free \<Longrightarrow> freeable s r (pages_of (leaf (mem s) r) va n)" using assms(5) by simp
  fix t assume t: "uvmunmap r va (of_nat n) do_free s = Ok () t"
    "vmod s t r (if do_free then set (pages_of (leaf (mem s) r) va n) else {})" "tabs (mem t) r = tabs (mem s) r"
    "\<And>v. v < MAXVA \<Longrightarrow> leaf (mem t) r v = unmapped va n (leaf (mem s) r) v"
    "\<And>q. kpage s q \<Longrightarrow> refs t q = refs s q - (if do_free then int (count_list (pages_of (leaf (mem s) r) va n) q) else 0)"
    "\<And>x. (\<forall>p \<in> tabs (mem s) r. x \<notin> page_bytes p) \<Longrightarrow>
      (\<forall>p \<in> set (pages_of (leaf (mem s) r) va n). do_free \<and> refs t p = 0 \<longrightarrow> x \<notin> page_bytes p) \<Longrightarrow> mem t x = mem s x"
  show ?thesis
    using t(1,4-6) vmodD(1,3) [OF t(2)] by (intro exI [of _ t]) (simp add: unmapped_def)
qed

lemma demo_pages: "pages_of (leaf (mem demo) (Q 0)) 0 1 = [Q 3]"
  using demo_leaf(1) [of 0] demo_entry by (simp add: demo_def less_MAXVA)

theorem uvmunmap_unmaps_witness:
  "\<exists>t. uvmunmap (Q 0) 0 (of_nat 1) True demo = Ok () t \<and> kmem_inv t \<and> leaf (mem t) (Q 0) 0 = 0 \<and> refs t (Q 3) = 0"
proof -
  have "Q 3 \<notin> tabs (mem demo) (Q 0)" using demo_tabs [of 0] by (simp add: demo_def Q_eq)
  then have fr: "True \<longrightarrow> freeable demo (Q 0) (pages_of (leaf (mem demo) (Q 0)) 0 1)"
    using demo_kpage [of 3] by (simp only: demo_pages freeable_def) simp
  have "leaf (mem demo) (Q 0) 0 AND PTE_V \<noteq> 0" "(0 :: u64) < MAXVA" "in_range 0 1 0"
    using demo_leaf(1) [of 0] demo_entry(1) by (simp_all add: demo_def less_MAXVA in_range_def)
  moreover note uvmunmap_unmaps [OF demo_inv demo_pt_ok [of 0] _ _ fr]
  ultimately show ?thesis using demo_kpage [of 3] demo_pages by (fastforce simp: page_aligned_def)
qed

end
