(* ===== verification/Proc.thy ===== *)
theory Proc
  imports Vm
begin

unbundle bit_operations_syntax

text \<open>
  \<^verbatim>\<open>kernel/proc.c\<close>, the part that needs no file system: the process table, process ids, sleeping and
  waking, the scheduler with its multi-level feedback queue, kill, and priorities. A pointer
  to a process is its index in the table; a null pointer is \<open>None\<close>, and following one traps in
  the kernel, which stops it in \<^verbatim>\<open>kerneltrap\<close>.
\<close>

section \<open>The process table\<close>

datatype procstate = UNUSED | USED | SLEEPING | RUNNABLE | RUNNING | ZOMBIE

text \<open>Sleep locks, and the addresses that processes sleep on.\<close>

datatype slock = BufSlk nat | InodeSlk nat

datatype chan =
    ChNull | ChProc nat | ChTicks | ChLog | ChSlk slock | ChBuf nat | ChDisk | ChTx | ChCons | ChAddr addr

record vma =
  vused :: bool
  vaddr :: u64
  vlen :: u64
  vprot :: u32
  vflags :: u32
  voff :: u64
  vfile :: "nat option"

text \<open>A saved return address: none, or the entry point of a new process.\<close>

datatype codeptr = NoCode | Forkret

record kcontext =
  ctx_ra :: codeptr
  ctx_sp :: u64

record proc =
  pstate :: procstate
  pchan :: chan
  pkilled :: int
  xstate :: int
  pid :: int
  tgid :: int
  thread_count :: int
  parent :: "nat option"
  kstack :: u64
  psz :: u64
  ppagetable :: addr
  trapframe :: addr
  pcontext :: kcontext
  ofile :: "nat \<Rightarrow> nat option"
  cwd :: "nat option"
  vmas :: "nat \<Rightarrow> vma"
  priority :: int
  ticks_used :: int
  pname :: "nat \<Rightarrow> u8"

text \<open>
  The field \<open>patience\<close> bounds how often a sleeping loop goes back to sleep; it stands for no
  variable of the source, and the theorems hold for every bound that is large enough.
\<close>

record kproc = kvm +
  procs :: "nat \<Rightarrow> proc"
  curproc :: "nat option"
  nextpid :: int
  initproc :: "nat option"
  patience :: nat

abbreviation upd_proc :: "nat \<Rightarrow> (proc \<Rightarrow> proc) \<Rightarrow> 'a kproc_scheme \<Rightarrow> 'a kproc_scheme" where
  "upd_proc p f s \<equiv> s\<lparr>procs := (procs s)(p := f (procs s p))\<rparr>"

text \<open>A null pointer that is followed makes the kernel trap.\<close>

definition deref :: "'p option \<Rightarrow> ('p \<Rightarrow> 's \<Rightarrow> ('s, 'a) out) \<Rightarrow> 's \<Rightarrow> ('s, 'a) out" where
  "deref q f s = (case q of None \<Rightarrow> Panic ''kerneltrap'' | Some p \<Rightarrow> f p s)"

definition myproc :: "'a kproc_scheme \<Rightarrow> nat option" where
  "myproc s = curproc s"

definition empty_vma :: vma where
  "empty_vma = \<lparr>vused = False, vaddr = 0, vlen = 0, vprot = 0, vflags = 0, voff = 0, vfile = None\<rparr>"

definition proc_vma_init :: "nat \<Rightarrow> 'a kproc_scheme \<Rightarrow> 'a kproc_scheme" where
  "proc_vma_init p s = upd_proc p (vmas_update (\<lambda>_ _. empty_vma)) s"

definition procinit :: "'a kproc_scheme \<Rightarrow> ('a kproc_scheme, unit) out" where
  "procinit s =
     foreach [0..<NPROC] (\<lambda>p s.
       Ok () (upd_proc p (\<lambda>pr. pr\<lparr>pstate := UNUSED, kstack := KSTACK p\<rparr>) (initlock (ProcLock p) s)))
       (initlock WaitLock (initlock PidLock s))"

definition allocpid :: "'a kproc_scheme \<Rightarrow> ('a kproc_scheme, int) out" where
  "allocpid s =
     bnd (acquire PidLock s) (\<lambda>_ s.
     let pid = nextpid s;
         s = s\<lparr>nextpid := nextpid s + 1\<rparr>
     in bnd (release PidLock s) (\<lambda>_ s. Ok pid s))"

section \<open>Switching\<close>

text \<open>
  \<^verbatim>\<open>sched\<close> demands that the process lock is the only lock of this hart; the nesting depth \<^verbatim>\<open>noff\<close> is
  the number of locks held. The switch is the outcome \<open>Sleep\<close>. Interrupts are off whenever a lock is
  held, so the test of \<^verbatim>\<open>intr_get\<close> never fires.
\<close>

definition sched :: "'a kproc_scheme \<Rightarrow> ('a kproc_scheme, unit) out" where
  "sched s =
     deref (myproc s) (\<lambda>p s.
       if ProcLock p \<notin> held s then Panic ''sched p->lock''
       else if card (held s) \<noteq> 1 then Panic ''sched locks''
       else if pstate (procs s p) = RUNNING then Panic ''sched RUNNING''
       else Sleep s (\<lambda>t. Ok () t)) s"

definition yield :: "'a kproc_scheme \<Rightarrow> ('a kproc_scheme, unit) out" where
  "yield s =
     deref (myproc s) (\<lambda>p s.
       bnd (acquire (ProcLock p) s) (\<lambda>_ s.
       bnd (sched (upd_proc p (pstate_update (\<lambda>_. RUNNABLE)) s)) (\<lambda>_ s.
       release (ProcLock p) s))) s"

text \<open>
  \<^verbatim>\<open>sleep\<close> runs here without interference up to its switch. Its steps one by one, interleaved with those of \<^verbatim>\<open>wakeup\<close> on other
  harts, where the order of its two lock operations matters, are in the theory \<open>Sleepwake\<close>.
\<close>

definition sleep :: "chan \<Rightarrow> lock \<Rightarrow> 'a kproc_scheme \<Rightarrow> ('a kproc_scheme, unit) out" where
  "sleep ch lk s =
     deref (myproc s) (\<lambda>p s.
       bnd (acquire (ProcLock p) s) (\<lambda>_ s.
       bnd (release lk s) (\<lambda>_ s.
       bnd (sched (upd_proc p (\<lambda>pr. pr\<lparr>pchan := ch, pstate := SLEEPING\<rparr>) s)) (\<lambda>_ s.
       bnd (release (ProcLock p) (upd_proc p (pchan_update (\<lambda>_. ChNull)) s)) (\<lambda>_ s.
       acquire lk s))))) s"

definition wakeup :: "chan \<Rightarrow> 'a kproc_scheme \<Rightarrow> ('a kproc_scheme, unit) out" where
  "wakeup ch s =
     foreach [0..<NPROC] (\<lambda>p s.
       if Some p \<noteq> myproc s then
         bnd (acquire (ProcLock p) s) (\<lambda>_ s.
           release (ProcLock p)
             (if pstate (procs s p) = SLEEPING \<and> pchan (procs s p) = ch
              then upd_proc p (\<lambda>pr. pr\<lparr>pstate := RUNNABLE, priority := 0, ticks_used := 0\<rparr>) s
              else s))
       else Ok () s) s"

definition kkill :: "int \<Rightarrow> 'a kproc_scheme \<Rightarrow> ('a kproc_scheme, int) out" where
  "kkill pd s =
     bnd (forret [0..<NPROC] (\<lambda>p s.
       bnd (acquire (ProcLock p) s) (\<lambda>_ s.
         if pid (procs s p) = pd then
           let s = upd_proc p (pkilled_update (\<lambda>_. 1)) s;
               s = (if pstate (procs s p) = SLEEPING then upd_proc p (pstate_update (\<lambda>_. RUNNABLE)) s else s)
           in bnd (release (ProcLock p) s) (\<lambda>_ s. Ok (Some 0) s)
         else bnd (release (ProcLock p) s) (\<lambda>_ s. Ok None s))) s) (\<lambda>r s.
     Ok (case r of Some v \<Rightarrow> v | None \<Rightarrow> - 1) s)"

definition setkilled :: "nat \<Rightarrow> 'a kproc_scheme \<Rightarrow> ('a kproc_scheme, unit) out" where
  "setkilled p s =
     bnd (acquire (ProcLock p) s) (\<lambda>_ s.
     release (ProcLock p) (upd_proc p (pkilled_update (\<lambda>_. 1)) s))"

definition killed :: "nat \<Rightarrow> 'a kproc_scheme \<Rightarrow> ('a kproc_scheme, int) out" where
  "killed p s =
     bnd (acquire (ProcLock p) s) (\<lambda>_ s.
     let k = pkilled (procs s p)
     in bnd (release (ProcLock p) s) (\<lambda>_ s. Ok k s))"

definition update_sz :: "int \<Rightarrow> u64 \<Rightarrow> 'a kproc_scheme \<Rightarrow> ('a kproc_scheme, unit) out" where
  "update_sz tg sz s =
     foreach [0..<NPROC] (\<lambda>p s.
       bnd (acquire (ProcLock p) s) (\<lambda>_ s.
       release (ProcLock p)
         (if tgid (procs s p) = tg then upd_proc p (psz_update (\<lambda>_. sz)) s else s))) s"

section \<open>The scheduler\<close>

text \<open>
  The scan of the process table. The accumulator is the chosen process with its priority; its lock
  stays held while the scan goes on.
\<close>

definition pick_step ::
  "nat \<Rightarrow> (nat \<times> int) option \<Rightarrow> 'a kproc_scheme \<Rightarrow> ('a kproc_scheme, (nat \<times> int) option) out" where
  "pick_step p chosen s =
     bnd (acquire (ProcLock p) s) (\<lambda>_ s.
       if pstate (procs s p) = RUNNABLE \<and>
          priority (procs s p) < (case chosen of None \<Rightarrow> NMLFQ | Some (_, pri) \<Rightarrow> pri)
       then
         bnd (case chosen of None \<Rightarrow> Ok () s | Some (c, _) \<Rightarrow> release (ProcLock c) s) (\<lambda>_ s.
         Ok (Some (p, priority (procs s p))) s)
       else bnd (release (ProcLock p) s) (\<lambda>_ s. Ok chosen s))"

primrec pick_loop ::
  "nat list \<Rightarrow> (nat \<times> int) option \<Rightarrow> 'a kproc_scheme \<Rightarrow> ('a kproc_scheme, (nat \<times> int) option) out" where
  "pick_loop [] chosen s = Ok chosen s"
| "pick_loop (p # ps) chosen s = bnd (pick_step p chosen s) (\<lambda>chosen s. pick_loop ps chosen s)"

text \<open>
  One round of the endless loop of \<^verbatim>\<open>scheduler\<close>. The switch to the chosen process is the outcome
  \<open>Sleep\<close>; the hart comes back to this thread when that process calls \<^verbatim>\<open>sched\<close>. With nothing to run the
  hart waits for an interrupt.
\<close>

definition scheduler_round :: "'a kproc_scheme \<Rightarrow> ('a kproc_scheme, unit) out" where
  "scheduler_round s =
     bnd (pick_loop [0..<NPROC] None (s\<lparr>curproc := None\<rparr>)) (\<lambda>chosen s.
       case chosen of
         Some (c, _) \<Rightarrow>
           Sleep ((upd_proc c (pstate_update (\<lambda>_. RUNNING)) s)\<lparr>curproc := Some c\<rparr>) (\<lambda>t.
             release (ProcLock c) (t\<lparr>curproc := None\<rparr>))
       | None \<Rightarrow> Ok () s)"

definition MLFQ_SLICE0 :: int where "MLFQ_SLICE0 = 1"
definition MLFQ_SLICE1 :: int where "MLFQ_SLICE1 = 2"
definition MLFQ_SLICE2 :: int where "MLFQ_SLICE2 = 4"
definition MLFQ_SLICE3 :: int where "MLFQ_SLICE3 = 8"

definition mlfq_slice :: "int \<Rightarrow> int" where
  "mlfq_slice pri = [MLFQ_SLICE0, MLFQ_SLICE1, MLFQ_SLICE2, MLFQ_SLICE3] ! nat pri"

definition mlfq_tick :: "'a kproc_scheme \<Rightarrow> ('a kproc_scheme, unit) out" where
  "mlfq_tick s =
     (case myproc s of
        None \<Rightarrow> Ok () s
      | Some p \<Rightarrow>
          bnd (acquire (ProcLock p) s) (\<lambda>_ s.
          let s = upd_proc p (ticks_used_update (\<lambda>t. t + 1)) s;
              pri = priority (procs s p);
              pri = (if pri < 0 then 0 else pri);
              pri = (if pri \<ge> NMLFQ then NMLFQ - 1 else pri);
              s = (if ticks_used (procs s p) \<ge> mlfq_slice pri
                   then upd_proc p (\<lambda>pr. pr\<lparr>priority := (if priority pr < NMLFQ - 1 then priority pr + 1 else priority pr),
                     ticks_used := 0\<rparr>) s
                   else s)
          in release (ProcLock p) s))"

definition mlfq_boost :: "'a kproc_scheme \<Rightarrow> ('a kproc_scheme, unit) out" where
  "mlfq_boost s =
     foreach [0..<NPROC] (\<lambda>p s.
       bnd (acquire (ProcLock p) s) (\<lambda>_ s.
       release (ProcLock p)
         (if pstate (procs s p) \<noteq> UNUSED then upd_proc p (\<lambda>pr. pr\<lparr>priority := 0, ticks_used := 0\<rparr>) s else s))) s"

definition setpriority :: "int \<Rightarrow> int \<Rightarrow> 'a kproc_scheme \<Rightarrow> ('a kproc_scheme, int) out" where
  "setpriority pd pri s =
     (if pri < 0 \<or> pri \<ge> NMLFQ then Ok (- 1) s
      else bnd (forret [0..<NPROC] (\<lambda>p s.
        bnd (acquire (ProcLock p) s) (\<lambda>_ s.
          if pid (procs s p) = pd
          then bnd (release (ProcLock p) (upd_proc p (\<lambda>pr. pr\<lparr>priority := pri, ticks_used := 0\<rparr>) s)) (\<lambda>_ s. Ok (Some 0) s)
          else bnd (release (ProcLock p) s) (\<lambda>_ s. Ok None s))) s) (\<lambda>r s.
        Ok (case r of Some v \<Rightarrow> v | None \<Rightarrow> - 1) s))"

end
