(* ===== verification/Procprops.thy ===== *)
theory Procprops
  imports Proc
begin

text \<open>
  Lemmas on the process table: waking, killing, priorities, the scheduler's choice and the
  multi-level feedback queue. Every routine that visits all processes takes and drops their locks one
  by one; the first section reduces such loops to one update of the table.
\<close>

section \<open>Loops over the table\<close>

text \<open>This hart holds no process lock.\<close>

definition no_plocks :: "'a kproc_scheme \<Rightarrow> bool" where
  "no_plocks s \<longleftrightarrow> (\<forall>p. ProcLock p \<notin> held s)"

lemma no_plocksD [simp]: "no_plocks s \<Longrightarrow> ProcLock p \<notin> held s"
  by (simp add: no_plocks_def)

lemma no_plocks_procs [simp]: "no_plocks (s\<lparr>procs := t\<rparr>) = no_plocks s"
  by (simp add: no_plocks_def)

abbreviation upd_procs :: "(nat \<Rightarrow> proc \<Rightarrow> proc) \<Rightarrow> nat \<Rightarrow> 'a kproc_scheme \<Rightarrow> 'a kproc_scheme" where
  "upd_procs g n s \<equiv> s\<lparr>procs := (\<lambda>p. if p < n then g p (procs s p) else procs s p)\<rparr>"

lemma each_proc:
  assumes "no_plocks s"
    and body: "\<And>p t. no_plocks t \<Longrightarrow> myproc t = myproc s \<Longrightarrow> f p t = Ok () (upd_proc p (g p) t)"
  shows "foreach [0..<n] f s = Ok () (upd_procs g n s)"
proof (induction n)
  case 0
  then show ?case by simp
next
  case (Suc n)
  have "f n (upd_procs g n s) = Ok () (upd_proc n (g n) (upd_procs g n s))"
    by (rule body) (use assms(1) in \<open>simp_all add: myproc_def\<close>)
  moreover have "upd_proc n (g n) (upd_procs g n s) = upd_procs g (Suc n) s"
    by (auto simp: fun_eq_iff less_Suc_eq)
  ultimately show ?case using Suc by (simp add: foreach_snoc)
qed


lemma forret_find:
  assumes "\<And>p. p \<in> set ps \<Longrightarrow> \<not> P p \<Longrightarrow> f p s = Ok None s"
    and "\<And>p. p \<in> set ps \<Longrightarrow> P p \<Longrightarrow> f p s = Ok (Some (v p)) (h p)"
  shows "forret ps f s = (case find P ps of None \<Rightarrow> Ok None s | Some p \<Rightarrow> Ok (Some (v p)) (h p))"
  using assms by (induction ps) auto

lemma find_upt_None: "find P [0..<n] = None \<longleftrightarrow> (\<forall>p<n. \<not> P p)"
  by (auto simp: find_None_iff)

lemma find_upt_Some: "find P [0..<n] = Some p \<longleftrightarrow> p < n \<and> P p \<and> (\<forall>q<p. \<not> P q)"
  by (auto simp: find_Some_iff intro!: exI [of _ p])

section \<open>Waking\<close>

definition woken :: "chan \<Rightarrow> nat option \<Rightarrow> nat \<Rightarrow> proc \<Rightarrow> proc" where
  "woken ch me p pr =
     (if Some p \<noteq> me \<and> pstate pr = SLEEPING \<and> pchan pr = ch
      then pr\<lparr>pstate := RUNNABLE, priority := 0, ticks_used := 0\<rparr> else pr)"

lemma held_insert_id [simp]: "ProcLock p \<notin> held s \<Longrightarrow> s\<lparr>held := held s - {ProcLock p}\<rparr> = s"
  by simp

lemma procs_id [simp]: "s\<lparr>procs := procs s\<rparr> = s" "s\<lparr>procs := (procs s)(p := procs s p)\<rparr> = s"
  by simp_all

lemma wakeup_eq:
  assumes "no_plocks s"
  shows "wakeup ch s = Ok () (upd_procs (woken ch (myproc s)) NPROC s)"
  unfolding wakeup_def
proof (rule each_proc [OF assms])
  fix p and t :: "'a kproc_scheme"
  assume "no_plocks t" "myproc t = myproc s"
  then show "(if Some p \<noteq> myproc t then
         bnd (acquire (ProcLock p) t) (\<lambda>_ s.
           release (ProcLock p)
             (if pstate (procs s p) = SLEEPING \<and> pchan (procs s p) = ch
              then upd_proc p (\<lambda>pr. pr\<lparr>pstate := RUNNABLE, priority := 0, ticks_used := 0\<rparr>) s
              else s))
       else Ok () t) = Ok () (upd_proc p (woken ch (myproc s) p) t)"
    by (cases "pstate (procs t p) = SLEEPING \<and> pchan (procs t p) = ch") (auto simp: woken_def)
qed

lemma foreach_panics:
  assumes "x \<in> set xs" "I s"
    and step: "\<And>y t. y \<in> set xs \<Longrightarrow> I t \<Longrightarrow> f y t = Panic m \<or> (\<exists>u. f y t = Ok () u \<and> I u)"
    and bad: "\<And>t. I t \<Longrightarrow> f x t = Panic m"
  shows "foreach xs f s = Panic m"
  using assms(1,2) step
proof (induction xs arbitrary: s)
  case (Cons y ys)
  from Cons.prems(3) [of y s] Cons.prems(2)
  consider "f y s = Panic m" | u where "f y s = Ok () u" "I u" by auto
  then show ?case
  proof cases
    case 2
    then show ?thesis using Cons bad [of s] by (cases "y = x") auto
  qed simp
qed simp

text \<open>Waking takes the locks of all other processes, so it must not be called while holding one of them.\<close>

lemma wakeup_panics:
  assumes "q < NPROC" "Some q \<noteq> myproc s" "ProcLock q \<in> held s"
  shows "wakeup ch s = Panic ''acquire''"
  unfolding wakeup_def
proof (rule foreach_panics [where x = q and I = "\<lambda>t. held t = held s \<and> myproc t = myproc s"])
  fix y and t :: "'a kproc_scheme" assume I: "held t = held s \<and> myproc t = myproc s"
  show "(if Some y \<noteq> myproc t then
         bnd (acquire (ProcLock y) t) (\<lambda>_ s.
           release (ProcLock y)
             (if pstate (procs s y) = SLEEPING \<and> pchan (procs s y) = ch
              then upd_proc y (\<lambda>pr. pr\<lparr>pstate := RUNNABLE, priority := 0, ticks_used := 0\<rparr>) s
              else s))
       else Ok () t) = Panic ''acquire'' \<or>
     (\<exists>u. (if Some y \<noteq> myproc t then
         bnd (acquire (ProcLock y) t) (\<lambda>_ s.
           release (ProcLock y)
             (if pstate (procs s y) = SLEEPING \<and> pchan (procs s y) = ch
              then upd_proc y (\<lambda>pr. pr\<lparr>pstate := RUNNABLE, priority := 0, ticks_used := 0\<rparr>) s
              else s))
       else Ok () t) = Ok () u \<and> held u = held s \<and> myproc u = myproc s)"
    using I by (cases "ProcLock y \<in> held t") (auto simp: myproc_def)
qed (use assms in auto)


section \<open>Finding a process\<close>

lemma kkill_eq:
  assumes "no_plocks s"
  shows "kkill pd s =
    (case find (\<lambda>p. pid (procs s p) = pd) [0..<NPROC] of
       None \<Rightarrow> Ok (- 1) s
     | Some p \<Rightarrow> Ok 0 (upd_proc p (\<lambda>pr. pr\<lparr>pkilled := 1,
         pstate := (if pstate pr = SLEEPING then RUNNABLE else pstate pr)\<rparr>) s))"
  unfolding kkill_def
  by (subst forret_find [where P = "\<lambda>p. pid (procs s p) = pd" and v = "\<lambda>_. 0" and
        h = "\<lambda>p. upd_proc p (\<lambda>pr. pr\<lparr>pkilled := 1, pstate := (if pstate pr = SLEEPING then RUNNABLE else pstate pr)\<rparr>) s"])
    (use assms in \<open>auto simp: Let_def split: option.split\<close>)

lemma setpriority_eq:
  assumes "no_plocks s"
  shows "setpriority pd pri s =
    (if pri < 0 \<or> pri \<ge> NMLFQ then Ok (- 1) s
     else case find (\<lambda>p. pid (procs s p) = pd) [0..<NPROC] of
       None \<Rightarrow> Ok (- 1) s
     | Some p \<Rightarrow> Ok 0 (upd_proc p (\<lambda>pr. pr\<lparr>priority := pri, ticks_used := 0\<rparr>) s))"
  unfolding setpriority_def
  by (subst forret_find [where P = "\<lambda>p. pid (procs s p) = pd" and v = "\<lambda>_. 0" and
        h = "\<lambda>p. upd_proc p (\<lambda>pr. pr\<lparr>priority := pri, ticks_used := 0\<rparr>) s"])
    (use assms in \<open>auto split: option.split\<close>)

section \<open>The feedback queue\<close>

lemma mlfq_boost_eq:
  assumes "no_plocks s"
  shows "mlfq_boost s = Ok () (upd_procs (\<lambda>_ pr. if pstate pr \<noteq> UNUSED then pr\<lparr>priority := 0, ticks_used := 0\<rparr> else pr) NPROC s)"
  unfolding mlfq_boost_def
proof (rule each_proc [OF assms])
  fix p and t :: "'a kproc_scheme" assume "no_plocks t" "myproc t = myproc s"
  then show "bnd (acquire (ProcLock p) t) (\<lambda>_ s.
       release (ProcLock p)
         (if pstate (procs s p) \<noteq> UNUSED then upd_proc p (\<lambda>pr. pr\<lparr>priority := 0, ticks_used := 0\<rparr>) s else s)) =
     Ok () (upd_proc p (\<lambda>pr. if pstate pr \<noteq> UNUSED then pr\<lparr>priority := 0, ticks_used := 0\<rparr> else pr) t)"
    by simp
qed

lemma update_sz_eq:
  assumes "no_plocks s"
  shows "update_sz tg sz s = Ok () (upd_procs (\<lambda>_ pr. if tgid pr = tg then pr\<lparr>psz := sz\<rparr> else pr) NPROC s)"
  unfolding update_sz_def
proof (rule each_proc [OF assms])
  fix p and t :: "'a kproc_scheme" assume "no_plocks t" "myproc t = myproc s"
  then show "bnd (acquire (ProcLock p) t) (\<lambda>_ s.
       release (ProcLock p)
         (if tgid (procs s p) = tg then upd_proc p (psz_update (\<lambda>_. sz)) s else s)) =
     Ok () (upd_proc p (\<lambda>pr. if tgid pr = tg then pr\<lparr>psz := sz\<rparr> else pr) t)"
    by simp
qed

text \<open>The queue of a process and the part of its slice it has used.\<close>

definition mlfq_ok :: "proc \<Rightarrow> bool" where
  "mlfq_ok pr \<longleftrightarrow> 0 \<le> priority pr \<and> priority pr < NMLFQ \<and> 0 \<le> ticks_used pr \<and> ticks_used pr < mlfq_slice (priority pr)"

definition ticked :: "proc \<Rightarrow> proc" where
  "ticked pr =
     (if ticks_used pr + 1 \<ge> mlfq_slice (priority pr)
      then pr\<lparr>priority := min (priority pr + 1) (NMLFQ - 1), ticks_used := 0\<rparr>
      else ticks_used_update (\<lambda>t. t + 1) pr)"

lemma mlfq_slice_pos: "0 \<le> pri \<Longrightarrow> pri < NMLFQ \<Longrightarrow> 0 < mlfq_slice pri"
proof -
  assume "0 \<le> pri" "pri < NMLFQ"
  then have "nat pri = 0 \<or> nat pri = 1 \<or> nat pri = 2 \<or> nat pri = 3" by (auto simp: NMLFQ_def)
  then show ?thesis
    by (auto simp: mlfq_slice_def MLFQ_SLICE0_def MLFQ_SLICE1_def MLFQ_SLICE2_def MLFQ_SLICE3_def)
qed

lemma mlfq_tick_eq:
  assumes "no_plocks s" "myproc s = Some p" "mlfq_ok (procs s p)"
  shows "mlfq_tick s = Ok () (upd_proc p ticked s)"
proof -
  have "min (priority (procs s p) + 1) (NMLFQ - 1) =
    (if priority (procs s p) < NMLFQ - 1 then priority (procs s p) + 1 else priority (procs s p))"
    using assms(3) by (auto simp: mlfq_ok_def)
  then show ?thesis
    using assms by (simp add: mlfq_tick_def ticked_def mlfq_ok_def Let_def)
qed

lemma mlfq_ok_ticked: "mlfq_ok pr \<Longrightarrow> mlfq_ok (ticked pr)"
  using mlfq_slice_pos by (auto simp: mlfq_ok_def ticked_def NMLFQ_def min_def)

lemma mlfq_ok_top [simp]: "mlfq_ok (pr\<lparr>priority := 0, ticks_used := 0\<rparr>)"
  using mlfq_slice_pos [of 0] by (simp add: mlfq_ok_def NMLFQ_def)

lemma mlfq_ok_woken: "mlfq_ok pr \<Longrightarrow> mlfq_ok (woken ch me p pr)"
  using mlfq_slice_pos [of 0] by (simp add: woken_def mlfq_ok_def NMLFQ_def)


section \<open>The scheduler's choice\<close>

text \<open>The choice as a function of the table: scanning upwards, a better priority replaces the choice.\<close>

primrec pick :: "(nat \<Rightarrow> proc) \<Rightarrow> nat \<Rightarrow> (nat \<times> int) option" where
  "pick t 0 = None"
| "pick t (Suc n) =
     (if pstate (t n) = RUNNABLE \<and> priority (t n) < (case pick t n of None \<Rightarrow> NMLFQ | Some (_, pri) \<Rightarrow> pri)
      then Some (n, priority (t n)) else pick t n)"

definition plocks :: "(nat \<times> int) option \<Rightarrow> lock set" where
  "plocks c = (case c of None \<Rightarrow> {} | Some (p, _) \<Rightarrow> {ProcLock p})"

lemma pick_less: "pick t n = Some (c, pri) \<Longrightarrow> c < n \<and> pstate (t c) = RUNNABLE \<and> priority (t c) = pri \<and> pri < NMLFQ"
  by (induction n arbitrary: c pri) (auto split: if_splits option.splits intro: less_SucI)

lemma pick_None: "pick t n = None \<longleftrightarrow> (\<forall>p<n. pstate (t p) = RUNNABLE \<longrightarrow> NMLFQ \<le> priority (t p))"
  by (induction n) (auto simp: less_Suc_eq split: option.splits dest: pick_less)

lemma pick_best:
  "pick t n = Some (c, pri) \<Longrightarrow> p < n \<Longrightarrow> pstate (t p) = RUNNABLE \<Longrightarrow>
     pri \<le> priority (t p) \<and> (p < c \<longrightarrow> pri < priority (t p))"
proof (induction n arbitrary: c pri)
  case (Suc n)
  show ?case
  proof (cases "p = n")
    case True
    then show ?thesis using Suc.prems pick_less [of t n c pri]
      by (auto split: if_splits option.splits)
  next
    case False
    then have "p < n" using Suc.prems(2) by simp
    show ?thesis
    proof (cases "pick t n")
      case None
      then have "NMLFQ \<le> priority (t p)" using \<open>p < n\<close> Suc.prems(3) by (simp add: pick_None)
      then show ?thesis using None Suc.prems(1) by (auto split: if_splits)
    next
      case (Some cp)
      obtain c0 p0 where cp: "cp = (c0, p0)" by force
      have "p0 \<le> priority (t p) \<and> (p < c0 \<longrightarrow> p0 < priority (t p))"
        using Suc.IH [of c0 p0] Some cp \<open>p < n\<close> Suc.prems(3) by simp
      then show ?thesis using Some cp Suc.prems(1) by (auto split: if_splits)
    qed
  qed
qed simp

lemma pick_loop_snoc:
  "pick_loop (xs @ [x]) c s = bnd (pick_loop xs c s) (\<lambda>c s. pick_step x c s)"
  by (induction xs arbitrary: c s) (auto simp: bnd_assoc)

lemma pick_loop_eq:
  assumes "no_plocks s"
  shows "pick_loop [0..<n] None s = Ok (pick (procs s) n) (s\<lparr>held := held s \<union> plocks (pick (procs s) n)\<rparr>)"
proof (induction n)
  case 0
  then show ?case by (simp add: plocks_def)
next
  case (Suc n)
  let ?c = "pick (procs s) n" and ?s = "s\<lparr>held := held s \<union> plocks (pick (procs s) n)\<rparr>"
  have fresh: "ProcLock n \<notin> held ?s"
    using assms pick_less [of "procs s" n] by (auto simp: plocks_def split: option.splits)
  have "pick_step n ?c ?s = Ok (pick (procs s) (Suc n)) (s\<lparr>held := held s \<union> plocks (pick (procs s) (Suc n))\<rparr>)"
  proof (cases ?c)
    case None
    then show ?thesis using fresh by (auto simp: pick_step_def plocks_def)
  next
    case (Some cp)
    obtain c pri where cp: "cp = (c, pri)" by force
    have "c \<noteq> n" using Some cp pick_less [of "procs s" n c pri] by auto
    moreover have "insert (ProcLock n) (insert (ProcLock c) (held s)) - {ProcLock c} = insert (ProcLock n) (held s)"
      using assms \<open>c \<noteq> n\<close> by auto
    moreover have "insert (ProcLock n) (insert (ProcLock c) (held s)) - {ProcLock n} = insert (ProcLock c) (held s)"
      using assms \<open>c \<noteq> n\<close> by auto
    ultimately show ?thesis using Some cp fresh assms
      by (auto simp: pick_step_def plocks_def)
  qed
  then show ?case using Suc by (simp add: pick_loop_snoc)
qed

text \<open>A free slot of the table, all fields zero.\<close>

definition idle_proc :: proc where
  "idle_proc = \<lparr>pstate = UNUSED, pchan = ChNull, pkilled = 0, xstate = 0, pid = 0, tgid = 0, thread_count = 0,
     parent = None, kstack = 0, psz = 0, ppagetable = 0, trapframe = 0, pcontext = \<lparr>ctx_ra = NoCode, ctx_sp = 0\<rparr>,
     ofile = (\<lambda>_. None), cwd = None, vmas = (\<lambda>_. empty_vma), priority = 0, ticks_used = 0, pname = (\<lambda>_. 0)\<rparr>"

lemma sleep_eq:
  assumes "myproc s = Some p" "held s = {lk}" "lk \<noteq> ProcLock p"
  shows "sleep ch lk s =
    Sleep (s\<lparr>procs := (procs s)(p := (procs s p)\<lparr>pchan := ch, pstate := SLEEPING\<rparr>), held := {ProcLock p}\<rparr>)
      (\<lambda>t. bnd (release (ProcLock p) (upd_proc p (pchan_update (\<lambda>_. ChNull)) t)) (\<lambda>_ s. acquire lk s))"
proof -
  have "insert (ProcLock p) {lk} - {lk} = {ProcLock p}" using assms(3) by auto
  then show ?thesis using assms by (simp add: sleep_def sched_def deref_def myproc_def)
qed

end
