(* ===== verification/Schedprops.thy ===== *)
theory Schedprops
  imports Procprops
begin

text \<open>
  What the process table promises: the scheduler's choice, misuse of sleeping and waking, killing, and the
  multi-level feedback queue as a state machine.
\<close>

text \<open>A machine with two runnable processes and one asleep, for the concrete instances.\<close>

definition three_procs :: kproc where
  "three_procs = \<lparr>held = {}, mem = (\<lambda>_. 0), freelist = 0, refcnt = (\<lambda>_. 0), kend = PHYSTOP,
     kernel_pagetable = 0, etext = 0, trampoline = 0, satp = 0,
     procs = (\<lambda>_. idle_proc)
       (0 := idle_proc\<lparr>pstate := RUNNABLE, pid := 1, priority := 2\<rparr>,
        1 := idle_proc\<lparr>pstate := RUNNABLE, pid := 2, priority := 1\<rparr>,
        2 := idle_proc\<lparr>pstate := SLEEPING, pid := 3, pchan := ChTicks\<rparr>),
     curproc = Some 0, nextpid = 4, initproc = Some 0, patience = 5\<rparr>"

lemma three_procs_simps [simp]:
  "no_plocks three_procs" "held three_procs = {}" "myproc three_procs = Some 0" "mlfq_ok (procs three_procs p)"
  by (auto simp: no_plocks_def three_procs_def myproc_def mlfq_ok_def idle_proc_def NMLFQ_def NPROC_def
      mlfq_slice_def MLFQ_SLICE0_def MLFQ_SLICE1_def MLFQ_SLICE2_def MLFQ_SLICE3_def)

text \<open>
  (C12) One round of the scheduler. If some process is runnable at a valid priority, the hart switches to the
  runnable process of the best priority, the one with the lowest index among equals; that process is
  then running, its lock is the only process lock held, and when it switches back the lock is
  dropped. If none is runnable, the round changes nothing but the current process.
\<close>

theorem scheduler_picks_best:
  assumes "no_plocks s"
  shows "if \<exists>p<NPROC. pstate (procs s p) = RUNNABLE \<and> priority (procs s p) < NMLFQ
    then \<exists>c<NPROC. pstate (procs s c) = RUNNABLE \<and>
      (\<forall>p<NPROC. pstate (procs s p) = RUNNABLE \<longrightarrow>
         priority (procs s c) \<le> priority (procs s p) \<and> (p < c \<longrightarrow> priority (procs s c) < priority (procs s p))) \<and>
      (\<exists>k. scheduler_round s = Sleep (s\<lparr>procs := (procs s)(c := (procs s c)\<lparr>pstate := RUNNING\<rparr>),
             curproc := Some c, held := insert (ProcLock c) (held s)\<rparr>) k \<and>
         (\<forall>t. ProcLock c \<in> held t \<longrightarrow> k t = Ok () (t\<lparr>curproc := None, held := held t - {ProcLock c}\<rparr>)))
    else scheduler_round s = Ok () (s\<lparr>curproc := None\<rparr>)"
proof -
  let ?s = "s\<lparr>curproc := None\<rparr>" and ?c = "pick (procs s) NPROC"
  have "no_plocks ?s" using assms by (simp add: no_plocks_def)
  note loop = pick_loop_eq [OF this, of NPROC]
  show ?thesis
  proof (cases ?c)
    case None
    then have "\<forall>p<NPROC. pstate (procs s p) = RUNNABLE \<longrightarrow> NMLFQ \<le> priority (procs s p)"
      by (simp add: pick_None)
    then have "\<not> (\<exists>p<NPROC. pstate (procs s p) = RUNNABLE \<and> priority (procs s p) < NMLFQ)" by force
    moreover have "scheduler_round s = Ok () (s\<lparr>curproc := None\<rparr>)"
      using loop None by (simp add: scheduler_round_def plocks_def)
    ultimately show ?thesis by (simp only: if_False)
  next
    case (Some cp)
    obtain c pri where "cp = (c, pri)" by force
    then have c: "?c = Some (c, pri)" using Some by simp
    note less = pick_less [OF c] and best = pick_best [OF c]
    have ex: "\<exists>p<NPROC. pstate (procs s p) = RUNNABLE \<and> priority (procs s p) < NMLFQ"
      using less by blast
    have run: "scheduler_round s = Sleep (s\<lparr>procs := (procs s)(c := (procs s c)\<lparr>pstate := RUNNING\<rparr>),
             curproc := Some c, held := insert (ProcLock c) (held s)\<rparr>)
       (\<lambda>t. release (ProcLock c) (t\<lparr>curproc := None\<rparr>))"
      using loop c by (simp add: scheduler_round_def plocks_def)
    show ?thesis
      unfolding if_P [OF ex] by (intro exI [of _ c] conjI exI, use less in simp, use less in simp, 
        use less best in simp, rule run, simp)
  qed
qed

theorem scheduler_picks_best_witness:
  "\<exists>c k t. scheduler_round three_procs = Sleep t k \<and> curproc t = Some c \<and> priority (procs three_procs c) = 1"
proof -
  have ex: "\<exists>p<NPROC. pstate (procs three_procs p) = RUNNABLE \<and> priority (procs three_procs p) < NMLFQ"
    by (rule exI [of _ 1]) (simp add: three_procs_def idle_proc_def NMLFQ_def NPROC_def)
  have le1: "pstate (procs three_procs c) = RUNNABLE \<Longrightarrow> priority (procs three_procs c) \<le> 1 \<Longrightarrow>
      priority (procs three_procs c) = 1" for c
    by (auto simp: three_procs_def idle_proc_def split: if_splits)
  have one: "pstate (procs three_procs 1) = RUNNABLE" "priority (procs three_procs 1) = 1" "1 < NPROC"
    by (simp_all add: three_procs_def idle_proc_def NPROC_def)
  obtain c k where "pstate (procs three_procs c) = RUNNABLE" and
    le: "\<forall>p<NPROC. pstate (procs three_procs p) = RUNNABLE \<longrightarrow>
         priority (procs three_procs c) \<le> priority (procs three_procs p) \<and>
         (p < c \<longrightarrow> priority (procs three_procs c) < priority (procs three_procs p))" and
    r: "scheduler_round three_procs = Sleep (three_procs\<lparr>procs := (procs three_procs)(c := (procs three_procs c)\<lparr>pstate := RUNNING\<rparr>),
             curproc := Some c, held := insert (ProcLock c) (held three_procs)\<rparr>) k"
    using scheduler_picks_best [OF three_procs_simps(1), unfolded if_P [OF ex]] by (elim exE conjE) (rule that)
  moreover have "priority (procs three_procs c) \<le> 1"
    using le [THEN spec, of 1] one by simp
  ultimately have "priority (procs three_procs c) = 1" by (intro le1)
  show ?thesis
    by (intro exI conjI) (rule r, simp, fact)
qed

section \<open>Sleeping and waking\<close>

text \<open>
  (C34) What goes wrong. Sleeping while holding a further lock panics in \<^verbatim>\<open>sched\<close>, and waking a channel while
  holding the lock of another process panics in \<^verbatim>\<open>acquire\<close>, whichever channel it is and whether or
  not that process sleeps.
\<close>

theorem sleep_wakeup_panics:
  "(myproc s = Some p \<longrightarrow> finite (held s) \<longrightarrow> {lk, lk'} \<subseteq> held s \<longrightarrow> lk \<noteq> lk' \<longrightarrow> ProcLock p \<notin> held s \<longrightarrow>
      sleep ch lk s = Panic ''sched locks'') \<and>
   (q < NPROC \<longrightarrow> myproc s \<noteq> Some q \<longrightarrow> ProcLock q \<in> held s \<longrightarrow> wakeup ch s = Panic ''acquire'')"
proof (intro conjI impI)
  assume a: "myproc s = Some p" "finite (held s)" "{lk, lk'} \<subseteq> held s" "lk \<noteq> lk'" "ProcLock p \<notin> held s"
  then have lk: "ProcLock p \<noteq> lk" "ProcLock p \<noteq> lk'" by auto
  have "card (insert (ProcLock p) (held s) - {lk}) \<noteq> 1"
  proof
    assume "card (insert (ProcLock p) (held s) - {lk}) = 1"
    then obtain x where x: "insert (ProcLock p) (held s) - {lk} = {x}" by (rule card_1_singletonE)
    have "ProcLock p \<in> {x}" "lk' \<in> {x}" using a lk unfolding x [symmetric] by simp_all
    then show False using lk by simp
  qed
  then show "sleep ch lk s = Panic ''sched locks''"
    using a lk by (simp add: sleep_def sched_def deref_def myproc_def)
next
  assume "q < NPROC" "myproc s \<noteq> Some q" "ProcLock q \<in> held s"
  then show "wakeup ch s = Panic ''acquire''" by (simp add: wakeup_panics)
qed

theorem sleep_wakeup_panics_witness:
  "sleep ChTicks TicksLock (three_procs\<lparr>held := {TicksLock, ConsLock}\<rparr>) = Panic ''sched locks'' \<and>
   wakeup ChLog (three_procs\<lparr>held := {ProcLock 2}\<rparr>) = Panic ''acquire''"
  using sleep_wakeup_panics [of "three_procs\<lparr>held := {TicksLock, ConsLock}\<rparr>" 0 TicksLock ConsLock ChTicks 0]
    sleep_wakeup_panics [of "three_procs\<lparr>held := {ProcLock 2}\<rparr>" 0 TicksLock ConsLock ChLog 2]
  by (simp add: myproc_def NPROC_def three_procs_def)

section \<open>Killing and priorities\<close>

text \<open>
  (C33) The calls that name a process. Both answer -1 and change nothing when no slot carries the pid, and
  \<^verbatim>\<open>setpriority\<close> also when the priority is not one of the four queues. Otherwise the first slot with that
  pid, and no other, is changed: \<^verbatim>\<open>kill\<close> marks it killed and makes it runnable if it slept,
  \<^verbatim>\<open>setpriority\<close> puts it at the start of its new queue.
\<close>

theorem kill_setpriority:
  assumes "no_plocks s"
  shows "((\<forall>p<NPROC. pid (procs s p) \<noteq> pd) \<longrightarrow> kkill pd s = Ok (- 1) s \<and> setpriority pd pri s = Ok (- 1) s) \<and>
    (pri < 0 \<or> NMLFQ \<le> pri \<longrightarrow> setpriority pd pri s = Ok (- 1) s) \<and>
    (\<forall>p<NPROC. pid (procs s p) = pd \<longrightarrow> (\<forall>q<p. pid (procs s q) \<noteq> pd) \<longrightarrow>
       kkill pd s = Ok 0 (s\<lparr>procs := (procs s)(p := (procs s p)\<lparr>pkilled := 1,
         pstate := (if pstate (procs s p) = SLEEPING then RUNNABLE else pstate (procs s p))\<rparr>)\<rparr>) \<and>
       (0 \<le> pri \<and> pri < NMLFQ \<longrightarrow> setpriority pd pri s = Ok 0 (s\<lparr>procs := (procs s)(p := (procs s p)\<lparr>priority := pri, ticks_used := 0\<rparr>)\<rparr>)))"
proof (intro conjI impI allI)
  assume "\<forall>p<NPROC. pid (procs s p) \<noteq> pd"
  then have none: "find (\<lambda>p. pid (procs s p) = pd) [0..<NPROC] = None" by (simp add: find_upt_None)
  show "kkill pd s = Ok (- 1) s" "setpriority pd pri s = Ok (- 1) s"
    using none by (simp_all add: kkill_eq setpriority_eq assms)
next
  assume "pri < 0 \<or> NMLFQ \<le> pri"
  then show "setpriority pd pri s = Ok (- 1) s" by (simp add: setpriority_eq assms)
next
  fix p assume "p < NPROC" "pid (procs s p) = pd" "\<forall>q<p. pid (procs s q) \<noteq> pd"
  then have some: "find (\<lambda>p. pid (procs s p) = pd) [0..<NPROC] = Some p" by (simp add: find_upt_Some)
  show "kkill pd s = Ok 0 (s\<lparr>procs := (procs s)(p := (procs s p)\<lparr>pkilled := 1,
         pstate := (if pstate (procs s p) = SLEEPING then RUNNABLE else pstate (procs s p))\<rparr>)\<rparr>)"
    using some by (simp add: kkill_eq assms)
  assume "0 \<le> pri \<and> pri < NMLFQ"
  then show "setpriority pd pri s = Ok 0 (s\<lparr>procs := (procs s)(p := (procs s p)\<lparr>priority := pri, ticks_used := 0\<rparr>)\<rparr>)"
    using some by (simp add: setpriority_eq assms)
qed

theorem kill_setpriority_witness:
  "kkill 9 three_procs = Ok (- 1) three_procs \<and> setpriority 2 4 three_procs = Ok (- 1) three_procs"
proof
  have "\<forall>p<NPROC. pid (procs three_procs p) \<noteq> 9" by (simp add: three_procs_def idle_proc_def)
  then show "kkill 9 three_procs = Ok (- 1) three_procs"
    using kill_setpriority [OF three_procs_simps(1), of 9 0] by (simp only: simp_thms)
  show "setpriority 2 4 three_procs = Ok (- 1) three_procs"
    using kill_setpriority [OF three_procs_simps(1), of 2 4] by (simp add: NMLFQ_def)
qed

section \<open>The feedback queue as a state machine\<close>

text \<open>
  The routines that move processes between queues, and the switch to the process the scheduler chose, which drops
  its lock on return to user space.
\<close>

inductive mlfq_step :: "'a kproc_scheme \<Rightarrow> 'a kproc_scheme \<Rightarrow> bool" where
  tick: "mlfq_tick s = Ok () t \<Longrightarrow> mlfq_step s t"
| boost: "mlfq_boost s = Ok () t \<Longrightarrow> mlfq_step s t"
| wake: "wakeup ch s = Ok () t \<Longrightarrow> mlfq_step s t"
| kill: "kkill pd s = Ok r t \<Longrightarrow> mlfq_step s t"
| prio: "setpriority pd pri s = Ok r t \<Longrightarrow> mlfq_step s t"
| switch: "scheduler_round s = Sleep u k \<Longrightarrow> curproc u = Some c \<Longrightarrow> release (ProcLock c) u = Ok () t \<Longrightarrow> mlfq_step s t"

definition mlfq_inv :: "'a kproc_scheme \<Rightarrow> bool" where
  "mlfq_inv s \<longleftrightarrow> no_plocks s \<and> (\<forall>p. mlfq_ok (procs s p))"

lemma mlfq_inv_upd: "mlfq_inv s \<Longrightarrow> (\<And>pr. mlfq_ok pr \<Longrightarrow> mlfq_ok (f pr)) \<Longrightarrow> mlfq_inv (upd_proc p f s)"
  by (simp add: mlfq_inv_def)

lemma mlfq_inv_upds: "mlfq_inv s \<Longrightarrow> (\<And>p pr. mlfq_ok pr \<Longrightarrow> mlfq_ok (g p pr)) \<Longrightarrow> mlfq_inv (upd_procs g n s)"
  by (simp add: mlfq_inv_def)

lemma mlfq_ok_frame [simp]:
  "mlfq_ok (pr\<lparr>pkilled := k, pstate := st\<rparr>) = mlfq_ok pr" "mlfq_ok (pr\<lparr>pstate := st\<rparr>) = mlfq_ok pr"
  "mlfq_ok (pr\<lparr>pkilled := k\<rparr>) = mlfq_ok pr"
  by (simp_all add: mlfq_ok_def)

lemma mlfq_tick_inv:
  assumes "mlfq_inv s"
  shows "\<exists>t. mlfq_tick s = Ok () t \<and> mlfq_inv t"
proof (cases "myproc s")
  case None
  then show ?thesis using assms by (simp add: mlfq_tick_def)
next
  case (Some p)
  then have "mlfq_tick s = Ok () (upd_proc p ticked s)"
    using assms by (intro mlfq_tick_eq) (simp_all add: mlfq_inv_def)
  moreover have "mlfq_inv (upd_proc p ticked s)" by (rule mlfq_inv_upd [OF assms]) (rule mlfq_ok_ticked)
  ultimately show ?thesis by simp
qed

lemma scheduler_round_Sleep:
  assumes "no_plocks s" "scheduler_round s = Sleep u k"
  obtains c where "u = s\<lparr>procs := (procs s)(c := (procs s c)\<lparr>pstate := RUNNING\<rparr>),
             curproc := Some c, held := insert (ProcLock c) (held s)\<rparr>"
proof -
  have "no_plocks (s\<lparr>curproc := None\<rparr>)" using assms(1) by (simp add: no_plocks_def)
  note loop = pick_loop_eq [OF this, of NPROC]
  show ?thesis
  proof (cases "pick (procs s) NPROC")
    case None
    then show ?thesis using loop assms(2) by (simp add: scheduler_round_def plocks_def)
  next
    case (Some cp)
    obtain c pri where "cp = (c, pri)" by force
    then show ?thesis using loop assms(2) Some by (intro that [of c]) (auto simp: scheduler_round_def plocks_def)
  qed
qed

lemma mlfq_step_inv: "mlfq_step s t \<Longrightarrow> mlfq_inv s \<Longrightarrow> mlfq_inv t"
proof (induction rule: mlfq_step.induct)
  case (tick s t)
  then show ?case using mlfq_tick_inv [of s] by auto
next
  case (boost s t)
  have "mlfq_inv (upd_procs (\<lambda>_ pr. if pstate pr \<noteq> UNUSED then pr\<lparr>priority := 0, ticks_used := 0\<rparr> else pr) NPROC s)"
    by (rule mlfq_inv_upds [OF boost(2)]) simp
  moreover have "no_plocks s" using boost(2) by (simp add: mlfq_inv_def)
  ultimately show ?case using boost(1) by (simp only: mlfq_boost_eq out.inject)
next
  case (wake ch s t)
  have "mlfq_inv (upd_procs (woken ch (myproc s)) NPROC s)"
    by (rule mlfq_inv_upds [OF wake(2)]) (rule mlfq_ok_woken)
  moreover have "no_plocks s" using wake(2) by (simp add: mlfq_inv_def)
  ultimately show ?case using wake(1) by (simp only: wakeup_eq out.inject)
next
  case (kill pd s r t)
  then show ?case by (auto simp: kkill_eq mlfq_inv_def split: option.splits)
next
  case (prio pd pri s r t)
  have "0 \<le> pri \<Longrightarrow> pri < NMLFQ \<Longrightarrow> mlfq_ok (pr\<lparr>priority := pri, ticks_used := 0\<rparr>)" for pr
    using mlfq_slice_pos [of pri] by (simp add: mlfq_ok_def)
  then show ?case using prio by (auto simp: setpriority_eq mlfq_inv_def split: option.splits if_splits)
next
  case (switch s u k c t)
  from switch(4) have "no_plocks s" by (simp add: mlfq_inv_def)
  from scheduler_round_Sleep [OF this switch(1)] obtain d where u: "u = s\<lparr>procs := (procs s)(d := (procs s d)\<lparr>pstate := RUNNING\<rparr>),
             curproc := Some d, held := insert (ProcLock d) (held s)\<rparr>" .
  then have "d = c" using switch(2) by simp
  then show ?case using u switch(3,4) \<open>no_plocks s\<close> by (auto simp: mlfq_inv_def no_plocks_def)
qed


text \<open>
  (C14) Whatever ticks, boosts, wakeups, kills, priority changes and switches have happened, in any order, every
  process is in one of the four queues and has used less than the slice of its queue, the hart holds
  no process lock, and the next tick does not panic.
\<close>

theorem mlfq_invariant:
  assumes "mlfq_inv s" "mlfq_step\<^sup>*\<^sup>* s t"
  shows "mlfq_inv t \<and> (\<exists>u. mlfq_tick t = Ok () u) \<and>
    (\<forall>p. 0 \<le> priority (procs t p) \<and> priority (procs t p) < NMLFQ \<and> ticks_used (procs t p) < mlfq_slice (priority (procs t p)))"
proof -
  have "mlfq_inv t" using assms(2,1) by (induction rule: rtranclp_induct) (auto intro: mlfq_step_inv)
  then show ?thesis using mlfq_tick_inv [of t] by (auto simp: mlfq_inv_def mlfq_ok_def)
qed

theorem mlfq_invariant_witness:
  "\<exists>t. mlfq_boost three_procs = Ok () t \<and> (\<exists>u. mlfq_tick t = Ok () u)"
proof -
  have "mlfq_inv three_procs" by (simp add: mlfq_inv_def)
  moreover obtain t where t: "mlfq_boost three_procs = Ok () t" by (simp add: mlfq_boost_eq)
  moreover have "mlfq_step\<^sup>*\<^sup>* three_procs t" using mlfq_step.boost [OF t] by blast
  ultimately show ?thesis using mlfq_invariant by blast
qed

text \<open>\<open>n\<close> timer ticks of the running process.\<close>

primrec mlfq_ticks :: "nat \<Rightarrow> 'a kproc_scheme \<Rightarrow> ('a kproc_scheme, unit) out" where
  "mlfq_ticks 0 s = Ok () s"
| "mlfq_ticks (Suc n) s = bnd (mlfq_ticks n s) (\<lambda>_ s. mlfq_tick s)"

lemma mlfq_ticks_eq:
  assumes "no_plocks s" "myproc s = Some p" "mlfq_ok (procs s p)"
  shows "mlfq_ticks n s = Ok () (upd_proc p (ticked ^^ n) s) \<and> mlfq_ok ((ticked ^^ n) (procs s p))"
proof (induction n)
  case (Suc n)
  let ?t = "upd_proc p (ticked ^^ n) s"
  have "mlfq_tick ?t = Ok () (upd_proc p ticked ?t)"
    using assms Suc by (intro mlfq_tick_eq) (simp_all add: myproc_def)
  then show ?case using Suc by (simp add: mlfq_ok_ticked fun_upd_def cong: if_cong)
qed (simp add: assms)

lemma ticked_pow:
  "ticks_used pr = 0 \<Longrightarrow> int n < mlfq_slice (priority pr) \<Longrightarrow> (ticked ^^ n) pr = pr\<lparr>ticks_used := int n\<rparr>"
proof (induction n)
  case (Suc n)
  then have "(ticked ^^ n) pr = pr\<lparr>ticks_used := int n\<rparr>" by simp
  then show ?case using Suc.prems by (simp add: ticked_def [of "pr\<lparr>ticks_used := int n\<rparr>"])
qed simp

text \<open>
  (C32) How long a process keeps its queue. A process at the start of the slice of its queue stays there for
  fewer ticks than the slice; the tick that completes the slice moves it one queue down, or to the
  start of the last queue again.
\<close>

theorem mlfq_demotion:
  assumes "no_plocks s" "myproc s = Some p" "mlfq_ok (procs s p)" "ticks_used (procs s p) = 0"
  shows "(int n < mlfq_slice (priority (procs s p)) \<longrightarrow>
      mlfq_ticks n s = Ok () (s\<lparr>procs := (procs s)(p := (procs s p)\<lparr>ticks_used := int n\<rparr>)\<rparr>)) \<and>
    (int n = mlfq_slice (priority (procs s p)) \<longrightarrow>
      mlfq_ticks n s = Ok () (s\<lparr>procs := (procs s)(p := (procs s p)\<lparr>priority := min (priority (procs s p) + 1) (NMLFQ - 1),
        ticks_used := 0\<rparr>)\<rparr>))"
proof (intro conjI impI)
  assume n: "int n = mlfq_slice (priority (procs s p))"
  then have "0 < n" using mlfq_slice_pos assms(3) by (fastforce simp: mlfq_ok_def)
  then obtain m where m: "n = Suc m" by (cases n) auto
  then have "(ticked ^^ m) (procs s p) = (procs s p)\<lparr>ticks_used := int m\<rparr>"
    using n assms(4) by (intro ticked_pow) simp_all
  then have "(ticked ^^ n) (procs s p) = (procs s p)\<lparr>priority := min (priority (procs s p) + 1) (NMLFQ - 1), ticks_used := 0\<rparr>"
    using m n by (simp add: ticked_def [of "(procs s p)\<lparr>ticks_used := int m\<rparr>"])
  then show "mlfq_ticks n s = Ok () (s\<lparr>procs := (procs s)(p := (procs s p)\<lparr>priority := min (priority (procs s p) + 1) (NMLFQ - 1),
        ticks_used := 0\<rparr>)\<rparr>)"
    using mlfq_ticks_eq [OF assms(1-3), of n] by simp
qed (use mlfq_ticks_eq [OF assms(1-3), of n] ticked_pow [OF assms(4)] in simp)

theorem mlfq_demotion_witness:
  "\<exists>t. mlfq_ticks 4 three_procs = Ok () t \<and> priority (procs three_procs 0) = 2 \<and> priority (procs t 0) = 3"
  using mlfq_demotion [OF three_procs_simps(1,3,4), of 4]
  by (simp add: three_procs_def idle_proc_def mlfq_slice_def MLFQ_SLICE2_def NMLFQ_def)

end
