(* ===== verification/Printf.thy ===== *)
theory Printf
  imports Proc
begin

unbundle bit_operations_syntax

text \<open>
  Console output: the transmit side of \<^verbatim>\<open>kernel/uart.c\<close>, \<^verbatim>\<open>consputc\<close> of \<^verbatim>\<open>kernel/console.c\<close>, and
  \<^verbatim>\<open>kernel/printf.c\<close>. The UART is a device: what the kernel does to it is the sequence of its
  register writes, and what it reads is the bytes that have arrived and, for each read of the line
  status register, whether the transmitter was found idle.
\<close>

section \<open>The UART\<close>

record kuart = kproc +
  uart_writes :: "(nat \<times> u8) list"
  uart_rx :: "u8 list"
  lsr_idle :: "nat \<Rightarrow> bool"
  lsr_reads :: nat
  tx_busy :: int
  panicking :: int
  panicked :: int

definition RHR :: nat where "RHR = 0"
definition THR :: nat where "THR = 0"
definition IER :: nat where "IER = 1"
definition IER_RX_ENABLE :: u8 where "IER_RX_ENABLE = push_bit 0 1"
definition IER_TX_ENABLE :: u8 where "IER_TX_ENABLE = push_bit 1 1"
definition FCR :: nat where "FCR = 2"
definition FCR_FIFO_ENABLE :: u8 where "FCR_FIFO_ENABLE = push_bit 0 1"
definition FCR_FIFO_CLEAR :: u8 where "FCR_FIFO_CLEAR = push_bit 1 3"
definition LCR :: nat where "LCR = 3"
definition LCR_EIGHT_BITS :: u8 where "LCR_EIGHT_BITS = push_bit 0 3"
definition LCR_BAUD_LATCH :: u8 where "LCR_BAUD_LATCH = push_bit 7 1"
definition LSR_RX_READY :: u8 where "LSR_RX_READY = push_bit 0 1"
definition LSR_TX_IDLE :: u8 where "LSR_TX_IDLE = push_bit 5 1"

definition WriteReg :: "nat \<Rightarrow> u8 \<Rightarrow> 'a kuart_scheme \<Rightarrow> 'a kuart_scheme" where
  "WriteReg reg v s = s\<lparr>uart_writes := uart_writes s @ [(reg, v)]\<rparr>"

definition read_LSR :: "'a kuart_scheme \<Rightarrow> u8 \<times> 'a kuart_scheme" where
  "read_LSR s =
     ((if uart_rx s \<noteq> [] then LSR_RX_READY else 0) OR (if lsr_idle s (lsr_reads s) then LSR_TX_IDLE else 0),
      s\<lparr>lsr_reads := lsr_reads s + 1\<rparr>)"

definition read_RHR :: "'a kuart_scheme \<Rightarrow> u8 \<times> 'a kuart_scheme" where
  "read_RHR s = (hd (uart_rx s), s\<lparr>uart_rx := tl (uart_rx s)\<rparr>)"

definition uartinit :: "'a kuart_scheme \<Rightarrow> 'a kuart_scheme" where
  "uartinit s =
     (let s = WriteReg IER 0x00 s;
          s = WriteReg LCR LCR_BAUD_LATCH s;
          s = WriteReg 0 0x03 s;
          s = WriteReg 1 0x00 s;
          s = WriteReg LCR LCR_EIGHT_BITS s;
          s = WriteReg FCR (FCR_FIFO_ENABLE OR FCR_FIFO_CLEAR) s;
          s = WriteReg IER (IER_TX_ENABLE OR IER_RX_ENABLE) s
      in initlock TxLock s)"

primrec wait_tx :: "nat \<Rightarrow> 'a kuart_scheme \<Rightarrow> ('a kuart_scheme, unit) out" where
  "wait_tx 0 s = Diverge"
| "wait_tx (Suc n) s =
     (if tx_busy s \<noteq> 0 then bnd (sleep ChTx TxLock s) (\<lambda>_ s. wait_tx n s) else Ok () s)"

definition uartwrite :: "u8 list \<Rightarrow> 'a kuart_scheme \<Rightarrow> ('a kuart_scheme, unit) out" where
  "uartwrite buf s =
     bnd (acquire TxLock s) (\<lambda>_ s.
     bnd (foreach buf (\<lambda>c s.
       bnd (wait_tx (patience s) s) (\<lambda>_ s.
       Ok () ((WriteReg THR c s)\<lparr>tx_busy := 1\<rparr>))) s) (\<lambda>_ s.
     release TxLock s))"

text \<open>
  The busy wait for the transmitter, bounded by \<open>patience\<close> reads of the status register; and the
  synchronous output, whose interrupt nesting is balanced and so leaves the set of locks alone.
\<close>

primrec spin_tx :: "nat \<Rightarrow> 'a kuart_scheme \<Rightarrow> ('a kuart_scheme, unit) out" where
  "spin_tx 0 s = Diverge"
| "spin_tx (Suc n) s =
     (let (v, s) = read_LSR s in if v AND LSR_TX_IDLE = 0 then spin_tx n s else Ok () s)"

definition uartputc_sync :: "int \<Rightarrow> 'a kuart_scheme \<Rightarrow> ('a kuart_scheme, unit) out" where
  "uartputc_sync c s =
     (if panicked s \<noteq> 0 then Diverge
      else bnd (spin_tx (patience s) s) (\<lambda>_ s. Ok () (WriteReg THR (word_of_int c) s)))"

definition uartgetc :: "'a kuart_scheme \<Rightarrow> int \<times> 'a kuart_scheme" where
  "uartgetc s =
     (let (v, s) = read_LSR s in
      if v AND LSR_RX_READY \<noteq> 0 then (let (c, s) = read_RHR s in (uint c, s)) else (- 1, s))"

section \<open>Characters\<close>

definition BACKSPACE :: int where "BACKSPACE = 0x100"

definition consputc :: "int \<Rightarrow> 'a kuart_scheme \<Rightarrow> ('a kuart_scheme, unit) out" where
  "consputc c s =
     (if c = BACKSPACE then
        bnd (uartputc_sync 8 s) (\<lambda>_ s. bnd (uartputc_sync 32 s) (\<lambda>_ s. uartputc_sync 8 s))
      else uartputc_sync c s)"

abbreviation putch :: "char \<Rightarrow> 'a kuart_scheme \<Rightarrow> ('a kuart_scheme, unit) out" where
  "putch c s \<equiv> consputc (of_char c) s"

section \<open>Formatted output\<close>

definition digits :: string where "digits = ''0123456789abcdef''"

text \<open>
  The digit loop of \<^verbatim>\<open>printint\<close>, least significant digit first, into a buffer of 20 characters;
  \<open>None\<close> is a write past its end. A number below \<open>2 ^ 64\<close> has at most 64 digits, which bounds the loop.
\<close>

primrec printint_loop :: "nat \<Rightarrow> u64 \<Rightarrow> u64 \<Rightarrow> string \<Rightarrow> string option" where
  "printint_loop 0 x base buf = None"
| "printint_loop (Suc n) x base buf =
     (if length buf \<ge> 20 then None
      else
        let buf = buf @ [digits ! unat (x mod base)];
            x = x div base
        in if x \<noteq> 0 then printint_loop n x base buf else Some buf)"

definition printint_buf :: "u64 \<Rightarrow> u64 \<Rightarrow> bool \<Rightarrow> string option" where
  "printint_buf xx base sign =
     (let neg = (sign \<and> xx <s 0);
          x = (if neg then - xx else xx)
      in case printint_loop 64 x base [] of
           None \<Rightarrow> None
         | Some buf \<Rightarrow> if neg then (if length buf \<ge> 20 then None else Some (buf @ ''-'')) else Some buf)"

definition printint :: "u64 \<Rightarrow> u64 \<Rightarrow> bool \<Rightarrow> 'a kuart_scheme \<Rightarrow> ('a kuart_scheme, unit) out" where
  "printint xx base sign s =
     (case printint_buf xx base sign of
        None \<Rightarrow> Panic ''kerneltrap''
      | Some buf \<Rightarrow> foreach (rev buf) (\<lambda>c s. putch c s) s)"

primrec printptr_loop :: "nat \<Rightarrow> u64 \<Rightarrow> 'a kuart_scheme \<Rightarrow> ('a kuart_scheme, unit) out" where
  "printptr_loop 0 x s = Ok () s"
| "printptr_loop (Suc n) x s =
     bnd (putch (digits ! unat (drop_bit 60 x)) s) (\<lambda>_ s. printptr_loop n (push_bit 4 x) s)"

definition printptr :: "u64 \<Rightarrow> 'a kuart_scheme \<Rightarrow> ('a kuart_scheme, unit) out" where
  "printptr x s =
     bnd (putch CHR ''0'' s) (\<lambda>_ s. bnd (putch CHR ''x'' s) (\<lambda>_ s. printptr_loop 16 x s))"

text \<open>
  A variadic argument is a register value, with the characters before the terminator of the
  string it points to, for the arguments that are strings: an argument of \<open>%s\<close> is null or points to a readable, terminated string. The format is the characters before its
  terminator; \<open>chr_at f i\<close> is the character at \<open>i\<close>, zero at the end.
\<close>

type_synonym varg = "u64 \<times> string"

definition chr_at :: "string \<Rightarrow> nat \<Rightarrow> int" where
  "chr_at f i = (if i < length f then of_char (f ! i) else 0)"

definition va_int :: "varg \<Rightarrow> u64" where "va_int a = scast (ucast (fst a) :: u32)"
definition va_uint :: "varg \<Rightarrow> u64" where "va_uint a = ucast (ucast (fst a) :: u32)"
definition va_u64 :: "varg \<Rightarrow> u64" where "va_u64 a = fst a"

text \<open>
  One conversion: \<open>i\<close> is the index of the character after the percent sign. The result is the index
  of the last character consumed and the arguments left, or \<open>None\<close> when the format ends here.
\<close>

definition printf_conv ::
  "string \<Rightarrow> nat \<Rightarrow> (nat \<Rightarrow> varg) \<Rightarrow> nat \<Rightarrow> 'a kuart_scheme \<Rightarrow> ('a kuart_scheme, (nat \<times> nat) option) out" where
  "printf_conv fmt i ap k s =
     (let c0 = chr_at fmt i;
          c1 = (if c0 \<noteq> 0 then chr_at fmt (i + 1) else 0);
          c2 = (if c1 \<noteq> 0 then chr_at fmt (i + 2) else 0);
          d = of_char CHR ''d''; l = of_char CHR ''l''; u = of_char CHR ''u''; x = of_char CHR ''x''
      in if c0 = d then bnd (printint (va_int (ap k)) 10 True s) (\<lambda>_ s. Ok (Some (i, k + 1)) s)
      else if c0 = l \<and> c1 = d then bnd (printint (va_u64 (ap k)) 10 True s) (\<lambda>_ s. Ok (Some (i + 1, k + 1)) s)
      else if c0 = l \<and> c1 = l \<and> c2 = d then bnd (printint (va_u64 (ap k)) 10 True s) (\<lambda>_ s. Ok (Some (i + 2, k + 1)) s)
      else if c0 = u then bnd (printint (va_uint (ap k)) 10 False s) (\<lambda>_ s. Ok (Some (i, k + 1)) s)
      else if c0 = l \<and> c1 = u then bnd (printint (va_u64 (ap k)) 10 False s) (\<lambda>_ s. Ok (Some (i + 1, k + 1)) s)
      else if c0 = l \<and> c1 = l \<and> c2 = u then bnd (printint (va_u64 (ap k)) 10 False s) (\<lambda>_ s. Ok (Some (i + 2, k + 1)) s)
      else if c0 = x then bnd (printint (va_uint (ap k)) 16 False s) (\<lambda>_ s. Ok (Some (i, k + 1)) s)
      else if c0 = l \<and> c1 = x then bnd (printint (va_u64 (ap k)) 16 False s) (\<lambda>_ s. Ok (Some (i + 1, k + 1)) s)
      else if c0 = l \<and> c1 = l \<and> c2 = x then bnd (printint (va_u64 (ap k)) 16 False s) (\<lambda>_ s. Ok (Some (i + 2, k + 1)) s)
      else if c0 = of_char CHR ''p'' then bnd (printptr (va_u64 (ap k)) s) (\<lambda>_ s. Ok (Some (i, k + 1)) s)
      else if c0 = of_char CHR ''c'' then bnd (consputc (uint (ucast (fst (ap k)) :: u32)) s) (\<lambda>_ s. Ok (Some (i, k + 1)) s)
      else if c0 = of_char CHR ''s'' then
        bnd (foreach (if fst (ap k) = 0 then ''(null)'' else snd (ap k)) (\<lambda>c s. putch c s) s) (\<lambda>_ s. Ok (Some (i, k + 1)) s)
      else if c0 = of_char CHR ''%'' then bnd (putch CHR ''%'' s) (\<lambda>_ s. Ok (Some (i, k)) s)
      else if c0 = 0 then Ok None s
      else bnd (putch CHR ''%'' s) (\<lambda>_ s. bnd (consputc c0 s) (\<lambda>_ s. Ok (Some (i, k)) s)))"

text \<open>The format loop; every turn moves on, so the length of the format bounds it.\<close>

primrec printf_loop ::
  "nat \<Rightarrow> string \<Rightarrow> nat \<Rightarrow> (nat \<Rightarrow> varg) \<Rightarrow> nat \<Rightarrow> 'a kuart_scheme \<Rightarrow> ('a kuart_scheme, unit) out" where
  "printf_loop 0 fmt i ap k s = Diverge"
| "printf_loop (Suc n) fmt i ap k s =
     (let cx = chr_at fmt i in
      if cx = 0 then Ok () s
      else if cx \<noteq> of_char CHR ''%'' then bnd (consputc cx s) (\<lambda>_ s. printf_loop n fmt (i + 1) ap k s)
      else bnd (printf_conv fmt (i + 1) ap k s) (\<lambda>r s.
        case r of None \<Rightarrow> Ok () s | Some (j, k) \<Rightarrow> printf_loop n fmt (j + 1) ap k s))"

definition printf :: "string \<Rightarrow> varg list \<Rightarrow> 'a kuart_scheme \<Rightarrow> ('a kuart_scheme, unit) out" where
  "printf fmt args s =
     bnd (if panicking s = 0 then acquire PrLock s else Ok () s) (\<lambda>_ s.
     bnd (printf_loop (Suc (length fmt)) fmt 0 (\<lambda>k. args ! k) 0 s) (\<lambda>_ s.
     if panicking s = 0 then release PrLock s else Ok () s))"

text \<open>\<^verbatim>\<open>panic\<close> up to its endless loop; elsewhere in the development it is the outcome \<open>Panic\<close>.\<close>

definition panic :: "string \<Rightarrow> 'a kuart_scheme \<Rightarrow> ('a kuart_scheme, unit) out" where
  "panic m s =
     bnd (printf ''panic: '' [] (s\<lparr>panicking := 1\<rparr>)) (\<lambda>_ s.
     bnd (printf (''%s'' @ [CHR 0x0A]) [(1, m)] s) (\<lambda>_ s.
     Ok () (s\<lparr>panicked := 1\<rparr>)))"

definition printfinit :: "'a kuart_scheme \<Rightarrow> 'a kuart_scheme" where
  "printfinit s = initlock PrLock s"

section \<open>Process listing\<close>

definition state_name :: "procstate \<Rightarrow> string" where
  "state_name st = (case st of UNUSED \<Rightarrow> ''unused'' | USED \<Rightarrow> ''used'' | SLEEPING \<Rightarrow> ''sleep ''
     | RUNNABLE \<Rightarrow> ''runble'' | RUNNING \<Rightarrow> ''run   '' | ZOMBIE \<Rightarrow> ''zombie'')"

definition name_string :: "(nat \<Rightarrow> u8) \<Rightarrow> string" where
  "name_string nm = map (\<lambda>i. char_of (unat (nm i))) (takeWhile (\<lambda>i. nm i \<noteq> 0) [0..<16])"

definition procdump :: "'a kuart_scheme \<Rightarrow> ('a kuart_scheme, unit) out" where
  "procdump s =
     bnd (printf [CHR 0x0A] [] s) (\<lambda>_ s.
     foreach [0..<NPROC] (\<lambda>p s.
       if pstate (procs s p) = UNUSED then Ok () s
       else
         bnd (printf ''%d %s %s''
           [(word_of_int (pid (procs s p)), []), (1, state_name (pstate (procs s p))),
            (1, name_string (pname (procs s p)))] s) (\<lambda>_ s.
         printf [CHR 0x0A] [] s)) s)"

end
