(* ===== verification/Sleeplock.thy ===== *)
theory Sleeplock
  imports Printf
begin

text \<open>
  \<^verbatim>\<open>kernel/sleeplock.c\<close>: locks that a process may hold across a sleep. Each has an inner spin lock and
  records the process that holds it.
\<close>

record sleeplock =
  slocked :: u32
  spid :: int

record kslp = kuart +
  slocks :: "slock \<Rightarrow> sleeplock"

text \<open>The inner spin lock.\<close>

definition slk :: "slock \<Rightarrow> lock" where
  "slk l = (case l of BufSlk i \<Rightarrow> BufSleep i | InodeSlk i \<Rightarrow> InodeSleep i)"

definition initsleeplock :: "slock \<Rightarrow> 'a kslp_scheme \<Rightarrow> 'a kslp_scheme" where
  "initsleeplock l s =
     (let s = initlock (slk l) s in s\<lparr>slocks := (slocks s)(l := \<lparr>slocked = 0, spid = 0\<rparr>)\<rparr>)"

primrec acquiresleep_loop :: "nat \<Rightarrow> slock \<Rightarrow> 'a kslp_scheme \<Rightarrow> ('a kslp_scheme, unit) out" where
  "acquiresleep_loop 0 l s = Diverge"
| "acquiresleep_loop (Suc n) l s =
     (if slocked (slocks s l) \<noteq> 0
      then bnd (sleep (ChSlk l) (slk l) s) (\<lambda>_ s. acquiresleep_loop n l s)
      else Ok () s)"

definition acquiresleep :: "slock \<Rightarrow> 'a kslp_scheme \<Rightarrow> ('a kslp_scheme, unit) out" where
  "acquiresleep l s =
     bnd (acquire (slk l) s) (\<lambda>_ s.
     bnd (acquiresleep_loop (patience s) l s) (\<lambda>_ s.
     deref (myproc s) (\<lambda>p s.
       release (slk l) (s\<lparr>slocks := (slocks s)(l := \<lparr>slocked = 1, spid = pid (procs s p)\<rparr>)\<rparr>)) s))"

definition releasesleep :: "slock \<Rightarrow> 'a kslp_scheme \<Rightarrow> ('a kslp_scheme, unit) out" where
  "releasesleep l s =
     bnd (acquire (slk l) s) (\<lambda>_ s.
     bnd (wakeup (ChSlk l) (s\<lparr>slocks := (slocks s)(l := \<lparr>slocked = 0, spid = 0\<rparr>)\<rparr>)) (\<lambda>_ s.
     release (slk l) s))"

definition holdingsleep :: "slock \<Rightarrow> 'a kslp_scheme \<Rightarrow> ('a kslp_scheme, bool) out" where
  "holdingsleep l s =
     bnd (acquire (slk l) s) (\<lambda>_ s.
     bnd (if slocked (slocks s l) \<noteq> 0
          then deref (myproc s) (\<lambda>p s. Ok (spid (slocks s l) = pid (procs s p)) s) s
          else Ok False s) (\<lambda>r s.
     bnd (release (slk l) s) (\<lambda>_ s. Ok r s)))"

end
