(* ===== verification/Virtio.thy ===== *)
theory Virtio
  imports Sleeplock
begin

unbundle bit_operations_syntax

text \<open>
  \<^verbatim>\<open>kernel/virtio_disk.c\<close> and the buffers of \<^verbatim>\<open>kernel/buf.h\<close> that it transfers. The descriptor
  table, the available ring and the used ring are shared with the device; an address in a
  descriptor names what it points to: a request header, the data of a buffer, or a status byte.
  The last section is the device: it serves the requests of the available ring in order.
\<close>

section \<open>Data\<close>

definition BSIZE :: nat where "BSIZE = 1024"

record buf =
  bvalid :: int
  bdisk :: int
  bdev :: u32
  bblockno :: u32
  brefcnt :: u32
  bprev :: nat
  bnext :: nat
  bdata :: "nat \<Rightarrow> u8"

definition NUM :: nat where "NUM = 8"
definition VRING_DESC_F_NEXT :: u16 where "VRING_DESC_F_NEXT = 1"
definition VRING_DESC_F_WRITE :: u16 where "VRING_DESC_F_WRITE = 2"
definition VIRTIO_BLK_T_IN :: u32 where "VIRTIO_BLK_T_IN = 0"
definition VIRTIO_BLK_T_OUT :: u32 where "VIRTIO_BLK_T_OUT = 1"

datatype dmaaddr = DNull | DOps nat | DData nat | DStatus nat

record virtq_desc =
  daddr :: dmaaddr
  dlen :: u32
  dflags :: u16
  dnext :: u16

record virtio_blk_req =
  rtype :: u32
  reserved :: u32
  rsector :: u64

text \<open>
  The driver's structure \<^verbatim>\<open>disk\<close>, and the registers of the device: the writes to them so far, and the
  value a read returns after those writes. The last two fields belong to the device: how far it has
  read the available ring, and the bytes of the disk.
\<close>

record kdisk = kslp +
  bufs :: "nat \<Rightarrow> buf"
  desc_page :: addr
  avail_page :: addr
  used_page :: addr
  desc :: "nat \<Rightarrow> virtq_desc"
  avail_idx :: u16
  avail_ring :: "nat \<Rightarrow> u16"
  used_widx :: u16
  used_ring :: "nat \<Rightarrow> u32"
  dfree :: "nat \<Rightarrow> bool"
  used_idx :: u16
  info_b :: "nat \<Rightarrow> nat option"
  info_status :: "nat \<Rightarrow> u8"
  ops :: "nat \<Rightarrow> virtio_blk_req"
  vwrites :: "(nat \<times> u32) list"
  vread :: "nat \<Rightarrow> (nat \<times> u32) list \<Rightarrow> u32"
  dev_idx :: u16
  img :: "nat \<Rightarrow> u8"

abbreviation upd_buf :: "nat \<Rightarrow> (buf \<Rightarrow> buf) \<Rightarrow> 'a kdisk_scheme \<Rightarrow> 'a kdisk_scheme" where
  "upd_buf b f s \<equiv> s\<lparr>bufs := (bufs s)(b := f (bufs s b))\<rparr>"

section \<open>Initialisation\<close>

definition VIRTIO_MMIO_MAGIC_VALUE :: nat where "VIRTIO_MMIO_MAGIC_VALUE = 0x000"
definition VIRTIO_MMIO_VERSION :: nat where "VIRTIO_MMIO_VERSION = 0x004"
definition VIRTIO_MMIO_DEVICE_ID :: nat where "VIRTIO_MMIO_DEVICE_ID = 0x008"
definition VIRTIO_MMIO_VENDOR_ID :: nat where "VIRTIO_MMIO_VENDOR_ID = 0x00c"
definition VIRTIO_MMIO_DEVICE_FEATURES :: nat where "VIRTIO_MMIO_DEVICE_FEATURES = 0x010"
definition VIRTIO_MMIO_DRIVER_FEATURES :: nat where "VIRTIO_MMIO_DRIVER_FEATURES = 0x020"
definition VIRTIO_MMIO_QUEUE_SEL :: nat where "VIRTIO_MMIO_QUEUE_SEL = 0x030"
definition VIRTIO_MMIO_QUEUE_NUM_MAX :: nat where "VIRTIO_MMIO_QUEUE_NUM_MAX = 0x034"
definition VIRTIO_MMIO_QUEUE_NUM :: nat where "VIRTIO_MMIO_QUEUE_NUM = 0x038"
definition VIRTIO_MMIO_QUEUE_READY :: nat where "VIRTIO_MMIO_QUEUE_READY = 0x044"
definition VIRTIO_MMIO_QUEUE_NOTIFY :: nat where "VIRTIO_MMIO_QUEUE_NOTIFY = 0x050"
definition VIRTIO_MMIO_INTERRUPT_STATUS :: nat where "VIRTIO_MMIO_INTERRUPT_STATUS = 0x060"
definition VIRTIO_MMIO_INTERRUPT_ACK :: nat where "VIRTIO_MMIO_INTERRUPT_ACK = 0x064"
definition VIRTIO_MMIO_STATUS :: nat where "VIRTIO_MMIO_STATUS = 0x070"
definition VIRTIO_MMIO_QUEUE_DESC_LOW :: nat where "VIRTIO_MMIO_QUEUE_DESC_LOW = 0x080"
definition VIRTIO_MMIO_QUEUE_DESC_HIGH :: nat where "VIRTIO_MMIO_QUEUE_DESC_HIGH = 0x084"
definition VIRTIO_MMIO_DRIVER_DESC_LOW :: nat where "VIRTIO_MMIO_DRIVER_DESC_LOW = 0x090"
definition VIRTIO_MMIO_DRIVER_DESC_HIGH :: nat where "VIRTIO_MMIO_DRIVER_DESC_HIGH = 0x094"
definition VIRTIO_MMIO_DEVICE_DESC_LOW :: nat where "VIRTIO_MMIO_DEVICE_DESC_LOW = 0x0a0"
definition VIRTIO_MMIO_DEVICE_DESC_HIGH :: nat where "VIRTIO_MMIO_DEVICE_DESC_HIGH = 0x0a4"

definition VIRTIO_CONFIG_S_ACKNOWLEDGE :: u32 where "VIRTIO_CONFIG_S_ACKNOWLEDGE = 1"
definition VIRTIO_CONFIG_S_DRIVER :: u32 where "VIRTIO_CONFIG_S_DRIVER = 2"
definition VIRTIO_CONFIG_S_DRIVER_OK :: u32 where "VIRTIO_CONFIG_S_DRIVER_OK = 4"
definition VIRTIO_CONFIG_S_FEATURES_OK :: u32 where "VIRTIO_CONFIG_S_FEATURES_OK = 8"
definition VIRTIO_BLK_F_RO :: nat where "VIRTIO_BLK_F_RO = 5"
definition VIRTIO_BLK_F_SCSI :: nat where "VIRTIO_BLK_F_SCSI = 7"
definition VIRTIO_BLK_F_CONFIG_WCE :: nat where "VIRTIO_BLK_F_CONFIG_WCE = 11"
definition VIRTIO_BLK_F_MQ :: nat where "VIRTIO_BLK_F_MQ = 12"
definition VIRTIO_F_ANY_LAYOUT :: nat where "VIRTIO_F_ANY_LAYOUT = 27"
definition VIRTIO_RING_F_INDIRECT_DESC :: nat where "VIRTIO_RING_F_INDIRECT_DESC = 28"
definition VIRTIO_RING_F_EVENT_IDX :: nat where "VIRTIO_RING_F_EVENT_IDX = 29"

definition rd :: "nat \<Rightarrow> 'a kdisk_scheme \<Rightarrow> u32" where
  "rd r s = vread s r (vwrites s)"

definition wr :: "nat \<Rightarrow> u32 \<Rightarrow> 'a kdisk_scheme \<Rightarrow> 'a kdisk_scheme" where
  "wr r v s = s\<lparr>vwrites := vwrites s @ [(r, v)]\<rparr>"

definition no_desc :: virtq_desc where
  "no_desc = \<lparr>daddr = DNull, dlen = 0, dflags = 0, dnext = 0\<rparr>"

text \<open>The features the driver turns off, in the order of the source.\<close>

definition driver_features :: "u32 \<Rightarrow> u32" where
  "driver_features v =
     ucast (fold (\<lambda>b (f :: u64). f AND NOT (push_bit b 1))
       [VIRTIO_BLK_F_RO, VIRTIO_BLK_F_SCSI, VIRTIO_BLK_F_CONFIG_WCE, VIRTIO_BLK_F_MQ, VIRTIO_F_ANY_LAYOUT,
        VIRTIO_RING_F_EVENT_IDX, VIRTIO_RING_F_INDIRECT_DESC] (ucast v))"

text \<open>The pages of the queue, zeroed.\<close>

definition vq_alloc :: "'a kdisk_scheme \<Rightarrow> ('a kdisk_scheme, unit) out" where
  "vq_alloc s =
     bnd (kalloc s) (\<lambda>d s. bnd (kalloc s) (\<lambda>a s. bnd (kalloc s) (\<lambda>u s.
       if d = 0 \<or> a = 0 \<or> u = 0 then Panic ''virtio disk kalloc''
       else
         let m = memset (memset (memset (mem s) d 0 4096) a 0 4096) u 0 4096
         in Ok () (s\<lparr>mem := m, desc_page := d, avail_page := a, used_page := u,
              desc := (\<lambda>_. no_desc), avail_idx := 0, avail_ring := (\<lambda>_. 0),
              used_widx := 0, used_ring := (\<lambda>_. 0)\<rparr>))))"

definition virtio_disk_init :: "'a kdisk_scheme \<Rightarrow> ('a kdisk_scheme, unit) out" where
  "virtio_disk_init s =
     (let status = 0 :: u32; s = initlock VdiskLock s in
      if rd VIRTIO_MMIO_MAGIC_VALUE s \<noteq> 0x74726976 \<or> rd VIRTIO_MMIO_VERSION s \<noteq> 2 \<or>
         rd VIRTIO_MMIO_DEVICE_ID s \<noteq> 2 \<or> rd VIRTIO_MMIO_VENDOR_ID s \<noteq> 0x554d4551
      then Panic ''could not find virtio disk''
      else
        let s = wr VIRTIO_MMIO_STATUS status s;
            status = status OR VIRTIO_CONFIG_S_ACKNOWLEDGE;
            s = wr VIRTIO_MMIO_STATUS status s;
            status = status OR VIRTIO_CONFIG_S_DRIVER;
            s = wr VIRTIO_MMIO_STATUS status s;
            s = wr VIRTIO_MMIO_DRIVER_FEATURES (driver_features (rd VIRTIO_MMIO_DEVICE_FEATURES s)) s;
            status = status OR VIRTIO_CONFIG_S_FEATURES_OK;
            s = wr VIRTIO_MMIO_STATUS status s;
            status = rd VIRTIO_MMIO_STATUS s
        in if status AND VIRTIO_CONFIG_S_FEATURES_OK = 0 then Panic ''virtio disk FEATURES_OK unset''
        else
          let s = wr VIRTIO_MMIO_QUEUE_SEL 0 s in
          if rd VIRTIO_MMIO_QUEUE_READY s \<noteq> 0 then Panic ''virtio disk should not be ready''
          else
            let mx = rd VIRTIO_MMIO_QUEUE_NUM_MAX s in
            if mx = 0 then Panic ''virtio disk has no queue 0''
            else if mx < of_nat NUM then Panic ''virtio disk max queue too short''
            else bnd (vq_alloc s) (\<lambda>_ s.
              let s = wr VIRTIO_MMIO_QUEUE_NUM (of_nat NUM) s;
                  s = wr VIRTIO_MMIO_QUEUE_DESC_LOW (ucast (desc_page s)) s;
                  s = wr VIRTIO_MMIO_QUEUE_DESC_HIGH (ucast (drop_bit 32 (desc_page s))) s;
                  s = wr VIRTIO_MMIO_DRIVER_DESC_LOW (ucast (avail_page s)) s;
                  s = wr VIRTIO_MMIO_DRIVER_DESC_HIGH (ucast (drop_bit 32 (avail_page s))) s;
                  s = wr VIRTIO_MMIO_DEVICE_DESC_LOW (ucast (used_page s)) s;
                  s = wr VIRTIO_MMIO_DEVICE_DESC_HIGH (ucast (drop_bit 32 (used_page s))) s;
                  s = wr VIRTIO_MMIO_QUEUE_READY 1 s;
                  s = s\<lparr>dfree := (\<lambda>i. i < NUM \<or> dfree s i)\<rparr>
              in Ok () (wr VIRTIO_MMIO_STATUS (status OR VIRTIO_CONFIG_S_DRIVER_OK) s)))"

section \<open>Descriptors\<close>

definition alloc_desc :: "'a kdisk_scheme \<Rightarrow> int \<times> 'a kdisk_scheme" where
  "alloc_desc s =
     (case find (dfree s) [0..<NUM] of
        Some i \<Rightarrow> (int i, s\<lparr>dfree := (dfree s)(i := False)\<rparr>)
      | None \<Rightarrow> (- 1, s))"

definition free_desc :: "int \<Rightarrow> 'a kdisk_scheme \<Rightarrow> ('a kdisk_scheme, unit) out" where
  "free_desc i s =
     (if i \<ge> int NUM then Panic ''free_desc 1''
      else if dfree s (nat i) then Panic ''free_desc 2''
      else wakeup ChDisk (s\<lparr>desc := (desc s)(nat i := no_desc), dfree := (dfree s)(nat i := True)\<rparr>))"

text \<open>A chain has at most \<open>NUM\<close> descriptors: each turn frees one, and a free one may not be freed again.\<close>

primrec free_chain_loop :: "nat \<Rightarrow> int \<Rightarrow> 'a kdisk_scheme \<Rightarrow> ('a kdisk_scheme, unit) out" where
  "free_chain_loop 0 i s = Diverge"
| "free_chain_loop (Suc n) i s =
     (let flag = dflags (desc s (nat i)); nxt = dnext (desc s (nat i)) in
      bnd (free_desc i s) (\<lambda>_ s.
      if flag AND VRING_DESC_F_NEXT \<noteq> 0 then free_chain_loop n (int (unat nxt)) s else Ok () s))"

definition free_chain :: "int \<Rightarrow> 'a kdisk_scheme \<Rightarrow> ('a kdisk_scheme, unit) out" where
  "free_chain i s = free_chain_loop (Suc NUM) i s"

primrec alloc3_loop :: "nat \<Rightarrow> int list \<Rightarrow> 'a kdisk_scheme \<Rightarrow> ('a kdisk_scheme, int list option) out" where
  "alloc3_loop 0 idx s = Ok (Some idx) s"
| "alloc3_loop (Suc n) idx s =
     (let (d, s) = alloc_desc s in
      if d < 0 then bnd (foreach idx (\<lambda>j s. free_desc j s) s) (\<lambda>_ s. Ok None s)
      else alloc3_loop n (idx @ [d]) s)"

definition alloc3_desc :: "'a kdisk_scheme \<Rightarrow> ('a kdisk_scheme, int list option) out" where
  "alloc3_desc s = alloc3_loop 3 [] s"

section \<open>Transfers\<close>

primrec get_descs :: "nat \<Rightarrow> 'a kdisk_scheme \<Rightarrow> ('a kdisk_scheme, int list) out" where
  "get_descs 0 s = Diverge"
| "get_descs (Suc n) s =
     bnd (alloc3_desc s) (\<lambda>r s.
       case r of
         Some idx \<Rightarrow> Ok idx s
       | None \<Rightarrow> bnd (sleep ChDisk VdiskLock s) (\<lambda>_ s. get_descs n s))"

primrec wait_buf :: "nat \<Rightarrow> nat \<Rightarrow> 'a kdisk_scheme \<Rightarrow> ('a kdisk_scheme, unit) out" where
  "wait_buf 0 b s = Diverge"
| "wait_buf (Suc n) b s =
     (if bdisk (bufs s b) = 1 then bnd (sleep (ChBuf b) VdiskLock s) (\<lambda>_ s. wait_buf n b s) else Ok () s)"

text \<open>The three descriptors of a transfer, and the ring entry that hands them to the device.\<close>

definition format_descs :: "nat \<Rightarrow> bool \<Rightarrow> nat \<Rightarrow> nat \<Rightarrow> nat \<Rightarrow> u64 \<Rightarrow> 'a kdisk_scheme \<Rightarrow> 'a kdisk_scheme" where
  "format_descs b write i0 i1 i2 sector s =
     (let s = s\<lparr>ops := (ops s)(i0 := \<lparr>rtype = (if write then VIRTIO_BLK_T_OUT else VIRTIO_BLK_T_IN),
            reserved = 0, rsector = sector\<rparr>)\<rparr>;
          s = s\<lparr>desc := (desc s)(i0 := \<lparr>daddr = DOps i0, dlen = 16, dflags = VRING_DESC_F_NEXT, dnext = of_nat i1\<rparr>)\<rparr>;
          s = s\<lparr>desc := (desc s)(i1 := \<lparr>daddr = DData b, dlen = of_nat BSIZE,
            dflags = (if write then 0 else VRING_DESC_F_WRITE) OR VRING_DESC_F_NEXT, dnext = of_nat i2\<rparr>)\<rparr>;
          s = s\<lparr>info_status := (info_status s)(i0 := 0xff)\<rparr>;
          s = s\<lparr>desc := (desc s)(i2 := \<lparr>daddr = DStatus i0, dlen = 1, dflags = VRING_DESC_F_WRITE, dnext = 0\<rparr>)\<rparr>;
          s = upd_buf b (bdisk_update (\<lambda>_. 1)) s;
          s = s\<lparr>info_b := (info_b s)(i0 := Some b)\<rparr>;
          s = s\<lparr>avail_ring := (avail_ring s)(unat (avail_idx s) mod NUM := of_nat i0)\<rparr>
      in s\<lparr>avail_idx := avail_idx s + 1\<rparr>)"

definition virtio_disk_rw :: "nat \<Rightarrow> bool \<Rightarrow> 'a kdisk_scheme \<Rightarrow> ('a kdisk_scheme, unit) out" where
  "virtio_disk_rw b write s =
     (let sector = ucast (bblockno (bufs s b) * (of_nat BSIZE div 512)) :: u64 in
      bnd (acquire VdiskLock s) (\<lambda>_ s.
      bnd (get_descs (patience s) s) (\<lambda>idx s.
      let i0 = nat (idx ! 0); i1 = nat (idx ! 1); i2 = nat (idx ! 2);
          s = format_descs b write i0 i1 i2 sector s;
          s = wr VIRTIO_MMIO_QUEUE_NOTIFY 0 s
      in bnd (wait_buf (patience s) b s) (\<lambda>_ s.
         let s = s\<lparr>info_b := (info_b s)(i0 := None)\<rparr> in
         bnd (free_chain (int i0) s) (\<lambda>_ s.
         release VdiskLock s)))))"

text \<open>The completed requests are those between the two indices, which bounds the loop of the interrupt handler.\<close>

primrec virtio_intr_loop :: "nat \<Rightarrow> 'a kdisk_scheme \<Rightarrow> ('a kdisk_scheme, unit) out" where
  "virtio_intr_loop 0 s = Diverge"
| "virtio_intr_loop (Suc n) s =
     (if used_idx s \<noteq> used_widx s then
        let i = unat (used_ring s (unat (used_idx s) mod NUM)) in
        if info_status s i \<noteq> 0 then Panic ''virtio_disk_intr status''
        else deref (info_b s i) (\<lambda>b s.
          bnd (wakeup (ChBuf b) (upd_buf b (bdisk_update (\<lambda>_. 0)) s)) (\<lambda>_ s.
          virtio_intr_loop n (s\<lparr>used_idx := used_idx s + 1\<rparr>))) s
      else Ok () s)"

definition virtio_disk_intr :: "'a kdisk_scheme \<Rightarrow> ('a kdisk_scheme, unit) out" where
  "virtio_disk_intr s =
     bnd (acquire VdiskLock s) (\<lambda>_ s.
     let s = wr VIRTIO_MMIO_INTERRUPT_ACK (rd VIRTIO_MMIO_INTERRUPT_STATUS s AND 0x3) s in
     bnd (virtio_intr_loop (Suc (unat (used_widx s - used_idx s))) s) (\<lambda>_ s.
     release VdiskLock s))"

section \<open>The device\<close>

text \<open>
  The device is not part of the kernel. What the driver relies on is the documented behaviour of a virtio block device: it takes
  the next entry of the available ring for the head of a chain of three descriptors, which must be a header of 16 bytes
  that the device reads, the data, and a status byte that the device writes. The flags say whether there is a next descriptor and
  whether the device may write the memory; the length of the data is a multiple of the sector size. For a
  write request the data must be readable, for a read request writable by the device.
\<close>

definition blk :: "(nat \<Rightarrow> u8) \<Rightarrow> nat \<Rightarrow> nat \<Rightarrow> u8" where
  "blk d sector i = d (512 * sector + i)"

definition put_blk :: "(nat \<Rightarrow> u8) \<Rightarrow> nat \<Rightarrow> (nat \<Rightarrow> u8) \<Rightarrow> nat \<Rightarrow> u8" where
  "put_blk d sector v a = (if 512 * sector \<le> a \<and> a < 512 * sector + BSIZE then v (a - 512 * sector) else d a)"

text \<open>A request as the device reads it: the buffer, whether to write the disk, the sector, the number of bytes and the status byte.\<close>

record blk_request =
  q_buf :: nat
  q_write :: bool
  q_sector :: nat
  q_len :: nat
  q_status :: nat

definition has_next :: "virtq_desc \<Rightarrow> bool" where
  "has_next d \<longleftrightarrow> dflags d AND VRING_DESC_F_NEXT \<noteq> 0"

definition dev_writes :: "virtq_desc \<Rightarrow> bool" where
  "dev_writes d \<longleftrightarrow> dflags d AND VRING_DESC_F_WRITE \<noteq> 0"

definition dev_head :: "'a kdisk_scheme \<Rightarrow> nat" where
  "dev_head s = unat (avail_ring s (unat (dev_idx s) mod NUM))"

definition dev_request :: "'a kdisk_scheme \<Rightarrow> blk_request option" where
  "dev_request s =
     (let d0 = desc s (dev_head s); d1 = desc s (unat (dnext d0)); d2 = desc s (unat (dnext d1)) in
      if has_next d0 \<and> has_next d1 \<and> \<not> has_next d2 \<and> \<not> dev_writes d0 \<and> dev_writes d2 \<and>
         dlen d0 = 16 \<and> unat (dlen d1) mod 512 = 0 \<and> dlen d2 = 1
      then case (daddr d0, daddr d1, daddr d2) of
             (DOps o', DData b, DStatus i) \<Rightarrow>
               (let r = ops s o' in
                if rtype r = VIRTIO_BLK_T_OUT \<and> \<not> dev_writes d1 \<or> rtype r = VIRTIO_BLK_T_IN \<and> dev_writes d1
                then Some \<lparr>q_buf = b, q_write = (rtype r = VIRTIO_BLK_T_OUT), q_sector = unat (rsector r), q_len = unat (dlen d1), q_status = i\<rparr>
                else None)
           | _ \<Rightarrow> None
      else None)"

text \<open>The request done: as many bytes moved as the data descriptor says, the status 0, and the head of the chain in the used ring.\<close>

definition dev_reply :: "'a kdisk_scheme \<Rightarrow> 'a kdisk_scheme" where
  "dev_reply s = s\<lparr>used_ring := (used_ring s)(unat (used_widx s) mod NUM := of_nat (dev_head s)),
     used_widx := used_widx s + 1, dev_idx := dev_idx s + 1\<rparr>"

definition dev_move :: "blk_request \<Rightarrow> 'a kdisk_scheme \<Rightarrow> 'a kdisk_scheme" where
  "dev_move r s =
     (let a = 512 * q_sector r; n = q_len r; v = bdata (bufs s (q_buf r)) in
      if q_write r then s\<lparr>img := (\<lambda>i. if a \<le> i \<and> i < a + n then v (i - a) else img s i)\<rparr>
      else upd_buf (q_buf r) (bdata_update (\<lambda>_ i. if i < n then img s (a + i) else v i)) s)"

definition dev_done :: "blk_request \<Rightarrow> 'a kdisk_scheme \<Rightarrow> 'a kdisk_scheme" where
  "dev_done r s = dev_reply ((dev_move r s)\<lparr>info_status := (info_status s)(q_status r := 0)\<rparr>)"

text \<open>The contract: a device does the requests of the available ring; nothing is said of what it does with other chains.\<close>

definition virtio_device :: "('a kdisk_scheme \<Rightarrow> 'a kdisk_scheme) \<Rightarrow> bool" where
  "virtio_device dev \<longleftrightarrow> (\<forall>s r. dev_idx s \<noteq> avail_idx s \<longrightarrow> dev_request s = Some r \<longrightarrow> dev s = dev_done r s)"

text \<open>A device that keeps the contract, and answers every other chain with an error status and without touching memory or the disk.\<close>

definition dev_serve :: "'a kdisk_scheme \<Rightarrow> 'a kdisk_scheme" where
  "dev_serve s =
     (case dev_request s of
        Some r \<Rightarrow> dev_done r s
      | None \<Rightarrow>
          (let d0 = desc s (dev_head s); d2 = desc s (unat (dnext (desc s (unat (dnext d0)))))
           in case daddr d2 of
                DStatus i \<Rightarrow> dev_reply (if dev_writes d2 then s\<lparr>info_status := (info_status s)(i := 1)\<rparr> else s)
              | _ \<Rightarrow> dev_reply s))"

lemma dev_serve_contract: "virtio_device dev_serve"
  by (simp add: virtio_device_def dev_serve_def)

end
