(* ===== verification/Bio.thy ===== *)
theory Bio
  imports Virtio
begin

text \<open>
  \<^verbatim>\<open>kernel/bio.c\<close>: the buffer cache. The buffers are linked through \<^verbatim>\<open>prev\<close> and \<^verbatim>\<open>next\<close> into a ring with a
  head, most recently used first. Buffers are numbered from 0 and the head of the ring is number \<open>NBUF\<close>.
\<close>

definition bhead :: nat where "bhead = NBUF"

definition binit :: "'a kdisk_scheme \<Rightarrow> ('a kdisk_scheme, unit) out" where
  "binit s =
     (let s = initlock BcacheLock s;
          s = upd_buf bhead (bprev_update (\<lambda>_. bhead)) s;
          s = upd_buf bhead (bnext_update (\<lambda>_. bhead)) s
      in foreach [0..<NBUF] (\<lambda>b s.
           let s = upd_buf b (bnext_update (\<lambda>_. bnext (bufs s bhead))) s;
               s = upd_buf b (bprev_update (\<lambda>_. bhead)) s;
               s = initsleeplock (BufSlk b) s;
               s = upd_buf (bnext (bufs s bhead)) (bprev_update (\<lambda>_. b)) s
           in Ok () (upd_buf bhead (bnext_update (\<lambda>_. b)) s)) s)"

text \<open>The two scans of \<^verbatim>\<open>bget\<close>; the ring has \<open>NBUF\<close> buffers, which bounds them.\<close>

primrec bget_cached :: "nat \<Rightarrow> nat \<Rightarrow> u32 \<Rightarrow> u32 \<Rightarrow> 'a kdisk_scheme \<Rightarrow> ('a kdisk_scheme, nat option) out" where
  "bget_cached 0 b dev blockno s = Diverge"
| "bget_cached (Suc n) b dev blockno s =
     (if b = bhead then Ok None s
      else if bdev (bufs s b) = dev \<and> bblockno (bufs s b) = blockno then Ok (Some b) s
      else bget_cached n (bnext (bufs s b)) dev blockno s)"

primrec bget_unused :: "nat \<Rightarrow> nat \<Rightarrow> 'a kdisk_scheme \<Rightarrow> ('a kdisk_scheme, nat option) out" where
  "bget_unused 0 b s = Diverge"
| "bget_unused (Suc n) b s =
     (if b = bhead then Ok None s
      else if brefcnt (bufs s b) = 0 then Ok (Some b) s
      else bget_unused n (bprev (bufs s b)) s)"

definition bget :: "u32 \<Rightarrow> u32 \<Rightarrow> 'a kdisk_scheme \<Rightarrow> ('a kdisk_scheme, nat) out" where
  "bget dev blockno s =
     bnd (acquire BcacheLock s) (\<lambda>_ s.
     bnd (bget_cached (Suc NBUF) (bnext (bufs s bhead)) dev blockno s) (\<lambda>r s.
       case r of
         Some b \<Rightarrow>
           bnd (release BcacheLock (upd_buf b (brefcnt_update (\<lambda>c. c + 1)) s)) (\<lambda>_ s.
           bnd (acquiresleep (BufSlk b) s) (\<lambda>_ s. Ok b s))
       | None \<Rightarrow>
           bnd (bget_unused (Suc NBUF) (bprev (bufs s bhead)) s) (\<lambda>r s.
             case r of
               Some b \<Rightarrow>
                 bnd (release BcacheLock
                   (upd_buf b (\<lambda>bu. bu\<lparr>bdev := dev, bblockno := blockno, bvalid := 0, brefcnt := 1\<rparr>) s)) (\<lambda>_ s.
                 bnd (acquiresleep (BufSlk b) s) (\<lambda>_ s. Ok b s))
             | None \<Rightarrow> Panic ''bget: no buffers'')))"

definition bread :: "u32 \<Rightarrow> u32 \<Rightarrow> 'a kdisk_scheme \<Rightarrow> ('a kdisk_scheme, nat) out" where
  "bread dev blockno s =
     bnd (bget dev blockno s) (\<lambda>b s.
       if bvalid (bufs s b) = 0 then
         bnd (virtio_disk_rw b False s) (\<lambda>_ s. Ok b (upd_buf b (bvalid_update (\<lambda>_. 1)) s))
       else Ok b s)"

definition bwrite :: "nat \<Rightarrow> 'a kdisk_scheme \<Rightarrow> ('a kdisk_scheme, unit) out" where
  "bwrite b s =
     bnd (holdingsleep (BufSlk b) s) (\<lambda>h s.
       if \<not> h then Panic ''bwrite'' else virtio_disk_rw b True s)"

definition brelse :: "nat \<Rightarrow> 'a kdisk_scheme \<Rightarrow> ('a kdisk_scheme, unit) out" where
  "brelse b s =
     bnd (holdingsleep (BufSlk b) s) (\<lambda>h s.
       if \<not> h then Panic ''brelse''
       else
         bnd (releasesleep (BufSlk b) s) (\<lambda>_ s.
         bnd (acquire BcacheLock s) (\<lambda>_ s.
         let s = upd_buf b (brefcnt_update (\<lambda>c. c - 1)) s;
             s = (if brefcnt (bufs s b) = 0 then
                    let s = upd_buf (bnext (bufs s b)) (bprev_update (\<lambda>_. bprev (bufs s b))) s;
                        s = upd_buf (bprev (bufs s b)) (bnext_update (\<lambda>_. bnext (bufs s b))) s;
                        s = upd_buf b (bnext_update (\<lambda>_. bnext (bufs s bhead))) s;
                        s = upd_buf b (bprev_update (\<lambda>_. bhead)) s;
                        s = upd_buf (bnext (bufs s bhead)) (bprev_update (\<lambda>_. b)) s
                    in upd_buf bhead (bnext_update (\<lambda>_. b)) s
                  else s)
         in release BcacheLock s)))"

definition bpin :: "nat \<Rightarrow> 'a kdisk_scheme \<Rightarrow> ('a kdisk_scheme, unit) out" where
  "bpin b s =
     bnd (acquire BcacheLock s) (\<lambda>_ s.
     release BcacheLock (upd_buf b (brefcnt_update (\<lambda>c. c + 1)) s))"

definition bunpin :: "nat \<Rightarrow> 'a kdisk_scheme \<Rightarrow> ('a kdisk_scheme, unit) out" where
  "bunpin b s =
     bnd (acquire BcacheLock s) (\<lambda>_ s.
     release BcacheLock (upd_buf b (brefcnt_update (\<lambda>c. c - 1)) s))"

end
