(* ===== verification/Log.thy ===== *)
theory Log
  imports Bio
begin

unbundle bit_operations_syntax

text \<open>
  \<^verbatim>\<open>kernel/log.c\<close>: the write-ahead log. System calls bracket their disk updates with \<^verbatim>\<open>begin_op\<close> and
  \<^verbatim>\<open>end_op\<close>; the last one out commits: the changed blocks go to the log area, then the header,
  then the blocks' home locations, then an empty header.
\<close>

section \<open>Little-endian fields in a block\<close>

definition ld16 :: "(nat \<Rightarrow> u8) \<Rightarrow> nat \<Rightarrow> u16" where
  "ld16 d off = le_bytes 2 (\<lambda>i. d (off + i))"

definition ld32 :: "(nat \<Rightarrow> u8) \<Rightarrow> nat \<Rightarrow> u32" where
  "ld32 d off = le_bytes 4 (\<lambda>i. d (off + i))"

definition st16 :: "(nat \<Rightarrow> u8) \<Rightarrow> nat \<Rightarrow> u16 \<Rightarrow> nat \<Rightarrow> u8" where
  "st16 d off v = (\<lambda>x. if off \<le> x \<and> x < off + 2 then byte_of v (x - off) else d x)"

definition st32 :: "(nat \<Rightarrow> u8) \<Rightarrow> nat \<Rightarrow> u32 \<Rightarrow> nat \<Rightarrow> u8" where
  "st32 d off v = (\<lambda>x. if off \<le> x \<and> x < off + 4 then byte_of v (x - off) else d x)"

definition copy_block :: "(nat \<Rightarrow> u8) \<Rightarrow> (nat \<Rightarrow> u8) \<Rightarrow> nat \<Rightarrow> u8" where
  "copy_block dst src = (\<lambda>i. if i < BSIZE then src i else dst i)"

section \<open>State\<close>

text \<open>
  The in-memory header keeps its block numbers as the 32-bit words they are; a count read from
  the disk is not checked by the source, and beyond \<open>LOGBLOCKS\<close> it would write past the array.
\<close>

record superblock =
  magic :: u32
  sb_size :: u32
  nblocks :: u32
  ninodes :: u32
  nlog :: u32
  logstart :: u32
  inodestart :: u32
  bmapstart :: u32

record klog = kdisk +
  log_start :: u32
  outstanding :: int
  committing :: int
  log_dev :: u32
  lh_n :: int
  lh_block :: "nat \<Rightarrow> u32"

section \<open>Installing and recovering\<close>

text \<open>The loops run to the count that the header has at their start; nothing changes it while they run.\<close>

definition install_trans :: "bool \<Rightarrow> 'a klog_scheme \<Rightarrow> ('a klog_scheme, unit) out" where
  "install_trans recovering s =
     foreach [0..<nat (lh_n s)] (\<lambda>tail s.
       bnd (if recovering
            then printf (''recovering tail %d dst %d'' @ [CHR 0x0A]) [(of_nat tail, []), (ucast (lh_block s tail), [])] s
            else Ok () s) (\<lambda>_ s.
       bnd (bread (log_dev s) (log_start s + of_nat tail + 1) s) (\<lambda>lbuf s.
       bnd (bread (log_dev s) (lh_block s tail) s) (\<lambda>dbuf s.
       let s = upd_buf dbuf (bdata_update (\<lambda>d. copy_block d (bdata (bufs s lbuf)))) s in
       bnd (bwrite dbuf s) (\<lambda>_ s.
       bnd (if \<not> recovering then bunpin dbuf s else Ok () s) (\<lambda>_ s.
       bnd (brelse lbuf s) (\<lambda>_ s.
       brelse dbuf s))))))) s"

definition read_head :: "'a klog_scheme \<Rightarrow> ('a klog_scheme, unit) out" where
  "read_head s =
     bnd (bread (log_dev s) (log_start s) s) (\<lambda>b s.
     let lh = bdata (bufs s b);
         n = sint (ld32 lh 0);
         s = s\<lparr>lh_n := n, lh_block := (\<lambda>i. if i < nat n then ld32 lh (4 + 4 * i) else lh_block s i)\<rparr>
     in brelse b s)"

primrec put_blocks :: "nat \<Rightarrow> (nat \<Rightarrow> u32) \<Rightarrow> (nat \<Rightarrow> u8) \<Rightarrow> nat \<Rightarrow> u8" where
  "put_blocks 0 blks d = d"
| "put_blocks (Suc i) blks d = st32 (put_blocks i blks d) (4 + 4 * i) (blks i)"

definition write_head :: "'a klog_scheme \<Rightarrow> ('a klog_scheme, unit) out" where
  "write_head s =
     bnd (bread (log_dev s) (log_start s) s) (\<lambda>b s.
     let s = upd_buf b (bdata_update (\<lambda>d. put_blocks (nat (lh_n s)) (lh_block s) (st32 d 0 (word_of_int (lh_n s))))) s
     in bnd (bwrite b s) (\<lambda>_ s. brelse b s))"

definition recover_from_log :: "'a klog_scheme \<Rightarrow> ('a klog_scheme, unit) out" where
  "recover_from_log s =
     bnd (read_head s) (\<lambda>_ s.
     bnd (install_trans True s) (\<lambda>_ s.
     write_head (s\<lparr>lh_n := 0\<rparr>)))"

text \<open>The header is 124 bytes, so the size test of \<^verbatim>\<open>initlog\<close> never fires.\<close>

definition initlog :: "u32 \<Rightarrow> superblock \<Rightarrow> 'a klog_scheme \<Rightarrow> ('a klog_scheme, unit) out" where
  "initlog dev sb s =
     (if 4 + 4 * LOGBLOCKS \<ge> BSIZE then Panic ''initlog: too big logheader''
      else recover_from_log ((initlock LogLock s)\<lparr>log_start := logstart sb, log_dev := dev\<rparr>))"

section \<open>Operations\<close>

primrec begin_op_loop :: "nat \<Rightarrow> 'a klog_scheme \<Rightarrow> ('a klog_scheme, unit) out" where
  "begin_op_loop 0 s = Diverge"
| "begin_op_loop (Suc n) s =
     (if committing s \<noteq> 0 then bnd (sleep ChLog LogLock s) (\<lambda>_ s. begin_op_loop n s)
      else if lh_n s + (outstanding s + 1) * int MAXOPBLOCKS > int LOGBLOCKS
      then bnd (sleep ChLog LogLock s) (\<lambda>_ s. begin_op_loop n s)
      else release LogLock (s\<lparr>outstanding := outstanding s + 1\<rparr>))"

definition begin_op :: "'a klog_scheme \<Rightarrow> ('a klog_scheme, unit) out" where
  "begin_op s = bnd (acquire LogLock s) (\<lambda>_ s. begin_op_loop (patience s) s)"

definition write_log :: "'a klog_scheme \<Rightarrow> ('a klog_scheme, unit) out" where
  "write_log s =
     foreach [0..<nat (lh_n s)] (\<lambda>tail s.
       bnd (bread (log_dev s) (log_start s + of_nat tail + 1) s) (\<lambda>to s.
       bnd (bread (log_dev s) (lh_block s tail) s) (\<lambda>from s.
       let s = upd_buf to (bdata_update (\<lambda>d. copy_block d (bdata (bufs s from)))) s in
       bnd (bwrite to s) (\<lambda>_ s.
       bnd (brelse from s) (\<lambda>_ s.
       brelse to s))))) s"

definition commit :: "'a klog_scheme \<Rightarrow> ('a klog_scheme, unit) out" where
  "commit s =
     (if lh_n s > 0 then
        bnd (write_log s) (\<lambda>_ s.
        bnd (write_head s) (\<lambda>_ s.
        bnd (install_trans False s) (\<lambda>_ s.
        write_head (s\<lparr>lh_n := 0\<rparr>))))
      else Ok () s)"

definition end_op :: "'a klog_scheme \<Rightarrow> ('a klog_scheme, unit) out" where
  "end_op s =
     bnd (acquire LogLock s) (\<lambda>_ s.
     let s = s\<lparr>outstanding := outstanding s - 1\<rparr> in
     if committing s \<noteq> 0 then Panic ''log.committing''
     else
       let do_commit = (outstanding s = 0) in
       bnd (if do_commit then Ok () (s\<lparr>committing := 1\<rparr>) else wakeup ChLog s) (\<lambda>_ s.
       bnd (release LogLock s) (\<lambda>_ s.
       if do_commit then
         bnd (commit s) (\<lambda>_ s.
         bnd (acquire LogLock s) (\<lambda>_ s.
         bnd (wakeup ChLog (s\<lparr>committing := 0\<rparr>)) (\<lambda>_ s.
         release LogLock s)))
       else Ok () s)))"

text \<open>The slot of a block in the header: where it is already, or the first one past the end.\<close>

definition log_slot :: "u32 \<Rightarrow> 'a klog_scheme \<Rightarrow> nat" where
  "log_slot bno s =
     (case find (\<lambda>i. lh_block s i = bno) [0..<nat (lh_n s)] of Some i \<Rightarrow> i | None \<Rightarrow> nat (lh_n s))"

definition log_write :: "nat \<Rightarrow> 'a klog_scheme \<Rightarrow> ('a klog_scheme, unit) out" where
  "log_write b s =
     bnd (acquire LogLock s) (\<lambda>_ s.
     if lh_n s \<ge> int LOGBLOCKS then Panic ''too big a transaction''
     else if outstanding s < 1 then Panic ''log_write outside of trans''
     else
       let i = log_slot (bblockno (bufs s b)) s;
           s = s\<lparr>lh_block := (lh_block s)(i := bblockno (bufs s b))\<rparr>
       in bnd (if int i = lh_n s
               then bnd (bpin b s) (\<lambda>_ s. Ok () (s\<lparr>lh_n := lh_n s + 1\<rparr>))
               else Ok () s) (\<lambda>_ s.
          release LogLock s))"

end
