(* ===== verification/Fs.thy ===== *)
theory Fs
  imports Log
begin

unbundle bit_operations_syntax

text \<open>
  \<^verbatim>\<open>kernel/fs.c\<close>: blocks, inodes, directories and path names, with the on-disk format of
  \<^verbatim>\<open>kernel/fs.h\<close>. A pointer to an in-memory inode is its index in the inode table.
\<close>

section \<open>The on-disk format\<close>

definition ROOTINO :: u32 where "ROOTINO = 1"
definition FSMAGIC :: u32 where "FSMAGIC = 0x10203040"
definition NDIRECT :: nat where "NDIRECT = 12"
definition NINDIRECT :: nat where "NINDIRECT = BSIZE div 4"
definition MAXFILE :: nat where "MAXFILE = NDIRECT + NINDIRECT"
definition IPB :: nat where "IPB = BSIZE div 64"
definition BPB :: nat where "BPB = BSIZE * 8"
definition DIRSIZ :: nat where "DIRSIZ = 14"
definition T_DIR :: u16 where "T_DIR = 1"
definition T_FILE :: u16 where "T_FILE = 2"
definition T_DEVICE :: u16 where "T_DEVICE = 3"

definition IBLOCK :: "u32 \<Rightarrow> superblock \<Rightarrow> u32" where
  "IBLOCK i sb = i div of_nat IPB + inodestart sb"

definition BBLOCK :: "u32 \<Rightarrow> superblock \<Rightarrow> u32" where
  "BBLOCK b sb = b div of_nat BPB + bmapstart sb"

record dinode =
  di_type :: u16
  di_major :: u16
  di_minor :: u16
  di_nlink :: u16
  di_size :: u32
  di_addrs :: "nat \<Rightarrow> u32"

text \<open>Where the inode lies in its block, and its fields there.\<close>

definition dioff :: "u32 \<Rightarrow> nat" where
  "dioff inum = 64 * (unat inum mod IPB)"

definition get_dinode :: "(nat \<Rightarrow> u8) \<Rightarrow> nat \<Rightarrow> dinode" where
  "get_dinode d o' = \<lparr>di_type = ld16 d o', di_major = ld16 d (o' + 2), di_minor = ld16 d (o' + 4),
     di_nlink = ld16 d (o' + 6), di_size = ld32 d (o' + 8), di_addrs = (\<lambda>i. ld32 d (o' + 12 + 4 * i))\<rparr>"

primrec put_addrs :: "nat \<Rightarrow> (nat \<Rightarrow> u32) \<Rightarrow> nat \<Rightarrow> (nat \<Rightarrow> u8) \<Rightarrow> nat \<Rightarrow> u8" where
  "put_addrs 0 a o' d = d"
| "put_addrs (Suc i) a o' d = st32 (put_addrs i a o' d) (o' + 12 + 4 * i) (a i)"

definition put_dinode :: "dinode \<Rightarrow> nat \<Rightarrow> (nat \<Rightarrow> u8) \<Rightarrow> nat \<Rightarrow> u8" where
  "put_dinode di o' d =
     (let d = st16 d o' (di_type di); d = st16 d (o' + 2) (di_major di); d = st16 d (o' + 4) (di_minor di);
          d = st16 d (o' + 6) (di_nlink di); d = st32 d (o' + 8) (di_size di)
      in put_addrs (NDIRECT + 1) (di_addrs di) o' d)"

section \<open>State\<close>

record inode =
  idev :: u32
  inum :: u32
  iref :: int
  ivalid :: int
  itype :: u16
  imajor :: u16
  iminor :: u16
  inlink :: u16
  isize :: u32
  iaddrs :: "nat \<Rightarrow> u32"

record kfs = klog +
  sb :: superblock
  inodes :: "nat \<Rightarrow> inode"

abbreviation upd_inode :: "nat \<Rightarrow> (inode \<Rightarrow> inode) \<Rightarrow> 'a kfs_scheme \<Rightarrow> 'a kfs_scheme" where
  "upd_inode i f s \<equiv> s\<lparr>inodes := (inodes s)(i := f (inodes s i))\<rparr>"

definition readsb :: "u32 \<Rightarrow> 'a kfs_scheme \<Rightarrow> ('a kfs_scheme, unit) out" where
  "readsb dev s =
     bnd (bread dev 1 s) (\<lambda>bp s.
     let d = bdata (bufs s bp) in
     brelse bp (s\<lparr>sb := \<lparr>magic = ld32 d 0, sb_size = ld32 d 4, nblocks = ld32 d 8, ninodes = ld32 d 12,
       nlog = ld32 d 16, logstart = ld32 d 20, inodestart = ld32 d 24, bmapstart = ld32 d 28\<rparr>\<rparr>))"

section \<open>Blocks\<close>

definition bzero :: "u32 \<Rightarrow> u32 \<Rightarrow> 'a kfs_scheme \<Rightarrow> ('a kfs_scheme, unit) out" where
  "bzero dev bno s =
     bnd (bread dev bno s) (\<lambda>bp s.
     let s = upd_buf bp (bdata_update (\<lambda>d. copy_block d (\<lambda>_. 0))) s in
     bnd (log_write bp s) (\<lambda>_ s. brelse bp s))"

definition bitmask :: "nat \<Rightarrow> u8" where
  "bitmask bi = push_bit (bi mod 8) 1"

definition balloc :: "u32 \<Rightarrow> 'a kfs_scheme \<Rightarrow> ('a kfs_scheme, u32) out" where
  "balloc dev s =
     bnd (forret (map (\<lambda>k. k * BPB) [0..<(unat (sb_size (sb s)) + BPB - 1) div BPB]) (\<lambda>b s.
       bnd (bread dev (BBLOCK (of_nat b) (sb s)) s) (\<lambda>bp s.
         case find (\<lambda>bi. bdata (bufs s bp) (bi div 8) AND bitmask bi = 0)
                [0..<min BPB (unat (sb_size (sb s)) - b)] of
           Some bi \<Rightarrow>
             let s = upd_buf bp (bdata_update (\<lambda>d. d(bi div 8 := d (bi div 8) OR bitmask bi))) s in
             bnd (log_write bp s) (\<lambda>_ s.
             bnd (brelse bp s) (\<lambda>_ s.
             bnd (bzero dev (of_nat (b + bi)) s) (\<lambda>_ s.
             Ok (Some (of_nat (b + bi))) s)))
         | None \<Rightarrow> bnd (brelse bp s) (\<lambda>_ s. Ok None s))) s) (\<lambda>r s.
       case r of
         Some bno \<Rightarrow> Ok bno s
       | None \<Rightarrow> bnd (printf (''balloc: out of blocks'' @ [CHR 0x0A]) [] s) (\<lambda>_ s. Ok 0 s))"

definition bfree :: "u32 \<Rightarrow> u32 \<Rightarrow> 'a kfs_scheme \<Rightarrow> ('a kfs_scheme, unit) out" where
  "bfree dev b s =
     bnd (bread dev (BBLOCK b (sb s)) s) (\<lambda>bp s.
     let bi = unat b mod BPB in
     if bdata (bufs s bp) (bi div 8) AND bitmask bi = 0 then Panic ''freeing free block''
     else
       let s = upd_buf bp (bdata_update (\<lambda>d. d(bi div 8 := d (bi div 8) AND NOT (bitmask bi)))) s in
       bnd (log_write bp s) (\<lambda>_ s. brelse bp s))"

section \<open>Inodes\<close>

definition iinit :: "'a kfs_scheme \<Rightarrow> ('a kfs_scheme, unit) out" where
  "iinit s = foreach [0..<NINODE] (\<lambda>i s. Ok () (initsleeplock (InodeSlk i) s)) (initlock ItableLock s)"

definition iget :: "u32 \<Rightarrow> u32 \<Rightarrow> 'a kfs_scheme \<Rightarrow> ('a kfs_scheme, nat) out" where
  "iget dev ino s =
     bnd (acquire ItableLock s) (\<lambda>_ s.
       case find (\<lambda>i. iref (inodes s i) > 0 \<and> idev (inodes s i) = dev \<and> inum (inodes s i) = ino) [0..<NINODE] of
         Some ip \<Rightarrow>
           bnd (release ItableLock (upd_inode ip (iref_update (\<lambda>r. r + 1)) s)) (\<lambda>_ s. Ok ip s)
       | None \<Rightarrow>
           (case find (\<lambda>i. iref (inodes s i) = 0) [0..<NINODE] of
              None \<Rightarrow> Panic ''iget: no inodes''
            | Some ip \<Rightarrow>
                bnd (release ItableLock
                  (upd_inode ip (\<lambda>i. i\<lparr>idev := dev, inum := ino, iref := 1, ivalid := 0\<rparr>) s)) (\<lambda>_ s.
                Ok ip s)))"

definition ialloc :: "u32 \<Rightarrow> u16 \<Rightarrow> 'a kfs_scheme \<Rightarrow> ('a kfs_scheme, nat option) out" where
  "ialloc dev ty s =
     bnd (forret [1..<unat (ninodes (sb s))] (\<lambda>ino s.
       bnd (bread dev (IBLOCK (of_nat ino) (sb s)) s) (\<lambda>bp s.
       let o' = dioff (of_nat ino) in
       if ld16 (bdata (bufs s bp)) o' = 0 then
         let s = upd_buf bp (bdata_update (\<lambda>d. st16 (\<lambda>x. if o' \<le> x \<and> x < o' + 64 then 0 else d x) o' ty)) s in
         bnd (log_write bp s) (\<lambda>_ s.
         bnd (brelse bp s) (\<lambda>_ s.
         bnd (iget dev (of_nat ino) s) (\<lambda>ip s. Ok (Some ip) s)))
       else bnd (brelse bp s) (\<lambda>_ s. Ok None s))) s) (\<lambda>r s.
     case r of
       Some ip \<Rightarrow> Ok (Some ip) s
     | None \<Rightarrow> bnd (printf (''ialloc: no inodes'' @ [CHR 0x0A]) [] s) (\<lambda>_ s. Ok None s))"

definition inode_disk :: "inode \<Rightarrow> dinode" where
  "inode_disk i = \<lparr>di_type = itype i, di_major = imajor i, di_minor = iminor i, di_nlink = inlink i,
     di_size = isize i, di_addrs = iaddrs i\<rparr>"

definition iupdate :: "nat \<Rightarrow> 'a kfs_scheme \<Rightarrow> ('a kfs_scheme, unit) out" where
  "iupdate ip s =
     bnd (bread (idev (inodes s ip)) (IBLOCK (inum (inodes s ip)) (sb s)) s) (\<lambda>bp s.
     let s = upd_buf bp (bdata_update (put_dinode (inode_disk (inodes s ip)) (dioff (inum (inodes s ip))))) s in
     bnd (log_write bp s) (\<lambda>_ s. brelse bp s))"

definition idup :: "nat \<Rightarrow> 'a kfs_scheme \<Rightarrow> ('a kfs_scheme, nat) out" where
  "idup ip s =
     bnd (acquire ItableLock s) (\<lambda>_ s.
     bnd (release ItableLock (upd_inode ip (iref_update (\<lambda>r. r + 1)) s)) (\<lambda>_ s. Ok ip s))"

definition load_inode :: "dinode \<Rightarrow> inode \<Rightarrow> inode" where
  "load_inode di i = i\<lparr>itype := di_type di, imajor := di_major di, iminor := di_minor di, inlink := di_nlink di,
     isize := di_size di, iaddrs := (\<lambda>k. if k \<le> NDIRECT then di_addrs di k else iaddrs i k)\<rparr>"

definition ilock :: "nat option \<Rightarrow> 'a kfs_scheme \<Rightarrow> ('a kfs_scheme, unit) out" where
  "ilock ipo s =
     (case ipo of
        None \<Rightarrow> Panic ''ilock''
      | Some ip \<Rightarrow>
          if iref (inodes s ip) < 1 then Panic ''ilock''
          else bnd (acquiresleep (InodeSlk ip) s) (\<lambda>_ s.
            if ivalid (inodes s ip) = 0 then
              bnd (bread (idev (inodes s ip)) (IBLOCK (inum (inodes s ip)) (sb s)) s) (\<lambda>bp s.
              let s = upd_inode ip (load_inode (get_dinode (bdata (bufs s bp)) (dioff (inum (inodes s ip))))) s in
              bnd (brelse bp s) (\<lambda>_ s.
              let s = upd_inode ip (ivalid_update (\<lambda>_. 1)) s in
              if itype (inodes s ip) = 0 then Panic ''ilock: no type'' else Ok () s))
            else Ok () s))"

definition iunlock :: "nat option \<Rightarrow> 'a kfs_scheme \<Rightarrow> ('a kfs_scheme, unit) out" where
  "iunlock ipo s =
     (case ipo of
        None \<Rightarrow> Panic ''iunlock''
      | Some ip \<Rightarrow>
          bnd (holdingsleep (InodeSlk ip) s) (\<lambda>h s.
            if \<not> h \<or> iref (inodes s ip) < 1 then Panic ''iunlock''
            else releasesleep (InodeSlk ip) s))"

definition itrunc :: "nat \<Rightarrow> 'a kfs_scheme \<Rightarrow> ('a kfs_scheme, unit) out" where
  "itrunc ip s =
     bnd (foreach [0..<NDIRECT] (\<lambda>i s.
       if iaddrs (inodes s ip) i \<noteq> 0 then
         bnd (bfree (idev (inodes s ip)) (iaddrs (inodes s ip) i) s) (\<lambda>_ s.
         Ok () (upd_inode ip (iaddrs_update (\<lambda>a. a(i := 0))) s))
       else Ok () s) s) (\<lambda>_ s.
     bnd (if iaddrs (inodes s ip) NDIRECT \<noteq> 0 then
            bnd (bread (idev (inodes s ip)) (iaddrs (inodes s ip) NDIRECT) s) (\<lambda>bp s.
            bnd (foreach [0..<NINDIRECT] (\<lambda>j s.
              if ld32 (bdata (bufs s bp)) (4 * j) \<noteq> 0
              then bfree (idev (inodes s ip)) (ld32 (bdata (bufs s bp)) (4 * j)) s
              else Ok () s) s) (\<lambda>_ s.
            bnd (brelse bp s) (\<lambda>_ s.
            bnd (bfree (idev (inodes s ip)) (iaddrs (inodes s ip) NDIRECT) s) (\<lambda>_ s.
            Ok () (upd_inode ip (iaddrs_update (\<lambda>a. a(NDIRECT := 0))) s)))))
          else Ok () s) (\<lambda>_ s.
     iupdate ip (upd_inode ip (isize_update (\<lambda>_. 0)) s)))"

definition iput :: "nat \<Rightarrow> 'a kfs_scheme \<Rightarrow> ('a kfs_scheme, unit) out" where
  "iput ip s =
     bnd (acquire ItableLock s) (\<lambda>_ s.
     bnd (if iref (inodes s ip) = 1 \<and> ivalid (inodes s ip) \<noteq> 0 \<and> inlink (inodes s ip) = 0 then
            bnd (acquiresleep (InodeSlk ip) s) (\<lambda>_ s.
            bnd (release ItableLock s) (\<lambda>_ s.
            bnd (itrunc ip s) (\<lambda>_ s.
            bnd (iupdate ip (upd_inode ip (itype_update (\<lambda>_. 0)) s)) (\<lambda>_ s.
            bnd (releasesleep (InodeSlk ip) (upd_inode ip (ivalid_update (\<lambda>_. 0)) s)) (\<lambda>_ s.
            acquire ItableLock s)))))
          else Ok () s) (\<lambda>_ s.
     release ItableLock (upd_inode ip (iref_update (\<lambda>r. r - 1)) s)))"

definition iunlockput :: "nat \<Rightarrow> 'a kfs_scheme \<Rightarrow> ('a kfs_scheme, unit) out" where
  "iunlockput ip s = bnd (iunlock (Some ip) s) (\<lambda>_ s. iput ip s)"

definition ireclaim :: "u32 \<Rightarrow> 'a kfs_scheme \<Rightarrow> ('a kfs_scheme, unit) out" where
  "ireclaim dev s =
     foreach [1..<unat (ninodes (sb s))] (\<lambda>ino s.
       bnd (bread dev (IBLOCK (of_nat ino) (sb s)) s) (\<lambda>bp s.
       let di = get_dinode (bdata (bufs s bp)) (dioff (of_nat ino)) in
       bnd (if di_type di \<noteq> 0 \<and> di_nlink di = 0 then
              bnd (printf (''ireclaim: orphaned inode %d'' @ [CHR 0x0A]) [(of_nat ino, [])] s) (\<lambda>_ s.
              bnd (iget dev (of_nat ino) s) (\<lambda>ip s. Ok (Some ip) s))
            else Ok None s) (\<lambda>r s.
       bnd (brelse bp s) (\<lambda>_ s.
         case r of
           None \<Rightarrow> Ok () s
         | Some ip \<Rightarrow>
             bnd (begin_op s) (\<lambda>_ s.
             bnd (ilock (Some ip) s) (\<lambda>_ s.
             bnd (iunlock (Some ip) s) (\<lambda>_ s.
             bnd (iput ip s) (\<lambda>_ s.
             end_op s)))))))) s"

definition fsinit :: "u32 \<Rightarrow> 'a kfs_scheme \<Rightarrow> ('a kfs_scheme, unit) out" where
  "fsinit dev s =
     bnd (readsb dev s) (\<lambda>_ s.
     if magic (sb s) \<noteq> FSMAGIC then Panic ''invalid file system''
     else bnd (initlog dev (sb s) s) (\<lambda>_ s. ireclaim dev s))"

section \<open>File content\<close>

definition bmap :: "nat \<Rightarrow> u32 \<Rightarrow> 'a kfs_scheme \<Rightarrow> ('a kfs_scheme, u32) out" where
  "bmap ip bn s =
     (if unat bn < NDIRECT then
        let a = iaddrs (inodes s ip) (unat bn) in
        if a = 0 then
          bnd (balloc (idev (inodes s ip)) s) (\<lambda>a s.
            if a = 0 then Ok 0 s
            else Ok a (upd_inode ip (iaddrs_update (\<lambda>t. t(unat bn := a))) s))
        else Ok a s
      else
        let bi = unat (bn - of_nat NDIRECT) in
        if bi < NINDIRECT then
          bnd (if iaddrs (inodes s ip) NDIRECT = 0 then
                 bnd (balloc (idev (inodes s ip)) s) (\<lambda>a s.
                   if a = 0 then Ok 0 s
                   else Ok a (upd_inode ip (iaddrs_update (\<lambda>t. t(NDIRECT := a))) s))
               else Ok (iaddrs (inodes s ip) NDIRECT) s) (\<lambda>ind s.
          if ind = 0 then Ok 0 s
          else
            bnd (bread (idev (inodes s ip)) ind s) (\<lambda>bp s.
            bnd (let a = ld32 (bdata (bufs s bp)) (4 * bi) in
                 if a = 0 then
                   bnd (balloc (idev (inodes s ip)) s) (\<lambda>a s.
                     if a \<noteq> 0 then
                       bnd (log_write bp (upd_buf bp (bdata_update (\<lambda>d. st32 d (4 * bi) a)) s)) (\<lambda>_ s. Ok a s)
                     else Ok 0 s)
                 else Ok a s) (\<lambda>a s.
            bnd (brelse bp s) (\<lambda>_ s. Ok a s))))
        else Panic ''bmap: out of range'')"

text \<open>
  The destination of \<^verbatim>\<open>readi\<close> is what \<^verbatim>\<open>either_copyout\<close> does with the bytes at a displacement: a copy to
  user space, to a kernel address, or, for a local variable, nothing: the bytes read are part of the
  result. The source of \<^verbatim>\<open>writei\<close> gives, for a displacement and a length, the result of \<^verbatim>\<open>either_copyin\<close> and the
  bytes it has stored, which may be fewer than asked for when it fails.
\<close>

type_synonym 's sink = "u32 \<Rightarrow> u8 list \<Rightarrow> 's \<Rightarrow> ('s, int) out"
type_synonym 's source = "u32 \<Rightarrow> u32 \<Rightarrow> 's \<Rightarrow> ('s, int \<times> u8 list) out"

definition to_local :: "'s sink" where
  "to_local d bs s = Ok 0 s"

definition from_local :: "u8 list \<Rightarrow> 's source" where
  "from_local bs d m s = Ok (0, take (unat m) (drop (unat d) bs)) s"

definition get_bytes :: "(nat \<Rightarrow> u8) \<Rightarrow> nat \<Rightarrow> nat \<Rightarrow> u8 list" where
  "get_bytes d off m = map (\<lambda>i. d (off + i)) [0..<m]"

definition put_bytes :: "u8 list \<Rightarrow> nat \<Rightarrow> (nat \<Rightarrow> u8) \<Rightarrow> nat \<Rightarrow> u8" where
  "put_bytes bs off d = (\<lambda>x. if off \<le> x \<and> x < off + length bs then bs ! (x - off) else d x)"

primrec readi_loop ::
  "nat \<Rightarrow> nat \<Rightarrow> 'a kfs_scheme sink \<Rightarrow> u32 \<Rightarrow> u32 \<Rightarrow> u32 \<Rightarrow> u8 list \<Rightarrow> 'a kfs_scheme \<Rightarrow> ('a kfs_scheme, u32 \<times> u8 list) out" where
  "readi_loop 0 ip dst tot off n bs s = Diverge"
| "readi_loop (Suc k) ip dst tot off n bs s =
     (if tot < n then
        bnd (bmap ip (off div of_nat BSIZE) s) (\<lambda>a s.
        if a = 0 then Ok (tot, bs) s
        else
          bnd (bread (idev (inodes s ip)) a s) (\<lambda>bp s.
          let m = min (n - tot) (of_nat BSIZE - off mod of_nat BSIZE);
              data = get_bytes (bdata (bufs s bp)) (unat (off mod of_nat BSIZE)) (unat m)
          in bnd (dst tot data s) (\<lambda>r s.
             if r = - 1 then bnd (brelse bp s) (\<lambda>_ s. Ok (- 1, bs) s)
             else bnd (brelse bp s) (\<lambda>_ s. readi_loop k ip dst (tot + m) (off + m) n (bs @ data) s))))
      else Ok (tot, bs) s)"

definition readi ::
  "nat \<Rightarrow> 'a kfs_scheme sink \<Rightarrow> u32 \<Rightarrow> u32 \<Rightarrow> 'a kfs_scheme \<Rightarrow> ('a kfs_scheme, u32 \<times> u8 list) out" where
  "readi ip dst off n s =
     (let sz = isize (inodes s ip) in
      if off > sz \<or> off + n < off then Ok (0, []) s
      else
        let n = (if off + n > sz then sz - off else n)
        in readi_loop (unat n div BSIZE + 3) ip dst 0 off n [] s)"

primrec writei_loop ::
  "nat \<Rightarrow> nat \<Rightarrow> 'a kfs_scheme source \<Rightarrow> u32 \<Rightarrow> u32 \<Rightarrow> u32 \<Rightarrow> 'a kfs_scheme \<Rightarrow> ('a kfs_scheme, u32 \<times> u32) out" where
  "writei_loop 0 ip src tot off n s = Diverge"
| "writei_loop (Suc k) ip src tot off n s =
     (if tot < n then
        bnd (bmap ip (off div of_nat BSIZE) s) (\<lambda>a s.
        if a = 0 then Ok (tot, off) s
        else
          bnd (bread (idev (inodes s ip)) a s) (\<lambda>bp s.
          let m = min (n - tot) (of_nat BSIZE - off mod of_nat BSIZE) in
          bnd (src tot m s) (\<lambda>(r, data) s.
          let s = upd_buf bp (bdata_update (put_bytes data (unat (off mod of_nat BSIZE)))) s in
          if r = - 1 then bnd (brelse bp s) (\<lambda>_ s. Ok (tot, off) s)
          else
            bnd (log_write bp s) (\<lambda>_ s.
            bnd (brelse bp s) (\<lambda>_ s. writei_loop k ip src (tot + m) (off + m) n s)))))
      else Ok (tot, off) s)"

definition writei ::
  "nat \<Rightarrow> 'a kfs_scheme source \<Rightarrow> u32 \<Rightarrow> u32 \<Rightarrow> 'a kfs_scheme \<Rightarrow> ('a kfs_scheme, u32) out" where
  "writei ip src off n s =
     (if off > isize (inodes s ip) \<or> off + n < off then Ok (- 1) s
      else if unat (off + n) > MAXFILE * BSIZE then Ok (- 1) s
      else
        bnd (writei_loop (unat n div BSIZE + 3) ip src 0 off n s) (\<lambda>(tot, off) s.
        let s = (if off > isize (inodes s ip) then upd_inode ip (isize_update (\<lambda>_. off)) s else s) in
        bnd (iupdate ip s) (\<lambda>_ s. Ok tot s)))"

record stat =
  st_dev :: u32
  st_ino :: u32
  st_type :: u16
  st_nlink :: u16
  st_size :: u64

definition stati :: "nat \<Rightarrow> 'a kfs_scheme \<Rightarrow> stat" where
  "stati ip s = \<lparr>st_dev = idev (inodes s ip), st_ino = inum (inodes s ip), st_type = itype (inodes s ip),
     st_nlink = inlink (inodes s ip), st_size = ucast (isize (inodes s ip))\<rparr>"

section \<open>Directories\<close>

definition namecmp :: "(nat \<Rightarrow> u8) \<Rightarrow> (nat \<Rightarrow> u8) \<Rightarrow> int" where
  "namecmp s t = strncmp s t DIRSIZ"

text \<open>A directory entry as the sixteen bytes it is: the inode number and the name.\<close>

definition nth0 :: "u8 list \<Rightarrow> nat \<Rightarrow> u8" where
  "nth0 bs i = (if i < length bs then bs ! i else 0)"

definition de_inum :: "u8 list \<Rightarrow> u16" where "de_inum bs = ld16 (nth0 bs) 0"
definition de_name :: "u8 list \<Rightarrow> nat \<Rightarrow> u8" where "de_name bs i = nth0 bs (2 + i)"

definition mk_dirent :: "u16 \<Rightarrow> (nat \<Rightarrow> u8) \<Rightarrow> u8 list" where
  "mk_dirent i nm = [byte_of i 0, byte_of i 1] @ map nm [0..<DIRSIZ]"

definition dir_offs :: "u32 \<Rightarrow> u32 list" where
  "dir_offs sz = map (\<lambda>k. of_nat (16 * k)) [0..<(unat sz + 15) div 16]"

definition dirlookup ::
  "nat \<Rightarrow> (nat \<Rightarrow> u8) \<Rightarrow> 'a kfs_scheme \<Rightarrow> ('a kfs_scheme, (nat \<times> u32) option) out" where
  "dirlookup dp name s =
     (if itype (inodes s dp) \<noteq> T_DIR then Panic ''dirlookup not DIR''
      else forret (dir_offs (isize (inodes s dp))) (\<lambda>off s.
        bnd (readi dp to_local off 16 s) (\<lambda>(r, de) s.
          if r \<noteq> 16 then Panic ''dirlookup read''
          else if de_inum de = 0 then Ok None s
          else if namecmp name (de_name de) = 0 then
            bnd (iget (idev (inodes s dp)) (ucast (de_inum de)) s) (\<lambda>ip s. Ok (Some (ip, off)) s)
          else Ok None s)) s)"

definition dirlink :: "nat \<Rightarrow> (nat \<Rightarrow> u8) \<Rightarrow> u32 \<Rightarrow> 'a kfs_scheme \<Rightarrow> ('a kfs_scheme, int) out" where
  "dirlink dp name ino s =
     bnd (dirlookup dp name s) (\<lambda>r s.
       case r of
         Some (ip, _) \<Rightarrow> bnd (iput ip s) (\<lambda>_ s. Ok (- 1) s)
       | None \<Rightarrow>
           bnd (forret (dir_offs (isize (inodes s dp))) (\<lambda>off s.
             bnd (readi dp to_local off 16 s) (\<lambda>(r, de) s.
               if r \<noteq> 16 then Panic ''dirlink read''
               else if de_inum de = 0 then Ok (Some off) s
               else Ok None s)) s) (\<lambda>r s.
           let off = (case r of Some off \<Rightarrow> off | None \<Rightarrow> of_nat (16 * ((unat (isize (inodes s dp)) + 15) div 16)));
               de = mk_dirent (ucast ino) (strncpy (\<lambda>_. 0) name (int DIRSIZ))
           in bnd (writei dp (from_local de) off 16 s) (\<lambda>r s.
              if r \<noteq> 16 then Ok (- 1) s else Ok 0 s)))"

section \<open>Paths\<close>

definition slash :: u8 where "slash = 47"

text \<open>A path is the bytes before its terminator; the name is a buffer of \<open>DIRSIZ\<close> bytes that keeps what is not overwritten.\<close>

definition skipelem :: "u8 list \<Rightarrow> (nat \<Rightarrow> u8) \<Rightarrow> (u8 list \<times> (nat \<Rightarrow> u8)) option" where
  "skipelem path name =
     (let path = dropWhile (\<lambda>c. c = slash) path in
      if path = [] then None
      else
        let e = takeWhile (\<lambda>c. c \<noteq> slash) path;
            len = length e;
            name = (if len \<ge> DIRSIZ then (\<lambda>i. if i < DIRSIZ then e ! i else name i)
                    else (\<lambda>i. if i < len then e ! i else if i = len then 0 else name i))
        in Some (dropWhile (\<lambda>c. c = slash) (dropWhile (\<lambda>c. c \<noteq> slash) path), name))"

primrec namex_loop ::
  "nat \<Rightarrow> nat \<Rightarrow> u8 list \<Rightarrow> bool \<Rightarrow> (nat \<Rightarrow> u8) \<Rightarrow> 'a kfs_scheme \<Rightarrow> ('a kfs_scheme, nat option \<times> (nat \<Rightarrow> u8)) out" where
  "namex_loop 0 ip path nameiparent name s = Diverge"
| "namex_loop (Suc n) ip path nameiparent name s =
     (case skipelem path name of
        None \<Rightarrow> if nameiparent then bnd (iput ip s) (\<lambda>_ s. Ok (None, name) s) else Ok (Some ip, name) s
      | Some (path, name) \<Rightarrow>
          bnd (ilock (Some ip) s) (\<lambda>_ s.
          if itype (inodes s ip) \<noteq> T_DIR then bnd (iunlockput ip s) (\<lambda>_ s. Ok (None, name) s)
          else if nameiparent \<and> path = [] then bnd (iunlock (Some ip) s) (\<lambda>_ s. Ok (Some ip, name) s)
          else
            bnd (dirlookup ip name s) (\<lambda>r s.
              case r of
                None \<Rightarrow> bnd (iunlockput ip s) (\<lambda>_ s. Ok (None, name) s)
              | Some (next, _) \<Rightarrow>
                  bnd (iunlockput ip s) (\<lambda>_ s. namex_loop n next path nameiparent name s))))"

definition namex ::
  "u8 list \<Rightarrow> bool \<Rightarrow> (nat \<Rightarrow> u8) \<Rightarrow> 'a kfs_scheme \<Rightarrow> ('a kfs_scheme, nat option \<times> (nat \<Rightarrow> u8)) out" where
  "namex path nameiparent name s =
     bnd (if path \<noteq> [] \<and> hd path = slash then iget ROOTDEV ROOTINO s
          else deref (myproc s) (\<lambda>p s. deref (cwd (procs s p)) (\<lambda>d s. idup d s) s) s) (\<lambda>ip s.
     namex_loop (Suc (length path)) ip path nameiparent name s)"

definition namei :: "u8 list \<Rightarrow> 'a kfs_scheme \<Rightarrow> ('a kfs_scheme, nat option) out" where
  "namei path s = bnd (namex path False (\<lambda>_. 0) s) (\<lambda>(r, _) s. Ok r s)"

definition nameiparent :: "u8 list \<Rightarrow> 'a kfs_scheme \<Rightarrow> ('a kfs_scheme, nat option \<times> (nat \<Rightarrow> u8)) out" where
  "nameiparent path s = namex path True (\<lambda>_. 0) s"

end
