(* ===== verification/Ftable.thy ===== *)
theory Ftable
  imports Fs
begin

text \<open>
  The open-file table of \<^verbatim>\<open>kernel/file.c\<close> with the operations that only count references, and the data
  of pipes, which live in pages of their own: a pipe is found by the address of its page.
\<close>

datatype filetype = FD_NONE | FD_PIPE | FD_INODE | FD_DEVICE

record file_t =
  ftype :: filetype
  fref :: int
  freadable :: bool
  fwritable :: bool
  fpipe :: addr
  fip :: "nat option"
  foff :: u32
  fmajor :: u16

definition PIPESIZE :: nat where "PIPESIZE = 512"

record pipe =
  pdata :: "nat \<Rightarrow> u8"
  nread :: u32
  nwrite :: u32
  readopen :: bool
  writeopen :: bool

text \<open>The device switch has one kind of device behind its function pointers.\<close>

datatype devfn = ConsoleDev

definition CONSOLE :: nat where "CONSOLE = 1"

record kfile = kfs +
  files :: "nat \<Rightarrow> file_t"
  pipes :: "addr \<Rightarrow> pipe"
  devsw :: "nat \<Rightarrow> devfn option"

abbreviation upd_file :: "nat \<Rightarrow> (file_t \<Rightarrow> file_t) \<Rightarrow> 'a kfile_scheme \<Rightarrow> 'a kfile_scheme" where
  "upd_file f g s \<equiv> s\<lparr>files := (files s)(f := g (files s f))\<rparr>"

abbreviation upd_pipe :: "addr \<Rightarrow> (pipe \<Rightarrow> pipe) \<Rightarrow> 'a kfile_scheme \<Rightarrow> 'a kfile_scheme" where
  "upd_pipe q g s \<equiv> s\<lparr>pipes := (pipes s)(q := g (pipes s q))\<rparr>"

definition fileinit :: "'a kfile_scheme \<Rightarrow> 'a kfile_scheme" where
  "fileinit s = initlock FtableLock s"

definition filealloc :: "'a kfile_scheme \<Rightarrow> ('a kfile_scheme, nat option) out" where
  "filealloc s =
     bnd (acquire FtableLock s) (\<lambda>_ s.
       case find (\<lambda>f. fref (files s f) = 0) [0..<NFILE] of
         Some f \<Rightarrow> bnd (release FtableLock (upd_file f (fref_update (\<lambda>_. 1)) s)) (\<lambda>_ s. Ok (Some f) s)
       | None \<Rightarrow> bnd (release FtableLock s) (\<lambda>_ s. Ok None s))"

definition filedup :: "nat \<Rightarrow> 'a kfile_scheme \<Rightarrow> ('a kfile_scheme, nat) out" where
  "filedup f s =
     bnd (acquire FtableLock s) (\<lambda>_ s.
       if fref (files s f) < 1 then Panic ''filedup''
       else bnd (release FtableLock (upd_file f (fref_update (\<lambda>r. r + 1)) s)) (\<lambda>_ s. Ok f s))"

end
