(* ===== verification/Usermem.thy ===== *)
theory Usermem
  imports Ftable
begin

unbundle bit_operations_syntax

text \<open>
  The rest of \<^verbatim>\<open>kernel/vm.c\<close>: page faults on copy-on-write, lazily allocated and memory-mapped pages, and
  the copies between the kernel and user space, with \<^verbatim>\<open>either_copyout\<close> and \<^verbatim>\<open>either_copyin\<close> of
  \<^verbatim>\<open>kernel/proc.c\<close>. Bytes that the kernel holds in its own variables are lists.
\<close>

definition PROT_READ :: u32 where "PROT_READ = 1"
definition PROT_WRITE :: u32 where "PROT_WRITE = 2"
definition PROT_EXEC :: u32 where "PROT_EXEC = 4"
definition MAP_SHARED :: u32 where "MAP_SHARED = 1"
definition MAP_PRIVATE :: u32 where "MAP_PRIVATE = 2"

definition store_bytes :: "mem \<Rightarrow> addr \<Rightarrow> u8 list \<Rightarrow> mem" where
  "store_bytes m a bs = (\<lambda>x. if unat (x - a) < length bs then bs ! unat (x - a) else m x)"

definition load_bytes :: "mem \<Rightarrow> addr \<Rightarrow> nat \<Rightarrow> u8 list" where
  "load_bytes m a n = map (\<lambda>i. m (a + of_nat i)) [0..<n]"

definition to_kaddr :: "addr \<Rightarrow> 'a kfs_scheme sink" where
  "to_kaddr a d bs s = Ok 0 (s\<lparr>mem := store_bytes (mem s) (a + ucast d) bs\<rparr>)"

section \<open>Page faults\<close>

definition vma_perm :: "u32 \<Rightarrow> u64" where
  "vma_perm prot =
     (let perm = PTE_U;
          perm = (if prot AND PROT_READ \<noteq> 0 then perm OR PTE_R else perm);
          perm = (if prot AND PROT_WRITE \<noteq> 0 then perm OR PTE_W else perm)
      in if prot AND PROT_EXEC \<noteq> 0 then perm OR PTE_X else perm)"

text \<open>The content of a memory-mapped page: the part of the file that the page covers, if any; the result says whether the read failed.\<close>

definition vma_fill :: "vma \<Rightarrow> u64 \<Rightarrow> addr \<Rightarrow> 'a kfile_scheme \<Rightarrow> ('a kfile_scheme, bool) out" where
  "vma_fill v va pg s =
     (case vfile v of
        None \<Rightarrow> Ok True s
      | Some f \<Rightarrow>
          let fileoff = voff v + (va - vaddr v) in
          bnd (ilock (fip (files s f)) s) (\<lambda>_ s.
          deref (fip (files s f)) (\<lambda>ip s.
            if fileoff < ucast (isize (inodes s ip)) then
              let n = (if fileoff + PGSIZE > ucast (isize (inodes s ip))
                       then ucast (ucast (isize (inodes s ip)) - fileoff) else ucast PGSIZE) :: u32
              in bnd (readi ip (to_kaddr pg) (ucast fileoff) n s) (\<lambda>(r, _) s.
                 bnd (iunlock (Some ip) s) (\<lambda>_ s. Ok (r = n) s))
            else bnd (iunlock (Some ip) s) (\<lambda>_ s. Ok True s)) s))"

definition vmfault :: "addr \<Rightarrow> u64 \<Rightarrow> bool \<Rightarrow> 'a kfile_scheme \<Rightarrow> ('a kfile_scheme, addr) out" where
  "vmfault pagetable va0 read s =
     (let va = PGROUNDDOWN va0 in
      bnd (walk pagetable va False s) (\<lambda>pte s.
      if pte \<noteq> 0 \<and> load64 (mem s) pte AND PTE_V \<noteq> 0 then
        if \<not> read \<and> load64 (mem s) pte AND PTE_COW \<noteq> 0 then
          let pa = PTE2PA (load64 (mem s) pte) in
          bnd (krefcnt pa s) (\<lambda>rc s.
            if rc = 1 then
              Ok pa (s\<lparr>mem := store64 (mem s) pte ((load64 (mem s) pte OR PTE_W) AND NOT PTE_COW)\<rparr>)
            else
              bnd (kalloc s) (\<lambda>pg s.
                if pg = 0 then Ok 0 s
                else
                  let s = s\<lparr>mem := memmove (mem s) pg pa 4096\<rparr>;
                      flags = (PTE_FLAGS (load64 (mem s) pte) OR PTE_W) AND NOT PTE_COW;
                      s = s\<lparr>mem := store64 (mem s) pte (PA2PTE pg OR flags)\<rparr>
                  in bnd (kfree pa s) (\<lambda>_ s. Ok pg s)))
        else Ok 0 s
      else
        deref (myproc s) (\<lambda>p s.
          if va < psz (procs s p) then
            bnd (kalloc s) (\<lambda>pg s.
              if pg = 0 then Ok 0 s
              else
                let s = s\<lparr>mem := memset (mem s) pg 0 4096\<rparr> in
                bnd (mappages pagetable va PGSIZE pg (PTE_W OR PTE_U OR PTE_R) s) (\<lambda>r s.
                  if r \<noteq> 0 then bnd (kfree pg s) (\<lambda>_ s. Ok 0 s) else Ok pg s))
          else
            bnd (forret [0..<MAXVMA] (\<lambda>i s.
              let v = vmas (procs s p) i in
              if \<not> vused v then Ok None s
              else if va < vaddr v \<or> va \<ge> vaddr v + vlen v then Ok None s
              else if (if read then vprot v AND (PROT_READ OR PROT_EXEC) = 0 else vprot v AND PROT_WRITE = 0)
              then Ok (Some 0) s
              else
                bnd (kalloc s) (\<lambda>pg s.
                  if pg = 0 then Ok (Some 0) s
                  else
                    let s = s\<lparr>mem := memset (mem s) pg 0 4096\<rparr> in
                    bnd (vma_fill v va pg s) (\<lambda>ok s.
                      if \<not> ok then bnd (kfree pg s) (\<lambda>_ s. Ok (Some 0) s)
                      else
                        bnd (mappages pagetable va PGSIZE pg (vma_perm (vprot v)) s) (\<lambda>r s.
                          if r \<noteq> 0 then bnd (kfree pg s) (\<lambda>_ s. Ok (Some 0) s)
                          else Ok (Some pg) s)))) s) (\<lambda>r s.
            Ok (case r of Some a \<Rightarrow> a | None \<Rightarrow> 0) s)) s))"

section \<open>Copies\<close>

text \<open>Each turn of the copy loops ends at a page boundary, so the number of pages bounds them.\<close>

primrec copyout_loop :: "nat \<Rightarrow> addr \<Rightarrow> u64 \<Rightarrow> u8 list \<Rightarrow> 'a kfile_scheme \<Rightarrow> ('a kfile_scheme, int) out" where
  "copyout_loop 0 pagetable dstva src s = Diverge"
| "copyout_loop (Suc k) pagetable dstva src s =
     (if src \<noteq> [] then
        let va0 = PGROUNDDOWN dstva in
        if va0 \<ge> MAXVA then Ok (- 1) s
        else
          bnd (walkaddr pagetable va0 s) (\<lambda>pa0 s.
          bnd (if pa0 = 0 then vmfault pagetable va0 False s else Ok pa0 s) (\<lambda>pa0 s.
          if pa0 = 0 then Ok (- 1) s
          else
            bnd (walk pagetable va0 False s) (\<lambda>pte s.
            if pte = 0 then Panic ''kerneltrap''
            else
              bnd (if load64 (mem s) pte AND PTE_W = 0 then
                     bnd (vmfault pagetable va0 False s) (\<lambda>pa0 s.
                       if pa0 = 0 then Ok 0 s
                       else bnd (walk pagetable va0 False s) (\<lambda>pte s.
                         if pte = 0 \<or> load64 (mem s) pte AND PTE_W = 0 then Ok 0 s else Ok pa0 s))
                   else Ok pa0 s) (\<lambda>pa0 s.
              if pa0 = 0 then Ok (- 1) s
              else
                let n = min (unat (PGSIZE - (dstva - va0))) (length src);
                    s = s\<lparr>mem := store_bytes (mem s) (pa0 + (dstva - va0)) (take n src)\<rparr>
                in copyout_loop k pagetable (va0 + PGSIZE) (drop n src) s))))
      else Ok 0 s)"

definition copyout :: "addr \<Rightarrow> u64 \<Rightarrow> u8 list \<Rightarrow> 'a kfile_scheme \<Rightarrow> ('a kfile_scheme, int) out" where
  "copyout pagetable dstva src s = copyout_loop (length src div 4096 + 3) pagetable dstva src s"

text \<open>The copies into the kernel return, with the result, the bytes that they have stored by then.\<close>

primrec copyin_loop :: "nat \<Rightarrow> addr \<Rightarrow> u64 \<Rightarrow> nat \<Rightarrow> u8 list \<Rightarrow> 'a kfile_scheme \<Rightarrow> ('a kfile_scheme, int \<times> u8 list) out" where
  "copyin_loop 0 pagetable srcva len dst s = Diverge"
| "copyin_loop (Suc k) pagetable srcva len dst s =
     (if len > 0 then
        let va0 = PGROUNDDOWN srcva in
        bnd (walkaddr pagetable va0 s) (\<lambda>pa0 s.
        bnd (if pa0 = 0 then vmfault pagetable va0 True s else Ok pa0 s) (\<lambda>pa0 s.
        if pa0 = 0 then Ok (- 1, dst) s
        else
          let n = min (unat (PGSIZE - (srcva - va0))) len in
          copyin_loop k pagetable (va0 + PGSIZE) (len - n)
            (dst @ load_bytes (mem s) (pa0 + (srcva - va0)) n) s))
      else Ok (0, dst) s)"

definition copyin :: "addr \<Rightarrow> u64 \<Rightarrow> nat \<Rightarrow> 'a kfile_scheme \<Rightarrow> ('a kfile_scheme, int \<times> u8 list) out" where
  "copyin pagetable srcva len s = copyin_loop (len div 4096 + 3) pagetable srcva len [] s"

text \<open>The result of \<^verbatim>\<open>copyinstr\<close> has the bytes before the terminator.\<close>

primrec copyinstr_loop :: "nat \<Rightarrow> addr \<Rightarrow> u64 \<Rightarrow> nat \<Rightarrow> u8 list \<Rightarrow> 'a kfile_scheme \<Rightarrow> ('a kfile_scheme, int \<times> u8 list) out" where
  "copyinstr_loop 0 pagetable srcva mx dst s = Diverge"
| "copyinstr_loop (Suc k) pagetable srcva mx dst s =
     (if mx > 0 then
        let va0 = PGROUNDDOWN srcva in
        bnd (walkaddr pagetable va0 s) (\<lambda>pa0 s.
        bnd (if pa0 = 0 then vmfault pagetable va0 True s else Ok pa0 s) (\<lambda>pa0 s.
        if pa0 = 0 then Ok (- 1, dst) s
        else
          let n = min (unat (PGSIZE - (srcva - va0))) mx;
              bs = load_bytes (mem s) (pa0 + (srcva - va0)) n;
              pre = takeWhile (\<lambda>c. c \<noteq> 0) bs
          in if length pre < n then Ok (0, dst @ pre) s
             else copyinstr_loop k pagetable (va0 + PGSIZE) (mx - n) (dst @ bs) s))
      else Ok (- 1, dst) s)"

definition copyinstr :: "addr \<Rightarrow> u64 \<Rightarrow> nat \<Rightarrow> 'a kfile_scheme \<Rightarrow> ('a kfile_scheme, int \<times> u8 list) out" where
  "copyinstr pagetable srcva mx s = copyinstr_loop (mx div 4096 + 3) pagetable srcva mx [] s"

definition either_copyout :: "bool \<Rightarrow> u64 \<Rightarrow> u8 list \<Rightarrow> 'a kfile_scheme \<Rightarrow> ('a kfile_scheme, int) out" where
  "either_copyout user_dst dst src s =
     (if user_dst then deref (myproc s) (\<lambda>p s. copyout (ppagetable (procs s p)) dst src s) s
      else Ok 0 (s\<lparr>mem := store_bytes (mem s) dst src\<rparr>))"

definition either_copyin :: "bool \<Rightarrow> u64 \<Rightarrow> nat \<Rightarrow> 'a kfile_scheme \<Rightarrow> ('a kfile_scheme, int \<times> u8 list) out" where
  "either_copyin user_src src len s =
     (if user_src then deref (myproc s) (\<lambda>p s. copyin (ppagetable (procs s p)) src len s) s
      else Ok (0, load_bytes (mem s) src len) s)"

text \<open>The destination and the source of \<^verbatim>\<open>readi\<close> and \<^verbatim>\<open>writei\<close> for the calls that name an address.\<close>

definition to_addr :: "bool \<Rightarrow> u64 \<Rightarrow> 'a kfile_scheme sink" where
  "to_addr user_dst dst d bs s = either_copyout user_dst (dst + ucast d) bs s"

definition from_addr :: "bool \<Rightarrow> u64 \<Rightarrow> 'a kfile_scheme source" where
  "from_addr user_src src d m s = either_copyin user_src (src + ucast d) (unat m) s"

end
