(* ===== verification/Pipe.thy ===== *)
theory Pipe
  imports Usermem
begin

text \<open>
  \<^verbatim>\<open>kernel/pipe.c\<close>, but for \<^verbatim>\<open>pipealloc\<close>: a ring buffer of \<open>PIPESIZE\<close> bytes whose two indices only grow and wrap
  at \<open>2 ^ 32\<close>. Readers and writers sleep on the addresses of the two indices in the pipe's page.
\<close>

definition nread_chan :: "addr \<Rightarrow> chan" where "nread_chan pi = ChAddr (pi + 536)"
definition nwrite_chan :: "addr \<Rightarrow> chan" where "nwrite_chan pi = ChAddr (pi + 540)"

definition pipeclose :: "addr \<Rightarrow> bool \<Rightarrow> 'a kfile_scheme \<Rightarrow> ('a kfile_scheme, unit) out" where
  "pipeclose pi writable s =
     bnd (acquire (PipeLock pi) s) (\<lambda>_ s.
     bnd (if writable then wakeup (nread_chan pi) (upd_pipe pi (writeopen_update (\<lambda>_. False)) s)
          else wakeup (nwrite_chan pi) (upd_pipe pi (readopen_update (\<lambda>_. False)) s)) (\<lambda>_ s.
     if \<not> readopen (pipes s pi) \<and> \<not> writeopen (pipes s pi)
     then bnd (release (PipeLock pi) s) (\<lambda>_ s. kfree pi s)
     else release (PipeLock pi) s))"

definition pipe_full :: "pipe \<Rightarrow> bool" where
  "pipe_full q \<longleftrightarrow> nwrite q = nread q + of_nat PIPESIZE"

definition pipe_put :: "u8 \<Rightarrow> pipe \<Rightarrow> pipe" where
  "pipe_put ch q = q\<lparr>pdata := (pdata q)(unat (nwrite q) mod PIPESIZE := ch), nwrite := nwrite q + 1\<rparr>"

definition pipe_get :: "pipe \<Rightarrow> u8" where
  "pipe_get q = pdata q (unat (nread q) mod PIPESIZE)"

text \<open>Every turn of the write loop stores a byte or sleeps.\<close>

primrec pipewrite_loop ::
  "nat \<Rightarrow> nat \<Rightarrow> addr \<Rightarrow> u64 \<Rightarrow> int \<Rightarrow> int \<Rightarrow> 'a kfile_scheme \<Rightarrow> ('a kfile_scheme, int option) out" where
  "pipewrite_loop 0 pr pi a i n s = Diverge"
| "pipewrite_loop (Suc k) pr pi a i n s =
     (if i < n then
        bnd (if \<not> readopen (pipes s pi) then Ok True s else bnd (killed pr s) (\<lambda>d s. Ok (d \<noteq> 0) s)) (\<lambda>quit s.
        if quit then bnd (release (PipeLock pi) s) (\<lambda>_ s. Ok None s)
        else if pipe_full (pipes s pi) then
          bnd (wakeup (nread_chan pi) s) (\<lambda>_ s.
          bnd (sleep (nwrite_chan pi) (PipeLock pi) s) (\<lambda>_ s.
          pipewrite_loop k pr pi a i n s))
        else
          bnd (copyin (ppagetable (procs s pr)) (a + word_of_int i) 1 s) (\<lambda>(r, ch) s.
          if r = - 1 then Ok (Some i) s
          else pipewrite_loop k pr pi a (i + 1) n (upd_pipe pi (pipe_put (hd ch)) s)))
      else Ok (Some i) s)"

definition pipewrite :: "addr \<Rightarrow> u64 \<Rightarrow> int \<Rightarrow> 'a kfile_scheme \<Rightarrow> ('a kfile_scheme, int) out" where
  "pipewrite pi a n s =
     deref (myproc s) (\<lambda>pr s.
       bnd (acquire (PipeLock pi) s) (\<lambda>_ s.
       bnd (pipewrite_loop (Suc (nat n + patience s)) pr pi a 0 n s) (\<lambda>r s.
         case r of
           None \<Rightarrow> Ok (- 1) s
         | Some i \<Rightarrow>
             bnd (wakeup (nread_chan pi) s) (\<lambda>_ s.
             bnd (release (PipeLock pi) s) (\<lambda>_ s. Ok i s))))) s"

primrec piperead_wait :: "nat \<Rightarrow> nat \<Rightarrow> addr \<Rightarrow> 'a kfile_scheme \<Rightarrow> ('a kfile_scheme, bool) out" where
  "piperead_wait 0 pr pi s = Diverge"
| "piperead_wait (Suc k) pr pi s =
     (if nread (pipes s pi) = nwrite (pipes s pi) \<and> writeopen (pipes s pi) then
        bnd (killed pr s) (\<lambda>d s.
        if d \<noteq> 0 then bnd (release (PipeLock pi) s) (\<lambda>_ s. Ok False s)
        else bnd (sleep (nread_chan pi) (PipeLock pi) s) (\<lambda>_ s. piperead_wait k pr pi s))
      else Ok True s)"

primrec piperead_loop ::
  "nat \<Rightarrow> nat \<Rightarrow> addr \<Rightarrow> u64 \<Rightarrow> int \<Rightarrow> int \<Rightarrow> 'a kfile_scheme \<Rightarrow> ('a kfile_scheme, int) out" where
  "piperead_loop 0 pr pi a i n s = Diverge"
| "piperead_loop (Suc k) pr pi a i n s =
     (if i < n then
        if nread (pipes s pi) = nwrite (pipes s pi) then Ok i s
        else
          bnd (copyout (ppagetable (procs s pr)) (a + word_of_int i) [pipe_get (pipes s pi)] s) (\<lambda>r s.
          if r = - 1 then Ok (if i = 0 then - 1 else i) s
          else piperead_loop k pr pi a (i + 1) n (upd_pipe pi (nread_update (\<lambda>x. x + 1)) s))
      else Ok i s)"

definition piperead :: "addr \<Rightarrow> u64 \<Rightarrow> int \<Rightarrow> 'a kfile_scheme \<Rightarrow> ('a kfile_scheme, int) out" where
  "piperead pi a n s =
     deref (myproc s) (\<lambda>pr s.
       bnd (acquire (PipeLock pi) s) (\<lambda>_ s.
       bnd (piperead_wait (patience s) pr pi s) (\<lambda>ok s.
       if \<not> ok then Ok (- 1) s
       else
         bnd (piperead_loop (Suc (nat n)) pr pi a 0 n s) (\<lambda>i s.
         bnd (wakeup (nwrite_chan pi) s) (\<lambda>_ s.
         bnd (release (PipeLock pi) s) (\<lambda>_ s. Ok i s)))))) s"

end
