(* ===== verification/Console.thy ===== *)
theory Console
  imports Pipe
begin

unbundle bit_operations_syntax

text \<open>
  \<^verbatim>\<open>kernel/console.c\<close>: line editing in a circular buffer with three indices (read, write, edit), and the
  receive side of \<^verbatim>\<open>kernel/uart.c\<close>.
\<close>

definition INPUT_BUF_SIZE :: nat where "INPUT_BUF_SIZE = 128"

record kcons = kfile +
  cons_buf :: "nat \<Rightarrow> u8"
  cons_r :: u32
  cons_w :: u32
  cons_e :: u32

definition ctrl :: "char \<Rightarrow> int" where "ctrl x = of_char x - 64"

definition cons_at :: "u32 \<Rightarrow> 'a kcons_scheme \<Rightarrow> u8" where
  "cons_at i s = cons_buf s (unat i mod INPUT_BUF_SIZE)"

section \<open>Reading and writing\<close>

primrec consolewrite_loop ::
  "nat \<Rightarrow> bool \<Rightarrow> u64 \<Rightarrow> int \<Rightarrow> int \<Rightarrow> 'a kcons_scheme \<Rightarrow> ('a kcons_scheme, int) out" where
  "consolewrite_loop 0 user_src src i n s = Diverge"
| "consolewrite_loop (Suc k) user_src src i n s =
     (if i < n then
        let nn = min 32 (n - i) in
        bnd (either_copyin user_src (src + word_of_int i) (nat nn) s) (\<lambda>(r, data) s.
        if r = - 1 then Ok i s
        else bnd (uartwrite data s) (\<lambda>_ s. consolewrite_loop k user_src src (i + nn) n s))
      else Ok i s)"

definition consolewrite :: "bool \<Rightarrow> u64 \<Rightarrow> int \<Rightarrow> 'a kcons_scheme \<Rightarrow> ('a kcons_scheme, int) out" where
  "consolewrite user_src src n s = consolewrite_loop (Suc (nat n)) user_src src 0 n s"

primrec cons_wait :: "nat \<Rightarrow> 'a kcons_scheme \<Rightarrow> ('a kcons_scheme, bool) out" where
  "cons_wait 0 s = Diverge"
| "cons_wait (Suc k) s =
     (if cons_r s = cons_w s then
        deref (myproc s) (\<lambda>p s.
          bnd (killed p s) (\<lambda>d s.
          if d \<noteq> 0 then bnd (release ConsLock s) (\<lambda>_ s. Ok False s)
          else bnd (sleep ChCons ConsLock s) (\<lambda>_ s. cons_wait k s))) s
      else Ok True s)"

text \<open>The loop of \<^verbatim>\<open>consoleread\<close>; its result is what is left of \<open>n\<close>, or \<open>None\<close> when the process was killed.\<close>

primrec consoleread_loop ::
  "nat \<Rightarrow> bool \<Rightarrow> u64 \<Rightarrow> int \<Rightarrow> int \<Rightarrow> 'a kcons_scheme \<Rightarrow> ('a kcons_scheme, int option) out" where
  "consoleread_loop 0 user_dst dst n target s = Diverge"
| "consoleread_loop (Suc k) user_dst dst n target s =
     (if n > 0 then
        bnd (cons_wait (patience s) s) (\<lambda>ok s.
        if \<not> ok then Ok None s
        else
          let c = cons_at (cons_r s) s;
              s = s\<lparr>cons_r := cons_r s + 1\<rparr>
          in if uint c = ctrl CHR ''D''
             then Ok (Some n) (if n < target then s\<lparr>cons_r := cons_r s - 1\<rparr> else s)
             else bnd (either_copyout user_dst dst [c] s) (\<lambda>r s.
               if r = - 1 then Ok (Some n) s
               else if c = 10 then Ok (Some (n - 1)) s
               else consoleread_loop k user_dst (dst + 1) (n - 1) target s))
      else Ok (Some n) s)"

definition consoleread :: "bool \<Rightarrow> u64 \<Rightarrow> int \<Rightarrow> 'a kcons_scheme \<Rightarrow> ('a kcons_scheme, int) out" where
  "consoleread user_dst dst n s =
     bnd (acquire ConsLock s) (\<lambda>_ s.
     bnd (consoleread_loop (Suc (nat n)) user_dst dst n n s) (\<lambda>r s.
       case r of
         None \<Rightarrow> Ok (- 1) s
       | Some m \<Rightarrow> bnd (release ConsLock s) (\<lambda>_ s. Ok (n - m) s)))"

section \<open>Interrupts\<close>

primrec kill_line :: "nat \<Rightarrow> 'a kcons_scheme \<Rightarrow> ('a kcons_scheme, unit) out" where
  "kill_line 0 s = Diverge"
| "kill_line (Suc k) s =
     (if cons_e s \<noteq> cons_w s \<and> cons_at (cons_e s - 1) s \<noteq> 10
      then bnd (consputc BACKSPACE (s\<lparr>cons_e := cons_e s - 1\<rparr>)) (\<lambda>_ s. kill_line k s)
      else Ok () s)"

text \<open>The line being edited is the part between the write and the edit index, which bounds the kill loop.\<close>

definition consoleintr :: "int \<Rightarrow> 'a kcons_scheme \<Rightarrow> ('a kcons_scheme, unit) out" where
  "consoleintr c s =
     bnd (acquire ConsLock s) (\<lambda>_ s.
     bnd (if c = ctrl CHR ''P'' then procdump s
          else if c = ctrl CHR ''U'' then kill_line (Suc (unat (cons_e s - cons_w s))) s
          else if c = ctrl CHR ''H'' \<or> c = 0x7f then
            if cons_e s \<noteq> cons_w s then consputc BACKSPACE (s\<lparr>cons_e := cons_e s - 1\<rparr>) else Ok () s
          else if c \<noteq> 0 \<and> unat (cons_e s - cons_r s) < INPUT_BUF_SIZE then
            let c = (if c = 13 then 10 else c) in
            bnd (consputc c s) (\<lambda>_ s.
            let s = s\<lparr>cons_buf := (cons_buf s)(unat (cons_e s) mod INPUT_BUF_SIZE := word_of_int c),
                      cons_e := cons_e s + 1\<rparr>
            in if c = 10 \<or> c = ctrl CHR ''D'' \<or> unat (cons_e s - cons_r s) = INPUT_BUF_SIZE
               then wakeup ChCons (s\<lparr>cons_w := cons_e s\<rparr>)
               else Ok () s)
          else Ok () s) (\<lambda>_ s.
     release ConsLock s))"

primrec uart_input :: "nat \<Rightarrow> 'a kcons_scheme \<Rightarrow> ('a kcons_scheme, unit) out" where
  "uart_input 0 s = Diverge"
| "uart_input (Suc k) s =
     (let (c, s) = uartgetc s in
      if c = - 1 then Ok () s else bnd (consoleintr c s) (\<lambda>_ s. uart_input k s))"

definition uartintr :: "'a kcons_scheme \<Rightarrow> ('a kcons_scheme, unit) out" where
  "uartintr s =
     bnd (acquire TxLock s) (\<lambda>_ s.
     let (v, s) = read_LSR s in
     bnd (if v AND LSR_TX_IDLE \<noteq> 0 then wakeup ChTx (s\<lparr>tx_busy := 0\<rparr>) else Ok () s) (\<lambda>_ s.
     bnd (release TxLock s) (\<lambda>_ s.
     uart_input (Suc (length (uart_rx s))) s)))"

definition consoleinit :: "'a kcons_scheme \<Rightarrow> 'a kcons_scheme" where
  "consoleinit s =
     (let s = initlock ConsLock s; s = uartinit s in s\<lparr>devsw := (devsw s)(CONSOLE := Some ConsoleDev)\<rparr>)"

end
