(* ===== verification/File.thy ===== *)
theory File
  imports Console
begin

text \<open>
  The rest of \<^verbatim>\<open>kernel/file.c\<close>, the operations on open files, with \<^verbatim>\<open>pipealloc\<close> of \<^verbatim>\<open>kernel/pipe.c\<close>.
\<close>

definition fileclose :: "nat \<Rightarrow> 'a kfile_scheme \<Rightarrow> ('a kfile_scheme, unit) out" where
  "fileclose f s =
     bnd (acquire FtableLock s) (\<lambda>_ s.
       if fref (files s f) < 1 then Panic ''fileclose''
       else
         let s = upd_file f (fref_update (\<lambda>r. r - 1)) s in
         if fref (files s f) > 0 then release FtableLock s
         else
           let ff = files s f;
               s = upd_file f (\<lambda>x. x\<lparr>fref := 0, ftype := FD_NONE\<rparr>) s
           in bnd (release FtableLock s) (\<lambda>_ s.
              case ftype ff of
                FD_PIPE \<Rightarrow> pipeclose (fpipe ff) (fwritable ff) s
              | FD_NONE \<Rightarrow> Ok () s
              | _ \<Rightarrow>
                  bnd (begin_op s) (\<lambda>_ s.
                  bnd (deref (fip ff) (\<lambda>ip s. iput ip s) s) (\<lambda>_ s.
                  end_op s))))"

text \<open>The bytes of a \<^verbatim>\<open>struct stat\<close>; the four bytes of padding, which the source leaves unset, are zero here.\<close>

definition le_list :: "nat \<Rightarrow> 'w::len word \<Rightarrow> u8 list" where
  "le_list n v = map (byte_of v) [0..<n]"

definition stat_bytes :: "stat \<Rightarrow> u8 list" where
  "stat_bytes st = le_list 4 (st_dev st) @ le_list 4 (st_ino st) @ le_list 2 (st_type st) @ le_list 2 (st_nlink st)
     @ replicate 4 0 @ le_list 8 (st_size st)"

definition filestat :: "nat \<Rightarrow> u64 \<Rightarrow> 'a kfile_scheme \<Rightarrow> ('a kfile_scheme, int) out" where
  "filestat f a s =
     deref (myproc s) (\<lambda>p s.
       if ftype (files s f) = FD_INODE \<or> ftype (files s f) = FD_DEVICE then
         bnd (ilock (fip (files s f)) s) (\<lambda>_ s.
         deref (fip (files s f)) (\<lambda>ip s.
           let st = stati ip s in
           bnd (iunlock (Some ip) s) (\<lambda>_ s.
           bnd (copyout (ppagetable (procs s p)) a (stat_bytes st) s) (\<lambda>r s.
           Ok (if r < 0 then - 1 else 0) s))) s)
       else Ok (- 1) s) s"

definition fileread :: "nat \<Rightarrow> u64 \<Rightarrow> int \<Rightarrow> 'a kcons_scheme \<Rightarrow> ('a kcons_scheme, int) out" where
  "fileread f a n s =
     (if \<not> freadable (files s f) then Ok (- 1) s
      else case ftype (files s f) of
        FD_PIPE \<Rightarrow> piperead (fpipe (files s f)) a n s
      | FD_DEVICE \<Rightarrow>
          let mj = sint (fmajor (files s f)) in
          if mj < 0 \<or> mj \<ge> NDEV then Ok (- 1) s
          else (case devsw s (nat mj) of None \<Rightarrow> Ok (- 1) s | Some ConsoleDev \<Rightarrow> consoleread True a n s)
      | FD_INODE \<Rightarrow>
          bnd (ilock (fip (files s f)) s) (\<lambda>_ s.
          deref (fip (files s f)) (\<lambda>ip s.
            bnd (readi ip (to_addr True a) (foff (files s f)) (word_of_int n) s) (\<lambda>(r, _) s.
            let s = (if sint r > 0 then upd_file f (foff_update (\<lambda>x. x + r)) s else s) in
            bnd (iunlock (Some ip) s) (\<lambda>_ s. Ok (sint r) s))) s)
      | FD_NONE \<Rightarrow> Panic ''fileread'')"

primrec filewrite_loop ::
  "nat \<Rightarrow> nat \<Rightarrow> u64 \<Rightarrow> int \<Rightarrow> int \<Rightarrow> 'a kfile_scheme \<Rightarrow> ('a kfile_scheme, int) out" where
  "filewrite_loop 0 f a i n s = Diverge"
| "filewrite_loop (Suc k) f a i n s =
     (if i < n then
        let mx = ((int MAXOPBLOCKS - 1 - 1 - 2) div 2) * int BSIZE;
            n1 = (if n - i > mx then mx else n - i)
        in bnd (begin_op s) (\<lambda>_ s.
           bnd (ilock (fip (files s f)) s) (\<lambda>_ s.
           deref (fip (files s f)) (\<lambda>ip s.
             bnd (writei ip (from_addr True (a + word_of_int i)) (foff (files s f)) (word_of_int n1) s) (\<lambda>r s.
             let s = (if sint r > 0 then upd_file f (foff_update (\<lambda>x. x + r)) s else s) in
             bnd (iunlock (Some ip) s) (\<lambda>_ s.
             bnd (end_op s) (\<lambda>_ s.
             if sint r \<noteq> n1 then Ok i s else filewrite_loop k f a (i + sint r) n s)))) s))
      else Ok i s)"

definition filewrite :: "nat \<Rightarrow> u64 \<Rightarrow> int \<Rightarrow> 'a kcons_scheme \<Rightarrow> ('a kcons_scheme, int) out" where
  "filewrite f a n s =
     (if \<not> fwritable (files s f) then Ok (- 1) s
      else case ftype (files s f) of
        FD_PIPE \<Rightarrow> pipewrite (fpipe (files s f)) a n s
      | FD_DEVICE \<Rightarrow>
          let mj = sint (fmajor (files s f)) in
          if mj < 0 \<or> mj \<ge> NDEV then Ok (- 1) s
          else (case devsw s (nat mj) of None \<Rightarrow> Ok (- 1) s | Some ConsoleDev \<Rightarrow> consolewrite True a n s)
      | FD_INODE \<Rightarrow>
          bnd (filewrite_loop (Suc (nat n)) f a 0 n s) (\<lambda>i s. Ok (if i = n then n else - 1) s)
      | FD_NONE \<Rightarrow> Panic ''filewrite'')"

text \<open>The result of \<^verbatim>\<open>pipealloc\<close>: the two files, or \<open>None\<close>.\<close>

definition pipealloc :: "'a kfile_scheme \<Rightarrow> ('a kfile_scheme, (nat \<times> nat) option) out" where
  "pipealloc s =
     bnd (filealloc s) (\<lambda>f0 s.
       case f0 of
         None \<Rightarrow> Ok None s
       | Some r \<Rightarrow>
           bnd (filealloc s) (\<lambda>f1 s.
             case f1 of
               None \<Rightarrow> bnd (fileclose r s) (\<lambda>_ s. Ok None s)
             | Some w \<Rightarrow>
                 bnd (kalloc s) (\<lambda>pi s.
                   if pi = 0 then
                     bnd (fileclose r s) (\<lambda>_ s. bnd (fileclose w s) (\<lambda>_ s. Ok None s))
                   else
                     let s = upd_pipe pi (\<lambda>q. q\<lparr>readopen := True, writeopen := True, nwrite := 0, nread := 0\<rparr>) s;
                         s = initlock (PipeLock pi) s;
                         s = upd_file r (\<lambda>x. x\<lparr>ftype := FD_PIPE, freadable := True, fwritable := False, fpipe := pi\<rparr>) s;
                         s = upd_file w (\<lambda>x. x\<lparr>ftype := FD_PIPE, freadable := False, fwritable := True, fpipe := pi\<rparr>) s
                     in Ok (Some (r, w)) s)))"

end
