(* ===== verification/Procfs.thy ===== *)
theory Procfs
  imports File
begin

unbundle bit_operations_syntax

text \<open>
  The rest of \<^verbatim>\<open>kernel/proc.c\<close>, which needs the file system: memory-mapped regions, the life cycle of
  processes (allocation, fork, exit, wait) and threads (clone, join), and the process listing.
  The trapframe of a process is its page in memory, read and written at the offsets of the structure.
\<close>

section \<open>Memory-mapped regions\<close>

primrec vma_writeback_loop ::
  "nat \<Rightarrow> vma \<Rightarrow> nat \<Rightarrow> addr \<Rightarrow> u64 \<Rightarrow> u64 \<Rightarrow> 'a kfile_scheme \<Rightarrow> ('a kfile_scheme, unit) out" where
  "vma_writeback_loop 0 v f pagetable a lim s = Diverge"
| "vma_writeback_loop (Suc k) v f pagetable a lim s =
     (if a < lim then
        bnd (walk pagetable a False s) (\<lambda>pte s.
        if pte = 0 \<or> load64 (mem s) pte AND PTE_V = 0
        then vma_writeback_loop k v f pagetable (a + PGSIZE) lim s
        else
          let pa = PTE2PA (load64 (mem s) pte);
              off = voff v + (a - vaddr v)
          in bnd (begin_op s) (\<lambda>_ s.
             bnd (ilock (fip (files s f)) s) (\<lambda>_ s.
             deref (fip (files s f)) (\<lambda>ip s.
               bnd (writei ip (from_addr True pa) (ucast off) (ucast PGSIZE) s) (\<lambda>_ s.
               bnd (iunlock (Some ip) s) (\<lambda>_ s.
               bnd (end_op s) (\<lambda>_ s.
               vma_writeback_loop k v f pagetable (a + PGSIZE) lim s)))) s)))
      else Ok () s)"

definition vma_writeback :: "vma \<Rightarrow> addr \<Rightarrow> u64 \<Rightarrow> u64 \<Rightarrow> 'a kfile_scheme \<Rightarrow> ('a kfile_scheme, unit) out" where
  "vma_writeback v pagetable start lim s =
     (case vfile v of
        None \<Rightarrow> Ok () s
      | Some f \<Rightarrow>
          if vflags v AND MAP_SHARED = 0 then Ok () s
          else if vprot v AND PROT_WRITE = 0 then Ok () s
          else vma_writeback_loop (unat ((lim - start) div PGSIZE) + 2) v f pagetable start lim s)"

abbreviation upd_vma :: "nat \<Rightarrow> nat \<Rightarrow> (vma \<Rightarrow> vma) \<Rightarrow> 'a kproc_scheme \<Rightarrow> 'a kproc_scheme" where
  "upd_vma p i g s \<equiv> upd_proc p (vmas_update (\<lambda>t. t(i := g (t i)))) s"

text \<open>One turn of the loop of \<^verbatim>\<open>proc_munmap\<close>; the result says whether it changed a region, or the return value of the routine.\<close>

definition munmap_step ::
  "nat \<Rightarrow> u64 \<Rightarrow> u64 \<Rightarrow> nat \<Rightarrow> 'a kfile_scheme \<Rightarrow> ('a kfile_scheme, int + bool) out" where
  "munmap_step p a lim i s =
     (let v = vmas (procs s p) i in
      if \<not> vused v then Ok (Inr False) s
      else
        let vstart = vaddr v; vend = vaddr v + vlen v in
        if lim \<le> vstart \<or> a \<ge> vend then Ok (Inr False) s
        else
          let us = (if a > vstart then a else vstart);
              ue = (if lim < vend then lim else vend)
          in if us > vstart \<and> ue < vend then Ok (Inl (- 1)) s
             else
               bnd (vma_writeback v (ppagetable (procs s p)) us ue s) (\<lambda>_ s.
               bnd (uvmunmap (ppagetable (procs s p)) us ((ue - us) div PGSIZE) True s) (\<lambda>_ s.
               if us = vstart \<and> ue = vend then
                 bnd (case vfile (vmas (procs s p) i) of None \<Rightarrow> Ok () s | Some f \<Rightarrow> fileclose f s) (\<lambda>_ s.
                 Ok (Inr True) (upd_vma p i (\<lambda>_. empty_vma) s))
               else if us = vstart then
                 Ok (Inr True) (upd_vma p i (\<lambda>v. v\<lparr>vaddr := ue, voff := voff v + (ue - us), vlen := vend - ue\<rparr>) s)
               else if ue = vend then
                 Ok (Inr True) (upd_vma p i (\<lambda>v. v\<lparr>vlen := us - vstart\<rparr>) s)
               else Ok (Inr True) s)))"

primrec munmap_loop ::
  "nat list \<Rightarrow> nat \<Rightarrow> u64 \<Rightarrow> u64 \<Rightarrow> bool \<Rightarrow> 'a kfile_scheme \<Rightarrow> ('a kfile_scheme, int) out" where
  "munmap_loop [] p a lim changed s = Ok (if changed then 0 else - 1) s"
| "munmap_loop (i # is') p a lim changed s =
     bnd (munmap_step p a lim i s) (\<lambda>r s.
       case r of Inl x \<Rightarrow> Ok x s | Inr c \<Rightarrow> munmap_loop is' p a lim (changed \<or> c) s)"

definition proc_munmap :: "nat \<Rightarrow> u64 \<Rightarrow> u64 \<Rightarrow> 'a kfile_scheme \<Rightarrow> ('a kfile_scheme, int) out" where
  "proc_munmap p a len s =
     (if a mod PGSIZE \<noteq> 0 \<or> len = 0 \<or> a + len < a then Ok (- 1) s
      else munmap_loop [0..<MAXVMA] p a (a + len) False s)"

definition proc_unmap_vmas :: "nat \<Rightarrow> addr \<Rightarrow> bool \<Rightarrow> 'a kfile_scheme \<Rightarrow> ('a kfile_scheme, unit) out" where
  "proc_unmap_vmas p pagetable close_files s =
     foreach [0..<MAXVMA] (\<lambda>i s.
       let v = vmas (procs s p) i in
       if \<not> vused v then Ok () s
       else
         bnd (if pagetable \<noteq> 0 then
                bnd (vma_writeback v pagetable (vaddr v) (vaddr v + vlen v) s) (\<lambda>_ s.
                uvmunmap pagetable (vaddr v) (vlen v div PGSIZE) True s)
              else Ok () s) (\<lambda>_ s.
         bnd (case vfile v of
                Some f \<Rightarrow> if close_files then fileclose f s else Ok () s
              | None \<Rightarrow> Ok () s) (\<lambda>_ s.
         Ok () (upd_vma p i (\<lambda>_. empty_vma) s)))) s"

section \<open>Allocating and freeing processes\<close>

definition proc_pagetable :: "nat \<Rightarrow> 'a kproc_scheme \<Rightarrow> ('a kproc_scheme, addr) out" where
  "proc_pagetable p s =
     bnd (uvmcreate s) (\<lambda>pagetable s.
       if pagetable = 0 then Ok 0 s
       else
         bnd (mappages pagetable TRAMPOLINE PGSIZE (trampoline s) (PTE_R OR PTE_X) s) (\<lambda>r s.
         if r < 0 then bnd (uvmfree pagetable 0 s) (\<lambda>_ s. Ok 0 s)
         else
           bnd (mappages pagetable (TRAPFRAME p) PGSIZE (trapframe (procs s p)) (PTE_R OR PTE_W) s) (\<lambda>r s.
           if r < 0 then
             bnd (uvmunmap pagetable TRAMPOLINE 1 False s) (\<lambda>_ s.
             bnd (uvmfree pagetable 0 s) (\<lambda>_ s. Ok 0 s))
           else Ok pagetable s)))"

definition proc_freepagetable :: "addr \<Rightarrow> u64 \<Rightarrow> nat \<Rightarrow> 'a kproc_scheme \<Rightarrow> ('a kproc_scheme, unit) out" where
  "proc_freepagetable pagetable sz idx s =
     bnd (uvmunmap pagetable TRAMPOLINE 1 False s) (\<lambda>_ s.
     bnd (uvmunmap pagetable (TRAPFRAME idx) 1 False s) (\<lambda>_ s.
     uvmfree pagetable sz s))"

definition freeproc :: "nat \<Rightarrow> 'a kfile_scheme \<Rightarrow> ('a kfile_scheme, unit) out" where
  "freeproc p s =
     bnd (if trapframe (procs s p) \<noteq> 0 then kfree (trapframe (procs s p)) s else Ok () s) (\<lambda>_ s.
     let s = upd_proc p (trapframe_update (\<lambda>_. 0)) s in
     bnd (if ppagetable (procs s p) \<noteq> 0 then
            if pid (procs s p) = tgid (procs s p) then
              bnd (proc_unmap_vmas p (ppagetable (procs s p)) True s) (\<lambda>_ s.
              proc_freepagetable (ppagetable (procs s p)) (psz (procs s p)) p s)
            else
              bnd (proc_unmap_vmas p 0 True s) (\<lambda>_ s.
              uvmunmap (ppagetable (procs s p)) (TRAPFRAME p) 1 False s)
          else Ok () s) (\<lambda>_ s.
     Ok () (upd_proc p (\<lambda>pr. pr\<lparr>ppagetable := 0, psz := 0, pid := 0, parent := None, pname := (pname pr)(0 := 0),
       pchan := ChNull, pkilled := 0, xstate := 0, pstate := UNUSED\<rparr>) s)))"

definition allocproc :: "'a kfile_scheme \<Rightarrow> ('a kfile_scheme, nat option) out" where
  "allocproc s =
     bnd (forret [0..<NPROC] (\<lambda>p s.
       bnd (acquire (ProcLock p) s) (\<lambda>_ s.
         if pstate (procs s p) = UNUSED then Ok (Some p) s
         else bnd (release (ProcLock p) s) (\<lambda>_ s. Ok None s))) s) (\<lambda>r s.
     case r of
       None \<Rightarrow> Ok None s
     | Some p \<Rightarrow>
         bnd (allocpid s) (\<lambda>pd s.
         let s = upd_proc p (\<lambda>pr. pr\<lparr>pid := pd, tgid := pd, pstate := USED, thread_count := 1\<rparr>) s;
             s = proc_vma_init p s;
             s = upd_proc p (\<lambda>pr. pr\<lparr>priority := 0, ticks_used := 0\<rparr>) s
         in bnd (kalloc s) (\<lambda>tf s.
            let s = upd_proc p (trapframe_update (\<lambda>_. tf)) s in
            if tf = 0 then
              bnd (freeproc p s) (\<lambda>_ s. bnd (release (ProcLock p) s) (\<lambda>_ s. Ok None s))
            else
              bnd (proc_pagetable p s) (\<lambda>pt s.
              let s = upd_proc p (ppagetable_update (\<lambda>_. pt)) s in
              if pt = 0 then
                bnd (freeproc p s) (\<lambda>_ s. bnd (release (ProcLock p) s) (\<lambda>_ s. Ok None s))
              else
                Ok (Some p) (upd_proc p (\<lambda>pr. pr\<lparr>pcontext := \<lparr>ctx_ra = Forkret, ctx_sp = kstack pr + PGSIZE\<rparr>\<rparr>) s)))))"

definition userinit :: "'a kfile_scheme \<Rightarrow> ('a kfile_scheme, unit) out" where
  "userinit s =
     bnd (allocproc s) (\<lambda>q s.
     let s = s\<lparr>initproc := q\<rparr> in
     bnd (namei [slash] s) (\<lambda>d s.
     deref q (\<lambda>p s.
       release (ProcLock p) (upd_proc p (\<lambda>pr. pr\<lparr>cwd := d, pstate := RUNNABLE\<rparr>) s)) s))"

definition growproc :: "int \<Rightarrow> 'a kproc_scheme \<Rightarrow> ('a kproc_scheme, int) out" where
  "growproc n s =
     deref (myproc s) (\<lambda>p s.
       let sz = psz (procs s p) in
       bnd (if n > 0 then
              if sz + word_of_int n > TRAPFRAME NPROC then Ok None s
              else
                bnd (uvmalloc (ppagetable (procs s p)) sz (sz + word_of_int n) PTE_W s) (\<lambda>sz s.
                Ok (if sz = 0 then None else Some sz) s)
            else if n < 0 then
              bnd (uvmdealloc (ppagetable (procs s p)) sz (sz + word_of_int n) s) (\<lambda>sz s. Ok (Some sz) s)
            else Ok (Some sz) s) (\<lambda>r s.
       case r of
         None \<Rightarrow> Ok (- 1) s
       | Some sz \<Rightarrow> bnd (update_sz (tgid (procs s p)) sz s) (\<lambda>_ s. Ok 0 s))) s"

section \<open>Fork, clone\<close>

text \<open>Offsets in the trapframe.\<close>

definition tf_epc :: u64 where "tf_epc = 24"
definition tf_sp :: u64 where "tf_sp = 48"
definition tf_a :: "nat \<Rightarrow> u64" where "tf_a i = 112 + 8 * of_nat i"

abbreviation set_tf :: "nat \<Rightarrow> u64 \<Rightarrow> u64 \<Rightarrow> 'a kproc_scheme \<Rightarrow> 'a kproc_scheme" where
  "set_tf p o' v s \<equiv> s\<lparr>mem := store64 (mem s) (trapframe (procs s p) + o') v\<rparr>"

abbreviation get_tf :: "nat \<Rightarrow> u64 \<Rightarrow> 'a kproc_scheme \<Rightarrow> u64" where
  "get_tf p o' s \<equiv> load64 (mem s) (trapframe (procs s p) + o')"

text \<open>The part that \<^verbatim>\<open>kfork\<close> and \<^verbatim>\<open>clone\<close> have in common: open files, directory, regions and name.\<close>

definition dup_files :: "nat \<Rightarrow> nat \<Rightarrow> 'a kfile_scheme \<Rightarrow> ('a kfile_scheme, unit) out" where
  "dup_files p np s =
     bnd (foreach [0..<NOFILE] (\<lambda>i s.
       case ofile (procs s p) i of
         None \<Rightarrow> Ok () s
       | Some f \<Rightarrow> bnd (filedup f s) (\<lambda>f s. Ok () (upd_proc np (ofile_update (\<lambda>t. t(i := Some f))) s))) s) (\<lambda>_ s.
     bnd (deref (cwd (procs s p)) (\<lambda>d s. idup d s) s) (\<lambda>d s.
     let s = upd_proc np (cwd_update (\<lambda>_. Some d)) s in
     bnd (foreach [0..<MAXVMA] (\<lambda>i s.
       if \<not> vused (vmas (procs s p) i) then Ok () s
       else
         let s = upd_proc np (vmas_update (\<lambda>t. t(i := vmas (procs s p) i))) s in
         case vfile (vmas (procs s np) i) of
           None \<Rightarrow> Ok () s
         | Some f \<Rightarrow> bnd (filedup f s) (\<lambda>_ s. Ok () s)) s) (\<lambda>_ s.
     Ok () (upd_proc np (pname_update (\<lambda>t. safestrcpy t (pname (procs s p)) 16)) s))))"

definition kfork :: "'a kfile_scheme \<Rightarrow> ('a kfile_scheme, int) out" where
  "kfork s =
     deref (myproc s) (\<lambda>p s.
       if pid (procs s p) \<noteq> tgid (procs s p) then Ok (- 1) s
       else
         bnd (allocproc s) (\<lambda>q s.
         case q of
           None \<Rightarrow> Ok (- 1) s
         | Some np \<Rightarrow>
             bnd (uvmcopy (ppagetable (procs s p)) (ppagetable (procs s np)) (psz (procs s p)) s) (\<lambda>r s.
             if r < 0 then
               bnd (freeproc np s) (\<lambda>_ s. bnd (release (ProcLock np) s) (\<lambda>_ s. Ok (- 1) s))
             else
               let s = upd_proc np (psz_update (\<lambda>_. psz (procs s p))) s;
                   s = s\<lparr>mem := memmove (mem s) (trapframe (procs s np)) (trapframe (procs s p)) 288\<rparr>;
                   s = set_tf np (tf_a 0) 0 s
               in bnd (dup_files p np s) (\<lambda>_ s.
                  let pd = pid (procs s np) in
                  bnd (release (ProcLock np) s) (\<lambda>_ s.
                  bnd (acquire WaitLock s) (\<lambda>_ s.
                  bnd (release WaitLock (upd_proc np (parent_update (\<lambda>_. Some p)) s)) (\<lambda>_ s.
                  bnd (acquire (ProcLock np) s) (\<lambda>_ s.
                  bnd (release (ProcLock np) (upd_proc np (pstate_update (\<lambda>_. RUNNABLE)) s)) (\<lambda>_ s.
                  Ok pd s))))))))) s"

definition clone :: "u64 \<Rightarrow> u64 \<Rightarrow> u64 \<Rightarrow> 'a kfile_scheme \<Rightarrow> ('a kfile_scheme, int) out" where
  "clone fn arg stack s =
     deref (myproc s) (\<lambda>p s.
       if pid (procs s p) \<noteq> tgid (procs s p) then Ok (- 1) s
       else
         bnd (allocproc s) (\<lambda>q s.
         case q of
           None \<Rightarrow> Ok (- 1) s
         | Some np \<Rightarrow>
             let s = upd_proc np (\<lambda>pr. pr\<lparr>ppagetable := ppagetable (procs s p), psz := psz (procs s p)\<rparr>) s in
             bnd (mappages (ppagetable (procs s np)) (TRAPFRAME np) PGSIZE (trapframe (procs s np)) (PTE_R OR PTE_W) s) (\<lambda>_ s.
             let s = s\<lparr>mem := memmove (mem s) (trapframe (procs s np)) (trapframe (procs s p)) 288\<rparr>;
                 s = set_tf np tf_sp stack s;
                 s = set_tf np (tf_a 0) arg s;
                 s = set_tf np tf_epc fn s
             in bnd (dup_files p np s) (\<lambda>_ s.
                let pd = pid (procs s np) in
                bnd (release (ProcLock np) s) (\<lambda>_ s.
                bnd (acquire WaitLock s) (\<lambda>_ s.
                bnd (release WaitLock (upd_proc np (parent_update (\<lambda>_. Some p)) s)) (\<lambda>_ s.
                bnd (acquire (ProcLock np) s) (\<lambda>_ s.
                bnd (release (ProcLock np) (upd_proc np (pstate_update (\<lambda>_. RUNNABLE)) s)) (\<lambda>_ s.
                let s = upd_proc p (thread_count_update (\<lambda>c. c + 1)) s;
                    s = upd_proc np (tgid_update (\<lambda>_. tgid (procs s p))) s
                in Ok pd s))))))))) s"

section \<open>Exit and wait\<close>

definition proc_chan :: "nat option \<Rightarrow> chan" where
  "proc_chan q = (case q of None \<Rightarrow> ChNull | Some p \<Rightarrow> ChProc p)"

definition close_all :: "nat \<Rightarrow> 'a kfile_scheme \<Rightarrow> ('a kfile_scheme, unit) out" where
  "close_all p s =
     foreach [0..<NOFILE] (\<lambda>fd s.
       case ofile (procs s p) fd of
         None \<Rightarrow> Ok () s
       | Some f \<Rightarrow> bnd (fileclose f s) (\<lambda>_ s. Ok () (upd_proc p (ofile_update (\<lambda>t. t(fd := None))) s))) s"

definition reparent :: "nat \<Rightarrow> 'a kfile_scheme \<Rightarrow> ('a kfile_scheme, unit) out" where
  "reparent p s =
     foreach [0..<NPROC] (\<lambda>pp s.
       if parent (procs s pp) = Some p then
         let s = upd_proc pp (parent_update (\<lambda>_. initproc s)) s in
         if tgid (procs s pp) = pid (procs s p) then
           bnd (acquire (ProcLock pp) s) (\<lambda>_ s.
           bnd (close_all pp s) (\<lambda>_ s.
           bnd (case cwd (procs s pp) of
                  None \<Rightarrow> Ok () s
                | Some d \<Rightarrow>
                    bnd (begin_op s) (\<lambda>_ s.
                    bnd (iput d s) (\<lambda>_ s.
                    bnd (end_op s) (\<lambda>_ s.
                    Ok () (upd_proc pp (cwd_update (\<lambda>_. None)) s))))) (\<lambda>_ s.
           bnd (freeproc pp s) (\<lambda>_ s.
           bnd (release (ProcLock pp) s) (\<lambda>_ s.
           Ok () (upd_proc p (thread_count_update (\<lambda>c. c - 1)) s))))))
         else wakeup (proc_chan (initproc s)) s
       else Ok () s) s"

definition kexit :: "int \<Rightarrow> 'a kfile_scheme \<Rightarrow> ('a kfile_scheme, unit) out" where
  "kexit status s =
     (if myproc s = initproc s then Panic ''init exiting''
      else deref (myproc s) (\<lambda>p s.
        bnd (close_all p s) (\<lambda>_ s.
        bnd (begin_op s) (\<lambda>_ s.
        bnd (deref (cwd (procs s p)) (\<lambda>d s. iput d s) s) (\<lambda>_ s.
        bnd (end_op s) (\<lambda>_ s.
        let s = upd_proc p (cwd_update (\<lambda>_. None)) s in
        bnd (acquire WaitLock s) (\<lambda>_ s.
        bnd (reparent p s) (\<lambda>_ s.
        bnd (wakeup (proc_chan (parent (procs s p))) s) (\<lambda>_ s.
        bnd (acquire (ProcLock p) s) (\<lambda>_ s.
        let s = upd_proc p (\<lambda>pr. pr\<lparr>xstate := status, pstate := ZOMBIE\<rparr>) s in
        bnd (release WaitLock s) (\<lambda>_ s.
        bnd (sched s) (\<lambda>_ s.
        Panic ''zombie exit''))))))))))) s)"

text \<open>
  One scan of the process table for \<^verbatim>\<open>kwait\<close> and for \<^verbatim>\<open>join\<close>. The result is the return value of the
  routine, when the scan decides it, or whether there are children.
\<close>

primrec kwait_scan ::
  "nat list \<Rightarrow> nat \<Rightarrow> u64 \<Rightarrow> bool \<Rightarrow> 'a kfile_scheme \<Rightarrow> ('a kfile_scheme, int + bool) out" where
  "kwait_scan [] p a havekids s = Ok (Inr havekids) s"
| "kwait_scan (pp # ps) p a havekids s =
     (if parent (procs s pp) = Some p then
        bnd (acquire (ProcLock pp) s) (\<lambda>_ s.
        if tgid (procs s pp) = pid (procs s p) then
          bnd (release (ProcLock pp) s) (\<lambda>_ s. kwait_scan ps p a havekids s)
        else if pstate (procs s pp) = ZOMBIE then
          let pd = pid (procs s pp) in
          bnd (if a \<noteq> 0
               then copyout (ppagetable (procs s p)) a (le_list 4 (word_of_int (xstate (procs s pp)) :: u32)) s
               else Ok 0 s) (\<lambda>r s.
          if r < 0 then
            bnd (release (ProcLock pp) s) (\<lambda>_ s. bnd (release WaitLock s) (\<lambda>_ s. Ok (Inl (- 1)) s))
          else
            bnd (freeproc pp s) (\<lambda>_ s.
            bnd (release (ProcLock pp) s) (\<lambda>_ s.
            bnd (release WaitLock s) (\<lambda>_ s. Ok (Inl pd) s))))
        else bnd (release (ProcLock pp) s) (\<lambda>_ s. kwait_scan ps p a True s))
      else kwait_scan ps p a havekids s)"

primrec kwait_loop :: "nat \<Rightarrow> nat \<Rightarrow> u64 \<Rightarrow> 'a kfile_scheme \<Rightarrow> ('a kfile_scheme, int) out" where
  "kwait_loop 0 p a s = Diverge"
| "kwait_loop (Suc k) p a s =
     bnd (kwait_scan [0..<NPROC] p a False s) (\<lambda>r s.
       case r of
         Inl v \<Rightarrow> Ok v s
       | Inr havekids \<Rightarrow>
           bnd (if \<not> havekids then Ok True s else bnd (killed p s) (\<lambda>d s. Ok (d \<noteq> 0) s)) (\<lambda>quit s.
           if quit then bnd (release WaitLock s) (\<lambda>_ s. Ok (- 1) s)
           else bnd (sleep (ChProc p) WaitLock s) (\<lambda>_ s. kwait_loop k p a s)))"

definition kwait :: "u64 \<Rightarrow> 'a kfile_scheme \<Rightarrow> ('a kfile_scheme, int) out" where
  "kwait a s =
     deref (myproc s) (\<lambda>p s.
       bnd (acquire WaitLock s) (\<lambda>_ s. kwait_loop (patience s) p a s)) s"

primrec join_scan ::
  "nat list \<Rightarrow> nat \<Rightarrow> bool \<Rightarrow> 'a kfile_scheme \<Rightarrow> ('a kfile_scheme, int + bool) out" where
  "join_scan [] p havekids s = Ok (Inr havekids) s"
| "join_scan (pp # ps) p havekids s =
     (if parent (procs s pp) = Some p then
        bnd (acquire (ProcLock pp) s) (\<lambda>_ s.
        if tgid (procs s pp) \<noteq> pid (procs s p) then
          bnd (release (ProcLock pp) s) (\<lambda>_ s. join_scan ps p havekids s)
        else if pstate (procs s pp) = ZOMBIE then
          let pd = pid (procs s pp) in
          bnd (freeproc pp s) (\<lambda>_ s.
          bnd (release (ProcLock pp) s) (\<lambda>_ s.
          bnd (release WaitLock s) (\<lambda>_ s.
          Ok (Inl pd) (upd_proc p (thread_count_update (\<lambda>c. c - 1)) s))))
        else bnd (release (ProcLock pp) s) (\<lambda>_ s. join_scan ps p True s))
      else join_scan ps p havekids s)"

primrec join_loop :: "nat \<Rightarrow> nat \<Rightarrow> 'a kfile_scheme \<Rightarrow> ('a kfile_scheme, int) out" where
  "join_loop 0 p s = Diverge"
| "join_loop (Suc k) p s =
     bnd (join_scan [0..<NPROC] p False s) (\<lambda>r s.
       case r of
         Inl v \<Rightarrow> Ok v s
       | Inr havekids \<Rightarrow>
           bnd (if \<not> havekids then Ok True s else bnd (killed p s) (\<lambda>d s. Ok (d \<noteq> 0) s)) (\<lambda>quit s.
           if quit then bnd (release WaitLock s) (\<lambda>_ s. Ok (- 1) s)
           else bnd (sleep (ChProc p) WaitLock s) (\<lambda>_ s. join_loop k p s)))"

definition join :: "'a kfile_scheme \<Rightarrow> ('a kfile_scheme, int) out" where
  "join s =
     deref (myproc s) (\<lambda>p s.
       bnd (acquire WaitLock s) (\<lambda>_ s. join_loop (patience s) p s)) s"

section \<open>Listing\<close>

definition state_num :: "procstate \<Rightarrow> u32" where
  "state_num st = (case st of UNUSED \<Rightarrow> 0 | USED \<Rightarrow> 1 | SLEEPING \<Rightarrow> 2 | RUNNABLE \<Rightarrow> 3 | RUNNING \<Rightarrow> 4 | ZOMBIE \<Rightarrow> 5)"

text \<open>The bytes of a \<^verbatim>\<open>struct procinfo\<close>; the padding after the priority, and the name past its terminator, are unset in the source and zero here.\<close>

definition procinfo_bytes :: "proc \<Rightarrow> u8 list" where
  "procinfo_bytes pr =
     le_list 4 (word_of_int (pid pr) :: u32) @ le_list 4 (state_num (pstate pr)) @
     le_list 4 (word_of_int (priority pr) :: u32) @ replicate 4 0 @ le_list 8 (psz pr) @
     map (safestrcpy (\<lambda>_. 0) (pname pr) 16) [0..<16]"

primrec getprocs_loop ::
  "nat list \<Rightarrow> nat \<Rightarrow> u64 \<Rightarrow> int \<Rightarrow> int \<Rightarrow> 'a kfile_scheme \<Rightarrow> ('a kfile_scheme, int) out" where
  "getprocs_loop [] curp a mx count s = Ok count s"
| "getprocs_loop (p # ps) curp a mx count s =
     (if count < mx then
        bnd (acquire (ProcLock p) s) (\<lambda>_ s.
        let info = procinfo_bytes (procs s p); used = (pstate (procs s p) \<noteq> UNUSED) in
        bnd (release (ProcLock p) s) (\<lambda>_ s.
        if used then
          bnd (copyout (ppagetable (procs s curp)) (a + word_of_int (count * 40)) info s) (\<lambda>r s.
          if r < 0 then Ok (- 1) s else getprocs_loop ps curp a mx (count + 1) s)
        else getprocs_loop ps curp a mx count s))
      else Ok count s)"

definition getprocs :: "u64 \<Rightarrow> int \<Rightarrow> 'a kfile_scheme \<Rightarrow> ('a kfile_scheme, int) out" where
  "getprocs a mx s = deref (myproc s) (\<lambda>p s. getprocs_loop [0..<NPROC] p a mx 0 s) s"

end
