(* ===== verification/Exec.thy ===== *)
theory Exec
  imports Procfs
begin

unbundle bit_operations_syntax

text \<open>
  \<^verbatim>\<open>kernel/exec.c\<close>: loading an ELF program into a new address space. The structures of \<^verbatim>\<open>kernel/elf.h\<close> are
  read from their bytes. The argument strings are the bytes before their terminators.
\<close>

definition ELF_MAGIC :: u32 where "ELF_MAGIC = 0x464C457F"
definition ELF_PROG_LOAD :: u32 where "ELF_PROG_LOAD = 1"

definition get16 :: "u8 list \<Rightarrow> nat \<Rightarrow> u16" where "get16 bs o' = le_bytes 2 (\<lambda>i. nth0 bs (o' + i))"
definition get32 :: "u8 list \<Rightarrow> nat \<Rightarrow> u32" where "get32 bs o' = le_bytes 4 (\<lambda>i. nth0 bs (o' + i))"
definition get64 :: "u8 list \<Rightarrow> nat \<Rightarrow> u64" where "get64 bs o' = le_bytes 8 (\<lambda>i. nth0 bs (o' + i))"

record elfhdr =
  e_magic :: u32
  e_entry :: u64
  e_phoff :: u64
  e_phnum :: u16

definition get_elfhdr :: "u8 list \<Rightarrow> elfhdr" where
  "get_elfhdr bs = \<lparr>e_magic = get32 bs 0, e_entry = get64 bs 24, e_phoff = get64 bs 32, e_phnum = get16 bs 56\<rparr>"

record proghdr =
  ph_type :: u32
  ph_flags :: u32
  ph_off :: u64
  ph_vaddr :: u64
  ph_filesz :: u64
  ph_memsz :: u64

definition get_proghdr :: "u8 list \<Rightarrow> proghdr" where
  "get_proghdr bs = \<lparr>ph_type = get32 bs 0, ph_flags = get32 bs 4, ph_off = get64 bs 8, ph_vaddr = get64 bs 16,
     ph_filesz = get64 bs 32, ph_memsz = get64 bs 40\<rparr>"

definition flags2perm :: "u32 \<Rightarrow> u64" where
  "flags2perm flags =
     (let perm = (if flags AND 0x1 \<noteq> 0 then PTE_X else 0)
      in if flags AND 0x2 \<noteq> 0 then perm OR PTE_W else perm)"

primrec loadseg_loop ::
  "nat \<Rightarrow> addr \<Rightarrow> u64 \<Rightarrow> nat \<Rightarrow> u32 \<Rightarrow> u32 \<Rightarrow> u32 \<Rightarrow> 'a kfile_scheme \<Rightarrow> ('a kfile_scheme, int) out" where
  "loadseg_loop 0 pagetable va ip offset sz i s = Diverge"
| "loadseg_loop (Suc k) pagetable va ip offset sz i s =
     (if i < sz then
        bnd (walkaddr pagetable (va + ucast i) s) (\<lambda>pa s.
        if pa = 0 then Panic ''loadseg: address should exist''
        else
          let n = (if sz - i < ucast PGSIZE then sz - i else ucast PGSIZE) in
          bnd (readi ip (to_kaddr pa) (offset + i) n s) (\<lambda>(r, _) s.
          if r \<noteq> n then Ok (- 1) s
          else loadseg_loop k pagetable va ip offset sz (i + ucast PGSIZE) s))
      else Ok 0 s)"

text \<open>The index advances by a page per turn. A size in the last page below \<open>2 ^ 32\<close> makes it wrap; the bound then runs out, as the source's loop does not end.\<close>

definition loadseg ::
  "addr \<Rightarrow> u64 \<Rightarrow> nat \<Rightarrow> u32 \<Rightarrow> u32 \<Rightarrow> 'a kfile_scheme \<Rightarrow> ('a kfile_scheme, int) out" where
  "loadseg pagetable va ip offset sz s = loadseg_loop (unat sz div 4096 + 3) pagetable va ip offset sz 0 s"

text \<open>The loop over the program headers. The result is the size so far and whether all went well.\<close>

primrec load_program ::
  "nat \<Rightarrow> addr \<Rightarrow> nat \<Rightarrow> u32 \<Rightarrow> u64 \<Rightarrow> 'a kfile_scheme \<Rightarrow> ('a kfile_scheme, u64 \<times> bool) out" where
  "load_program 0 pagetable ip off sz s = Ok (sz, True) s"
| "load_program (Suc k) pagetable ip off sz s =
     bnd (readi ip to_local off 56 s) (\<lambda>(r, bs) s.
     let ph = get_proghdr bs in
     if r \<noteq> 56 then Ok (sz, False) s
     else if ph_type ph \<noteq> ELF_PROG_LOAD then load_program k pagetable ip (off + 56) sz s
     else if ph_memsz ph < ph_filesz ph then Ok (sz, False) s
     else if ph_vaddr ph + ph_memsz ph < ph_vaddr ph then Ok (sz, False) s
     else if ph_vaddr ph mod PGSIZE \<noteq> 0 then Ok (sz, False) s
     else
       bnd (uvmalloc pagetable sz (ph_vaddr ph + ph_memsz ph) (flags2perm (ph_flags ph)) s) (\<lambda>sz1 s.
       if sz1 = 0 then Ok (sz, False) s
       else
         bnd (loadseg pagetable (ph_vaddr ph) ip (ucast (ph_off ph)) (ucast (ph_filesz ph)) s) (\<lambda>r s.
         if r < 0 then Ok (sz1, False) s
         else load_program k pagetable ip (off + 56) sz1 s)))"

text \<open>The argument strings, pushed one below the other; the result is the stack pointer and the addresses.\<close>

definition align16 :: "u64 \<Rightarrow> u64" where "align16 sp = sp - sp mod 16"

primrec push_args ::
  "u8 list list \<Rightarrow> addr \<Rightarrow> u64 \<Rightarrow> u64 \<Rightarrow> u64 list \<Rightarrow> 'a kfile_scheme \<Rightarrow> ('a kfile_scheme, (u64 \<times> u64 list) option) out" where
  "push_args [] pagetable stackbase sp ustack s = Ok (Some (sp, ustack)) s"
| "push_args (a # as') pagetable stackbase sp ustack s =
     (if length ustack \<ge> MAXARG then Ok None s
      else
        let sp = align16 (sp - of_nat (length a + 1)) in
        if sp < stackbase then Ok None s
        else
          bnd (copyout pagetable sp (a @ [0]) s) (\<lambda>r s.
          if r < 0 then Ok None s else push_args as' pagetable stackbase sp (ustack @ [sp]) s))"

definition exec_bad ::
  "addr \<Rightarrow> u64 \<Rightarrow> nat option \<Rightarrow> nat \<Rightarrow> 'a kfile_scheme \<Rightarrow> ('a kfile_scheme, int) out" where
  "exec_bad pagetable sz ipo p s =
     bnd (if pagetable \<noteq> 0 then proc_freepagetable pagetable sz p s else Ok () s) (\<lambda>_ s.
     bnd (case ipo of None \<Rightarrow> Ok () s | Some ip \<Rightarrow> bnd (iunlockput ip s) (\<lambda>_ s. end_op s)) (\<lambda>_ s.
     Ok (- 1) s))"

definition path_last :: "u8 list \<Rightarrow> u8 list" where
  "path_last path = rev (takeWhile (\<lambda>c. c \<noteq> slash) (rev path))"

text \<open>The second half of \<^verbatim>\<open>kexec\<close>: the stack, the arguments, and the switch to the new image.\<close>

definition exec_stack ::
  "nat \<Rightarrow> u8 list \<Rightarrow> u8 list list \<Rightarrow> addr \<Rightarrow> u64 \<Rightarrow> u64 \<Rightarrow> 'a kfile_scheme \<Rightarrow> ('a kfile_scheme, int) out" where
  "exec_stack p path argv pagetable entry sz s =
     (let oldsz = psz (procs s p); sz = PGROUNDUP sz in
      bnd (uvmalloc pagetable sz (sz + (USERSTACK + 1) * PGSIZE) PTE_W s) (\<lambda>sz1 s.
      if sz1 = 0 then exec_bad pagetable sz None p s
      else
        bnd (uvmclear pagetable (sz1 - (USERSTACK + 1) * PGSIZE) s) (\<lambda>_ s.
        let stackbase = sz1 - USERSTACK * PGSIZE in
        bnd (push_args argv pagetable stackbase sz1 [] s) (\<lambda>r s.
        case r of
          None \<Rightarrow> exec_bad pagetable sz1 None p s
        | Some (sp, ustack) \<Rightarrow>
            let argc = length ustack;
                sp = align16 (sp - of_nat ((argc + 1) * 8))
            in if sp < stackbase then exec_bad pagetable sz1 None p s
               else
                 bnd (copyout pagetable sp (concat (map (le_list 8) (ustack @ [0]))) s) (\<lambda>r s.
                 if r < 0 then exec_bad pagetable sz1 None p s
                 else
                   let s = set_tf p (tf_a 1) sp s;
                       s = upd_proc p (pname_update (\<lambda>t. safestrcpy t (nth0 (path_last path)) 16)) s;
                       oldpagetable = ppagetable (procs s p);
                       s = upd_proc p (\<lambda>pr. pr\<lparr>ppagetable := pagetable, psz := sz1\<rparr>) s;
                       s = set_tf p tf_epc entry s;
                       s = set_tf p tf_sp sp s
                   in bnd (proc_unmap_vmas p oldpagetable True s) (\<lambda>_ s.
                      bnd (proc_freepagetable oldpagetable oldsz p (proc_vma_init p s)) (\<lambda>_ s.
                      Ok (int argc) s)))))))"

definition kexec :: "u8 list \<Rightarrow> u8 list list \<Rightarrow> 'a kfile_scheme \<Rightarrow> ('a kfile_scheme, int) out" where
  "kexec path argv s =
     deref (myproc s) (\<lambda>p s.
       if pid (procs s p) \<noteq> tgid (procs s p) \<or> thread_count (procs s p) > 1 then Ok (- 1) s
       else
         bnd (begin_op s) (\<lambda>_ s.
         bnd (namei path s) (\<lambda>q s.
         case q of
           None \<Rightarrow> bnd (end_op s) (\<lambda>_ s. Ok (- 1) s)
         | Some ip \<Rightarrow>
             bnd (ilock (Some ip) s) (\<lambda>_ s.
             bnd (readi ip to_local 0 64 s) (\<lambda>(r, bs) s.
             let elf = get_elfhdr bs in
             if r \<noteq> 64 \<or> e_magic elf \<noteq> ELF_MAGIC then exec_bad 0 0 (Some ip) p s
             else
               bnd (proc_pagetable p s) (\<lambda>pagetable s.
               if pagetable = 0 then exec_bad 0 0 (Some ip) p s
               else
                 bnd (load_program (unat (e_phnum elf)) pagetable ip (ucast (e_phoff elf)) 0 s) (\<lambda>(sz, ok) s.
                 if \<not> ok then exec_bad pagetable sz (Some ip) p s
                 else
                   bnd (iunlockput ip s) (\<lambda>_ s.
                   bnd (end_op s) (\<lambda>_ s.
                   exec_stack p path argv pagetable (e_entry elf) sz s))))))))) s"

end
