(* ===== verification/Sysargs.thy ===== *)
theory Sysargs
  imports Exec
begin

text \<open>
  The argument fetching of \<^verbatim>\<open>kernel/syscall.c\<close>: registers saved in the trapframe, and memory of the
  calling process.
\<close>

text \<open>The result of the fetch routines pairs the return value with what was fetched.\<close>

definition fetchaddr :: "u64 \<Rightarrow> 'a kfile_scheme \<Rightarrow> ('a kfile_scheme, int \<times> u64) out" where
  "fetchaddr a s =
     deref (myproc s) (\<lambda>p s.
       if a \<ge> psz (procs s p) \<or> a + 8 > psz (procs s p) then Ok (- 1, 0) s
       else
         bnd (copyin (ppagetable (procs s p)) a 8 s) (\<lambda>(r, bs) s.
         if r \<noteq> 0 then Ok (- 1, 0) s else Ok (0, get64 bs 0) s)) s"

definition fetchstr :: "u64 \<Rightarrow> nat \<Rightarrow> 'a kfile_scheme \<Rightarrow> ('a kfile_scheme, int \<times> u8 list) out" where
  "fetchstr a mx s =
     deref (myproc s) (\<lambda>p s.
       bnd (copyinstr (ppagetable (procs s p)) a mx s) (\<lambda>(r, bs) s.
       if r < 0 then Ok (- 1, bs) s else Ok (int (length bs), bs) s)) s"

definition argraw :: "nat \<Rightarrow> 'a kfile_scheme \<Rightarrow> ('a kfile_scheme, u64) out" where
  "argraw n s =
     deref (myproc s) (\<lambda>p s. if n < 6 then Ok (get_tf p (tf_a n) s) s else Panic ''argraw'') s"

definition argint :: "nat \<Rightarrow> 'a kfile_scheme \<Rightarrow> ('a kfile_scheme, int) out" where
  "argint n s = bnd (argraw n s) (\<lambda>v s. Ok (sint (ucast v :: u32)) s)"

definition argaddr :: "nat \<Rightarrow> 'a kfile_scheme \<Rightarrow> ('a kfile_scheme, u64) out" where
  "argaddr n s = argraw n s"

definition argstr :: "nat \<Rightarrow> nat \<Rightarrow> 'a kfile_scheme \<Rightarrow> ('a kfile_scheme, int \<times> u8 list) out" where
  "argstr n mx s = bnd (argaddr n s) (\<lambda>a s. fetchstr a mx s)"

end
