(* ===== verification/Sysfile.thy ===== *)
theory Sysfile
  imports Sysargs
begin

unbundle bit_operations_syntax

text \<open>
  \<^verbatim>\<open>kernel/sysfile.c\<close>: the file-system calls. A system call returns the word that goes to register \<^verbatim>\<open>a0\<close>.
\<close>

definition O_RDONLY :: u32 where "O_RDONLY = 0x000"
definition O_WRONLY :: u32 where "O_WRONLY = 0x001"
definition O_RDWR :: u32 where "O_RDWR = 0x002"
definition O_CREATE :: u32 where "O_CREATE = 0x200"
definition O_TRUNC :: u32 where "O_TRUNC = 0x400"

section \<open>Descriptors and regions\<close>

definition argfd :: "nat \<Rightarrow> 'a kfile_scheme \<Rightarrow> ('a kfile_scheme, (nat \<times> nat) option) out" where
  "argfd n s =
     bnd (argint n s) (\<lambda>fd s.
     if fd < 0 \<or> fd \<ge> int NOFILE then Ok None s
     else deref (myproc s) (\<lambda>p s.
       case ofile (procs s p) (nat fd) of None \<Rightarrow> Ok None s | Some f \<Rightarrow> Ok (Some (nat fd, f)) s) s)"

definition fdalloc :: "nat \<Rightarrow> 'a kfile_scheme \<Rightarrow> ('a kfile_scheme, int) out" where
  "fdalloc f s =
     deref (myproc s) (\<lambda>p s.
       case find (\<lambda>fd. ofile (procs s p) fd = None) [0..<NOFILE] of
         Some fd \<Rightarrow> Ok (int fd) (upd_proc p (ofile_update (\<lambda>t. t(fd := Some f))) s)
       | None \<Rightarrow> Ok (- 1) s) s"

definition vma_alloc_slot :: "nat \<Rightarrow> 'a kproc_scheme \<Rightarrow> int" where
  "vma_alloc_slot p s =
     (case find (\<lambda>i. \<not> vused (vmas (procs s p) i)) [0..<MAXVMA] of Some i \<Rightarrow> int i | None \<Rightarrow> - 1)"

text \<open>The regions in use, sorted by exchanging out-of-order pairs; then the scan for the highest gap.\<close>

definition vma_exchange :: "nat \<times> nat \<Rightarrow> vma list \<Rightarrow> vma list" where
  "vma_exchange ij ord =
     (let (i, j) = ij in
      if vaddr (ord ! j) < vaddr (ord ! i) then ord[i := ord ! j, j := ord ! i] else ord)"

definition vma_sort :: "vma list \<Rightarrow> vma list" where
  "vma_sort ord =
     fold vma_exchange (concat (map (\<lambda>i. map (Pair i) [i + 1..<length ord]) [0..<length ord])) ord"

definition gap_step :: "u64 \<Rightarrow> vma \<Rightarrow> u64 \<times> u64 \<Rightarrow> u64 \<times> u64" where
  "gap_step len v bc =
     (let (best, cur) = bc;
          best = (if vaddr v > cur \<and> vaddr v - cur \<ge> len then vaddr v - len else best);
          cur = (if vaddr v + vlen v > cur then vaddr v + vlen v else cur)
      in (best, cur))"

definition vma_find_addr :: "nat \<Rightarrow> u64 \<Rightarrow> 'a kproc_scheme \<Rightarrow> u64" where
  "vma_find_addr p len s =
     (let ord = vma_sort (filter vused (map (vmas (procs s p)) [0..<MAXVMA]));
          low = PGROUNDUP (psz (procs s p));
          high = TRAPFRAME NPROC;
          (best, cur) = fold (gap_step len) ord (0, low)
      in if high > cur \<and> high - cur \<ge> len then high - len else best)"

section \<open>Calls on descriptors\<close>

definition sys_dup :: "'a kfile_scheme \<Rightarrow> ('a kfile_scheme, u64) out" where
  "sys_dup s =
     bnd (argfd 0 s) (\<lambda>r s.
     case r of
       None \<Rightarrow> Ok (- 1) s
     | Some (_, f) \<Rightarrow>
         bnd (fdalloc f s) (\<lambda>fd s.
         if fd < 0 then Ok (- 1) s else bnd (filedup f s) (\<lambda>_ s. Ok (word_of_int fd) s)))"

definition sys_read :: "'a kcons_scheme \<Rightarrow> ('a kcons_scheme, u64) out" where
  "sys_read s =
     bnd (argaddr 1 s) (\<lambda>p s.
     bnd (argint 2 s) (\<lambda>n s.
     bnd (argfd 0 s) (\<lambda>r s.
     case r of
       None \<Rightarrow> Ok (- 1) s
     | Some (_, f) \<Rightarrow> bnd (fileread f p n s) (\<lambda>v s. Ok (word_of_int v) s))))"

definition sys_write :: "'a kcons_scheme \<Rightarrow> ('a kcons_scheme, u64) out" where
  "sys_write s =
     bnd (argaddr 1 s) (\<lambda>p s.
     bnd (argint 2 s) (\<lambda>n s.
     bnd (argfd 0 s) (\<lambda>r s.
     case r of
       None \<Rightarrow> Ok (- 1) s
     | Some (_, f) \<Rightarrow> bnd (filewrite f p n s) (\<lambda>v s. Ok (word_of_int v) s))))"

definition sys_close :: "'a kfile_scheme \<Rightarrow> ('a kfile_scheme, u64) out" where
  "sys_close s =
     bnd (argfd 0 s) (\<lambda>r s.
     case r of
       None \<Rightarrow> Ok (- 1) s
     | Some (fd, f) \<Rightarrow>
         deref (myproc s) (\<lambda>p s.
           bnd (fileclose f (upd_proc p (ofile_update (\<lambda>t. t(fd := None))) s)) (\<lambda>_ s. Ok 0 s)) s)"

definition sys_fstat :: "'a kfile_scheme \<Rightarrow> ('a kfile_scheme, u64) out" where
  "sys_fstat s =
     bnd (argaddr 1 s) (\<lambda>st s.
     bnd (argfd 0 s) (\<lambda>r s.
     case r of
       None \<Rightarrow> Ok (- 1) s
     | Some (_, f) \<Rightarrow> bnd (filestat f st s) (\<lambda>v s. Ok (word_of_int v) s)))"

text \<open>The test of the arguments of \<^verbatim>\<open>sys_mmap\<close> that comes before the descriptor.\<close>

definition mmap_args_ok :: "u64 \<Rightarrow> u64 \<Rightarrow> u32 \<Rightarrow> u32 \<Rightarrow> u64 \<Rightarrow> bool" where
  "mmap_args_ok a len prot flags off \<longleftrightarrow>
     a = 0 \<and> len \<noteq> 0 \<and> off mod PGSIZE = 0 \<and> prot AND (PROT_READ OR PROT_WRITE OR PROT_EXEC) \<noteq> 0 \<and>
     flags AND (MAP_SHARED OR MAP_PRIVATE) \<noteq> 0 \<and> \<not> (flags AND MAP_SHARED \<noteq> 0 \<and> flags AND MAP_PRIVATE \<noteq> 0)"

definition sys_mmap :: "'a kfile_scheme \<Rightarrow> ('a kfile_scheme, u64) out" where
  "sys_mmap s =
     deref (myproc s) (\<lambda>p s.
       bnd (argaddr 0 s) (\<lambda>a s.
       bnd (argaddr 1 s) (\<lambda>len s.
       bnd (argint 2 s) (\<lambda>prot s.
       bnd (argint 3 s) (\<lambda>flags s.
       bnd (argint 4 s) (\<lambda>fd s.
       bnd (argaddr 5 s) (\<lambda>off s.
       let prot = word_of_int prot :: u32; flags = word_of_int flags :: u32 in
       if pid (procs s p) \<noteq> tgid (procs s p) then Ok (- 1) s
       else if \<not> mmap_args_ok a len prot flags off then Ok (- 1) s
       else
         bnd (argfd 4 s) (\<lambda>r s.
         case r of
           None \<Rightarrow> Ok (- 1) s
         | Some (_, f) \<Rightarrow>
             if prot AND PROT_READ \<noteq> 0 \<and> \<not> freadable (files s f) then Ok (- 1) s
             else if flags AND MAP_SHARED \<noteq> 0 \<and> prot AND PROT_WRITE \<noteq> 0 \<and> \<not> fwritable (files s f) then Ok (- 1) s
             else if ftype (files s f) \<noteq> FD_INODE then Ok (- 1) s
             else
               let len = PGROUNDUP len; idx = vma_alloc_slot p s in
               if idx < 0 then Ok (- 1) s
               else
                 let mapaddr = vma_find_addr p len s in
                 if mapaddr = 0 then Ok (- 1) s
                 else
                   bnd (filedup f s) (\<lambda>f s.
                   Ok mapaddr (upd_vma p (nat idx) (\<lambda>v. \<lparr>vused = True, vaddr = mapaddr, vlen = len, vprot = prot,
                     vflags = flags, voff = off, vfile = Some f\<rparr>) s)))))))))) s"

definition sys_munmap :: "'a kfile_scheme \<Rightarrow> ('a kfile_scheme, u64) out" where
  "sys_munmap s =
     deref (myproc s) (\<lambda>p s.
       bnd (argaddr 0 s) (\<lambda>a s.
       bnd (argaddr 1 s) (\<lambda>len s.
       if pid (procs s p) \<noteq> tgid (procs s p) then Ok (- 1) s
       else if a mod PGSIZE \<noteq> 0 \<or> len = 0 then Ok (- 1) s
       else bnd (proc_munmap p a (PGROUNDUP len) s) (\<lambda>r s. Ok (word_of_int r) s)))) s"

section \<open>Links\<close>

definition sys_link_bad :: "nat \<Rightarrow> 'a kfile_scheme \<Rightarrow> ('a kfile_scheme, u64) out" where
  "sys_link_bad ip s =
     bnd (ilock (Some ip) s) (\<lambda>_ s.
     bnd (iupdate ip (upd_inode ip (inlink_update (\<lambda>n. n - 1)) s)) (\<lambda>_ s.
     bnd (iunlockput ip s) (\<lambda>_ s.
     bnd (end_op s) (\<lambda>_ s. Ok (- 1) s))))"

definition sys_link :: "'a kfile_scheme \<Rightarrow> ('a kfile_scheme, u64) out" where
  "sys_link s =
     bnd (argstr 0 MAXPATH s) (\<lambda>(r, old) s.
     if r < 0 then Ok (- 1) s
     else
       bnd (argstr 1 MAXPATH s) (\<lambda>(r, new) s.
       if r < 0 then Ok (- 1) s
       else
         bnd (begin_op s) (\<lambda>_ s.
         bnd (namei old s) (\<lambda>q s.
         case q of
           None \<Rightarrow> bnd (end_op s) (\<lambda>_ s. Ok (- 1) s)
         | Some ip \<Rightarrow>
             bnd (ilock (Some ip) s) (\<lambda>_ s.
             if itype (inodes s ip) = T_DIR then
               bnd (iunlockput ip s) (\<lambda>_ s. bnd (end_op s) (\<lambda>_ s. Ok (- 1) s))
             else
               bnd (iupdate ip (upd_inode ip (inlink_update (\<lambda>n. n + 1)) s)) (\<lambda>_ s.
               bnd (iunlock (Some ip) s) (\<lambda>_ s.
               bnd (nameiparent new s) (\<lambda>(q, name) s.
               case q of
                 None \<Rightarrow> sys_link_bad ip s
               | Some dp \<Rightarrow>
                   bnd (ilock (Some dp) s) (\<lambda>_ s.
                   bnd (if idev (inodes s dp) \<noteq> idev (inodes s ip) then Ok (- 1) s
                        else dirlink dp name (inum (inodes s ip)) s) (\<lambda>r s.
                   if r < 0 then bnd (iunlockput dp s) (\<lambda>_ s. sys_link_bad ip s)
                   else
                     bnd (iunlockput dp s) (\<lambda>_ s.
                     bnd (iput ip s) (\<lambda>_ s.
                     bnd (end_op s) (\<lambda>_ s. Ok 0 s)))))))))))))"

definition isdirempty :: "nat \<Rightarrow> 'a kfile_scheme \<Rightarrow> ('a kfile_scheme, bool) out" where
  "isdirempty dp s =
     bnd (forret (drop 2 (dir_offs (isize (inodes s dp)))) (\<lambda>off s.
       bnd (readi dp to_local off 16 s) (\<lambda>(r, de) s.
         if r \<noteq> 16 then Panic ''isdirempty: readi''
         else if de_inum de \<noteq> 0 then Ok (Some ()) s
         else Ok None s)) s) (\<lambda>r s. Ok (r = None) s)"

definition dot :: "nat \<Rightarrow> u8" where "dot = nth0 [46]"
definition dotdot :: "nat \<Rightarrow> u8" where "dotdot = nth0 [46, 46]"

definition sys_unlink_bad :: "nat \<Rightarrow> 'a kfile_scheme \<Rightarrow> ('a kfile_scheme, u64) out" where
  "sys_unlink_bad dp s = bnd (iunlockput dp s) (\<lambda>_ s. bnd (end_op s) (\<lambda>_ s. Ok (- 1) s))"

definition sys_unlink :: "'a kfile_scheme \<Rightarrow> ('a kfile_scheme, u64) out" where
  "sys_unlink s =
     bnd (argstr 0 MAXPATH s) (\<lambda>(r, path) s.
     if r < 0 then Ok (- 1) s
     else
       bnd (begin_op s) (\<lambda>_ s.
       bnd (nameiparent path s) (\<lambda>(q, name) s.
       case q of
         None \<Rightarrow> bnd (end_op s) (\<lambda>_ s. Ok (- 1) s)
       | Some dp \<Rightarrow>
           bnd (ilock (Some dp) s) (\<lambda>_ s.
           if namecmp name dot = 0 \<or> namecmp name dotdot = 0 then sys_unlink_bad dp s
           else
             bnd (dirlookup dp name s) (\<lambda>q s.
             case q of
               None \<Rightarrow> sys_unlink_bad dp s
             | Some (ip, off) \<Rightarrow>
                 bnd (ilock (Some ip) s) (\<lambda>_ s.
                 if sint (inlink (inodes s ip)) < 1 then Panic ''unlink: nlink < 1''
                 else
                   bnd (if itype (inodes s ip) = T_DIR then bnd (isdirempty ip s) (\<lambda>e s. Ok (\<not> e) s)
                        else Ok False s) (\<lambda>full s.
                   if full then bnd (iunlockput ip s) (\<lambda>_ s. sys_unlink_bad dp s)
                   else
                     bnd (writei dp (from_local (replicate 16 0)) off 16 s) (\<lambda>r s.
                     if r \<noteq> 16 then Panic ''unlink: writei''
                     else
                       bnd (if itype (inodes s ip) = T_DIR
                            then iupdate dp (upd_inode dp (inlink_update (\<lambda>n. n - 1)) s) else Ok () s) (\<lambda>_ s.
                       bnd (iunlockput dp s) (\<lambda>_ s.
                       bnd (iupdate ip (upd_inode ip (inlink_update (\<lambda>n. n - 1)) s)) (\<lambda>_ s.
                       bnd (iunlockput ip s) (\<lambda>_ s.
                       bnd (end_op s) (\<lambda>_ s. Ok 0 s)))))))))))))"

section \<open>Creating and opening\<close>

definition create_fail :: "nat \<Rightarrow> nat \<Rightarrow> 'a kfile_scheme \<Rightarrow> ('a kfile_scheme, nat option) out" where
  "create_fail dp ip s =
     bnd (iupdate ip (upd_inode ip (inlink_update (\<lambda>_. 0)) s)) (\<lambda>_ s.
     bnd (iunlockput ip s) (\<lambda>_ s.
     bnd (iunlockput dp s) (\<lambda>_ s. Ok None s)))"

text \<open>The second half of \<^verbatim>\<open>create\<close>: the new inode gets its entries.\<close>

definition create_link ::
  "nat \<Rightarrow> nat \<Rightarrow> (nat \<Rightarrow> u8) \<Rightarrow> u16 \<Rightarrow> 'a kfile_scheme \<Rightarrow> ('a kfile_scheme, nat option) out" where
  "create_link dp ip name ty s =
     bnd (if ty = T_DIR then
            bnd (dirlink ip dot (inum (inodes s ip)) s) (\<lambda>r s.
            if r < 0 then Ok True s
            else bnd (dirlink ip dotdot (inum (inodes s dp)) s) (\<lambda>r s. Ok (r < 0) s))
          else Ok False s) (\<lambda>failed s.
     if failed then create_fail dp ip s
     else
       bnd (dirlink dp name (inum (inodes s ip)) s) (\<lambda>r s.
       if r < 0 then create_fail dp ip s
       else
         bnd (if ty = T_DIR then iupdate dp (upd_inode dp (inlink_update (\<lambda>n. n + 1)) s) else Ok () s) (\<lambda>_ s.
         bnd (iunlockput dp s) (\<lambda>_ s. Ok (Some ip) s))))"

definition create :: "u8 list \<Rightarrow> u16 \<Rightarrow> u16 \<Rightarrow> u16 \<Rightarrow> 'a kfile_scheme \<Rightarrow> ('a kfile_scheme, nat option) out" where
  "create path ty major minor s =
     bnd (nameiparent path s) (\<lambda>(q, name) s.
     case q of
       None \<Rightarrow> Ok None s
     | Some dp \<Rightarrow>
         bnd (ilock (Some dp) s) (\<lambda>_ s.
         bnd (dirlookup dp name s) (\<lambda>r s.
         case r of
           Some (ip, _) \<Rightarrow>
             bnd (iunlockput dp s) (\<lambda>_ s.
             bnd (ilock (Some ip) s) (\<lambda>_ s.
             if ty = T_FILE \<and> (itype (inodes s ip) = T_FILE \<or> itype (inodes s ip) = T_DEVICE) then Ok (Some ip) s
             else bnd (iunlockput ip s) (\<lambda>_ s. Ok None s)))
         | None \<Rightarrow>
             bnd (ialloc (idev (inodes s dp)) ty s) (\<lambda>r s.
             case r of
               None \<Rightarrow> bnd (iunlockput dp s) (\<lambda>_ s. Ok None s)
             | Some ip \<Rightarrow>
                 bnd (ilock (Some ip) s) (\<lambda>_ s.
                 bnd (iupdate ip (upd_inode ip (\<lambda>i. i\<lparr>imajor := major, iminor := minor, inlink := 1\<rparr>) s)) (\<lambda>_ s.
                 create_link dp ip name ty s))))))"

text \<open>\<^verbatim>\<open>sys_open\<close> once the inode is found and locked.\<close>

definition open_inode :: "nat \<Rightarrow> u32 \<Rightarrow> 'a kfile_scheme \<Rightarrow> ('a kfile_scheme, u64) out" where
  "open_inode ip omode s =
     (if itype (inodes s ip) = T_DEVICE \<and> (sint (imajor (inodes s ip)) < 0 \<or> sint (imajor (inodes s ip)) \<ge> NDEV) then
        bnd (iunlockput ip s) (\<lambda>_ s. bnd (end_op s) (\<lambda>_ s. Ok (- 1) s))
      else
        bnd (filealloc s) (\<lambda>fo s.
        case fo of
          None \<Rightarrow> bnd (iunlockput ip s) (\<lambda>_ s. bnd (end_op s) (\<lambda>_ s. Ok (- 1) s))
        | Some f \<Rightarrow>
            bnd (fdalloc f s) (\<lambda>fd s.
            if fd < 0 then
              bnd (fileclose f s) (\<lambda>_ s. bnd (iunlockput ip s) (\<lambda>_ s. bnd (end_op s) (\<lambda>_ s. Ok (- 1) s)))
            else
              let s = (if itype (inodes s ip) = T_DEVICE
                       then upd_file f (\<lambda>x. x\<lparr>ftype := FD_DEVICE, fmajor := imajor (inodes s ip)\<rparr>) s
                       else upd_file f (\<lambda>x. x\<lparr>ftype := FD_INODE, foff := 0\<rparr>) s);
                  s = upd_file f (\<lambda>x. x\<lparr>fip := Some ip, freadable := (omode AND O_WRONLY = 0),
                        fwritable := (omode AND O_WRONLY \<noteq> 0 \<or> omode AND O_RDWR \<noteq> 0)\<rparr>) s
              in bnd (if omode AND O_TRUNC \<noteq> 0 \<and> itype (inodes s ip) = T_FILE then itrunc ip s else Ok () s) (\<lambda>_ s.
                 bnd (iunlock (Some ip) s) (\<lambda>_ s.
                 bnd (end_op s) (\<lambda>_ s. Ok (word_of_int fd) s))))))"

definition sys_open :: "'a kfile_scheme \<Rightarrow> ('a kfile_scheme, u64) out" where
  "sys_open s =
     bnd (argint 1 s) (\<lambda>om s.
     let omode = word_of_int om :: u32 in
     bnd (argstr 0 MAXPATH s) (\<lambda>(r, path) s.
     if r < 0 then Ok (- 1) s
     else
       bnd (begin_op s) (\<lambda>_ s.
       if omode AND O_CREATE \<noteq> 0 then
         bnd (create path T_FILE 0 0 s) (\<lambda>q s.
         case q of
           None \<Rightarrow> bnd (end_op s) (\<lambda>_ s. Ok (- 1) s)
         | Some ip \<Rightarrow> open_inode ip omode s)
       else
         bnd (namei path s) (\<lambda>q s.
         case q of
           None \<Rightarrow> bnd (end_op s) (\<lambda>_ s. Ok (- 1) s)
         | Some ip \<Rightarrow>
             bnd (ilock (Some ip) s) (\<lambda>_ s.
             if itype (inodes s ip) = T_DIR \<and> omode \<noteq> O_RDONLY then
               bnd (iunlockput ip s) (\<lambda>_ s. bnd (end_op s) (\<lambda>_ s. Ok (- 1) s))
             else open_inode ip omode s)))))"

definition sys_mkdir :: "'a kfile_scheme \<Rightarrow> ('a kfile_scheme, u64) out" where
  "sys_mkdir s =
     bnd (begin_op s) (\<lambda>_ s.
     bnd (argstr 0 MAXPATH s) (\<lambda>(r, path) s.
     bnd (if r < 0 then Ok None s else create path T_DIR 0 0 s) (\<lambda>q s.
     case q of
       None \<Rightarrow> bnd (end_op s) (\<lambda>_ s. Ok (- 1) s)
     | Some ip \<Rightarrow> bnd (iunlockput ip s) (\<lambda>_ s. bnd (end_op s) (\<lambda>_ s. Ok 0 s)))))"

definition sys_mknod :: "'a kfile_scheme \<Rightarrow> ('a kfile_scheme, u64) out" where
  "sys_mknod s =
     bnd (begin_op s) (\<lambda>_ s.
     bnd (argint 1 s) (\<lambda>major s.
     bnd (argint 2 s) (\<lambda>minor s.
     bnd (argstr 0 MAXPATH s) (\<lambda>(r, path) s.
     bnd (if r < 0 then Ok None s else create path T_DEVICE (word_of_int major) (word_of_int minor) s) (\<lambda>q s.
     case q of
       None \<Rightarrow> bnd (end_op s) (\<lambda>_ s. Ok (- 1) s)
     | Some ip \<Rightarrow> bnd (iunlockput ip s) (\<lambda>_ s. bnd (end_op s) (\<lambda>_ s. Ok 0 s)))))))"

definition sys_chdir :: "'a kfile_scheme \<Rightarrow> ('a kfile_scheme, u64) out" where
  "sys_chdir s =
     deref (myproc s) (\<lambda>p s.
       bnd (begin_op s) (\<lambda>_ s.
       bnd (argstr 0 MAXPATH s) (\<lambda>(r, path) s.
       bnd (if r < 0 then Ok None s else namei path s) (\<lambda>q s.
       case q of
         None \<Rightarrow> bnd (end_op s) (\<lambda>_ s. Ok (- 1) s)
       | Some ip \<Rightarrow>
           bnd (ilock (Some ip) s) (\<lambda>_ s.
           if itype (inodes s ip) \<noteq> T_DIR then
             bnd (iunlockput ip s) (\<lambda>_ s. bnd (end_op s) (\<lambda>_ s. Ok (- 1) s))
           else
             bnd (iunlock (Some ip) s) (\<lambda>_ s.
             bnd (deref (cwd (procs s p)) (\<lambda>d s. iput d s) s) (\<lambda>_ s.
             bnd (end_op s) (\<lambda>_ s.
             Ok 0 (upd_proc p (cwd_update (\<lambda>_. Some ip)) s))))))))) s"

section \<open>Exec and pipes\<close>

text \<open>The pages and the strings of the arguments fetched so far, and whether the terminating null was reached.\<close>

primrec fetch_args ::
  "nat \<Rightarrow> u64 \<Rightarrow> nat \<Rightarrow> (addr \<times> u8 list) list \<Rightarrow> 'a kfile_scheme \<Rightarrow> ('a kfile_scheme, (addr \<times> u8 list) list \<times> bool) out" where
  "fetch_args 0 uargv i argv s = Diverge"
| "fetch_args (Suc k) uargv i argv s =
     (if i \<ge> MAXARG then Ok (argv, False) s
      else
        bnd (fetchaddr (uargv + 8 * of_nat i) s) (\<lambda>(r, uarg) s.
        if r < 0 then Ok (argv, False) s
        else if uarg = 0 then Ok (argv, True) s
        else
          bnd (kalloc s) (\<lambda>pg s.
          if pg = 0 then Ok (argv, False) s
          else
            bnd (fetchstr uarg 4096 s) (\<lambda>(r, str) s.
            let argv = argv @ [(pg, str)] in
            if r < 0 then Ok (argv, False) (s\<lparr>mem := store_bytes (mem s) pg str\<rparr>)
            else fetch_args k uargv (i + 1) argv (s\<lparr>mem := store_bytes (mem s) pg (str @ [0])\<rparr>)))))"

definition sys_exec :: "'a kfile_scheme \<Rightarrow> ('a kfile_scheme, u64) out" where
  "sys_exec s =
     bnd (argaddr 1 s) (\<lambda>uargv s.
     bnd (argstr 0 MAXPATH s) (\<lambda>(r, path) s.
     if r < 0 then Ok (- 1) s
     else
       bnd (fetch_args (Suc MAXARG) uargv 0 [] s) (\<lambda>(argv, ok) s.
       bnd (if ok then kexec path (map snd argv) s else Ok (- 1) s) (\<lambda>ret s.
       bnd (foreach (map fst argv) (\<lambda>pg s. kfree pg s) s) (\<lambda>_ s.
       Ok (word_of_int ret) s)))))"

definition sys_pipe :: "'a kfile_scheme \<Rightarrow> ('a kfile_scheme, u64) out" where
  "sys_pipe s =
     deref (myproc s) (\<lambda>p s.
       bnd (argaddr 0 s) (\<lambda>fdarray s.
       bnd (pipealloc s) (\<lambda>q s.
       case q of
         None \<Rightarrow> Ok (- 1) s
       | Some (rfile, wfile) \<Rightarrow>
           let close_both = (\<lambda>s. bnd (fileclose rfile s) (\<lambda>_ s. bnd (fileclose wfile s) (\<lambda>_ s. Ok (- 1) s))) in
           bnd (fdalloc rfile s) (\<lambda>fd0 s.
           if fd0 < 0 then close_both s
           else
             bnd (fdalloc wfile s) (\<lambda>fd1 s.
             if fd1 < 0 then close_both (upd_proc p (ofile_update (\<lambda>t. t(nat fd0 := None))) s)
             else
               bnd (copyout (ppagetable (procs s p)) fdarray (le_list 4 (word_of_int fd0 :: u32)) s) (\<lambda>r s.
               bnd (if r < 0 then Ok (- 1) s
                    else copyout (ppagetable (procs s p)) (fdarray + 4) (le_list 4 (word_of_int fd1 :: u32)) s) (\<lambda>r s.
               if r < 0 then
                 close_both (upd_proc p (ofile_update (\<lambda>t. t(nat fd0 := None, nat fd1 := None))) s)
               else Ok 0 s))))))) s"

end
