(* ===== verification/Sysproc.thy ===== *)
theory Sysproc
  imports Sysfile
begin

unbundle bit_operations_syntax

text \<open>
  \<^verbatim>\<open>kernel/sysproc.c\<close>, the process calls, and the dispatch of \<^verbatim>\<open>kernel/syscall.c\<close>.
\<close>

definition SBRK_EAGER :: int where "SBRK_EAGER = 1"
definition SBRK_LAZY :: int where "SBRK_LAZY = 2"

record ktick = kcons +
  ticks :: u32

section \<open>Futexes\<close>

primrec futex_loop :: "nat \<Rightarrow> u64 \<Rightarrow> int \<Rightarrow> 'a kfile_scheme \<Rightarrow> ('a kfile_scheme, u64) out" where
  "futex_loop 0 uaddr val s = Diverge"
| "futex_loop (Suc k) uaddr val s =
     deref (myproc s) (\<lambda>p s.
       bnd (copyin (ppagetable (procs s p)) uaddr 4 s) (\<lambda>(r, bs) s.
       if r < 0 then bnd (release FutexLock s) (\<lambda>_ s. Ok (- 1) s)
       else if sint (get32 bs 0) \<noteq> val then bnd (release FutexLock s) (\<lambda>_ s. Ok 0 s)
       else bnd (sleep (ChAddr uaddr) FutexLock s) (\<lambda>_ s. futex_loop k uaddr val s))) s"

definition sys_futex_wait :: "'a kfile_scheme \<Rightarrow> ('a kfile_scheme, u64) out" where
  "sys_futex_wait s =
     bnd (argaddr 0 s) (\<lambda>uaddr s.
     bnd (argint 1 s) (\<lambda>val s.
     bnd (acquire FutexLock s) (\<lambda>_ s. futex_loop (patience s) uaddr val s)))"

definition sys_futex_wake :: "'a kfile_scheme \<Rightarrow> ('a kfile_scheme, u64) out" where
  "sys_futex_wake s =
     bnd (argaddr 0 s) (\<lambda>uaddr s.
     bnd (acquire FutexLock s) (\<lambda>_ s.
     bnd (wakeup (ChAddr uaddr) s) (\<lambda>_ s.
     bnd (release FutexLock s) (\<lambda>_ s. Ok 0 s))))"

section \<open>Processes and memory\<close>

definition sys_exit :: "'a kfile_scheme \<Rightarrow> ('a kfile_scheme, u64) out" where
  "sys_exit s = bnd (argint 0 s) (\<lambda>n s. bnd (kexit n s) (\<lambda>_ s. Ok (0 :: u64) s))"

definition sys_getpid :: "'a kfile_scheme \<Rightarrow> ('a kfile_scheme, u64) out" where
  "sys_getpid s = deref (myproc s) (\<lambda>p s. Ok (word_of_int (pid (procs s p))) s) s"

definition sys_fork :: "'a kfile_scheme \<Rightarrow> ('a kfile_scheme, u64) out" where
  "sys_fork s = bnd (kfork s) (\<lambda>r s. Ok (word_of_int r) s)"

definition sys_wait :: "'a kfile_scheme \<Rightarrow> ('a kfile_scheme, u64) out" where
  "sys_wait s = bnd (argaddr 0 s) (\<lambda>p s. bnd (kwait p s) (\<lambda>r s. Ok (word_of_int r) s))"

definition sys_sbrk :: "'a kfile_scheme \<Rightarrow> ('a kfile_scheme, u64) out" where
  "sys_sbrk s =
     bnd (argint 0 s) (\<lambda>n s.
     bnd (argint 1 s) (\<lambda>t s.
     deref (myproc s) (\<lambda>p s.
       let a = psz (procs s p) in
       if t = SBRK_EAGER \<or> n < 0 then
         bnd (growproc n s) (\<lambda>r s. Ok (if r < 0 then - 1 else a) s)
       else if a + word_of_int n < a then Ok (- 1) s
       else if a + word_of_int n > TRAPFRAME NPROC then Ok (- 1) s
       else
         let s = upd_proc p (psz_update (\<lambda>z. z + word_of_int n)) s in
         bnd (update_sz (tgid (procs s p)) (psz (procs s p)) s) (\<lambda>_ s. Ok a s)) s))"

primrec pause_loop :: "nat \<Rightarrow> u32 \<Rightarrow> int \<Rightarrow> 'a ktick_scheme \<Rightarrow> ('a ktick_scheme, u64) out" where
  "pause_loop 0 ticks0 n s = Diverge"
| "pause_loop (Suc k) ticks0 n s =
     (if ticks s - ticks0 < word_of_int n then
        deref (myproc s) (\<lambda>p s.
          bnd (killed p s) (\<lambda>d s.
          if d \<noteq> 0 then bnd (release TicksLock s) (\<lambda>_ s. Ok (- 1) s)
          else bnd (sleep ChTicks TicksLock s) (\<lambda>_ s. pause_loop k ticks0 n s))) s
      else bnd (release TicksLock s) (\<lambda>_ s. Ok 0 s))"

definition sys_pause :: "'a ktick_scheme \<Rightarrow> ('a ktick_scheme, u64) out" where
  "sys_pause s =
     bnd (argint 0 s) (\<lambda>n s.
     let n = (if n < 0 then 0 else n) in
     bnd (acquire TicksLock s) (\<lambda>_ s. pause_loop (patience s) (ticks s) n s))"

definition sys_kill :: "'a kfile_scheme \<Rightarrow> ('a kfile_scheme, u64) out" where
  "sys_kill s = bnd (argint 0 s) (\<lambda>pd s. bnd (kkill pd s) (\<lambda>r s. Ok (word_of_int r) s))"

definition sys_uptime :: "'a ktick_scheme \<Rightarrow> ('a ktick_scheme, u64) out" where
  "sys_uptime s =
     bnd (acquire TicksLock s) (\<lambda>_ s.
     let xticks = ticks s in bnd (release TicksLock s) (\<lambda>_ s. Ok (ucast xticks) s))"

definition sys_clone :: "'a kfile_scheme \<Rightarrow> ('a kfile_scheme, u64) out" where
  "sys_clone s =
     bnd (argaddr 0 s) (\<lambda>fn s.
     bnd (argaddr 1 s) (\<lambda>arg s.
     bnd (argaddr 2 s) (\<lambda>stack s.
     bnd (clone fn arg stack s) (\<lambda>r s. Ok (word_of_int r) s))))"

definition sys_join :: "'a kfile_scheme \<Rightarrow> ('a kfile_scheme, u64) out" where
  "sys_join s = bnd (join s) (\<lambda>r s. Ok (word_of_int r) s)"

definition sys_getprocs :: "'a kfile_scheme \<Rightarrow> ('a kfile_scheme, u64) out" where
  "sys_getprocs s =
     bnd (argaddr 0 s) (\<lambda>a s.
     bnd (argint 1 s) (\<lambda>mx s.
     bnd (getprocs a mx s) (\<lambda>r s. Ok (word_of_int r) s)))"

definition sys_getfreemem :: "'a kfile_scheme \<Rightarrow> ('a kfile_scheme, u64) out" where
  "sys_getfreemem s = bnd (kfreepages s) (\<lambda>r s. Ok (word_of_int r) s)"

definition sys_setpriority :: "'a kfile_scheme \<Rightarrow> ('a kfile_scheme, u64) out" where
  "sys_setpriority s =
     bnd (argint 0 s) (\<lambda>pd s.
     bnd (argint 1 s) (\<lambda>pri s.
     bnd (setpriority pd pri s) (\<lambda>r s. Ok (word_of_int r) s)))"

section \<open>Dispatch\<close>

definition SYS_fork :: int where "SYS_fork = 1"
definition SYS_exit :: int where "SYS_exit = 2"
definition SYS_wait :: int where "SYS_wait = 3"
definition SYS_pipe :: int where "SYS_pipe = 4"
definition SYS_read :: int where "SYS_read = 5"
definition SYS_kill :: int where "SYS_kill = 6"
definition SYS_exec :: int where "SYS_exec = 7"
definition SYS_fstat :: int where "SYS_fstat = 8"
definition SYS_chdir :: int where "SYS_chdir = 9"
definition SYS_dup :: int where "SYS_dup = 10"
definition SYS_getpid :: int where "SYS_getpid = 11"
definition SYS_sbrk :: int where "SYS_sbrk = 12"
definition SYS_pause :: int where "SYS_pause = 13"
definition SYS_uptime :: int where "SYS_uptime = 14"
definition SYS_open :: int where "SYS_open = 15"
definition SYS_write :: int where "SYS_write = 16"
definition SYS_mknod :: int where "SYS_mknod = 17"
definition SYS_unlink :: int where "SYS_unlink = 18"
definition SYS_link :: int where "SYS_link = 19"
definition SYS_mkdir :: int where "SYS_mkdir = 20"
definition SYS_close :: int where "SYS_close = 21"
definition SYS_clone :: int where "SYS_clone = 22"
definition SYS_join :: int where "SYS_join = 23"
definition SYS_futex_wait :: int where "SYS_futex_wait = 24"
definition SYS_futex_wake :: int where "SYS_futex_wake = 25"
definition SYS_mmap :: int where "SYS_mmap = 26"
definition SYS_munmap :: int where "SYS_munmap = 27"
definition SYS_getprocs :: int where "SYS_getprocs = 28"
definition SYS_getfreemem :: int where "SYS_getfreemem = 29"
definition SYS_setpriority :: int where "SYS_setpriority = 30"

text \<open>The table of system calls, by number.\<close>

definition syscalls :: "(int \<times> ('a ktick_scheme \<Rightarrow> ('a ktick_scheme, u64) out)) list" where
  "syscalls =
     [(SYS_fork, sys_fork), (SYS_exit, sys_exit), (SYS_wait, sys_wait), (SYS_pipe, sys_pipe), (SYS_read, sys_read),
      (SYS_kill, sys_kill), (SYS_exec, sys_exec), (SYS_fstat, sys_fstat), (SYS_chdir, sys_chdir), (SYS_dup, sys_dup),
      (SYS_getpid, sys_getpid), (SYS_sbrk, sys_sbrk), (SYS_pause, sys_pause), (SYS_uptime, sys_uptime), (SYS_open, sys_open),
      (SYS_write, sys_write), (SYS_mknod, sys_mknod), (SYS_unlink, sys_unlink), (SYS_link, sys_link), (SYS_mkdir, sys_mkdir),
      (SYS_close, sys_close), (SYS_clone, sys_clone), (SYS_join, sys_join), (SYS_futex_wait, sys_futex_wait), (SYS_futex_wake, sys_futex_wake),
      (SYS_mmap, sys_mmap), (SYS_munmap, sys_munmap), (SYS_getprocs, sys_getprocs), (SYS_getfreemem, sys_getfreemem), (SYS_setpriority, sys_setpriority)]"

definition tf_a7 :: u64 where "tf_a7 = 168"

definition syscall :: "'a ktick_scheme \<Rightarrow> ('a ktick_scheme, unit) out" where
  "syscall s =
     deref (myproc s) (\<lambda>p s.
       let num = sint (ucast (get_tf p tf_a7 s) :: u32) in
       case map_of syscalls num of
         Some f \<Rightarrow> bnd (f s) (\<lambda>r s. Ok () (set_tf p (tf_a 0) r s))
       | None \<Rightarrow>
           bnd (printf (''%d %s: unknown sys call %d'' @ [CHR 0x0A])
             [(word_of_int (pid (procs s p)), []), (1, name_string (pname (procs s p))), (word_of_int num, [])] s) (\<lambda>_ s.
           Ok () (set_tf p (tf_a 0) (- 1) s))) s"

end
