(* ===== verification/Trap.thy ===== *)
theory Trap
  imports Sysproc
begin

unbundle bit_operations_syntax

text \<open>
  \<^verbatim>\<open>kernel/trap.c\<close>: traps from user space and from the kernel, the clock and device interrupts; \<^verbatim>\<open>forkret\<close>
  of \<^verbatim>\<open>kernel/proc.c\<close>; the interrupt controller of \<^verbatim>\<open>kernel/plic.c\<close>; and the boot code of
  \<^verbatim>\<open>kernel/start.c\<close> and \<^verbatim>\<open>kernel/main.c\<close>.
\<close>

text \<open>
  The trap registers of this hart, the addresses that the linker gives to entry points, the writes to
  the interrupt controller and what a claim returns.
\<close>

record ktrap = ktick +
  sepc :: u64
  scause :: u64
  stval :: u64
  sstat :: u64
  stvec :: u64
  sscratch :: u64
  hartid :: u64
  stimecmp :: u64
  timereg :: u64
  kernelvec :: u64
  uservec :: u64
  userret :: u64
  usertrap_addr :: u64
  plic_writes :: "(u64 \<times> u32) list"
  plic_pending :: u32
  first :: bool
  started :: bool

definition UART0_IRQ :: u32 where "UART0_IRQ = 10"
definition VIRTIO0_IRQ :: u32 where "VIRTIO0_IRQ = 1"
definition PLIC_SENABLE :: "u64 \<Rightarrow> u64" where "PLIC_SENABLE hart = PLIC + 0x2080 + hart * 0x100"
definition PLIC_SPRIORITY :: "u64 \<Rightarrow> u64" where "PLIC_SPRIORITY hart = PLIC + 0x201000 + hart * 0x2000"
definition PLIC_SCLAIM :: "u64 \<Rightarrow> u64" where "PLIC_SCLAIM hart = PLIC + 0x201004 + hart * 0x2000"

section \<open>The interrupt controller\<close>

definition plic_write :: "u64 \<Rightarrow> u32 \<Rightarrow> 'a ktrap_scheme \<Rightarrow> 'a ktrap_scheme" where
  "plic_write a v s = s\<lparr>plic_writes := plic_writes s @ [(a, v)]\<rparr>"

definition plicinit :: "'a ktrap_scheme \<Rightarrow> 'a ktrap_scheme" where
  "plicinit s = plic_write (PLIC + ucast VIRTIO0_IRQ * 4) 1 (plic_write (PLIC + ucast UART0_IRQ * 4) 1 s)"

definition cpuid :: "'a ktrap_scheme \<Rightarrow> u64" where
  "cpuid s = hartid s"

definition plicinithart :: "'a ktrap_scheme \<Rightarrow> 'a ktrap_scheme" where
  "plicinithart s =
     (let hart = cpuid s;
          s = plic_write (PLIC_SENABLE hart) (push_bit (unat UART0_IRQ) 1 OR push_bit (unat VIRTIO0_IRQ) 1) s
      in plic_write (PLIC_SPRIORITY hart) 0 s)"

definition plic_claim :: "'a ktrap_scheme \<Rightarrow> u32 \<times> 'a ktrap_scheme" where
  "plic_claim s = (plic_pending s, s\<lparr>plic_pending := 0\<rparr>)"

definition plic_complete :: "u32 \<Rightarrow> 'a ktrap_scheme \<Rightarrow> 'a ktrap_scheme" where
  "plic_complete irq s = plic_write (PLIC_SCLAIM (cpuid s)) irq s"

section \<open>Interrupts\<close>

definition trapinit :: "'a ktrap_scheme \<Rightarrow> 'a ktrap_scheme" where
  "trapinit s = initlock TicksLock s"

definition trapinithart :: "'a ktrap_scheme \<Rightarrow> 'a ktrap_scheme" where
  "trapinithart s = s\<lparr>stvec := kernelvec s\<rparr>"

definition clockintr :: "'a ktrap_scheme \<Rightarrow> ('a ktrap_scheme, unit) out" where
  "clockintr s =
     bnd (if cpuid s = 0 then
            bnd (acquire TicksLock s) (\<lambda>_ s.
            let s = s\<lparr>ticks := ticks s + 1\<rparr> in
            bnd (wakeup ChTicks s) (\<lambda>_ s.
            bnd (if ticks s mod MLFQ_BOOST = 0 then mlfq_boost s else Ok () s) (\<lambda>_ s.
            release TicksLock s)))
          else Ok () s) (\<lambda>_ s.
     Ok () (s\<lparr>stimecmp := timereg s + 1000000\<rparr>))"

definition devintr :: "'a ktrap_scheme \<Rightarrow> ('a ktrap_scheme, int) out" where
  "devintr s =
     (if scause s = 0x8000000000000009 then
        let (irq, s) = plic_claim s in
        bnd (if irq = UART0_IRQ then uartintr s
             else if irq = VIRTIO0_IRQ then virtio_disk_intr s
             else if irq \<noteq> 0 then printf (''unexpected interrupt irq=%d'' @ [CHR 0x0A]) [(ucast irq, [])] s
             else Ok () s) (\<lambda>_ s.
        Ok 1 (if irq \<noteq> 0 then plic_complete irq s else s))
      else if scause s = 0x8000000000000005 then bnd (clockintr s) (\<lambda>_ s. Ok 2 s)
      else Ok 0 s)"

section \<open>Traps\<close>

definition tf_kernel_satp :: u64 where "tf_kernel_satp = 0"
definition tf_kernel_sp :: u64 where "tf_kernel_sp = 8"
definition tf_kernel_trap :: u64 where "tf_kernel_trap = 16"
definition tf_kernel_hartid :: u64 where "tf_kernel_hartid = 32"

definition prepare_return :: "'a ktrap_scheme \<Rightarrow> ('a ktrap_scheme, unit) out" where
  "prepare_return s =
     deref (myproc s) (\<lambda>p s.
       let s = s\<lparr>sstat := intr_off (sstat s)\<rparr>;
           s = s\<lparr>stvec := TRAMPOLINE + (uservec s - trampoline s)\<rparr>;
           s = set_tf p tf_kernel_satp (satp s) s;
           s = set_tf p tf_kernel_sp (kstack (procs s p) + PGSIZE) s;
           s = set_tf p tf_kernel_trap (usertrap_addr s) s;
           s = set_tf p tf_kernel_hartid (hartid s) s;
           s = s\<lparr>sstat := sstat s AND NOT SSTATUS_SPP OR SSTATUS_SPIE\<rparr>;
           s = s\<lparr>sscratch := TRAPFRAME p\<rparr>
       in Ok () (s\<lparr>sepc := get_tf p tf_epc s\<rparr>)) s"

text \<open>The result is the page table to switch to. The killed process does not come back from \<^verbatim>\<open>kexit\<close>.\<close>

definition usertrap :: "'a ktrap_scheme \<Rightarrow> ('a ktrap_scheme, u64) out" where
  "usertrap s =
     (if sstat s AND SSTATUS_SPP \<noteq> 0 then Panic ''usertrap: not from user mode''
      else
        let s = s\<lparr>stvec := kernelvec s\<rparr> in
        deref (myproc s) (\<lambda>p s.
          let s = set_tf p tf_epc (sepc s) s in
          bnd (if scause s = 8 then
                 bnd (killed p s) (\<lambda>k s.
                 bnd (if k \<noteq> 0 then kexit (- 1) s else Ok () s) (\<lambda>_ s.
                 let s = set_tf p tf_epc (get_tf p tf_epc s + 4) s;
                     s = s\<lparr>sstat := intr_on (sstat s)\<rparr>
                 in bnd (syscall s) (\<lambda>_ s. Ok 0 s)))
               else
                 bnd (devintr s) (\<lambda>w s.
                 if w \<noteq> 0 then Ok w s
                 else
                   bnd (if scause s = 15 \<or> scause s = 13 \<or> scause s = 12
                        then vmfault (ppagetable (procs s p)) (stval s) (scause s \<noteq> 15) s else Ok 0 s) (\<lambda>pa s.
                   if pa \<noteq> 0 then Ok 0 s
                   else
                     bnd (printf (''usertrap(): unexpected scause 0x%lx pid=%d'' @ [CHR 0x0A])
                       [(scause s, []), (word_of_int (pid (procs s p)), [])] s) (\<lambda>_ s.
                     bnd (printf (''            sepc=0x%lx stval=0x%lx'' @ [CHR 0x0A]) [(sepc s, []), (stval s, [])] s) (\<lambda>_ s.
                     bnd (setkilled p s) (\<lambda>_ s. Ok 0 s)))))) (\<lambda>which_dev s.
          bnd (killed p s) (\<lambda>k s.
          bnd (if k \<noteq> 0 then kexit (- 1) s else Ok () s) (\<lambda>_ s.
          bnd (if which_dev = 2 then bnd (mlfq_tick s) (\<lambda>_ s. yield s) else Ok () s) (\<lambda>_ s.
          bnd (prepare_return s) (\<lambda>_ s.
          Ok (MAKE_SATP (ppagetable (procs s p))) s)))))) s)"

definition kerneltrap :: "'a ktrap_scheme \<Rightarrow> ('a ktrap_scheme, unit) out" where
  "kerneltrap s =
     (let sepc0 = sepc s; sstatus0 = sstat s; scause0 = scause s in
      if sstatus0 AND SSTATUS_SPP = 0 then Panic ''kerneltrap: not from supervisor mode''
      else if intr_get (sstat s) then Panic ''kerneltrap: interrupts enabled''
      else
        bnd (devintr s) (\<lambda>w s.
        bnd (if w = 0 then
               bnd (printf (''scause=0x%lx sepc=0x%lx stval=0x%lx'' @ [CHR 0x0A])
                 [(scause0, []), (sepc s, []), (stval s, [])] s) (\<lambda>_ s. Panic ''kerneltrap'')
             else Ok () s) (\<lambda>_ s.
        bnd (if w = 2 \<and> myproc s \<noteq> None then bnd (mlfq_tick s) (\<lambda>_ s. yield s) else Ok () s) (\<lambda>_ s.
        Ok () (s\<lparr>sepc := sepc0, sstat := sstatus0\<rparr>)))))"

definition init_path :: "u8 list" where "init_path = [47, 105, 110, 105, 116]"

text \<open>\<^verbatim>\<open>forkret\<close> up to its jump to the trampoline; the result is the page table it passes.\<close>

definition forkret :: "'a ktrap_scheme \<Rightarrow> ('a ktrap_scheme, u64) out" where
  "forkret s =
     deref (myproc s) (\<lambda>p s.
       bnd (release (ProcLock p) s) (\<lambda>_ s.
       bnd (if first s then
              bnd (fsinit ROOTDEV s) (\<lambda>_ s.
              let s = s\<lparr>first := False\<rparr> in
              bnd (kexec init_path [init_path] s) (\<lambda>r s.
              let s = set_tf p (tf_a 0) (word_of_int r) s in
              if get_tf p (tf_a 0) s = - 1 then Panic ''exec'' else Ok () s))
            else Ok () s) (\<lambda>_ s.
       bnd (prepare_return s) (\<lambda>_ s.
       Ok (MAKE_SATP (ppagetable (procs s p))) s)))) s"

section \<open>Boot\<close>

text \<open>The machine-mode registers that \<^verbatim>\<open>start\<close> sets up before it drops to supervisor mode.\<close>

definition MSTATUS_MPP_MASK :: u64 where "MSTATUS_MPP_MASK = push_bit 11 3"
definition MSTATUS_MPP_S :: u64 where "MSTATUS_MPP_S = push_bit 11 1"
definition SIE_SEIE :: u64 where "SIE_SEIE = push_bit 9 1"
definition SIE_STIE :: u64 where "SIE_STIE = push_bit 5 1"
definition MIE_STIE :: u64 where "MIE_STIE = push_bit 5 1"

record mregs =
  mstatus :: u64
  mepc :: u64
  msatp :: u64
  medeleg :: u64
  mideleg :: u64
  msie :: u64
  pmpaddr0 :: u64
  pmpcfg0 :: u64
  mie :: u64
  menvcfg :: u64
  mcounteren :: u64
  mstimecmp :: u64
  mtime :: u64
  mhartid :: u64
  mtp :: u64

definition timerinit :: "mregs \<Rightarrow> mregs" where
  "timerinit m =
     (let m = m\<lparr>mie := mie m OR MIE_STIE\<rparr>;
          m = m\<lparr>menvcfg := menvcfg m OR push_bit 63 1\<rparr>;
          m = m\<lparr>mcounteren := mcounteren m OR 2\<rparr>
      in m\<lparr>mstimecmp := mtime m + 1000000\<rparr>)"

definition start :: "u64 \<Rightarrow> mregs \<Rightarrow> mregs" where
  "start main_addr m =
     (let x = mstatus m AND NOT MSTATUS_MPP_MASK OR MSTATUS_MPP_S;
          m = m\<lparr>mstatus := x\<rparr>;
          m = m\<lparr>mepc := main_addr\<rparr>;
          m = m\<lparr>msatp := 0\<rparr>;
          m = m\<lparr>medeleg := 0xffff\<rparr>;
          m = m\<lparr>mideleg := 0xffff\<rparr>;
          m = m\<lparr>msie := msie m OR SIE_SEIE OR SIE_STIE\<rparr>;
          m = m\<lparr>pmpaddr0 := 0x3fffffffffffff\<rparr>;
          m = m\<lparr>pmpcfg0 := 0xf\<rparr>;
          m = timerinit m
      in m\<lparr>mtp := mhartid m\<rparr>)"

text \<open>\<^verbatim>\<open>main\<close> on the first hart, up to the scheduler.\<close>

definition kmain :: "'a ktrap_scheme \<Rightarrow> ('a ktrap_scheme, unit) out" where
  "kmain s =
     (if cpuid s = 0 then
        let s = printfinit (consoleinit s) in
        bnd (printf [CHR 0x0A] [] s) (\<lambda>_ s.
        bnd (printf (''xv6 kernel is booting'' @ [CHR 0x0A]) [] s) (\<lambda>_ s.
        bnd (printf [CHR 0x0A] [] s) (\<lambda>_ s.
        bnd (kinit s) (\<lambda>_ s.
        bnd (kvminit s) (\<lambda>_ s.
        bnd (procinit (kvminithart s)) (\<lambda>_ s.
        let s = plicinithart (plicinit (trapinithart (trapinit s))) in
        bnd (binit s) (\<lambda>_ s.
        bnd (iinit s) (\<lambda>_ s.
        bnd (virtio_disk_init (fileinit s)) (\<lambda>_ s.
        bnd (userinit s) (\<lambda>_ s.
        Ok () (s\<lparr>started := True\<rparr>)))))))))))
      else if \<not> started s then Diverge
      else
        bnd (printf (''hart %d starting'' @ [CHR 0x0A]) [(cpuid s, [])] s) (\<lambda>_ s.
        Ok () (plicinithart (trapinithart (kvminithart s)))))"

end
