(* ===== verification/Machine.thy ===== *)
theory Machine
  imports Trap Procprops
begin

text \<open>
  A machine whose memory, tables and device registers are all zero, as the loader leaves them. Concrete
  instances of the properties set the fields they need.
\<close>

definition zero_buf :: buf where
  "zero_buf = \<lparr>bvalid = 0, bdisk = 0, bdev = 0, bblockno = 0, brefcnt = 0, bprev = 0, bnext = 0, bdata = (\<lambda>_. 0)\<rparr>"

definition zero_inode :: inode where
  "zero_inode = \<lparr>idev = 0, inum = 0, iref = 0, ivalid = 0, itype = 0, imajor = 0, iminor = 0, inlink = 0, isize = 0,
     iaddrs = (\<lambda>_. 0)\<rparr>"

definition zero_file :: file_t where
  "zero_file = \<lparr>ftype = FD_NONE, fref = 0, freadable = False, fwritable = False, fpipe = 0, fip = None, foff = 0, fmajor = 0\<rparr>"

definition zero_pipe :: pipe where
  "zero_pipe = \<lparr>pdata = (\<lambda>_. 0), nread = 0, nwrite = 0, readopen = False, writeopen = False\<rparr>"

definition zero_machine :: ktrap where
  "zero_machine = \<lparr>held = {}, mem = (\<lambda>_. 0), freelist = 0, refcnt = (\<lambda>_. 0), kend = PHYSTOP,
     kernel_pagetable = 0, etext = 0, trampoline = 0, satp = 0,
     procs = (\<lambda>_. idle_proc), curproc = None, nextpid = 1, initproc = None, patience = 5,
     uart_writes = [], uart_rx = [], lsr_idle = (\<lambda>_. True), lsr_reads = 0, tx_busy = 0, panicking = 0, panicked = 0,
     slocks = (\<lambda>_. \<lparr>slocked = 0, spid = 0\<rparr>),
     bufs = (\<lambda>_. zero_buf), desc_page = 0, avail_page = 0, used_page = 0,
     desc = (\<lambda>_. \<lparr>daddr = DNull, dlen = 0, dflags = 0, dnext = 0\<rparr>), avail_idx = 0, avail_ring = (\<lambda>_. 0),
     used_widx = 0, used_ring = (\<lambda>_. 0), dfree = (\<lambda>_. False), used_idx = 0, info_b = (\<lambda>_. None), info_status = (\<lambda>_. 0),
     ops = (\<lambda>_. \<lparr>rtype = 0, reserved = 0, rsector = 0\<rparr>), vwrites = [], vread = (\<lambda>_ _. 0), dev_idx = 0, img = (\<lambda>_. 0),
     log_start = 0, outstanding = 0, committing = 0, log_dev = 0, lh_n = 0, lh_block = (\<lambda>_. 0),
     sb = \<lparr>magic = 0, sb_size = 0, nblocks = 0, ninodes = 0, nlog = 0, logstart = 0, inodestart = 0, bmapstart = 0\<rparr>,
     inodes = (\<lambda>_. zero_inode), files = (\<lambda>_. zero_file), pipes = (\<lambda>_. zero_pipe), devsw = (\<lambda>_. None),
     cons_buf = (\<lambda>_. 0), cons_r = 0, cons_w = 0, cons_e = 0, ticks = 0,
     sepc = 0, scause = 0, stval = 0, sstat = 0, stvec = 0, sscratch = 0, hartid = 0, stimecmp = 0, timereg = 0,
     kernelvec = 0, uservec = 0, userret = 0, usertrap_addr = 0, plic_writes = [], plic_pending = 0, first = True,
     started = False\<rparr>"

lemma zero_machine_sel [simp]:
  "held zero_machine = {}" "procs zero_machine = (\<lambda>_. idle_proc)" "curproc zero_machine = None"
  "no_plocks zero_machine" "ticks zero_machine = 0" "hartid zero_machine = 0" "patience zero_machine = 5"
  by (simp_all add: zero_machine_def no_plocks_def)

end
