(* ===== verification/Clockprops.thy ===== *)
theory Clockprops
  imports Machine
begin

text \<open>
  The clock interrupt and the periodic boost: no process stays in a low queue for more than a
  hundred clock interrupts of hart 0.
\<close>

definition boosted :: "'a kproc_scheme \<Rightarrow> bool" where
  "boosted s \<longleftrightarrow> (\<forall>p<NPROC. pstate (procs s p) \<noteq> UNUSED \<longrightarrow> priority (procs s p) = 0 \<and> ticks_used (procs s p) = 0)"

definition clock_ok :: "'a ktrap_scheme \<Rightarrow> bool" where
  "clock_ok s \<longleftrightarrow> no_plocks s \<and> TicksLock \<notin> held s \<and> cpuid s = 0"

lemma no_plocks_ticks [simp]:
  "no_plocks (s\<lparr>held := insert TicksLock (held s)\<rparr>) = no_plocks s"
  by (simp add: no_plocks_def)

lemma clockintr_eq:
  assumes "clock_ok s"
  shows "\<exists>t. clockintr s = Ok () t \<and> clock_ok t \<and> ticks t = ticks s + 1 \<and>
    ((ticks s + 1) mod MLFQ_BOOST = 0 \<longrightarrow> boosted t)"
proof -
  let ?u = "s\<lparr>held := insert TicksLock (held s), ticks := ticks s + 1\<rparr>"
  let ?v = "upd_procs (woken ChTicks (myproc ?u)) NPROC ?u"
  have u: "no_plocks ?u" using assms by (simp add: clock_ok_def no_plocks_def)
  then have v: "no_plocks ?v" by simp
  show ?thesis
  proof (cases "(ticks s + 1) mod MLFQ_BOOST = 0")
    case True
    then show ?thesis using assms wakeup_eq [OF u, of ChTicks] mlfq_boost_eq [OF v]
      by (simp add: clockintr_def clock_ok_def boosted_def no_plocks_def Let_def cpuid_def)
  next
    case False
    then show ?thesis using assms wakeup_eq [OF u, of ChTicks]
      by (simp add: clockintr_def clock_ok_def no_plocks_def Let_def cpuid_def)
  qed
qed


primrec clock_n :: "nat \<Rightarrow> 'a ktrap_scheme \<Rightarrow> ('a ktrap_scheme, unit) out" where
  "clock_n 0 s = Ok () s"
| "clock_n (Suc n) s = bnd (clock_n n s) (\<lambda>_ s. clockintr s)"

lemma clock_n_eq:
  assumes "clock_ok s"
  shows "\<exists>t. clock_n n s = Ok () t \<and> clock_ok t \<and> ticks t = ticks s + of_nat n \<and>
    (0 < n \<longrightarrow> ticks t mod MLFQ_BOOST = 0 \<longrightarrow> boosted t)"
proof (induction n)
  case (Suc n)
  then obtain t where t: "clock_n n s = Ok () t" "clock_ok t" "ticks t = ticks s + of_nat n" by auto
  obtain u where "clockintr t = Ok () u" "clock_ok u" "ticks u = ticks t + 1" "ticks u mod MLFQ_BOOST = 0 \<longrightarrow> boosted u"
    using clockintr_eq [OF t(2)] by auto
  then show ?case using t by (simp add: add.assoc)
qed (simp add: assms)

text \<open>Counting on from any value of the counter, wrapping included, a multiple of the interval is near.\<close>

lemma to_multiple: "(a + (100 - a mod 100)) mod 100 = (0 :: nat)"
proof -
  have "(a + (100 - a mod 100)) mod 100 = (a mod 100 + (100 - a mod 100)) mod 100" by (simp only: mod_add_left_eq)
  also have "a mod 100 + (100 - a mod 100) = 100" by (simp add: less_imp_le)
  finally show ?thesis by simp
qed

lemma unat_plus_nat: "unat (w + of_nat n :: u32) = (unat w + n) mod 4294967296"
  by (simp add: unat_word_ariths unat_of_nat mod_simps)

lemma next_boost:
  fixes w :: u32
  shows "\<exists>n. 0 < n \<and> n \<le> 100 \<and> (w + of_nat n) mod MLFQ_BOOST = 0"
proof -
  have w: "unat w < 4294967296" using unsigned_less [of w] by simp
  show ?thesis
  proof (cases "4294967296 - unat w \<le> 100")
    case True
    have "w + of_nat (4294967296 - unat w) = of_nat (unat w) + of_nat (4294967296 - unat w)" by simp
    also have "\<dots> = of_nat 4294967296" using w by (simp only: of_nat_add [symmetric] le_add_diff_inverse less_imp_le)
    also have "\<dots> = 0" by simp
    finally have "(w + of_nat (4294967296 - unat w)) mod MLFQ_BOOST = 0" by (simp only: word_mod_def) simp
    moreover have "0 < 4294967296 - unat w" using w by simp
    ultimately show ?thesis using True by (intro exI conjI)
  next
    case False
    let ?n = "100 - unat w mod 100"
    have n: "0 < ?n" "?n \<le> 100" by simp_all
    have "unat (w + of_nat ?n) = (unat w + ?n) mod 4294967296" by (rule unat_plus_nat)
    also have "\<dots> = unat w + ?n" by (rule mod_less) (use False n in linarith)
    finally have "unat (w + of_nat ?n) mod 100 = 0" by (simp only: to_multiple)
    then have "unat ((w + of_nat ?n) mod MLFQ_BOOST) = 0" by (simp add: unat_mod MLFQ_BOOST_def)
    then have "(w + of_nat ?n) mod MLFQ_BOOST = 0" by (simp only: unat_eq_zero)
    then show ?thesis using n by (intro exI conjI)
  qed
qed

text \<open>
  (C27) No starvation by priority. Whatever the tick counter is, wrap-around included, after at most a hundred
  clock interrupts of hart 0, none of which panics, there is a moment when every process in use is at
  the start of the top queue.
\<close>

theorem boost_within_interval:
  assumes "no_plocks s" "TicksLock \<notin> held s" "cpuid s = 0"
  shows "\<exists>n t. 0 < n \<and> n \<le> 100 \<and> clock_n n s = Ok () t \<and>
    (\<forall>p<NPROC. pstate (procs t p) \<noteq> UNUSED \<longrightarrow> priority (procs t p) = 0 \<and> ticks_used (procs t p) = 0)"
proof -
  obtain n where n: "0 < n" "n \<le> 100" "(ticks s + of_nat n) mod MLFQ_BOOST = 0" 
    using next_boost [of "ticks s"] by (elim exE conjE) (rule that)
  have "clock_ok s" using assms by (simp add: clock_ok_def)
  from clock_n_eq [OF this, of n] obtain t where t: "clock_n n s = Ok () t" "ticks t = ticks s + of_nat n"
      "0 < n \<longrightarrow> ticks t mod MLFQ_BOOST = 0 \<longrightarrow> boosted t"
    by (elim exE conjE) (rule that)
  then have "boosted t" using n by (simp only: simp_thms)
  then show ?thesis using n t(1) unfolding boosted_def by (intro exI conjI)
qed

theorem boost_within_interval_witness:
  "\<exists>n t. 0 < n \<and> n \<le> 100 \<and> clock_n n (zero_machine\<lparr>ticks := 4294967290\<rparr>) = Ok () t"
proof -
  have "no_plocks (zero_machine\<lparr>ticks := 4294967290\<rparr>)" "TicksLock \<notin> held (zero_machine\<lparr>ticks := 4294967290\<rparr>)"
    "cpuid (zero_machine\<lparr>ticks := 4294967290\<rparr>) = 0"
    by (simp_all add: cpuid_def no_plocks_def)
  from boost_within_interval [OF this] show ?thesis by (elim exE conjE) (intro exI conjI)
qed

end
