(* ===== verification/Printprops.thy ===== *)
theory Printprops
  imports Machine
begin

text \<open>
  Formatted output: what \<^verbatim>\<open>printint\<close> sends and the end of \<^verbatim>\<open>printf\<close>.
\<close>

section \<open>Numbers\<close>

text \<open>The usual notation of a number, most significant digit first.\<close>

fun num_str :: "nat \<Rightarrow> nat \<Rightarrow> string" where
  "num_str b n = (if b < 2 \<or> n < b then [digits ! n] else num_str b (n div b) @ [digits ! (n mod b)])"

declare num_str.simps [simp del]

definition digit_val :: "char \<Rightarrow> nat" where
  "digit_val c = (if c \<in> set ''abcdef'' then of_char c - 87 else of_char c - 48)"

definition str_val :: "nat \<Rightarrow> string \<Rightarrow> nat" where
  "str_val b cs = foldl (\<lambda>v c. v * b + digit_val c) 0 cs"

lemma digit_val_digits: "i < 16 \<Longrightarrow> digit_val (digits ! i) = i"
proof -
  assume "i < 16"
  moreover have "\<forall>i\<in>{0..<16}. digit_val (digits ! i) = i" by (code_simp)
  ultimately show ?thesis by simp
qed

lemma str_val_num_str: "2 \<le> b \<Longrightarrow> b \<le> 16 \<Longrightarrow> str_val b (num_str b n) = n"
proof (induction b n rule: num_str.induct)
  case (1 b n)
  show ?case
  proof (cases "n < b")
    case True
    then show ?thesis using 1 by (simp add: num_str.simps [of b n] str_val_def digit_val_digits)
  next
    case False
    then have "num_str b n = num_str b (n div b) @ [digits ! (n mod b)]" using 1 by (simp add: num_str.simps [of b n])
    moreover have "digit_val (digits ! (n mod b)) = n mod b"
      by (rule digit_val_digits, rule less_le_trans [OF mod_less_divisor]) (use 1(2,3) in simp_all)
    ultimately show ?thesis using False 1 by (simp add: str_val_def)
  qed
qed

lemma printint_loop_eq:
  assumes "2 \<le> unat base"
  shows "unat x < unat base ^ Suc k \<Longrightarrow> k < n \<Longrightarrow> length buf + k < 20 \<Longrightarrow>
    printint_loop n x base buf = Some (buf @ rev (num_str (unat base) (unat x))) \<and> length (num_str (unat base) (unat x)) \<le> Suc k"
proof (induction k arbitrary: n x buf)
  case 0
  then obtain m where "n = Suc m" by (cases n) auto
  moreover have "x div base = 0" "x mod base = x" using 0
    by (simp_all add: word_unat_eq_iff unat_div unat_mod)
  ultimately show ?case using 0 by (simp add: num_str.simps [of "unat base" "unat x"] Let_def)
next
  case (Suc k)
  then obtain m where m: "n = Suc m" "k < m" by (cases n) auto
  have d: "unat (x div base) = unat x div unat base" "unat (x mod base) = unat x mod unat base"
    by (simp_all add: unat_div unat_mod)
  show ?case
  proof (cases "unat x < unat base")
    case True
    then have "x div base = 0" by (simp add: word_unat_eq_iff unat_div)
    then show ?thesis using True Suc.prems m d by (simp add: num_str.simps [of "unat base" "unat x"] Let_def)
  next
    case False
    have "unat x div unat base < unat base ^ Suc k"
      using Suc.prems(1) assms by (intro less_mult_imp_div_less) (simp add: mult.commute)
    then have "unat (x div base) < unat base ^ Suc k" by (simp only: d)
    from Suc.IH [OF this, of m "buf @ [digits ! unat (x mod base)]"] Suc.prems m
    have ih: "printint_loop m (x div base) base (buf @ [digits ! unat (x mod base)]) =
        Some ((buf @ [digits ! unat (x mod base)]) @ rev (num_str (unat base) (unat (x div base))))"
      "length (num_str (unat base) (unat (x div base))) \<le> Suc k" by simp_all
    have nz: "x div base \<noteq> 0"
    proof
      assume "x div base = 0"
      then have "unat x div unat base = 0" by (simp only: d(1) [symmetric] unat_eq_zero)
      then show False using False assms by (simp add: div_eq_0_iff)
    qed
    have "num_str (unat base) (unat x) = num_str (unat base) (unat (x div base)) @ [digits ! unat (x mod base)]"
      using False assms by (simp add: num_str.simps [of "unat base" "unat x"] d)
    then show ?thesis using ih nz m Suc.prems by (simp add: Let_def)
  qed
qed

lemma unat_neg_sint:
  fixes x :: u64
  assumes "sint x < 0"
  shows "unat (- x) = nat (- sint x)"
proof -
  have "uint (- x) = (- sint x) mod 2 ^ 64"
    using uint_word_of_int [of "- sint x", where 'a = 64] by simp
  also have "\<dots> = - sint x"
    using assms sint_ge [of x] by (intro mod_pos_pos_trivial) simp_all
  finally show ?thesis by (simp add: unat_eq_nat_uint)
qed

lemma printint_buf_Some:
  assumes "base = 10 \<or> base = 16"
  shows "\<exists>buf. printint_buf xx base sign = Some buf \<and> length buf \<le> 20 \<and>
    rev buf = (if sign \<and> sint xx < 0 then CHR ''-'' # num_str (unat base) (nat (- sint xx))
               else num_str (unat base) (unat xx))"
proof -
  have b: "2 \<le> unat base" "unat base \<le> 16" using assms by auto
  have big: "(2 :: nat) ^ 64 \<le> unat base ^ Suc 19" "(2 :: nat) ^ 63 < unat base ^ Suc 18" using assms by auto
  show ?thesis
  proof (cases "sign \<and> sint xx < 0")
    case True
    have "- sint xx \<le> 2 ^ 63" using sint_ge [of xx] by simp
    then have "unat (- xx) \<le> 2 ^ 63" using unat_neg_sint [of xx] True by simp
    then have "unat (- xx) < unat base ^ Suc 18" using big(2) by (rule le_less_trans)
    from printint_loop_eq [OF b(1) this, of 64 "[]"] show ?thesis
      using True unat_neg_sint [of xx]
      by (simp add: printint_buf_def Let_def word_sless_alt)
  next
    case False
    have "unat xx < 2 ^ 64" using unsigned_less [of xx] by simp
    then have "unat xx < unat base ^ Suc 19" using big(1) by (rule less_le_trans)
    from printint_loop_eq [OF b(1) this, of 64 "[]"] show ?thesis
      using False
      by (auto simp: printint_buf_def Let_def word_sless_alt)
  qed
qed

text \<open>The notation has no leading zero, so no shorter digit string has the same value.\<close>

lemma num_str_lead: "2 \<le> b \<Longrightarrow> b \<le> 16 \<Longrightarrow> 0 < n \<Longrightarrow> num_str b n \<noteq> [] \<and> digit_val (hd (num_str b n)) \<noteq> 0"
proof (induction b n rule: num_str.induct)
  case (1 b n)
  show ?case
  proof (cases "n < b")
    case True
    then show ?thesis using 1 by (simp add: num_str.simps [of b n] digit_val_digits)
  next
    case False
    then have "num_str b n = num_str b (n div b) @ [digits ! (n mod b)]" "0 < n div b" using 1 by (simp_all add: num_str.simps [of b n] div_greater_zero_iff)
    then show ?thesis using 1 False by simp
  qed
qed

definition int_str :: "u64 \<Rightarrow> u64 \<Rightarrow> bool \<Rightarrow> string" where
  "int_str xx base sign = (if sign \<and> sint xx < 0 then CHR ''-'' # num_str (unat base) (nat (- sint xx)) else num_str (unat base) (unat xx))"

section \<open>Termination of \<^verbatim>\<open>printf\<close>\<close>

text \<open>The transmitter is found idle within the number of reads that the busy wait is given.\<close>

definition tx_ready :: "'a kuart_scheme \<Rightarrow> bool" where
  "tx_ready s \<longleftrightarrow> panicked s = 0 \<and> (\<forall>n. \<exists>m<patience s. lsr_idle s (n + m))"

text \<open>
  \<open>emits bs x f\<close>: the routine \<open>f\<close> returns \<open>x\<close>, sends the bytes \<open>bs\<close> and changes nothing else.
\<close>

definition emits :: "u8 list \<Rightarrow> 'b \<Rightarrow> ('a kuart_scheme \<Rightarrow> ('a kuart_scheme, 'b) out) \<Rightarrow> bool" where
  "emits bs x f \<longleftrightarrow> (\<forall>s. tx_ready s \<longrightarrow>
     (\<exists>n. f s = Ok x (s\<lparr>uart_writes := uart_writes s @ map (Pair THR) bs, lsr_reads := n\<rparr>)))"

lemma tx_ready_upd [simp]: "tx_ready (s\<lparr>uart_writes := w, lsr_reads := n\<rparr>) = tx_ready s"
  by (simp add: tx_ready_def)

lemma emitsE:
  assumes "emits bs x f" "tx_ready s"
  obtains n where "f s = Ok x (s\<lparr>uart_writes := uart_writes s @ map (Pair THR) bs, lsr_reads := n\<rparr>)"
  using assms(1) [unfolded emits_def, rule_format, OF assms(2)] by (elim exE) (rule that)

lemma emits_Ok: "emits [] x (Ok x)"
  unfolding emits_def
proof (intro allI impI)
  fix s :: "'b kuart_scheme"
  show "\<exists>n. Ok x s = Ok x (s\<lparr>uart_writes := uart_writes s @ map (Pair THR) [], lsr_reads := n\<rparr>)"
    by (intro exI [of _ "lsr_reads s"]) simp
qed

lemma emits_bnd:
  assumes "emits bs x f" "emits cs y (g x)"
  shows "emits (bs @ cs) y (\<lambda>s. bnd (f s) g)"
  unfolding emits_def
proof (intro allI impI)
  fix s :: "'b kuart_scheme" assume s: "tx_ready s"
  from assms(1) s obtain n where n: "f s = Ok x (s\<lparr>uart_writes := uart_writes s @ map (Pair THR) bs, lsr_reads := n\<rparr>)"
    by (rule emitsE)
  let ?t = "s\<lparr>uart_writes := uart_writes s @ map (Pair THR) bs, lsr_reads := n\<rparr>"
  have "tx_ready ?t" using s by simp
  from assms(2) this obtain m where "g x ?t = Ok y (?t\<lparr>uart_writes := uart_writes ?t @ map (Pair THR) cs, lsr_reads := m\<rparr>)"
    by (rule emitsE)
  then show "\<exists>n. bnd (f s) g = Ok y (s\<lparr>uart_writes := uart_writes s @ map (Pair THR) (bs @ cs), lsr_reads := n\<rparr>)"
    using n by (intro exI [of _ m]) simp
qed

lemma emits_foreach: "(\<And>c. emits (h c) () (f c)) \<Longrightarrow> emits (concat (map h cs)) () (foreach cs f)"
proof (induction cs)
  case Nil
  then show ?case using emits_Ok [of "()"] by (simp add: emits_def)
next
  case (Cons c cs)
  have "emits (h c @ concat (map h cs)) () (\<lambda>s. bnd (f c s) (\<lambda>_ s. foreach cs f s))"
    by (rule emits_bnd) (rule Cons.prems, rule Cons.IH, rule Cons.prems)
  then show ?case by (simp add: emits_def)
qed

lemma spin_tx_Suc:
  "spin_tx (Suc k) s = (if lsr_idle s (lsr_reads s) then Ok () (s\<lparr>lsr_reads := lsr_reads s + 1\<rparr>)
     else spin_tx k (s\<lparr>lsr_reads := lsr_reads s + 1\<rparr>))"
  by (simp add: read_LSR_def LSR_RX_READY_def LSR_TX_IDLE_def)

lemma spin_tx_ready:
  "\<exists>m<k. lsr_idle s (lsr_reads s + m) \<Longrightarrow> \<exists>n. spin_tx k s = Ok () (s\<lparr>lsr_reads := n\<rparr>)"
proof (induction k arbitrary: s)
  case (Suc k)
  show ?case
  proof (cases "lsr_idle s (lsr_reads s)")
    case True
    then show ?thesis unfolding spin_tx_Suc by (auto simp del: spin_tx.simps)
  next
    case False
    let ?t = "s\<lparr>lsr_reads := lsr_reads s + 1\<rparr>"
    from Suc.prems obtain m where "m < Suc k" "lsr_idle s (lsr_reads s + m)" by blast
    moreover then have "m \<noteq> 0" using False by (intro notI) simp
    ultimately have "m - 1 < k \<and> lsr_idle ?t (lsr_reads ?t + (m - 1))" by simp
    then have "\<exists>n. spin_tx k ?t = Ok () (?t\<lparr>lsr_reads := n\<rparr>)" by (intro Suc.IH) blast
    then show ?thesis using False unfolding spin_tx_Suc by simp
  qed
qed simp

lemma emits_uart: "emits [word_of_int c] () (uartputc_sync c)"
  unfolding emits_def
proof (intro allI impI)
  fix s :: "'a kuart_scheme" assume "tx_ready s"
  then obtain n where "panicked s = 0" "spin_tx (patience s) s = Ok () (s\<lparr>lsr_reads := n\<rparr>)"
    using spin_tx_ready [of "patience s" s] by (auto simp: tx_ready_def)
  then show "\<exists>n. uartputc_sync c s = Ok () (s\<lparr>uart_writes := uart_writes s @ map (Pair THR) [word_of_int c], lsr_reads := n\<rparr>)"
    by (intro exI [of _ n]) (simp add: uartputc_sync_def WriteReg_def)
qed

definition cons_bytes :: "int \<Rightarrow> u8 list" where
  "cons_bytes c = (if c = BACKSPACE then [8, 32, 8] else [word_of_int c])"

lemma emits_consputc: "emits (cons_bytes c) () (consputc c)"
proof (cases "c = BACKSPACE")
  case True
  have "emits ([word_of_int 8] @ ([word_of_int 32] @ [word_of_int 8])) ()
      (\<lambda>s :: 'a kuart_scheme. bnd (uartputc_sync 8 s) (\<lambda>_ s. bnd (uartputc_sync 32 s) (\<lambda>_ s. uartputc_sync 8 s)))"
    by (intro emits_bnd [where x = "()"] emits_uart)
  then show ?thesis using True by (simp add: emits_def consputc_def cons_bytes_def)
next
  case False
  then show ?thesis using emits_uart [of c] by (simp add: emits_def consputc_def cons_bytes_def)
qed

definition emitting :: "'b \<Rightarrow> ('a kuart_scheme \<Rightarrow> ('a kuart_scheme, 'b) out) \<Rightarrow> bool" where
  "emitting x f \<longleftrightarrow> (\<exists>bs. emits bs x f)"

lemma emitting_Ok: "emitting x (Ok x)" "emitting x (\<lambda>s. Ok x s)"
  unfolding emitting_def using emits_Ok [of x] by (intro exI, assumption)+

lemma emitting_bnd: "emitting x f \<Longrightarrow> emitting y (g x) \<Longrightarrow> emitting y (\<lambda>s. bnd (f s) g)"
  unfolding emitting_def by (elim exE) (rule exI, rule emits_bnd)

lemma emitting_consputc: "emitting () (consputc c)"
  unfolding emitting_def by (rule exI, rule emits_consputc)

lemma emitting_putchs: "emitting () (foreach cs (\<lambda>c s. putch c s))"
  unfolding emitting_def by (rule exI, rule emits_foreach, rule emits_consputc)

lemma cons_bytes_char: "cons_bytes (of_char c) = [of_char c]"
proof -
  have "of_char c < (256 :: int)" using of_char_mod_256 [where 'a = int, of c] by (metis pos_mod_bound zero_less_numeral)
  moreover have "(word_of_int (of_char c) :: u8) = of_char c" by (cases c) (simp add: of_char_def)
  ultimately show ?thesis by (simp add: cons_bytes_def BACKSPACE_def)
qed

lemma emits_putchs: "emits (map of_char cs) () (foreach cs (\<lambda>c s. putch c s))"
proof -
  have "emits (concat (map (\<lambda>c. [of_char c]) cs)) () (foreach cs (\<lambda>c s :: 'a kuart_scheme. putch c s))"
    by (rule emits_foreach) (use emits_consputc cons_bytes_char in metis)
  then show ?thesis by (simp add: concat_map_singleton)
qed

lemma printint_emits:
  assumes "printint_buf xx base sign = Some buf"
  shows "emits (map of_char (rev buf)) () (printint xx base sign)"
  using emits_putchs [of "rev buf"] assms by (simp add: emits_def printint_def)

lemma emitting_printint: "base = 10 \<or> base = 16 \<Longrightarrow> emitting () (printint xx base sign)"
  using printint_buf_Some [of base xx sign] printint_emits [of xx base sign] unfolding emitting_def by blast

text \<open>
  (C26) The number printer. In base ten and in base sixteen, for signed and unsigned arguments, the most negative
  number included, the digit loop stays inside the twenty characters of its buffer, and once the transmitter is ready for each byte
  \<^verbatim>\<open>printint\<close> returns having sent to the UART, in this order, the sign and the digits of the argument, and having changed
  nothing else. The value of the digits is the magnitude of the argument, and they have no leading zero.
\<close>

theorem printint_digits:
  assumes "base = 10 \<or> base = 16" "tx_ready s"
  shows "\<exists>buf n. printint_buf xx base sign = Some buf \<and> length buf \<le> 20 \<and>
    printint xx base sign s = Ok () (s\<lparr>uart_writes := uart_writes s @ map (Pair THR) (map of_char (int_str xx base sign)), lsr_reads := n\<rparr>) \<and>
    int_str xx base sign = (if sign \<and> sint xx < 0 then CHR ''-'' # num_str (unat base) (nat (- sint xx)) else num_str (unat base) (unat xx)) \<and>
    (\<forall>m. str_val (unat base) (num_str (unat base) m) = m \<and> (0 < m \<longrightarrow> digit_val (hd (num_str (unat base) m)) \<noteq> 0))"
proof -
  have b: "2 \<le> unat base" "unat base \<le> 16" using assms by auto
  obtain buf where buf: "printint_buf xx base sign = Some buf" "length buf \<le> 20" "rev buf = int_str xx base sign"
    using printint_buf_Some [OF assms(1), of xx sign] unfolding int_str_def by blast
  obtain n where "printint xx base sign s = Ok () (s\<lparr>uart_writes := uart_writes s @ map (Pair THR) (map of_char (rev buf)), lsr_reads := n\<rparr>)"
    using emitsE [OF printint_emits [OF buf(1)] assms(2)] .
  then show ?thesis using buf str_val_num_str [OF b] num_str_lead [OF b]
    by (intro exI [of _ buf] exI [of _ n] conjI allI impI) (simp_all add: int_str_def)
qed

theorem printint_digits_witness:
  "\<exists>n. printint (- 255) 16 True zero_machine = Ok () (zero_machine\<lparr>uart_writes := [(THR, 45), (THR, 102), (THR, 102)], lsr_reads := n\<rparr>)"
proof -
  have "tx_ready zero_machine" by (simp add: tx_ready_def zero_machine_def) (rule exI [of _ 0], simp)
  moreover have "int_str (- 255) 16 True = ''-ff''" by (simp add: int_str_def num_str.simps digits_def)
  moreover have "uart_writes zero_machine = []" by (simp add: zero_machine_def)
  ultimately show ?thesis using printint_digits [of 16 zero_machine "- 255" True] by auto
qed

lemma printptr_loop_fun:
  "printptr_loop 0 x = Ok ()"
  "printptr_loop (Suc n) x = (\<lambda>s. bnd (putch (digits ! unat (drop_bit 60 x)) s) (\<lambda>_. printptr_loop n (push_bit 4 x)))"
  by (simp_all add: fun_eq_iff)

lemma emitting_printptr_loop: "emitting () (printptr_loop n x)"
  by (induction n arbitrary: x)
    (unfold printptr_loop_fun, rule emitting_Ok, rule emitting_bnd, rule emitting_consputc)

lemma emitting_printptr: "emitting () (printptr x)"
  unfolding printptr_def [abs_def]
  by (rule emitting_bnd, rule emitting_consputc, rule emitting_bnd, rule emitting_consputc, rule emitting_printptr_loop)

text \<open>A conversion returns, and it does not step back in the format.\<close>

definition conv_ok :: "nat \<Rightarrow> ('a kuart_scheme \<Rightarrow> ('a kuart_scheme, (nat \<times> nat) option) out) \<Rightarrow> bool" where
  "conv_ok i f \<longleftrightarrow> (\<exists>r. emitting r f \<and> (\<forall>j k. r = Some (j, k) \<longrightarrow> i \<le> j))"

lemma conv_ok_if: "(c \<Longrightarrow> conv_ok i f) \<Longrightarrow> (\<not> c \<Longrightarrow> conv_ok i g) \<Longrightarrow> conv_ok i (\<lambda>s. if c then f s else g s)"
  by (cases c) simp_all

lemma conv_ok_None: "conv_ok i (Ok None)"
  unfolding conv_ok_def by (intro exI conjI, rule emitting_Ok) simp

lemma conv_ok_Some: "emitting () f \<Longrightarrow> i \<le> j \<Longrightarrow> conv_ok i (\<lambda>s. bnd (f s) (\<lambda>_ s. Ok (Some (j, k)) s))"
  unfolding conv_ok_def by (intro exI conjI, rule emitting_bnd, assumption, rule emitting_Ok) simp

lemma conv_ok_Some2:
  "emitting () f \<Longrightarrow> emitting () g \<Longrightarrow> i \<le> j \<Longrightarrow>
     conv_ok i (\<lambda>s. bnd (f s) (\<lambda>_ s. bnd (g s) (\<lambda>_ s. Ok (Some (j, k)) s)))"
  unfolding conv_ok_def
  by (intro exI conjI, rule emitting_bnd, assumption, rule emitting_bnd, assumption, rule emitting_Ok) simp

lemma conv_ok_printf_conv: "conv_ok i (printf_conv fmt i ap k)"
  unfolding printf_conv_def [abs_def] Let_def
  by (intro conv_ok_if;
      (rule conv_ok_None |
       (rule conv_ok_Some; ((rule emitting_printint, simp; fail) | rule emitting_printptr | rule emitting_consputc
         | rule emitting_putchs | (simp; fail))) |
       (rule conv_ok_Some2; (rule emitting_consputc | (simp; fail)))))

lemma chr_at_end: "chr_at fmt i \<noteq> 0 \<Longrightarrow> i < length fmt"
  by (simp add: chr_at_def split: if_splits)

lemma emitting_printf_loop: "length fmt - i < n \<Longrightarrow> emitting () (\<lambda>s :: 'a kuart_scheme. printf_loop n fmt i ap k s)"
proof (induction n arbitrary: i k)
  case (Suc n)
  let ?c = "chr_at fmt i"
  consider "?c = 0" | "?c \<noteq> 0" "?c \<noteq> of_char CHR ''%''" | "?c = of_char CHR ''%''" by blast
  then show ?case
  proof cases
    case 1
    then show ?thesis using emitting_Ok(1) [of "()"] by simp
  next
    case 2
    have "emitting () (\<lambda>s :: 'a kuart_scheme. printf_loop n fmt (i + 1) ap k s)"
      by (rule Suc.IH) (use chr_at_end [OF 2(1)] Suc.prems in linarith)
    then have "emitting () (\<lambda>s :: 'a kuart_scheme. bnd (consputc ?c s) (\<lambda>_ s. printf_loop n fmt (i + 1) ap k s))"
      by (rule emitting_bnd [OF emitting_consputc])
    then show ?thesis using 2 by (simp add: Let_def)
  next
    case 3
    then have i: "i < length fmt" using chr_at_end [of fmt i] by simp
    obtain r where r: "emitting r (printf_conv fmt (i + 1) ap k :: 'a kuart_scheme \<Rightarrow> _)" "\<forall>j k. r = Some (j, k) \<longrightarrow> i + 1 \<le> j"
      using conv_ok_printf_conv [of "i + 1" fmt ap k] unfolding conv_ok_def by (elim exE conjE) (rule that)
    have "emitting () ((\<lambda>r (s :: 'a kuart_scheme). case r of None \<Rightarrow> Ok () s | Some (j, k) \<Rightarrow> printf_loop n fmt (j + 1) ap k s) r)"
    proof (cases r)
      case None
      then show ?thesis using emitting_Ok(1) [of "()"] by simp
    next
      case (Some jk)
      obtain j l where "jk = (j, l)" by force
      moreover then have "length fmt - (j + 1) < n" using r(2) Some i Suc.prems by auto
      ultimately show ?thesis using Some Suc.IH [of "j + 1" l] by simp
    qed
    with r(1) have "emitting () (\<lambda>s :: 'a kuart_scheme. bnd (printf_conv fmt (i + 1) ap k s)
        (\<lambda>r s. case r of None \<Rightarrow> Ok () s | Some (j, k) \<Rightarrow> printf_loop n fmt (j + 1) ap k s))"
      by (rule emitting_bnd)
    then show ?thesis using 3 by (simp add: Let_def)
  qed
qed simp

text \<open>Bytes have been sent, and nothing else has happened.\<close>

definition sent :: "'a kuart_scheme \<Rightarrow> 'a kuart_scheme \<Rightarrow> bool" where
  "sent s t \<longleftrightarrow> (\<exists>bs n. t = s\<lparr>uart_writes := uart_writes s @ map (Pair THR) bs, lsr_reads := n\<rparr>)"

lemma sent_refl: "sent s s"
  unfolding sent_def by (intro exI [of _ "[]"] exI [of _ "lsr_reads s"]) simp

lemma sent_trans:
  assumes "sent s t" "sent t u"
  shows "sent s u"
proof -
  obtain bs n where t: "t = s\<lparr>uart_writes := uart_writes s @ map (Pair THR) bs, lsr_reads := n\<rparr>"
    using assms(1) unfolding sent_def by (elim exE)
  obtain cs m where "u = t\<lparr>uart_writes := uart_writes t @ map (Pair THR) cs, lsr_reads := m\<rparr>"
    using assms(2) unfolding sent_def by (elim exE)
  then show ?thesis unfolding sent_def t by (intro exI [of _ "bs @ cs"] exI [of _ m]) simp
qed

lemma sentE:
  assumes "sent s t"
  obtains w n where "t = s\<lparr>uart_writes := w, lsr_reads := n\<rparr>"
  using assms unfolding sent_def by (elim exE) (rule that)

lemma sent_frame:
  assumes "sent s t"
  shows "tx_ready t = tx_ready s" "held t = held s" "procs t = procs s" "curproc t = curproc s" "panicking t = panicking s" "uart_rx t = uart_rx s"
  using assms by (auto elim!: sentE simp: tx_ready_def)

lemma printf_returns:
  assumes "tx_ready s" "panicking s \<noteq> 0 \<or> PrLock \<notin> held s"
  shows "\<exists>t. printf fmt args s = Ok () t \<and> sent s t"
proof -
  let ?s = "if panicking s = 0 then s\<lparr>held := insert PrLock (held s)\<rparr> else s"
  have "emitting () (\<lambda>s. printf_loop (Suc (length fmt)) fmt 0 (\<lambda>k. args ! k) 0 s :: ('a kuart_scheme, unit) out)"
    by (rule emitting_printf_loop) simp
  then obtain bs where "emits bs () (\<lambda>s. printf_loop (Suc (length fmt)) fmt 0 (\<lambda>k. args ! k) 0 s :: ('a kuart_scheme, unit) out)"
    unfolding emitting_def by (elim exE)
  moreover have "tx_ready ?s" using assms(1) by (simp add: tx_ready_def)
  ultimately obtain n where
    "printf_loop (Suc (length fmt)) fmt 0 (\<lambda>k. args ! k) 0 ?s =
       Ok () (?s\<lparr>uart_writes := uart_writes ?s @ map (Pair THR) bs, lsr_reads := n\<rparr>)"
    by (rule emitsE)
  then have "printf fmt args s = Ok () (s\<lparr>uart_writes := uart_writes s @ map (Pair THR) bs, lsr_reads := n\<rparr>)"
    using assms(2) by (cases "panicking s = 0") (simp_all add: printf_def del: printf_loop.simps)
  then show ?thesis unfolding sent_def by (intro exI conjI) (assumption, rule refl)
qed



end
