(* ===== verification/Ring.thy ===== *)
theory Ring
  imports Prelude
begin

text \<open>
  Ring buffers with free-running 32-bit indices: the element at index \<open>i\<close> is stored at \<open>i mod size\<close>, and
  because the size divides \<open>2 ^ 32\<close> the wrap-around of an index does not disturb the layout. The pipe
  and the console's input buffer are two such rings.
\<close>

definition ring_contents :: "nat \<Rightarrow> (nat \<Rightarrow> 'v) \<Rightarrow> 32 word \<Rightarrow> 32 word \<Rightarrow> 'v list" where
  "ring_contents sz buf r w = map (\<lambda>i. buf (unat (r + of_nat i) mod sz)) [0..<unat (w - r)]"

lemma map_upt_shift: "map f [a..<a + b] = map (\<lambda>i. f (a + i)) [0..<b]"
  by (rule nth_equalityI) simp_all

locale ring =
  fixes size :: nat
  assumes size_pos: "0 < size" and size_dvd: "size dvd 4294967296"
begin

lemma length_contents [simp]: "length (ring_contents size buf r w) = unat (w - r)"
  by (simp add: ring_contents_def)

lemma contents_empty [simp]: "ring_contents size buf r r = []"
  by (simp add: ring_contents_def)

lemma unat_plus_mod: "unat (r + of_nat i :: 32 word) mod size = (unat r + i) mod size"
proof -
  have "unat (r + of_nat i :: 32 word) = (unat r + i) mod 4294967296"
    by (simp add: unat_word_ariths unat_of_nat mod_simps)
  then show ?thesis using size_dvd by (simp only: mod_mod_cancel)
qed

lemma slot_inj:
  assumes "i < size" "j < size" "unat (r + of_nat i :: 32 word) mod size = unat (r + of_nat j) mod size"
  shows "i = j"
proof -
  have "(unat r + i) mod size = (unat r + j) mod size" using assms(3) by (simp only: unat_plus_mod)
  then have "(int (unat r) + int i) mod int size = (int (unat r) + int j) mod int size"
    by (simp only: of_nat_add [symmetric] of_nat_mod [symmetric])
  then have "int size dvd (int i - int j)" by (simp add: mod_eq_dvd_iff)
  then obtain k where k: "int i - int j = int size * k" by (elim dvdE)
  then have "\<bar>int size * k\<bar> < int size" using assms(1,2) by linarith
  then have "k = 0" using size_pos by (simp add: abs_mult)
  then show ?thesis using k by simp
qed

lemma contents_append:
  assumes "unat (w - r) \<le> unat (e - r)"
  shows "ring_contents size buf r e = ring_contents size buf r w @ ring_contents size buf w e"
proof -
  have "unat (e - w) = unat ((e - r) - (w - r))" by simp
  also have "\<dots> = unat (e - r) - unat (w - r)"
    using assms by (simp only: unat_sub word_le_nat_alt)
  finally have "unat (e - r) = unat (w - r) + unat (e - w)" using assms by simp
  moreover have "r + of_nat (unat (w - r) + i) = w + of_nat i" for i by simp
  ultimately show ?thesis
    by (simp add: ring_contents_def upt_add_eq_append [of 0, simplified] map_upt_shift)
qed

lemma contents_put:
  assumes "unat (w - r) < size" "size < 4294967296"
  shows "ring_contents size (buf(unat w mod size := c)) r (w + 1) = ring_contents size buf r w @ [c]"
proof -
  let ?n = "unat (w - r)"
  have w: "unat w mod size = unat (r + of_nat ?n) mod size" by simp
  have "?n + 1 < 4294967296" using assms by simp
  then have "unat (w + 1 - r) = Suc ?n"
    using unat_word_ariths(1) [of "w - r" 1] by (simp add: add_diff_eq diff_add_eq)
  moreover have "(buf(unat w mod size := c)) (unat (r + of_nat i) mod size) =
      (if i = ?n then c else buf (unat (r + of_nat i) mod size))" if "i < Suc ?n" for i
  proof (cases "i = ?n")
    case False
    then have "unat (r + of_nat i) mod size \<noteq> unat w mod size"
      using slot_inj [of i ?n r] that assms(1) unfolding w by linarith
    then show ?thesis using False by simp
  qed simp
  ultimately show ?thesis by (simp add: ring_contents_def)
qed

lemma contents_get:
  assumes "r \<noteq> w"
  shows "ring_contents size buf r w = buf (unat r mod size) # ring_contents size buf (r + 1) w"
proof -
  have "unat (w - r) \<noteq> 0" using assms by (simp add: unat_eq_zero)
  then have n: "unat (w - r) = Suc (unat (w - (r + 1)))"
    using unat_minus_one [of "w - r"] assms by (simp add: diff_diff_eq)
  show ?thesis unfolding ring_contents_def n
    by (simp add: upt_conv_Cons map_Suc_upt [symmetric] comp_def add.assoc del: upt_Suc)
qed

lemma contents_drop_last:
  assumes "e \<noteq> r"
  shows "ring_contents size buf r (e - 1) = butlast (ring_contents size buf r e)"
proof -
  have "unat (e - 1 - r) = unat (e - r) - 1"
    using unat_minus_one [of "e - r"] assms by (simp add: diff_diff_eq add.commute)
  moreover have "unat (e - r) \<noteq> 0" using assms by (simp add: unat_eq_zero)
  ultimately show ?thesis by (cases "unat (e - r)") (simp_all add: ring_contents_def)
qed

lemma contents_last:
  assumes "e \<noteq> r"
  shows "buf (unat (e - 1) mod size) = last (ring_contents size buf r e)"
proof -
  have "unat (e - r) \<noteq> 0" using assms by (simp add: unat_eq_zero)
  moreover have "e - 1 = r + of_nat (unat (e - r) - 1)"
  proof -
    have "unat (e - r) - 1 = unat (e - r - 1)" using unat_minus_one [of "e - r"] assms by simp
    then show ?thesis by simp
  qed
  ultimately show ?thesis by (cases "unat (e - r)") (simp_all add: ring_contents_def)
qed

end

end
