(* ===== verification/Consprops.thy ===== *)
theory Consprops
  imports Printprops Ring
begin

unbundle bit_operations_syntax

text \<open>
  The console's line discipline: the input buffer holds the finished lines that wait for a reader and
  the line being edited; typing, erasing and finishing a line are list operations on the two.
\<close>

interpretation cons_ring: ring INPUT_BUF_SIZE
  by unfold_locales (simp_all add: INPUT_BUF_SIZE_def)

definition cons_inv :: "'a kcons_scheme \<Rightarrow> bool" where
  "cons_inv s \<longleftrightarrow> unat (cons_w s - cons_r s) \<le> unat (cons_e s - cons_r s) \<and> unat (cons_e s - cons_r s) \<le> INPUT_BUF_SIZE"

text \<open>The bytes a reader may take, and the line being edited.\<close>

definition cons_done :: "'a kcons_scheme \<Rightarrow> u8 list" where
  "cons_done s = ring_contents INPUT_BUF_SIZE (cons_buf s) (cons_r s) (cons_w s)"

definition cons_line :: "'a kcons_scheme \<Rightarrow> u8 list" where
  "cons_line s = ring_contents INPUT_BUF_SIZE (cons_buf s) (cons_w s) (cons_e s)"

text \<open>A line under edit holds no newline: a newline finishes it.\<close>

definition cons_ok :: "'a kcons_scheme \<Rightarrow> bool" where
  "cons_ok s \<longleftrightarrow> cons_inv s \<and> 10 \<notin> set (cons_line s)"

lemmas cons_defs = cons_inv_def cons_done_def cons_line_def

text \<open>What a key does to the finished input and to the line under edit.\<close>

definition edit :: "int \<Rightarrow> u8 list \<times> u8 list \<Rightarrow> u8 list \<times> u8 list" where
  "edit c dl =
     (let d = fst dl; l = snd dl; b = (if c = 13 then 10 else word_of_int c) in
      if c = ctrl CHR ''P'' then (d, l)
      else if c = ctrl CHR ''U'' then (d, [])
      else if c = ctrl CHR ''H'' \<or> c = 0x7f then (d, butlast l)
      else if c = 0 \<or> length d + length l \<ge> INPUT_BUF_SIZE then (d, l)
      else if b = 10 \<or> b = 4 \<or> length d + length l + 1 = INPUT_BUF_SIZE then (d @ l @ [b], [])
      else (d, l @ [b]))"

section \<open>The indices\<close>

lemma unat_span:
  assumes "unat (w - r :: u32) \<le> unat (e - r)"
  shows "unat (e - r) = unat (w - r) + unat (e - w)"
proof -
  have "unat (e - w) = unat ((e - r) - (w - r))" by simp
  also have "\<dots> = unat (e - r) - unat (w - r)" using assms by (simp only: unat_sub word_le_nat_alt)
  finally show ?thesis using assms by simp
qed

lemma unat_after:
  assumes "unat (e - r :: u32) < INPUT_BUF_SIZE"
  shows "unat (e + 1 - r) = unat (e - r) + 1"
  using assms unat_word_ariths(1) [of "e - r" 1] by (simp add: INPUT_BUF_SIZE_def add_diff_eq diff_add_eq)

lemma unat_before:
  assumes "e \<noteq> w" "unat (w - r :: u32) \<le> unat (e - r)"
  shows "unat (e - 1 - r) + 1 = unat (e - r)" "unat (w - r) \<le> unat (e - 1 - r)"
proof -
  have "unat (e - w) \<noteq> 0" using assms(1) by (simp add: unat_eq_zero)
  then have lt: "unat (w - r) < unat (e - r)" using unat_span [OF assms(2)] by simp
  then have "e - r \<noteq> 0" by auto
  then have "unat (e - 1 - r) = unat (e - r) - 1" using unat_minus_one [of "e - r"] by (simp add: diff_diff_eq add.commute)
  then show "unat (e - 1 - r) + 1 = unat (e - r)" "unat (w - r) \<le> unat (e - 1 - r)" using lt by simp_all
qed

text \<open>Storing a byte behind the line under edit.\<close>

lemma ring_type:
  fixes buf :: "nat \<Rightarrow> u8" and b :: u8
  assumes "unat (w - r :: u32) \<le> unat (e - r)" "unat (e - r) < INPUT_BUF_SIZE"
  defines "buf' \<equiv> buf(unat e mod INPUT_BUF_SIZE := b)"
  shows "ring_contents INPUT_BUF_SIZE buf' w (e + 1) = ring_contents INPUT_BUF_SIZE buf w e @ [b]"
    and "ring_contents INPUT_BUF_SIZE buf' r w = ring_contents INPUT_BUF_SIZE buf r w"
    and "ring_contents INPUT_BUF_SIZE buf' r (e + 1) =
      ring_contents INPUT_BUF_SIZE buf r w @ ring_contents INPUT_BUF_SIZE buf w e @ [b]"
proof -
  let ?c = "ring_contents INPUT_BUF_SIZE"
  have small: "INPUT_BUF_SIZE < 4294967296" by (simp add: INPUT_BUF_SIZE_def)
  have we: "unat (e - w) < INPUT_BUF_SIZE" using unat_span [OF assms(1)] assms(2) by simp
  show line: "?c buf' w (e + 1) = ?c buf w e @ [b]"
    unfolding buf'_def by (rule cons_ring.contents_put [OF we small])
  have all: "?c buf' r (e + 1) = ?c buf r e @ [b]"
    unfolding buf'_def by (rule cons_ring.contents_put [OF assms(2) small])
  also have "?c buf r e = ?c buf r w @ ?c buf w e" by (rule cons_ring.contents_append [OF assms(1)])
  finally show "?c buf' r (e + 1) = ?c buf r w @ ?c buf w e @ [b]" by simp
  moreover have "?c buf' r (e + 1) = ?c buf' r w @ ?c buf' w (e + 1)"
    by (rule cons_ring.contents_append) (use assms(1) unat_after [OF assms(2)] in simp)
  ultimately show "?c buf' r w = ?c buf r w" by (simp add: line)
qed

section \<open>Echo\<close>

lemma consputc_returns: "tx_ready s \<Longrightarrow> \<exists>t. consputc c s = Ok () t \<and> sent s t"
  by (erule emitsE [OF emits_consputc]) (auto simp only: sent_def)

definition outs :: "('a kuart_scheme \<Rightarrow> ('a kuart_scheme, unit) out) \<Rightarrow> bool" where
  "outs f \<longleftrightarrow> (\<forall>s. tx_ready s \<longrightarrow> PrLock \<notin> held s \<longrightarrow> (\<exists>t. f s = Ok () t \<and> sent s t))"

lemma outsE:
  assumes "outs f" "tx_ready s" "PrLock \<notin> held s"
  obtains t where "f s = Ok () t" "sent s t"
  using assms unfolding outs_def by blast

lemma outs_bnd: "outs f \<Longrightarrow> outs g \<Longrightarrow> outs (\<lambda>s. bnd (f s) (\<lambda>_. g))"
  unfolding outs_def
proof (intro allI impI)
  fix s :: "'a kuart_scheme" assume fg: "\<forall>s. tx_ready s \<longrightarrow> PrLock \<notin> held s \<longrightarrow> (\<exists>t. f s = Ok () t \<and> sent s t)"
    "\<forall>s. tx_ready s \<longrightarrow> PrLock \<notin> held s \<longrightarrow> (\<exists>t. g s = Ok () t \<and> sent s t)" and s: "tx_ready s" "PrLock \<notin> held s"
  from fg(1) s obtain t where t: "f s = Ok () t" "sent s t" by blast
  then have "tx_ready t" "PrLock \<notin> held t" using s by (simp_all add: sent_frame)
  then obtain u where "g t = Ok () u" "sent t u" using fg(2) by blast
  then show "\<exists>t. bnd (f s) (\<lambda>_. g) = Ok () t \<and> sent s t" using t sent_trans [of s t u] by simp
qed

lemma outs_Ok: "outs (Ok ())"
  by (simp add: outs_def sent_refl)

lemma outs_foreach: "(\<And>p. outs (f p)) \<Longrightarrow> outs (foreach ps f)"
proof (induction ps)
  case (Cons p ps)
  then have "outs (\<lambda>s. bnd (f p s) (\<lambda>_. foreach ps f))" by (intro outs_bnd) auto
  then show ?case by (simp add: outs_def)
qed (simp add: outs_def sent_refl)

lemma outs_printf: "outs (printf fmt args)"
  using printf_returns unfolding outs_def by blast

lemma outs_reads: "(\<And>x. outs (f x)) \<Longrightarrow> outs (\<lambda>s. f (procs s) s)"
  by (simp add: outs_def sent_refl)

lemma outs_procdump: "outs procdump"
proof -
  have body: "outs (\<lambda>s. (\<lambda>ps s. if pstate (ps p) = UNUSED then Ok () s
       else
         bnd (printf ''%d %s %s''
           [(word_of_int (pid (ps p)), []), (1, state_name (pstate (ps p))),
            (1, name_string (pname (ps p)))] s) (\<lambda>_. printf [CHR 0x0A] [])) (procs s) (s :: 'a kuart_scheme))" for p
  proof (rule outs_reads)
    fix ps :: "nat \<Rightarrow> proc"
    show "outs (\<lambda>s :: 'a kuart_scheme. if pstate (ps p) = UNUSED then Ok () s
       else
         bnd (printf ''%d %s %s''
           [(word_of_int (pid (ps p)), []), (1, state_name (pstate (ps p))),
            (1, name_string (pname (ps p)))] s) (\<lambda>_. printf [CHR 0x0A] []))"
      by (cases "pstate (ps p) = UNUSED") (simp_all add: outs_Ok outs_bnd [OF outs_printf outs_printf])
  qed
  show ?thesis unfolding procdump_def [abs_def]
    by (rule outs_bnd [OF outs_printf]) (rule outs_foreach, rule body)
qed

lemma cons_sent [simp]:
  assumes "sent s t"
  shows "cons_buf t = cons_buf s" "cons_r t = cons_r s" "cons_w t = cons_w s" "cons_e t = cons_e s"
  using assms by (auto elim!: sentE)

lemma tx_ready_cons [simp]:
  "tx_ready (s\<lparr>cons_e := e\<rparr>) = tx_ready s" "tx_ready (s\<lparr>held := h\<rparr>) = tx_ready s"
  "tx_ready (s\<lparr>cons_buf := b\<rparr>) = tx_ready s" "tx_ready (s\<lparr>cons_w := w\<rparr>) = tx_ready s"
  "tx_ready (s\<lparr>procs := ps\<rparr>) = tx_ready s" "tx_ready (s\<lparr>tx_busy := y\<rparr>) = tx_ready s"
  "tx_ready (s\<lparr>uart_rx := x\<rparr>) = tx_ready s" "tx_ready (s\<lparr>lsr_reads := n\<rparr>) = tx_ready s"
  by (simp_all add: tx_ready_def)

lemma sent_cons_e: "sent (s\<lparr>cons_e := e\<rparr>) u \<Longrightarrow> sent s (u\<lparr>cons_e := cons_e s\<rparr>)"
proof -
  assume "sent (s\<lparr>cons_e := e\<rparr>) u"
  then obtain bs n where u: "u = s\<lparr>cons_e := e\<rparr>\<lparr>uart_writes := uart_writes (s\<lparr>cons_e := e\<rparr>) @ map (Pair THR) bs, lsr_reads := n\<rparr>"
    unfolding sent_def by (elim exE)
  show ?thesis unfolding sent_def u by (intro exI [of _ bs] exI [of _ n]) simp
qed

lemma kill_line_returns:
  "unat (cons_e s - cons_w s) < k \<Longrightarrow> 10 \<notin> set (cons_line s) \<Longrightarrow> tx_ready s \<Longrightarrow>
     \<exists>t. kill_line k s = Ok () (t\<lparr>cons_e := cons_w s\<rparr>) \<and> sent s t"
proof (induction k arbitrary: s)
  case (Suc k)
  show ?case
  proof (cases "cons_e s = cons_w s")
    case True
    then show ?thesis by (intro exI [of _ s]) (simp add: sent_refl)
  next
    case False
    let ?s = "s\<lparr>cons_e := cons_e s - 1\<rparr>"
    have "length (cons_line s) \<noteq> 0" using False by (simp add: cons_line_def unat_eq_zero)
    then have ne: "cons_line s \<noteq> []" by simp
    have "cons_at (cons_e s - 1) s = last (cons_line s)"
      using cons_ring.contents_last [OF False] by (simp add: cons_at_def cons_line_def)
    then have nl: "cons_at (cons_e s - 1) s \<noteq> 10" using ne Suc.prems(2) last_in_set by metis
    obtain t where t: "consputc BACKSPACE ?s = Ok () t" "sent ?s t"
      using consputc_returns [of ?s BACKSPACE] Suc.prems(3) by auto
    have "cons_line t = butlast (cons_line s)"
      using t(2) cons_ring.contents_drop_last [OF False, of "cons_buf s"] by (simp add: cons_line_def)
    then have "10 \<notin> set (cons_line t)" using Suc.prems(2) by (auto dest: in_set_butlastD)
    moreover have "unat (cons_e t - cons_w t) < k"
      using t(2) Suc.prems(1) unat_before(1) [of "cons_e s" "cons_w s" "cons_w s"] False by simp
    moreover have "tx_ready t" using t(2) Suc.prems(3) by (simp add: sent_frame(1))
    ultimately obtain u where u: "kill_line k t = Ok () (u\<lparr>cons_e := cons_w t\<rparr>)" "sent t u" using Suc.IH by blast
    have "sent s (u\<lparr>cons_e := cons_e s\<rparr>)" by (rule sent_cons_e [OF sent_trans [OF t(2) u(2)]])
    then show ?thesis using t u nl False by (intro exI [of _ "u\<lparr>cons_e := cons_e s\<rparr>"]) simp
  qed
qed simp

section \<open>The interrupt handler\<close>

definition cons_abs :: "'a kcons_scheme \<Rightarrow> u8 list \<times> u8 list" where
  "cons_abs s = (cons_done s, cons_line s)"

text \<open>The state of the console after a key, apart from what was echoed.\<close>

lemma length_cons: "cons_inv s \<Longrightarrow> unat (cons_e s - cons_r s) = length (cons_done s) + length (cons_line s)"
  using unat_span [of "cons_w s" "cons_r s" "cons_e s"] by (simp add: cons_defs)

lemma typed_char:
  assumes "cons_ok s" "unat (cons_e s - cons_r s) < INPUT_BUF_SIZE" "sent s t"
    and "u = t\<lparr>cons_buf := (cons_buf t)(unat (cons_e t) mod INPUT_BUF_SIZE := b), cons_e := cons_e t + 1\<rparr>"
  shows "cons_done u = cons_done s" "cons_line u = cons_line s @ [b]"
    "unat (cons_e u - cons_r u) = length (cons_done s) + length (cons_line s) + 1"
    "cons_done (u\<lparr>cons_w := cons_e u\<rparr>) = cons_done s @ cons_line s @ [b]" "cons_line (u\<lparr>cons_w := cons_e u\<rparr>) = []"
    "cons_inv u" "cons_inv (u\<lparr>cons_w := cons_e u\<rparr>)"
proof -
  have inv: "unat (cons_w s - cons_r s) \<le> unat (cons_e s - cons_r s)" using assms(1) by (simp add: cons_ok_def cons_inv_def)
  note rt = ring_type [OF inv assms(2), of "cons_buf s" b] and nx = unat_after [OF assms(2)]
  show "cons_done u = cons_done s" "cons_line u = cons_line s @ [b]"
    "cons_done (u\<lparr>cons_w := cons_e u\<rparr>) = cons_done s @ cons_line s @ [b]" "cons_line (u\<lparr>cons_w := cons_e u\<rparr>) = []"
    using rt assms(3,4) by (simp_all add: cons_done_def cons_line_def)
  have len: "unat (cons_e s - cons_r s) = length (cons_done s) + length (cons_line s)"
    using assms(1) by (intro length_cons) (simp add: cons_ok_def)
  have sel: "cons_e u = cons_e s + 1" "cons_r u = cons_r s" "cons_w u = cons_w s" using assms(3,4) by simp_all
  then have sel2: "cons_e (u\<lparr>cons_w := x\<rparr>) = cons_e s + 1" "cons_r (u\<lparr>cons_w := x\<rparr>) = cons_r s" "cons_w (u\<lparr>cons_w := x\<rparr>) = x" for x
    by simp_all
  show "unat (cons_e u - cons_r u) = length (cons_done s) + length (cons_line s) + 1"
    unfolding sel nx len ..
  have "unat (cons_w s - cons_r s) \<le> unat (cons_e s - cons_r s) + 1" "unat (cons_e s - cons_r s) + 1 \<le> INPUT_BUF_SIZE"
    using inv assms(2) by linarith+
  then show "cons_inv u" "cons_inv (u\<lparr>cons_w := cons_e u\<rparr>)"
    by (simp_all only: cons_inv_def sel sel2 nx order_refl simp_thms)
qed

lemma erased_char:
  assumes "cons_ok s" "cons_e s \<noteq> cons_w s" "sent (s\<lparr>cons_e := cons_e s - 1\<rparr>) t"
  shows "cons_done t = cons_done s" "cons_line t = butlast (cons_line s)" "cons_inv t"
proof -
  have inv: "unat (cons_w s - cons_r s) \<le> unat (cons_e s - cons_r s)" "unat (cons_e s - cons_r s) \<le> INPUT_BUF_SIZE"
    using assms(1) by (simp_all add: cons_ok_def cons_inv_def)
  note pv = unat_before [OF assms(2) inv(1)]
  show "cons_done t = cons_done s" "cons_line t = butlast (cons_line s)"
    using assms(3) cons_ring.contents_drop_last [OF assms(2), of "cons_buf s"] by (simp_all add: cons_done_def cons_line_def)
  show "cons_inv t" using assms(3) pv inv(2) by (simp add: cons_inv_def)
qed

text \<open>One key, between taking and dropping the console's lock.\<close>

definition key_done :: "int \<Rightarrow> 'a kcons_scheme \<Rightarrow> 'a kcons_scheme \<Rightarrow> bool" where
  "key_done c s t \<longleftrightarrow> cons_ok t \<and> cons_abs t = edit c (cons_abs s) \<and>
     held t = held s \<and> tx_ready t = tx_ready s \<and> uart_rx t = uart_rx s \<and>
     (length (cons_done s) < length (cons_done t) \<longrightarrow>
        procs t = (\<lambda>p. if p < NPROC then woken ChCons (curproc s) p (procs s p) else procs s p))"

lemma cons_procs [simp]:
  "cons_inv (s\<lparr>procs := ps\<rparr>) = cons_inv s" "cons_done (s\<lparr>procs := ps\<rparr>) = cons_done s"
  "cons_line (s\<lparr>procs := ps\<rparr>) = cons_line s"
  "cons_inv (s\<lparr>held := h\<rparr>) = cons_inv s" "cons_done (s\<lparr>held := h\<rparr>) = cons_done s"
  "cons_line (s\<lparr>held := h\<rparr>) = cons_line s"
  by (simp_all add: cons_defs)

lemma cons_sent_abs:
  assumes "sent s t"
  shows "cons_inv t = cons_inv s" "cons_done t = cons_done s" "cons_line t = cons_line s"
  using cons_sent [OF assms] by (simp_all only: cons_defs)

lemma key_done_sent:
  assumes "cons_ok s" "edit c (cons_abs s) = cons_abs s" "sent s t"
  shows "key_done c s t"
proof -
  note st = cons_sent_abs [OF assms(3)]
  have "cons_ok t" using assms(1) by (simp add: cons_ok_def st)
  moreover have "cons_abs t = edit c (cons_abs s)" unfolding assms(2) by (simp add: cons_abs_def st)
  moreover note sent_frame [OF assms(3)]
  ultimately show ?thesis by (simp add: key_done_def st)
qed

lemma edit_keys:
  "c = ctrl CHR ''P'' \<Longrightarrow> edit c (d, l) = (d, l)"
  "c = ctrl CHR ''U'' \<Longrightarrow> edit c (d, l) = (d, [])"
  "c = ctrl CHR ''H'' \<or> c = 0x7f \<Longrightarrow> edit c (d, l) = (d, butlast l)"
  by (auto simp: edit_def ctrl_def)

lemma edit_char:
  assumes "c \<noteq> ctrl CHR ''P''" "c \<noteq> ctrl CHR ''U''" "c \<noteq> ctrl CHR ''H''" "c \<noteq> 0x7f"
  shows "c = 0 \<or> INPUT_BUF_SIZE \<le> length d + length l \<Longrightarrow> edit c (d, l) = (d, l)"
    and "c \<noteq> 0 \<Longrightarrow> length d + length l < INPUT_BUF_SIZE \<Longrightarrow> b = (if c = 13 then 10 else word_of_int c) \<Longrightarrow>
      edit c (d, l) = (if b = 10 \<or> b = 4 \<or> length d + length l + 1 = INPUT_BUF_SIZE then (d @ l @ [b], []) else (d, l @ [b]))"
  using assms by (simp_all add: edit_def Let_def)

lemma key_erase:
  assumes "cons_ok s" "cons_e s \<noteq> cons_w s" "sent (s\<lparr>cons_e := cons_e s - 1\<rparr>) t" "c = ctrl CHR ''H'' \<or> c = 0x7f"
  shows "key_done c s t"
proof -
  note er = erased_char [OF assms(1-3)]
  have "10 \<notin> set (butlast (cons_line s))" using assms(1) by (auto simp: cons_ok_def dest: in_set_butlastD)
  then show ?thesis using er sent_frame [OF assms(3)]
    by (simp add: key_done_def cons_ok_def cons_abs_def edit_keys(3) [OF assms(4)])
qed

lemma key_kill:
  assumes "cons_ok s" "sent s t" "u = t\<lparr>cons_e := cons_w s\<rparr>" "c = ctrl CHR ''U''"
  shows "key_done c s u"
proof -
  note st = cons_sent [OF assms(2)]
  have "cons_inv u" "cons_done u = cons_done s" "cons_line u = []"
    using assms(1) by (simp_all add: assms(3) st cons_ok_def cons_defs)
  then show ?thesis using sent_frame [OF assms(2)]
    by (simp add: key_done_def cons_ok_def cons_abs_def edit_keys(2) [OF assms(4)] assms(3))
qed

text \<open>A stored byte, and a line it finishes.\<close>

lemma key_char:
  assumes "cons_ok s" "unat (cons_e s - cons_r s) < INPUT_BUF_SIZE" "sent s t" "0 < c" "c < 256"
    and "c \<noteq> ctrl CHR ''P''" "c \<noteq> ctrl CHR ''U''" "c \<noteq> ctrl CHR ''H''" "c \<noteq> 0x7f"
    and b: "b = (if c = 13 then 10 else word_of_int c)"
    and u: "u = t\<lparr>cons_buf := (cons_buf t)(unat (cons_e t) mod INPUT_BUF_SIZE := b), cons_e := cons_e t + 1\<rparr>"
  shows "b \<noteq> 10 \<Longrightarrow> b \<noteq> 4 \<Longrightarrow> unat (cons_e u - cons_r u) \<noteq> INPUT_BUF_SIZE \<Longrightarrow> key_done c s u"
    and "b = 10 \<or> b = 4 \<or> unat (cons_e u - cons_r u) = INPUT_BUF_SIZE \<Longrightarrow> no_plocks s \<Longrightarrow>
      \<exists>v. wakeup ChCons (u\<lparr>cons_w := cons_e u\<rparr>) = Ok () v \<and> key_done c s v"
proof -
  note ty = typed_char [OF assms(1-3) u] and fr = sent_frame [OF assms(3)]
  have room: "length (cons_done s) + length (cons_line s) < INPUT_BUF_SIZE"
    using assms(1,2) length_cons [of s] by (simp add: cons_ok_def)
  note ed = edit_char(2) [OF assms(6-9) _ room b]
  show "key_done c s u" if "b \<noteq> 10" "b \<noteq> 4" "unat (cons_e u - cons_r u) \<noteq> INPUT_BUF_SIZE"
    using that assms(1,4) ty fr u by (simp add: key_done_def cons_ok_def cons_abs_def ed)
  let ?u = "u\<lparr>cons_w := cons_e u\<rparr>"
  assume fin: "b = 10 \<or> b = 4 \<or> unat (cons_e u - cons_r u) = INPUT_BUF_SIZE" and "no_plocks s"
  then have "no_plocks ?u" using u fr by (simp add: no_plocks_def)
  then have wk: "wakeup ChCons ?u = Ok () (upd_procs (woken ChCons (myproc ?u)) NPROC ?u)" by (rule wakeup_eq)
  have "key_done c s (upd_procs (woken ChCons (myproc ?u)) NPROC ?u)"
  proof -
    have "procs ?u = procs s" "myproc ?u = curproc s" "held ?u = held s" "tx_ready ?u = tx_ready s" "uart_rx ?u = uart_rx s"
      using u fr by (simp_all add: myproc_def)
    moreover have "edit c (cons_done s, cons_line s) = (cons_done s @ cons_line s @ [b], [])"
      using fin ty(3) assms(4) ed by simp
    ultimately show ?thesis using ty(4,5,7) by (simp add: key_done_def cons_ok_def cons_abs_def cong: if_cong)
  qed
  then show "\<exists>v. wakeup ChCons ?u = Ok () v \<and> key_done c s v" using wk by blast
qed

lemma byte_eq:
  assumes "0 \<le> c" "c < 256"
  shows "0 \<le> k \<Longrightarrow> k < 256 \<Longrightarrow> (word_of_int c = (word_of_int k :: u8)) = (c = k)"
  using assms by (simp add: word_of_int_eq_iff take_bit_eq_mod)

text \<open>The body of the handler, between \<^verbatim>\<open>acquire\<close> and \<^verbatim>\<open>release\<close>.\<close>

lemma consoleintr_key:
  assumes "ConsLock \<notin> held s"
    and "\<And>t. t = s\<lparr>held := insert ConsLock (held s)\<rparr> \<Longrightarrow> \<exists>v. body t = Ok () v \<and> key_done c t v"
    and "consoleintr c s = bnd (acquire ConsLock s) (\<lambda>_ s. bnd (body s) (\<lambda>_ s. release ConsLock s))"
  shows "\<exists>t. consoleintr c s = Ok () t \<and> key_done c s t"
proof -
  let ?t = "s\<lparr>held := insert ConsLock (held s)\<rparr>"
  obtain v where v: "body ?t = Ok () v" "key_done c ?t v" using assms(2) [OF refl] by blast
  then have "held v = insert ConsLock (held s)" by (simp add: key_done_def)
  then have "key_done c s (v\<lparr>held := held s\<rparr>)" "consoleintr c s = Ok () (v\<lparr>held := held s\<rparr>)"
    using v assms(1,3) by (simp_all add: key_done_def cons_ok_def cons_abs_def cong: if_cong)
  then show ?thesis by blast
qed

lemma key_typed:
  assumes ok: "cons_ok t" "tx_ready t" "no_plocks t" and c: "0 \<le> c" "c < 256" "c \<noteq> 0"
    and room: "unat (cons_e t - cons_r t) < INPUT_BUF_SIZE"
    and ord: "c \<noteq> ctrl CHR ''P''" "c \<noteq> ctrl CHR ''U''" "c \<noteq> ctrl CHR ''H''" "c \<noteq> 0x7f"
  shows "\<exists>v. (let c = (if c = 13 then 10 else c) in
            bnd (consputc c t) (\<lambda>_ s.
            let s = s\<lparr>cons_buf := (cons_buf s)(unat (cons_e s) mod INPUT_BUF_SIZE := word_of_int c),
                      cons_e := cons_e s + 1\<rparr>
            in if c = 10 \<or> c = ctrl CHR ''D'' \<or> unat (cons_e s - cons_r s) = INPUT_BUF_SIZE
               then wakeup ChCons (s\<lparr>cons_w := cons_e s\<rparr>)
               else Ok () s)) = Ok () v \<and> key_done c t v"
proof -
  let ?c = "if c = 13 then 10 else c" and ?b = "if c = 13 then 10 else word_of_int c :: u8"
  obtain v where v: "consputc ?c t = Ok () v" "sent t v" using consputc_returns [OF ok(2)] by blast
  let ?u = "v\<lparr>cons_buf := (cons_buf v)(unat (cons_e v) mod INPUT_BUF_SIZE := ?b), cons_e := cons_e v + 1\<rparr>"
  have "0 < c" using c by simp
  note kc = key_char [OF ok(1) room v(2) this c(2) ord refl refl]
  have b: "word_of_int ?c = ?b" "?c = 10 \<longleftrightarrow> ?b = 10" "?c = ctrl CHR ''D'' \<longleftrightarrow> ?b = 4"
    using byte_eq [OF c(1,2), of 10] byte_eq [OF c(1,2), of 4] by (simp_all add: ctrl_def)
  show ?thesis
  proof (cases "?b = 10 \<or> ?b = 4 \<or> unat (cons_e ?u - cons_r ?u) = INPUT_BUF_SIZE")
    case fin: True
    from kc(2) [OF fin ok(3)] obtain w where
      "wakeup ChCons (?u\<lparr>cons_w := cons_e ?u\<rparr>) = Ok () w" "key_done c t w" by blast
    then show ?thesis using v(1) fin unfolding b(2,3) [symmetric] by (simp add: Let_def b(1))
  next
    case fin: False
    have "key_done c t ?u" by (rule kc(1)) (use fin in simp_all)
    then show ?thesis using v(1) fin unfolding b(2,3) [symmetric] by (simp add: Let_def b(1))
  qed
qed

lemma consoleintr_done:
  assumes "cons_ok s" "tx_ready s" "no_plocks s" "ConsLock \<notin> held s" "PrLock \<notin> held s" "0 \<le> c" "c < 256"
  shows "\<exists>t. consoleintr c s = Ok () t \<and> key_done c s t"
proof (rule consoleintr_key [OF assms(4) _ consoleintr_def])
  fix t assume t: "t = s\<lparr>held := insert ConsLock (held s)\<rparr>"
  have ok: "cons_ok t" "tx_ready t" "no_plocks t" "PrLock \<notin> held t"
    using assms t by (simp_all add: cons_ok_def no_plocks_def)
  have len: "unat (cons_e t - cons_r t) = length (cons_done t) + length (cons_line t)"
    using ok(1) by (intro length_cons) (simp add: cons_ok_def)
  show "\<exists>v. (if c = ctrl CHR ''P'' then procdump t
          else if c = ctrl CHR ''U'' then kill_line (Suc (unat (cons_e t - cons_w t))) t
          else if c = ctrl CHR ''H'' \<or> c = 0x7f then
            if cons_e t \<noteq> cons_w t then consputc BACKSPACE (t\<lparr>cons_e := cons_e t - 1\<rparr>) else Ok () t
          else if c \<noteq> 0 \<and> unat (cons_e t - cons_r t) < INPUT_BUF_SIZE then
            let c = (if c = 13 then 10 else c) in
            bnd (consputc c t) (\<lambda>_ s.
            let s = s\<lparr>cons_buf := (cons_buf s)(unat (cons_e s) mod INPUT_BUF_SIZE := word_of_int c),
                      cons_e := cons_e s + 1\<rparr>
            in if c = 10 \<or> c = ctrl CHR ''D'' \<or> unat (cons_e s - cons_r s) = INPUT_BUF_SIZE
               then wakeup ChCons (s\<lparr>cons_w := cons_e s\<rparr>)
               else Ok () s)
          else Ok () t) = Ok () v \<and> key_done c t v" (is "\<exists>v. ?b = Ok () v \<and> _")
  proof (cases "c = ctrl CHR ''P''")
    case True
    from outs_procdump ok(2,4) obtain v where "procdump t = Ok () v" "sent t v" by (rule outsE)
    then show ?thesis using True key_done_sent [OF ok(1)] by (auto simp: cons_abs_def edit_keys(1))
  next
    case nP: False
    show ?thesis
    proof (cases "c = ctrl CHR ''U''")
      case True
      from ok(1) have "10 \<notin> set (cons_line t)" by (simp add: cons_ok_def)
      from kill_line_returns [OF lessI this ok(2)] obtain v where
        v: "kill_line (Suc (unat (cons_e t - cons_w t))) t = Ok () (v\<lparr>cons_e := cons_w t\<rparr>)" "sent t v" by blast
      then show ?thesis using True nP key_kill [OF ok(1) v(2) refl True] by (simp del: kill_line.simps)
    next
      case nU: False
      show ?thesis
      proof (cases "c = ctrl CHR ''H'' \<or> c = 0x7f")
        case True
        show ?thesis
        proof (cases "cons_e t = cons_w t")
          case e: True
          then have "cons_line t = []" by (simp add: cons_line_def)
          then have "key_done c t t" using True by (intro key_done_sent ok(1) sent_refl) (simp add: cons_abs_def edit_keys(3))
          then show ?thesis using nP nU True e by simp
        next
          case e: False
          obtain v where v: "consputc BACKSPACE (t\<lparr>cons_e := cons_e t - 1\<rparr>) = Ok () v" "sent (t\<lparr>cons_e := cons_e t - 1\<rparr>) v"
            using consputc_returns [of "t\<lparr>cons_e := cons_e t - 1\<rparr>" BACKSPACE] ok(2) by auto
          then show ?thesis using nP nU True e key_erase [OF ok(1) e v(2) True] by simp
        qed
      next
        case nH: False
        then have nH': "c \<noteq> ctrl CHR ''H''" "c \<noteq> 0x7f" by simp_all
        show ?thesis
        proof (cases "c \<noteq> 0 \<and> unat (cons_e t - cons_r t) < INPUT_BUF_SIZE")
          case True
          then show ?thesis using nP nU nH key_typed [OF ok(1-3) assms(6,7) _ _ nP nU nH'] by (simp only: if_False if_True) simp
        next
          case False
          have "edit c (cons_abs t) = cons_abs t"
          proof -
            have "c = 0 \<or> INPUT_BUF_SIZE \<le> length (cons_done t) + length (cons_line t)"
              using False unfolding len by (simp only: de_Morgan_conj not_not not_less)
            then show ?thesis unfolding cons_abs_def by (rule edit_char(1) [OF nP nU nH'])
          qed
          then have "key_done c t t" by (intro key_done_sent ok(1) sent_refl)
          then show ?thesis using nP nU nH False by (simp only: if_False) simp
        qed
      qed
    qed
  qed
qed

section \<open>Received bytes\<close>

lemma uartgetc_eq:
  "uartgetc s = (case uart_rx s of [] \<Rightarrow> (- 1, s\<lparr>lsr_reads := lsr_reads s + 1\<rparr>)
     | b # bs \<Rightarrow> (uint b, s\<lparr>lsr_reads := lsr_reads s + 1, uart_rx := bs\<rparr>))"
  by (simp add: uartgetc_def read_LSR_def read_RHR_def LSR_RX_READY_def LSR_TX_IDLE_def split: list.split)

lemma uart_input_done:
  assumes "ConsLock \<notin> H" "PrLock \<notin> H" "\<And>p. ProcLock p \<notin> H"
  shows "uart_rx s = bs \<Longrightarrow> length bs < k \<Longrightarrow> cons_ok s \<Longrightarrow> tx_ready s \<Longrightarrow> held s = H \<Longrightarrow>
    \<exists>t. uart_input k s = Ok () t \<and> cons_ok t \<and> held t = H \<and> uart_rx t = [] \<and>
      cons_abs t = fold (\<lambda>b. edit (uint b)) bs (cons_abs s)"
proof (induction bs arbitrary: k s)
  case Nil
  then obtain k' where "k = Suc k'" by (cases k) auto
  then show ?case using Nil by (simp add: uartgetc_eq cons_ok_def cons_abs_def cons_defs)
next
  case (Cons b bs)
  then obtain k' where k: "k = Suc k'" by (cases k) auto
  let ?s = "s\<lparr>lsr_reads := lsr_reads s + 1, uart_rx := bs\<rparr>"
  have "cons_ok ?s" "cons_abs ?s = cons_abs s" using Cons.prems by (simp_all add: cons_ok_def cons_abs_def cons_defs)
  moreover have "\<exists>t. consoleintr (uint b) ?s = Ok () t \<and> key_done (uint b) ?s t"
  proof (rule consoleintr_done)
    show "uint b < 256" using uint_bounded [of b] by simp
  qed (use Cons.prems assms \<open>cons_ok ?s\<close> in \<open>simp_all add: no_plocks_def\<close>)
  ultimately obtain t where t: "consoleintr (uint b) ?s = Ok () t" "cons_ok t" "cons_abs t = edit (uint b) (cons_abs s)"
    "held t = H" "tx_ready t" "uart_rx t = bs" using Cons.prems by (auto simp: key_done_def)
  have "\<exists>u. uart_input k' t = Ok () u \<and> cons_ok u \<and> held u = H \<and> uart_rx u = [] \<and>
      cons_abs u = fold (\<lambda>b. edit (uint b)) bs (cons_abs t)"
    using Cons.prems(2) k t by (intro Cons.IH) simp_all
  moreover have "uint b \<noteq> - 1" using uint_ge_0 [of b] by linarith
  ultimately show ?case using k t(1,3) Cons.prems(1) by (simp add: uartgetc_eq)
qed

lemma cons_uart [simp]:
  "cons_ok (s\<lparr>tx_busy := x\<rparr>) = cons_ok s" "cons_abs (s\<lparr>tx_busy := x\<rparr>) = cons_abs s"
  "cons_ok (s\<lparr>lsr_reads := n\<rparr>) = cons_ok s" "cons_abs (s\<lparr>lsr_reads := n\<rparr>) = cons_abs s"
  "cons_ok (s\<lparr>held := h\<rparr>) = cons_ok s" "cons_abs (s\<lparr>held := h\<rparr>) = cons_abs s"
  "cons_ok (s\<lparr>procs := ps\<rparr>) = cons_ok s" "cons_abs (s\<lparr>procs := ps\<rparr>) = cons_abs s"
  by (simp_all add: cons_ok_def cons_abs_def cons_defs)

text \<open>The transmit half of the interrupt: writers are woken when the transmitter has become idle.\<close>

lemma uartintr_eq:
  assumes "no_plocks s" "TxLock \<notin> held s"
  obtains t where "uartintr s = uart_input (Suc (length (uart_rx t))) t" "cons_ok t = cons_ok s" "cons_abs t = cons_abs s"
    "held t = held s" "tx_ready t = tx_ready s" "uart_rx t = uart_rx s"
proof (cases "lsr_idle s (lsr_reads s)")
  case True
  let ?u = "s\<lparr>held := insert TxLock (held s), lsr_reads := lsr_reads s + 1, tx_busy := 0\<rparr>"
  have "no_plocks ?u" using assms(1) by (simp add: no_plocks_def)
  then have wk: "wakeup ChTx ?u = Ok () (upd_procs (woken ChTx (myproc ?u)) NPROC ?u)" by (rule wakeup_eq)
  let ?v = "(upd_procs (woken ChTx (myproc ?u)) NPROC ?u)\<lparr>held := held s\<rparr>"
  from wk have "uartintr s = uart_input (Suc (length (uart_rx s))) ?v"
    using True assms(2) by (simp add: uartintr_def read_LSR_def LSR_RX_READY_def LSR_TX_IDLE_def del: uart_input.simps)
  then show ?thesis by (intro that [of ?v]) (simp_all del: uart_input.simps)
next
  case False
  then have "uartintr s = uart_input (Suc (length (uart_rx s))) (s\<lparr>lsr_reads := lsr_reads s + 1\<rparr>)"
    using assms(2) by (simp add: uartintr_def read_LSR_def LSR_RX_READY_def LSR_TX_IDLE_def del: uart_input.simps)
  then show ?thesis by (intro that [of "s\<lparr>lsr_reads := lsr_reads s + 1\<rparr>"]) (simp_all del: uart_input.simps)
qed

text \<open>
  (C7) The line discipline. A UART interrupt takes every received byte and handles it as an editing key, in
  order: on the finished input and on the line under edit the interrupt is the fold of \<open>edit\<close>, which
  appends, erases the last byte, erases the line, or finishes the line and drops input beyond 128 pending bytes.
  The three indices of the buffer stay in order, and the handler neither panics nor keeps a lock.
\<close>

theorem uartintr_edits:
  assumes "cons_ok s" "tx_ready s" "no_plocks s" "{ConsLock, PrLock, TxLock} \<inter> held s = {}"
  shows "\<exists>t. uartintr s = Ok () t \<and> cons_ok t \<and> held t = held s \<and> uart_rx t = [] \<and>
    cons_abs t = fold (\<lambda>b. edit (uint b)) (uart_rx s) (cons_abs s)"
proof -
  have free: "TxLock \<notin> held s" "ConsLock \<notin> held s" "PrLock \<notin> held s" using assms(4) by auto
  from uartintr_eq [OF assms(3) free(1)] obtain t where
    t: "uartintr s = uart_input (Suc (length (uart_rx t))) t" "cons_ok t = cons_ok s" "cons_abs t = cons_abs s"
      "held t = held s" "tx_ready t = tx_ready s" "uart_rx t = uart_rx s" .
  have "\<exists>u. uart_input (Suc (length (uart_rx t))) t = Ok () u \<and> cons_ok u \<and> held u = held s \<and> uart_rx u = [] \<and>
      cons_abs u = fold (\<lambda>b. edit (uint b)) (uart_rx t) (cons_abs t)"
    by (rule uart_input_done [OF free(2,3)]) (use assms t in \<open>simp_all add: no_plocks_def\<close>)
  then show ?thesis using t(1,3,6) by (simp del: uart_input.simps)
qed

theorem uartintr_edits_witness:
  "\<exists>t. uartintr (zero_machine\<lparr>uart_rx := [104, 105, 106, 8, 13]\<rparr>) = Ok () t \<and> cons_abs t = ([104, 105, 10], [])"
proof -
  let ?s = "zero_machine\<lparr>uart_rx := [104, 105, 106, 8, 13]\<rparr>"
  have "cons_ok ?s" "cons_abs ?s = ([], [])"
    by (simp_all add: cons_ok_def cons_abs_def cons_defs zero_machine_def)
  moreover have "tx_ready ?s" by (simp add: tx_ready_def zero_machine_def) (rule exI [of _ 0], simp)
  moreover have "no_plocks ?s" "{ConsLock, PrLock, TxLock} \<inter> held ?s = {}" by (simp_all add: no_plocks_def)
  ultimately show ?thesis using uartintr_edits [of ?s] by (simp add: edit_def ctrl_def INPUT_BUF_SIZE_def) blast
qed

end
