(* ===== verification/Cow.thy ===== *)
theory Cow
  imports Vmprops Machine
begin

unbundle bit_operations_syntax

text \<open>
  Page faults: what \<^verbatim>\<open>vmfault\<close> does with a copy-on-write page and with a page that is allocated lazily.
\<close>

section \<open>A fresh page\<close>

text \<open>A page is allocated and filled; no page table and no other page notices.\<close>

lemma fresh_page:
  assumes inv: "kmem_inv s" and ok: "pt_ok s r" and al: "kalloc s = Ok pg s1" and nz: "pg \<noteq> 0"
    and m: "\<forall>x. x \<notin> page_bytes pg \<longrightarrow> m x = mem s x"
  defines "s2 \<equiv> s1\<lparr>mem := m\<rparr>"
  shows "pg \<in> free_pages s" "kmem_inv s2" "kmem_frame s s2" "vmod s s2 r {pg}" "leaf (mem s2) r = leaf (mem s) r"
    "pteaddr (mem s2) r = pteaddr (mem s) r" "tabs (mem s2) r = tabs (mem s) r"
    "\<And>q. kpage s q \<Longrightarrow> refs s2 q = (if q = pg then 1 else refs s q)" "pg \<notin> tabs (mem s) r"
    "mem s1 = memset (mem s) pg 5 4096"
proof -
  have "free_pages s \<noteq> {}" using al nz kalloc_empty [OF inv] by auto
  then obtain pg' s1' where k: "kalloc s = Ok pg' s1'" "pg' \<in> free_pages s" "pg' \<noteq> 0" "kmem_inv s1'"
    "kmem_frame s s1'" "refcnt s1' = (refcnt s)(pa2idx pg' := 1)" "free_pages s1' = free_pages s - {pg'}"
    "mem s1' = memset (mem s) pg' 5 4096"
    by (rule kalloc_page [OF inv])
  then have k: "pg \<in> free_pages s" "kmem_inv s1" "kmem_frame s s1" "refcnt s1 = (refcnt s)(pa2idx pg := 1)"
    "free_pages s1 = free_pages s - {pg}" "mem s1 = memset (mem s) pg 5 4096"
    using al by auto
  show "pg \<in> free_pages s" "mem s1 = memset (mem s) pg 5 4096" by (rule k)+
  have kp: "kpage s pg" using k(1) by (simp add: free_pages_def)
  show nt: "pg \<notin> tabs (mem s) r" using k(1) pt_ok_not_free [OF ok] by auto
  have out: "x \<notin> page_bytes pg" if "page_aligned q" "q \<noteq> pg" "x \<in> page_bytes q" for q x
    using that page_bytes_disjoint [of q pg] kpage_aligned [OF kp] by auto
  show inv2: "kmem_inv s2"
    unfolding s2_def
  proof (rule kmem_inv_mem [OF k(2)])
    fix p x assume p: "p \<in> free_pages s1" and x: "x \<in> page_bytes p"
    then have "x \<notin> page_bytes pg" using out [of p x] k(5) free_page_aligned [of p s1] by auto
    then show "m x = mem s1 x" using m k(6) by (simp add: memset_page)
  qed
  show fr: "kmem_frame s s2" unfolding s2_def by (rule kmem_frame_mem [OF k(3)])
  show rf: "refs s2 q = (if q = pg then 1 else refs s q)" if "kpage s q" for q
    using that k(4) pa2idx_kpage [OF _ kp that] inv by (auto simp: refs_def s2_def kmem_inv_def)
  have mm: "mem s2 x = mem s x" if "q \<in> tabs (mem s) r" "x \<in> page_bytes q" for q x
    using that nt pt_ok_tabs [OF ok that(1)] out [of q x] m unfolding s2_def by auto
  have re: "refs s2 q = refs s q" if "q \<in> tabs (mem s) r" for q
    using that rf [of q] nt pt_ok_tabs [OF ok that] by auto
  have ke: "kend s2 = kend s" using fr by (rule kmem_frameD)
  have c: "pt_ok s2 r" by (rule pt_ok_cong(1) [OF ok mm re ke]; assumption)
  show ta: "tabs (mem s2) r = tabs (mem s) r" by (rule pt_ok_cong(2) [OF ok mm re ke]; assumption)
  show "leaf (mem s2) r = leaf (mem s) r" by (rule pt_ok_cong(3) [OF ok mm re ke]; assumption)
  show "pteaddr (mem s2) r = pteaddr (mem s) r" by (rule pt_ok_cong(4) [OF ok mm re ke]; assumption)
  show "vmod s s2 r {pg}" using inv2 fr c ta rf m unfolding vmod_def s2_def by auto
qed

section \<open>Entries\<close>

text \<open>The entry of a page that has become private: writable and no longer marked copy-on-write.\<close>

definition unshared :: "u64 \<Rightarrow> u64" where
  "unshared e = (e OR PTE_W) AND NOT PTE_COW"

lemma bit_unshared: "bit (unshared e) n \<longleftrightarrow> n = 2 \<or> n \<noteq> 8 \<and> bit e n"
  using bit_imp_le_length [of e n] by (auto simp: unshared_def bit_simps bit_flag)

lemma unshared_props:
  "PTE2PA (unshared e) = PTE2PA e" "unshared e AND PTE_W \<noteq> 0" "unshared e AND PTE_COW = 0"
  "e AND PTE_V \<noteq> 0 \<Longrightarrow> unshared e AND PTE_V \<noteq> 0"
proof -
  show "PTE2PA (unshared e) = PTE2PA e"
    by (rule bit_word_eqI) (auto simp: PTE2PA_def bit_simps bit_unshared)
  show "unshared e AND PTE_W \<noteq> 0" unfolding flag_iffs by (simp add: bit_unshared)
  show "unshared e AND PTE_COW = 0" using flag_iffs(6) [of "unshared e"] by (simp add: bit_unshared)
  show "e AND PTE_V \<noteq> 0 \<Longrightarrow> unshared e AND PTE_V \<noteq> 0" unfolding flag_iffs by (simp add: bit_unshared)
qed

lemma unshared_fresh:
  fixes e :: u64
  assumes "page_aligned pg" "unat pg < 2 ^ 56"
  defines "e' \<equiv> PA2PTE pg OR unshared (PTE_FLAGS e)"
  shows "PTE2PA e' = pg" "e' AND PTE_W \<noteq> 0" "e' AND PTE_COW = 0" "e AND PTE_V \<noteq> 0 \<Longrightarrow> e' AND PTE_V \<noteq> 0"
proof -
  have "unat (unshared (PTE_FLAGS e)) < 2 ^ 10"
  proof -
    have "unshared (PTE_FLAGS e) = take_bit 10 (unshared (PTE_FLAGS e))"
      by (rule bit_word_eqI) (auto simp: bit_simps bit_unshared bit_PTE_FLAGS)
    moreover have "unat (take_bit 10 x :: u64) < 2 ^ 10" for x
      by (simp only: unsigned_take_bit_eq take_bit_nat_less_exp)
    ultimately show ?thesis by metis
  qed
  then have "unshared (PTE_FLAGS e) < 1024" by (simp add: word_less_nat_alt)
  then show "PTE2PA e' = pg" unfolding e'_def by (rule PTE2PA_PA2PTE [OF assms(1,2)])
  have "bit (PA2PTE pg) n \<Longrightarrow> 10 \<le> n" for n by (simp add: PA2PTE_def bit_simps)
  then have b: "bit e' n \<longleftrightarrow> bit (unshared (PTE_FLAGS e)) n" if "n < 10" for n
    using that by (auto simp: e'_def bit_simps dest: leD)
  show "e' AND PTE_W \<noteq> 0" unfolding flag_iffs by (simp add: b bit_unshared)
  show "e' AND PTE_COW = 0" using flag_iffs(6) [of e'] by (simp add: b bit_unshared)
  show "e AND PTE_V \<noteq> 0 \<Longrightarrow> e' AND PTE_V \<noteq> 0" unfolding flag_iffs by (simp add: b bit_unshared bit_PTE_FLAGS)
qed

section \<open>Copy on write\<close>

lemma leaf_validE:
  assumes "leaf m r va AND PTE_V \<noteq> 0"
  obtains pt where "tbl m r (lpath va) = Some pt" "pteaddr m r va = slot pt (unat (PX 0 va))"
    "leaf m r va = load64 m (slot pt (unat (PX 0 va)))"
  using assms by (auto simp: leaf_def pteaddr_def split: option.splits)

text \<open>The situation of a write fault on a page marked copy-on-write.\<close>

definition cow_fault :: "addr \<Rightarrow> u64 \<Rightarrow> 'a kmem_scheme \<Rightarrow> bool" where
  "cow_fault r va s \<longleftrightarrow> kmem_inv s \<and> pt_ok s r \<and> va < MAXVA \<and> page_aligned va \<and>
     leaf (mem s) r va AND PTE_V \<noteq> 0 \<and> leaf (mem s) r va AND PTE_COW \<noteq> 0 \<and>
     kpage s (PTE2PA (leaf (mem s) r va)) \<and> 1 \<le> refs s (PTE2PA (leaf (mem s) r va)) \<and>
     PTE2PA (leaf (mem s) r va) \<notin> tabs (mem s) r"

lemma vmfault_cow_eq:
  assumes "cow_fault r va s" "PGROUNDDOWN va = va"
  defines "p \<equiv> PTE2PA (leaf (mem s) r va)" and "a \<equiv> pteaddr (mem s) r va"
  shows "vmfault r va False s =
    (if refs s p = 1 then Ok p (s\<lparr>mem := store64 (mem s) a (unshared (leaf (mem s) r va))\<rparr>)
     else bnd (kalloc s) (\<lambda>pg s.
       if pg = 0 then Ok 0 s
       else
         let s = s\<lparr>mem := memmove (mem s) pg p 4096\<rparr>;
             s = s\<lparr>mem := store64 (mem s) a (PA2PTE pg OR unshared (PTE_FLAGS (load64 (mem s) a)))\<rparr>
         in bnd (kfree p s) (\<lambda>_ s. Ok pg s)))"
proof -
  note c = assms(1) [unfolded cow_fault_def]
  obtain pt where pt: "tbl (mem s) r (lpath va) = Some pt" "pteaddr (mem s) r va = slot pt (unat (PX 0 va))"
    "leaf (mem s) r va = load64 (mem s) (slot pt (unat (PX 0 va)))"
    using c by (auto elim!: leaf_validE)
  have "kpage s pt" using pt(1) c pt_ok_tabs [of s r pt] tabsI [OF pt(1)] by auto
  then have nz: "a \<noteq> 0" unfolding a_def pt(2) using c by (intro slot_nonzero PX_less) auto
  have ld: "load64 (mem s) a = leaf (mem s) r va" unfolding a_def pt ..
  have wk: "walk r va False s = Ok a s" unfolding a_def using c by (intro walk_False) auto
  have rc: "krefcnt p s = Ok (refs s p) s" using c unfolding p_def by (intro krefcnt_spec) auto
  show ?thesis
    unfolding vmfault_def assms(2) Let_def wk using c nz rc
    by (simp add: ld p_def [symmetric] unshared_def Let_def cong: if_cong)
qed

lemma cow_last:
  assumes "cow_fault r va s"
  defines "t \<equiv> s\<lparr>mem := store64 (mem s) (pteaddr (mem s) r va) (unshared (leaf (mem s) r va))\<rparr>"
  shows "vmod s t r {}" "\<And>v. v < MAXVA \<Longrightarrow> leaf (mem t) r v = (if same_page va v then unshared (leaf (mem s) r va) else leaf (mem s) r v)"
proof -
  note c = assms(1) [unfolded cow_fault_def]
  obtain pt where pt: "tbl (mem s) r (lpath va) = Some pt" "pteaddr (mem s) r va = slot pt (unat (PX 0 va))"
    using c by (auto elim!: leaf_validE)
  show "vmod s t r {}" unfolding t_def pt(2) using c pt(1) by (intro set_leaf(1)) auto
  show "leaf (mem t) r v = (if same_page va v then unshared (leaf (mem s) r va) else leaf (mem s) r v)" if "v < MAXVA" for v
    unfolding t_def pt(2) using c pt(1) that by (intro set_leaf(3)) auto
qed

text \<open>A shared page is copied: the fresh page, the entry that points to it, and one reference less on the old page.\<close>

lemma cow_copy:
  assumes c: "cow_fault r va s" and sh: "refs s (PTE2PA (leaf (mem s) r va)) \<noteq> 1" and al: "kalloc s = Ok pg s1" "pg \<noteq> 0"
  defines "p \<equiv> PTE2PA (leaf (mem s) r va)" and "a \<equiv> pteaddr (mem s) r va"
  defines "s2 \<equiv> s1\<lparr>mem := memmove (mem s1) pg p 4096\<rparr>"
  defines "e \<equiv> PA2PTE pg OR unshared (PTE_FLAGS (load64 (mem s2) a))"
  obtains t where "kfree p (s2\<lparr>mem := store64 (mem s2) a e\<rparr>) = Ok () t" "vmod s t r {pg, p}"
    "e = PA2PTE pg OR unshared (PTE_FLAGS (leaf (mem s) r va))" "pg \<in> free_pages s" "pg \<noteq> p"
    "\<And>v. v < MAXVA \<Longrightarrow> leaf (mem t) r v = (if same_page va v then e else leaf (mem s) r v)"
    "\<And>q. kpage s q \<Longrightarrow> refs t q = (if q = p then refs s p - 1 else if q = pg then 1 else refs s q)"
    "\<And>i. i < 4096 \<Longrightarrow> mem t (pg + of_nat i) = mem s (p + of_nat i)"
    "\<And>x. x \<notin> page_bytes pg \<Longrightarrow> \<forall>q \<in> tabs (mem s) r. x \<notin> page_bytes q \<Longrightarrow> mem t x = mem s x"
proof -
  note cf = c [unfolded cow_fault_def, folded p_def]
  have inv: "kmem_inv s" and ok: "pt_ok s r" and va: "va < MAXVA" and kp: "kpage s p" and rp: "2 \<le> refs s p" and
    pt: "p \<notin> tabs (mem s) r" and V: "leaf (mem s) r va AND PTE_V \<noteq> 0"
    using cf sh [folded p_def] by auto
  have pf: "pg \<in> free_pages s" and m1: "mem s1 = memset (mem s) pg 5 4096"
    by (rule fresh_page(1,10) [OF inv ok al, of "mem s"], simp)+
  have kpg: "kpage s pg" using pf by (simp add: free_pages_def)
  have ne: "pg \<noteq> p" using pf rp by (auto simp: free_pages_def)
  have m2: "mem s2 = (\<lambda>x. if x \<in> page_bytes pg then mem s (p + (x - pg)) else mem s x)"
  proof -
    have lim: "unat pg + unat (4096 :: u32) \<le> 2 ^ 64" "unat p + unat (4096 :: u32) \<le> 2 ^ 64"
      using kpage_small [OF kpg] kpage_small [OF kp] by simp_all
    have "p + (x - pg) \<notin> page_bytes pg" if "x \<in> page_bytes pg" for x
    proof -
      have "p + (x - pg) \<in> page_bytes p" using that by (simp add: page_bytes_def)
      then show ?thesis using ne page_bytes_disjoint [of p pg] kpage_aligned [OF kp] kpage_aligned [OF kpg] by blast
    qed
    then show ?thesis unfolding s2_def
      by (auto simp: memmove_eq [OF lim] m1 memset_page page_bytes_def fun_eq_iff)
  qed
  have out: "\<forall>x. x \<notin> page_bytes pg \<longrightarrow> mem s2 x = mem s x" using m2 by simp
  have s2: "s2 = s1\<lparr>mem := mem s2\<rparr>" by (simp add: s2_def)
  note fp = fresh_page [OF inv ok al, where m = "mem s2", OF out, folded s2]
  have ok2: "pt_ok s2 r" by (rule vmodD(3) [OF fp(4)])
  have lf2: "leaf (mem s2) r va AND PTE_V \<noteq> 0" using V fp(5) by simp
  obtain tp where tp: "tbl (mem s2) r (lpath va) = Some tp" "pteaddr (mem s2) r va = slot tp (unat (PX 0 va))"
    "leaf (mem s2) r va = load64 (mem s2) (slot tp (unat (PX 0 va)))" using lf2 by (rule leaf_validE)
  have a: "a = slot tp (unat (PX 0 va))" using fp(6) tp(2) by (simp add: a_def)
  have e: "e = PA2PTE pg OR unshared (PTE_FLAGS (leaf (mem s) r va))" unfolding e_def a using tp(3) fp(5) by simp
  define s3 where "s3 = s2\<lparr>mem := store64 (mem s2) a e\<rparr>"
  have v3: "vmod s2 s3 r {}" unfolding s3_def a by (rule set_leaf(1) [OF fp(2) ok2 va tp(1)])
  have t3: "tabs (mem s3) r = tabs (mem s) r" unfolding s3_def a using set_leaf(2) [OF fp(2) ok2 va tp(1)] fp(7) by simp
  have l3: "leaf (mem s3) r v = (if same_page va v then e else leaf (mem s) r v)" if "v < MAXVA" for v
    unfolding s3_def a using set_leaf(3) [OF fp(2) ok2 va tp(1) that] fp(5) by simp
  have fr: "kmem_frame s s3" by (rule kmem_frame_trans [OF fp(3) vmodD(2) [OF v3]])
  have kq: "kpage s3 q = kpage s q" for q using fr by (rule kmem_frameD)
  have r3: "refs s3 q = refs s2 q" for q by (simp add: s3_def refs_def)
  have "kpage s3 p" "1 \<le> refs s3 p" "p \<notin> tabs (mem s3) r" "1 < refs s3 p"
    using kp rp pt kq t3 r3 fp(8) [OF kp] ne by auto
  then obtain t where t: "kfree p s3 = Ok () t" "vmod s3 t r {p}" "leaf (mem t) r = leaf (mem s3) r"
    "\<And>q. kpage s3 q \<Longrightarrow> refs t q = (if q = p then refs s3 p - 1 else refs s3 q)" "mem t = mem s3"
    using kfree_vmod [OF vmodD(1,3) [OF v3]] by metis
  have vt: "vmod s t r {pg, p}" using vmod_trans [OF vmod_trans [OF fp(4) v3] t(2)] by (simp add: insert_commute)
  have rt: "refs t q = (if q = p then refs s p - 1 else if q = pg then 1 else refs s q)" if "kpage s q" for q
    using that t(4) [of q] kq r3 fp(8) [OF that] fp(8) [OF kp] ne by auto
  have mt: "mem t x = mem s2 x" if "\<forall>q \<in> tabs (mem s) r. x \<notin> page_bytes q" for x
  proof -
    have "tp \<in> tabs (mem s) r" using tabsI [OF tp(1)] fp(7) by simp
    then show ?thesis using that unfolding t(5) s3_def a by (simp add: store64_slot_outside)
  qed
  have mp: "mem t (pg + of_nat i) = mem s (p + of_nat i)" if "i < 4096" for i
  proof -
    have x: "pg + of_nat i \<in> page_bytes pg" using that by (simp add: page_bytes_def unat_of_nat_small)
    have "pg + of_nat i \<notin> page_bytes q" if "q \<in> tabs (mem s) r" for q
      using that x fp(9) pt_ok_tabs [OF ok that] kpage_aligned [OF kpg] page_bytes_disjoint [of q pg] by blast
    then show ?thesis using mt m2 x by simp
  qed
  show thesis
    by (rule that [OF t(1) [unfolded s3_def] vt e pf ne _ rt mp])
      (use t(3) l3 mt out in simp_all)
qed

lemma ubyte_page:
  assumes "PTE2PA (leaf m' r v) = a" "PTE2PA (leaf m r v) = p" "\<And>i. i < 4096 \<Longrightarrow> m' (a + of_nat i) = m (p + of_nat i)"
  shows "ubyte m' r v = ubyte m r v"
proof -
  let ?o = "v - PGROUNDDOWN v"
  have "unat ?o < 4096" by (simp add: PGROUNDDOWN_offset)
  from assms(3) [OF this] show ?thesis using assms(1,2) by (simp add: ubyte_def)
qed

text \<open>
  The page at \<open>va\<close> has become private: its entry maps \<open>a\<close>, which has one reference, writable and not marked; it
  reads as before; other entries, the bytes of pages in use and, but for the page that was shared, the counts are kept.
\<close>

definition made_private :: "addr \<Rightarrow> u64 \<Rightarrow> 'a kmem_scheme \<Rightarrow> addr \<Rightarrow> 'a kmem_scheme \<Rightarrow> bool" where
  "made_private r va s a t \<longleftrightarrow>
     PTE2PA (leaf (mem t) r va) = a \<and> leaf (mem t) r va AND PTE_V \<noteq> 0 \<and> leaf (mem t) r va AND PTE_W \<noteq> 0 \<and>
     leaf (mem t) r va AND PTE_COW = 0 \<and> refs t a = 1 \<and>
     (\<forall>v<MAXVA. if same_page va v then ubyte (mem t) r v = ubyte (mem s) r v else leaf (mem t) r v = leaf (mem s) r v) \<and>
     (\<forall>q. kpage s q \<and> q \<noteq> a \<longrightarrow> refs t q = (if q = PTE2PA (leaf (mem s) r va) then refs s q - 1 else refs s q)) \<and>
     (\<forall>q. kpage s q \<and> 1 \<le> refs s q \<and> q \<notin> tabs (mem s) r \<longrightarrow> (\<forall>x \<in> page_bytes q. mem t x = mem s x))"

lemma cow_last_private:
  assumes c: "cow_fault r va s" and one: "refs s (PTE2PA (leaf (mem s) r va)) = 1"
  defines "t \<equiv> s\<lparr>mem := store64 (mem s) (pteaddr (mem s) r va) (unshared (leaf (mem s) r va))\<rparr>"
  shows "made_private r va s (PTE2PA (leaf (mem s) r va)) t"
proof -
  let ?p = "PTE2PA (leaf (mem s) r va)"
  note cf = c [unfolded cow_fault_def] and cl = cow_last [OF c, folded t_def]
  have pg: "mem t x = mem s x" if "kpage s q" "1 \<le> refs s q" "q \<notin> tabs (mem s) r" "x \<in> page_bytes q" for q x
    by (rule vmod_page(2) [OF cl(1) that(1) _ that(3) _ _ that(4)]) (use that in auto)
  have e: "leaf (mem t) r va = unshared (leaf (mem s) r va)" using cl(2) [of va] cf by simp
  have u: "ubyte (mem t) r v = ubyte (mem s) r v" if "v < MAXVA" "same_page va v" for v
  proof -
    have "leaf (mem s) r v = leaf (mem s) r va" using leaf_same_page [OF that(2) _ that(1)] cf by simp
    moreover have "?p + (v - PGROUNDDOWN v) \<in> page_bytes ?p" by (rule offset_in_page)
    ultimately show ?thesis using cl(2) [OF that(1)] that(2) pg [of ?p] cf by (simp add: ubyte_def unshared_props(1))
  qed
  have rf: "refs t q = refs s q" for q by (simp add: t_def refs_def)
  have "\<forall>q. kpage s q \<and> 1 \<le> refs s q \<and> q \<notin> tabs (mem s) r \<longrightarrow> (\<forall>x \<in> page_bytes q. mem t x = mem s x)"
    using pg by blast
  then show ?thesis
    unfolding made_private_def using e u cl(2) one rf unshared_props [of "leaf (mem s) r va"] cf by simp
qed

lemma cow_copy_private:
  assumes c: "cow_fault r va s" and sh: "refs s (PTE2PA (leaf (mem s) r va)) \<noteq> 1" and free: "free_pages s \<noteq> {}"
  shows "\<exists>a t. vmfault r va False s = Ok a t \<and> a \<noteq> 0 \<and> a \<in> free_pages s \<and> kmem_inv t \<and> pt_ok t r \<and> kmem_frame s t \<and>
    made_private r va s a t"
proof -
  let ?e = "leaf (mem s) r va" let ?p = "PTE2PA ?e"
  note cf = c [unfolded cow_fault_def]
  have id: "PGROUNDDOWN va = va" using cf by (simp add: PGROUNDDOWN_id)
  obtain a s1 where al: "kalloc s = Ok a s1" "a \<noteq> 0" using kalloc_page [of s] cf free by metis
  define s2 where "s2 = s1\<lparr>mem := memmove (mem s1) a ?p 4096\<rparr>"
  define e where "e = PA2PTE a OR unshared (PTE_FLAGS (load64 (mem s2) (pteaddr (mem s) r va)))"
  obtain t where t: "kfree ?p (s2\<lparr>mem := store64 (mem s2) (pteaddr (mem s) r va) e\<rparr>) = Ok () t" "vmod s t r {a, ?p}"
      "e = PA2PTE a OR unshared (PTE_FLAGS ?e)" "a \<in> free_pages s" "a \<noteq> ?p"
    and l: "\<And>v. v < MAXVA \<Longrightarrow> leaf (mem t) r v = (if same_page va v then e else leaf (mem s) r v)"
    and rf: "\<And>q. kpage s q \<Longrightarrow> refs t q = (if q = ?p then refs s ?p - 1 else if q = a then 1 else refs s q)"
    and cp: "\<And>i. i < 4096 \<Longrightarrow> mem t (a + of_nat i) = mem s (?p + of_nat i)"
    and out: "\<And>x. x \<notin> page_bytes a \<Longrightarrow> \<forall>q \<in> tabs (mem s) r. x \<notin> page_bytes q \<Longrightarrow> mem t x = mem s x"
    by (rule cow_copy [OF c sh al, folded s2_def, folded e_def]) (rule that; assumption)
  have run: "vmfault r va False s = Ok a t"
    using al t(1) sh by (simp add: vmfault_cow_eq [OF c id] Let_def s2_def e_def)
  have ka: "kpage s a" using t(4) by (simp add: free_pages_def)
  note ue = unshared_fresh [OF kpage_aligned [OF ka] kpage_small [OF ka], of ?e, folded t(3)]
  have el: "leaf (mem t) r va = e" using l [of va] cf by simp
  have u: "ubyte (mem t) r v = ubyte (mem s) r v" if "v < MAXVA" "same_page va v" for v
  proof (rule ubyte_page)
    show "PTE2PA (leaf (mem t) r v) = a" using l [OF that(1)] that(2) ue(1) by simp
    show "PTE2PA (leaf (mem s) r v) = ?p" using leaf_same_page [OF that(2) _ that(1), of "mem s" r] cf by simp
    show "mem t (a + of_nat i) = mem s (?p + of_nat i)" if "i < 4096" for i using that by (rule cp)
  qed
  have "mem t x = mem s x" if "kpage s q" "1 \<le> refs s q" "q \<notin> tabs (mem s) r" "x \<in> page_bytes q" for q x
  proof (rule out)
    have "q \<noteq> a" using that(2) t(4) by (auto simp: free_pages_def)
    then show "x \<notin> page_bytes a" using that(4) page_bytes_disjoint [of q a] kpage_aligned [OF that(1)] kpage_aligned [OF ka] by blast
    show "\<forall>p \<in> tabs (mem s) r. x \<notin> page_bytes p"
    proof
      fix p assume "p \<in> tabs (mem s) r"
      moreover then have "page_aligned p" "p \<noteq> q" using pt_ok_tabs [of s r p] cf that(3) by auto
      ultimately show "x \<notin> page_bytes p" using that(4) page_bytes_disjoint [of q p] kpage_aligned [OF that(1)] by blast
    qed
  qed
  then have "\<forall>q. kpage s q \<and> 1 \<le> refs s q \<and> q \<notin> tabs (mem s) r \<longrightarrow> (\<forall>x \<in> page_bytes q. mem t x = mem s x)" by blast
  moreover have "refs t a = 1" using rf [OF ka] t(5) by simp
  ultimately have "made_private r va s a t"
    unfolding made_private_def using el u l rf ue cf by simp
  then show ?thesis using run al(2) t(4) vmodD(1-3) [OF t(2)] by (intro exI conjI)
qed

text \<open>
  (C3) Copy on write. A write fault on a page marked copy-on-write gives the faulting process a private, writable
  page that is no longer marked and that reads as before. If the page had no other user it is kept;
  otherwise its bytes are copied to a fresh page and its count drops by one. No byte of any page in use
  outside this page table changes, so whoever shared the page still sees the old contents, and
  no other entry changes. Only when the page is shared and no page is free does the fault fail, and then nothing has changed.
\<close>

theorem vmfault_cow:
  assumes "cow_fault r va s"
  shows "\<exists>a t. vmfault r va False s = Ok a t \<and> kmem_inv t \<and> pt_ok t r \<and> kmem_frame s t \<and>
    (if a = 0 then refs s (PTE2PA (leaf (mem s) r va)) \<noteq> 1 \<and> free_pages s = {} \<and> t = s
     else made_private r va s a t \<and>
       (if refs s (PTE2PA (leaf (mem s) r va)) = 1 then a = PTE2PA (leaf (mem s) r va) else a \<in> free_pages s))"
proof -
  let ?p = "PTE2PA (leaf (mem s) r va)"
  note cf = assms [unfolded cow_fault_def]
  have id: "PGROUNDDOWN va = va" using cf by (simp add: PGROUNDDOWN_id)
  consider (last) "refs s ?p = 1" | (none) "refs s ?p \<noteq> 1" "free_pages s = {}" | (copy) "refs s ?p \<noteq> 1" "free_pages s \<noteq> {}" by blast
  then show ?thesis
  proof cases
    case last
    let ?t = "s\<lparr>mem := store64 (mem s) (pteaddr (mem s) r va) (unshared (leaf (mem s) r va))\<rparr>"
    have "vmfault r va False s = Ok ?p ?t" using last by (simp add: vmfault_cow_eq [OF assms id])
    moreover have "?p \<noteq> 0" using cf kpage_nonzero [of s ?p] by (auto simp: kmem_inv_def)
    ultimately show ?thesis
      using last cow_last_private [OF assms last] vmodD(1-3) [OF cow_last(1) [OF assms]] by (intro exI [of _ ?p] exI [of _ ?t]) simp
  next
    case none
    have "kalloc s = Ok 0 s" by (rule kalloc_empty) (use none cf in auto)
    then have "vmfault r va False s = Ok 0 s" using none by (simp add: vmfault_cow_eq [OF assms id])
    then show ?thesis using none cf by (intro exI [of _ 0] exI [of _ s]) simp
  next
    case copy
    from cow_copy_private [OF assms copy] show ?thesis using copy(1) by (elim exE conjE) (intro exI conjI, assumption+, simp)
  qed
qed

text \<open>The small machine of the page-table examples as a whole kernel state, with its mapped page marked copy-on-write.\<close>

definition on_machine :: "kmem \<Rightarrow> ktrap" where
  "on_machine k = zero_machine\<lparr>mem := mem k, freelist := freelist k, refcnt := refcnt k, kend := kend k\<rparr>"

lemma on_machine_sel [simp]:
  "mem (on_machine k) = mem k" "freelist (on_machine k) = freelist k" "refcnt (on_machine k) = refcnt k"
  "kend (on_machine k) = kend k" "held (on_machine k) = {}" "procs (on_machine k) = (\<lambda>_. idle_proc)"
  by (simp_all add: on_machine_def)

lemma on_machine_iff [simp]:
  "kpage (on_machine k) p = kpage k p" "refs (on_machine k) p = refs k p" "free_pages (on_machine k) = free_pages k"
  by (simp_all add: kpage_def refs_def free_pages_def)

lemma on_machine_ok: "kmem_inv k \<Longrightarrow> kmem_inv (on_machine k)" "pt_ok (on_machine k) r = pt_ok k r"
  by (simp_all add: kmem_inv_def kmem_ok_def pt_ok_def)

definition cow_entry :: u64 where
  "cow_entry = PA2PTE (Q 3) OR PTE_R OR PTE_COW OR PTE_U OR PTE_V"

definition cow_demo :: kmem where
  "cow_demo = demo\<lparr>mem := store64 (mem demo) (slot (Q 2) (unat (PX 0 0))) cow_entry\<rparr>"

lemma cow_demo_props:
  "kmem_inv cow_demo" "pt_ok cow_demo (Q 0)" "tabs (mem cow_demo) (Q 0) = {Q 0, Q 1, Q 2}"
  "leaf (mem cow_demo) (Q 0) 0 = cow_entry" "refs cow_demo p = 1" "k < 16 \<Longrightarrow> kpage cow_demo (Q k)"
proof -
  have z: "(0 :: u64) < MAXVA" by (simp add: less_MAXVA)
  have tb: "tbl (mem demo) (Q 0) (lpath 0) = Some (Q 2)"
    using demo_tbl [OF _ lpath_paths, of 0 0] by (simp add: lpath_def unat_PX demo_def numeral_2_eq_2)
  note sl = set_leaf [OF demo_inv demo_pt_ok z tb, where v = cow_entry, folded cow_demo_def, simplified]
  show "kmem_inv cow_demo" "pt_ok cow_demo (Q 0)" using vmodD(1,3) [OF sl(1)] by simp_all
  show "tabs (mem cow_demo) (Q 0) = {Q 0, Q 1, Q 2}" using sl(2) demo_tabs [of 0] by (simp add: demo_def numeral_2_eq_2)
  show "leaf (mem cow_demo) (Q 0) 0 = cow_entry" using sl(3) [of 0] z by simp
  show "refs cow_demo p = 1" "k < 16 \<Longrightarrow> kpage cow_demo (Q k)"
    using demo_kpage [of k] by (simp_all add: cow_demo_def refs_def demo_def kpage_def)
qed

lemma cow_entry_props: "cow_entry AND PTE_V \<noteq> 0" "cow_entry AND PTE_COW \<noteq> 0" "PTE2PA cow_entry = Q 3"
proof -
  show "PTE2PA cow_entry = Q 3" unfolding cow_entry_def
    by (rule PTE2PA_PA2PTE) (simp_all add: Q_aligned Q_unat pte_defs)
  show "cow_entry AND PTE_V \<noteq> 0" "cow_entry AND PTE_COW \<noteq> 0"
    unfolding flag_iffs cow_entry_def by (simp_all add: bit_simps bit_flag)
qed

theorem vmfault_cow_witness:
  "\<exists>t. vmfault (Q 0) 0 False (on_machine cow_demo) = Ok (Q 3) t \<and> leaf (mem t) (Q 0) 0 AND PTE_W \<noteq> 0"
proof -
  have "cow_fault (Q 0) 0 (on_machine cow_demo)"
    using cow_demo_props cow_entry_props Q_eq [of 3] by (simp add: cow_fault_def on_machine_ok less_MAXVA page_aligned_def)
  from vmfault_cow [OF this] show ?thesis
    using cow_demo_props cow_entry_props by (elim exE conjE) (auto simp: made_private_def split: if_splits)
qed

end
