(* ===== verification/Usercopy.thy ===== *)
theory Usercopy
  imports Cow
begin

unbundle bit_operations_syntax

text \<open>
  The copies between kernel and user space: over pages that are mapped they move exactly the bytes that user code
  sees, across page boundaries.
\<close>

section \<open>Mapped ranges\<close>

definition user_range :: "addr \<Rightarrow> u64 \<Rightarrow> nat \<Rightarrow> 'a kmem_scheme \<Rightarrow> bool" where
  "user_range r va n s \<longleftrightarrow> kmem_inv s \<and> pt_ok s r \<and> unat va + n \<le> 2 ^ 38 \<and>
     (\<forall>v. unat va \<le> unat v \<and> unat v < unat va + n \<longrightarrow>
        leaf (mem s) r v AND PTE_V \<noteq> 0 \<and> leaf (mem s) r v AND PTE_U \<noteq> 0 \<and> PTE2PA (leaf (mem s) r v) \<noteq> 0)"

lemma same_page_DOWN: "same_page (PGROUNDDOWN v) v"
  by (simp add: same_page_unat unat_PGROUNDDOWN)

lemma PGROUNDDOWN_same: "same_page v w \<longleftrightarrow> PGROUNDDOWN v = PGROUNDDOWN w"
  by (simp add: same_page_unat word_unat_eq_iff unat_PGROUNDDOWN)

lemma DOWN_MAXVA: "v < MAXVA \<Longrightarrow> PGROUNDDOWN v < MAXVA"
  using PGROUNDDOWN_le [of v] by (rule order.strict_trans1)

lemma leaf_DOWN: "v < MAXVA \<Longrightarrow> leaf m r (PGROUNDDOWN v) = leaf m r v"
  using leaf_same_page [OF same_page_DOWN DOWN_MAXVA, of v m r] by simp

lemma walkaddr_mapped:
  assumes "kmem_inv s" "pt_ok s r" "v < MAXVA" "leaf (mem s) r v AND PTE_V \<noteq> 0" "leaf (mem s) r v AND PTE_U \<noteq> 0"
  shows "walkaddr r v s = Ok (PTE2PA (leaf (mem s) r v)) s"
    "walk r v False s = Ok (pteaddr (mem s) r v) s" "pteaddr (mem s) r v \<noteq> 0" "load64 (mem s) (pteaddr (mem s) r v) = leaf (mem s) r v"
proof -
  obtain pt where pt: "tbl (mem s) r (lpath v) = Some pt" "pteaddr (mem s) r v = slot pt (unat (PX 0 v))"
    "leaf (mem s) r v = load64 (mem s) (slot pt (unat (PX 0 v)))" using assms(4) by (rule leaf_validE)
  show w: "walk r v False s = Ok (pteaddr (mem s) r v) s" using assms(3) by (rule walk_False)
  have "kpage s pt" using pt_ok_tabs [OF assms(2) tabsI [OF pt(1) lpath_paths]] by simp
  then show nz: "pteaddr (mem s) r v \<noteq> 0" unfolding pt(2) by (intro slot_nonzero [OF assms(1)] PX_less)
  show ld: "load64 (mem s) (pteaddr (mem s) r v) = leaf (mem s) r v" unfolding pt(2,3) ..
  show "walkaddr r v s = Ok (PTE2PA (leaf (mem s) r v)) s"
    using assms(4,5) w nz ld leD [of MAXVA v] assms(3) by (auto simp: walkaddr_def)
qed

lemma div_within: "a mod n + i < n \<Longrightarrow> (a + i) div n = a div (n :: nat)"
proof -
  assume "a mod n + i < n"
  then have "n \<noteq> 0" "(a mod n + i) div n = 0" by auto
  then have "((a mod n + i) + (a div n) * n) div n = a div n" using div_mult_self1 [of n "a mod n + i" "a div n"] by linarith
  moreover have "(a mod n + i) + (a div n) * n = a + i" by (simp add: add.commute add.left_commute)
  ultimately show ?thesis by simp
qed

text \<open>The bytes of one page, read through its physical address.\<close>

lemma load_user_bytes:
  assumes "unat va mod 4096 + n \<le> 4096" "unat va + n \<le> 2 ^ 38"
  shows "load_bytes (mem s) (PTE2PA (leaf (mem s) r va) + (va - PGROUNDDOWN va)) n =
    map (\<lambda>i. ubyte (mem s) r (va + of_nat i)) [0..<n]"
proof (rule nth_equalityI)
  fix i assume "i < length (load_bytes (mem s) (PTE2PA (leaf (mem s) r va) + (va - PGROUNDDOWN va)) n)"
  then have i: "i < n" by (simp add: load_bytes_def)
  have u: "unat (va + of_nat i) = unat va + i"
    using i assms(2) by (simp add: unat_word_ariths unat_of_nat mod_simps)
  then have sp: "same_page va (va + of_nat i)" using i assms(1) by (simp add: same_page_unat div_within)
  moreover have "va < MAXVA" "va + of_nat i < MAXVA" using i assms(2) u by (simp_all add: less_MAXVA)
  ultimately have "leaf (mem s) r (va + of_nat i) = leaf (mem s) r va" using leaf_same_page by blast
  moreover have "PGROUNDDOWN (va + of_nat i) = PGROUNDDOWN va" using sp PGROUNDDOWN_same by metis
  ultimately show "load_bytes (mem s) (PTE2PA (leaf (mem s) r va) + (va - PGROUNDDOWN va)) n ! i =
      map (\<lambda>i. ubyte (mem s) r (va + of_nat i)) [0..<n] ! i"
    using i by (simp add: load_bytes_def ubyte_def algebra_simps)
qed (simp add: load_bytes_def)

section \<open>Copying in\<close>

definition ubytes :: "mem \<Rightarrow> addr \<Rightarrow> u64 \<Rightarrow> nat \<Rightarrow> u8 list" where
  "ubytes m r va n = map (\<lambda>i. ubyte m r (va + of_nat i)) [0..<n]"

lemma ubytes_split: "ubytes m r va (n + k) = ubytes m r va n @ ubytes m r (va + of_nat n) k"
proof -
  have "map f [n..<n + k] = map (\<lambda>i. f (n + i)) [0..<k]" for f :: "nat \<Rightarrow> u8" by (rule nth_equalityI) simp_all
  then show ?thesis by (simp add: ubytes_def upt_add_eq_append [of 0, simplified] add.assoc)
qed

text \<open>The number of pages that a range touches, plus one turn that finds nothing left.\<close>

definition copy_turns :: "u64 \<Rightarrow> nat \<Rightarrow> nat" where
  "copy_turns va n = (unat va mod 4096 + n + 4095) div 4096 + 1"

lemma copy_turns_bound: "copy_turns va n \<le> n div 4096 + 3"
proof -
  have "unat va mod 4096 + n + 4095 \<le> n + 4096 * 2" using mod_less_divisor [of 4096 "unat va"] by simp
  then have "(unat va mod 4096 + n + 4095) div 4096 \<le> (n + 4096 * 2) div 4096" by (rule div_le_mono)
  then show ?thesis by (simp add: copy_turns_def)
qed

lemma copy_turns_pos: "0 < n \<Longrightarrow> 2 \<le> copy_turns va n"
proof -
  assume "0 < n"
  then have "4096 div 4096 \<le> (unat va mod 4096 + n + 4095) div 4096" by (intro div_le_mono) simp
  then show ?thesis by (simp add: copy_turns_def)
qed

text \<open>One turn of a copy: the part of the range up to the end of the first page, and the rest.\<close>

lemma copy_turn:
  assumes "0 < n" "unat va + n \<le> 2 ^ 38"
  defines "m \<equiv> min (unat (PGSIZE - (va - PGROUNDDOWN va))) n"
  shows "0 < m" "m \<le> n" "unat va mod 4096 + m \<le> 4096" "m < n \<Longrightarrow> PGROUNDDOWN va + PGSIZE = va + of_nat m"
    "m < n \<Longrightarrow> unat (PGROUNDDOWN va + PGSIZE) = unat va + m" "m < n \<Longrightarrow> copy_turns (PGROUNDDOWN va + PGSIZE) (n - m) + 1 = copy_turns va n"
proof -
  let ?o = "unat va mod 4096"
  have o: "?o < 4096" by simp
  have "unat (va - PGROUNDDOWN va) \<le> unat PGSIZE" by (simp add: PGROUNDDOWN_offset PGSIZE_def less_imp_le)
  then have "unat (PGSIZE - (va - PGROUNDDOWN va)) = 4096 - ?o"
    by (simp add: unat_sub word_le_nat_alt PGROUNDDOWN_offset) (simp add: PGSIZE_def)
  then have m: "m = min (4096 - ?o) n" by (simp add: m_def)
  show "0 < m" "m \<le> n" "?o + m \<le> 4096" using assms(1) o m by auto
  assume "m < n"
  then have mo: "m = 4096 - ?o" using m by auto
  have va: "unat va = unat va div 4096 * 4096 + ?o" by simp
  have d: "unat (PGROUNDDOWN va) + 4096 = unat va + m" unfolding unat_PGROUNDDOWN using va mo o by linarith
  have "unat va + m < 2 ^ 64" using assms(2) \<open>m < n\<close> by simp
  then have "unat (PGROUNDDOWN va + PGSIZE) = unat va + m"
    using d by (simp add: unat_word_ariths PGSIZE_def)
  moreover have "unat (va + of_nat m) = unat va + m"
    using \<open>unat va + m < 2 ^ 64\<close> by (simp add: unat_word_ariths unat_of_nat mod_simps)
  ultimately show u: "PGROUNDDOWN va + PGSIZE = va + of_nat m" "unat (PGROUNDDOWN va + PGSIZE) = unat va + m"
    by (simp_all add: word_unat_eq_iff)
  have "(unat va + m) mod 4096 = 0" using d unat_PGROUNDDOWN [of va] by (metis mod_mult_self2_is_0 mod_add_self2)
  moreover have "(n - m + 4095) div 4096 + 1 = (?o + n + 4095) div 4096"
  proof -
    have "?o + n + 4095 = (n - m + 4095) + 4096" using mo o \<open>m < n\<close> by simp
    then show ?thesis by (simp only: div_add_self2)
  qed
  ultimately show "copy_turns (PGROUNDDOWN va + PGSIZE) (n - m) + 1 = copy_turns va n"
    unfolding copy_turns_def u(2) by simp
qed

lemma user_range_rest:
  assumes "user_range r va n s" "m < n" "unat va' = unat va + m"
  shows "user_range r va' (n - m) s"
  using assms by (auto simp: user_range_def)

lemma user_range_first:
  assumes "user_range r va n s" "0 < n"
  shows "va < MAXVA" "leaf (mem s) r va AND PTE_V \<noteq> 0" "leaf (mem s) r va AND PTE_U \<noteq> 0" "PTE2PA (leaf (mem s) r va) \<noteq> 0"
    "kmem_inv s" "pt_ok s r" "unat va + n \<le> 2 ^ 38"
  using assms by (auto simp: user_range_def less_MAXVA)

lemma copyin_loop_mapped:
  assumes "user_range r va n s" "copy_turns va n \<le> k"
  shows "copyin_loop k r va n dst s = Ok (0, dst @ ubytes (mem s) r va n) s"
  using assms
proof (induction k arbitrary: va n dst)
  case 0
  then show ?case by (simp add: copy_turns_def)
next
  case (Suc k)
  show ?case
  proof (cases "n = 0")
    case True
    then show ?thesis by (simp add: ubytes_def)
  next
    case False
    then have n: "0 < n" by simp
    note f = user_range_first [OF Suc.prems(1) n]
    define m where "m = min (unat (PGSIZE - (va - PGROUNDDOWN va))) n"
    note ct = copy_turn [OF n f(7), folded m_def]
    let ?w = "PGROUNDDOWN va"
    have w: "walkaddr r ?w s = Ok (PTE2PA (leaf (mem s) r va)) s"
      using walkaddr_mapped(1) [OF f(5,6) DOWN_MAXVA [OF f(1)]] f(2,3) leaf_DOWN [OF f(1)] by simp
    have "load_bytes (mem s) (PTE2PA (leaf (mem s) r va) + (va - ?w)) m = ubytes (mem s) r va m"
      unfolding ubytes_def by (rule load_user_bytes) (use ct f(7) in linarith)+
    then have step: "copyin_loop (Suc k) r va n dst s =
        copyin_loop k r (?w + PGSIZE) (n - m) (dst @ ubytes (mem s) r va m) s"
      using n w f(4) by (simp add: Let_def m_def)
    show ?thesis
    proof (cases "m < n")
      case True
      have "copyin_loop k r (?w + PGSIZE) (n - m) (dst @ ubytes (mem s) r va m) s =
          Ok (0, (dst @ ubytes (mem s) r va m) @ ubytes (mem s) r (?w + PGSIZE) (n - m)) s"
        by (rule Suc.IH [OF user_range_rest [OF Suc.prems(1) True ct(5) [OF True]]]) (use ct(6) [OF True] Suc.prems(2) in linarith)
      then show ?thesis unfolding step using ubytes_split [of "mem s" r va m "n - m"] ct(4) [OF True] True by simp
    next
      case False
      then have "m = n" using ct(2) by simp
      moreover have "k \<noteq> 0" using Suc.prems(2) copy_turns_pos [OF n, of va] by linarith
      ultimately show ?thesis unfolding step by (cases k) simp_all
    qed
  qed
qed

section \<open>Copying out\<close>

text \<open>Storing inside a page that is in use and not part of the page table.\<close>

lemma store_in_page:
  assumes inv: "kmem_inv s" and ok: "pt_ok s r" and q: "kpage s q" "1 \<le> refs s q" "q \<notin> tabs (mem s) r"
    and m: "\<And>x. x \<notin> page_bytes q \<Longrightarrow> m x = mem s x"
  defines "t \<equiv> s\<lparr>mem := m\<rparr>"
  shows "kmem_inv t" "pt_ok t r" "leaf (mem t) r = leaf (mem s) r" "tabs (mem t) r = tabs (mem s) r"
    "kpage t p = kpage s p" "refs t p = refs s p"
proof -
  show rf: "refs t p = refs s p" "kpage t p = kpage s p" for p by (simp_all add: t_def refs_def kpage_def)
  have out: "x \<notin> page_bytes q" if "page_aligned p" "p \<noteq> q" "x \<in> page_bytes p" for p x
    using that page_bytes_disjoint [of p q] kpage_aligned [OF q(1)] by blast
  show "kmem_inv t" unfolding t_def
  proof (rule kmem_inv_mem [OF inv])
    fix p x assume p: "p \<in> free_pages s" "x \<in> page_bytes p"
    then have "p \<noteq> q" using q(2) by (auto simp: free_pages_def)
    then show "m x = mem s x" using m out p free_page_aligned by blast
  qed
  have mm: "mem t x = mem s x" if "p \<in> tabs (mem s) r" "x \<in> page_bytes p" for p x
    using that q(3) pt_ok_tabs [OF ok that(1)] out [of p x] m by (auto simp: t_def)
  have ke: "kend t = kend s" by (simp add: t_def)
  show "pt_ok t r" by (rule pt_ok_cong(1) [OF ok mm rf(1) ke]; assumption)
  show "tabs (mem t) r = tabs (mem s) r" by (rule pt_ok_cong(2) [OF ok mm rf(1) ke]; assumption)
  show "leaf (mem t) r = leaf (mem s) r" by (rule pt_ok_cong(3) [OF ok mm rf(1) ke]; assumption)
qed

text \<open>The physical address of a user byte.\<close>

definition uaddr :: "mem \<Rightarrow> addr \<Rightarrow> u64 \<Rightarrow> addr" where
  "uaddr m r v = PTE2PA (leaf m r v) + (v - PGROUNDDOWN v)"

lemma ubyte_uaddr: "ubyte m r v = m (uaddr m r v)"
  by (simp add: ubyte_def uaddr_def)

definition user_writable :: "addr \<Rightarrow> u64 \<Rightarrow> nat \<Rightarrow> 'a kmem_scheme \<Rightarrow> bool" where
  "user_writable r va n s \<longleftrightarrow> user_range r va n s \<and>
     (\<forall>v. unat va \<le> unat v \<and> unat v < unat va + n \<longrightarrow> leaf (mem s) r v AND PTE_W \<noteq> 0 \<and>
        kpage s (PTE2PA (leaf (mem s) r v)) \<and> 1 \<le> refs s (PTE2PA (leaf (mem s) r v)) \<and> PTE2PA (leaf (mem s) r v) \<notin> tabs (mem s) r) \<and>
     (\<forall>v w. unat va \<le> unat v \<and> unat v < unat va + n \<and> unat va \<le> unat w \<and> unat w < unat va + n \<and>
        PTE2PA (leaf (mem s) r v) = PTE2PA (leaf (mem s) r w) \<longrightarrow> same_page v w)"

lemma user_writable_rest:
  assumes "user_writable r va n s" "m < n" "unat va' = unat va + m"
  shows "user_writable r va' (n - m) s"
  using assms user_range_rest [OF _ assms(2,3), of r s] unfolding user_writable_def by fastforce

lemma uaddr_inj:
  assumes "user_writable r va n s" "unat va \<le> unat v" "unat v < unat va + n" "unat va \<le> unat w" "unat w < unat va + n"
    and "uaddr (mem s) r v = uaddr (mem s) r w"
  shows "v = w"
proof -
  let ?p = "PTE2PA (leaf (mem s) r v)" and ?q = "PTE2PA (leaf (mem s) r w)"
  have k: "kpage s ?p" "kpage s ?q" using assms(1-5) unfolding user_writable_def by blast+
  have "uaddr (mem s) r v \<in> page_bytes ?p" "uaddr (mem s) r w \<in> page_bytes ?q"
    unfolding uaddr_def by (rule offset_in_page)+
  then have pq: "?p = ?q" using page_bytes_disjoint [of ?p ?q] k kpage_aligned assms(6) by fastforce
  then have "same_page v w" using assms(1-5) unfolding user_writable_def by blast
  then have "PGROUNDDOWN v = PGROUNDDOWN w" by (simp add: PGROUNDDOWN_same)
  then show ?thesis using assms(6) pq by (simp add: uaddr_def)
qed

text \<open>
  The outcome of a copy to user space: the bytes are at their place, nothing else in memory has changed, and
  the page table is as before.
\<close>

definition copied_out :: "addr \<Rightarrow> u64 \<Rightarrow> u8 list \<Rightarrow> 'a kmem_scheme \<Rightarrow> 'a kmem_scheme \<Rightarrow> bool" where
  "copied_out r va bs s t \<longleftrightarrow> t = s\<lparr>mem := mem t\<rparr> \<and> kmem_inv t \<and> pt_ok t r \<and>
     leaf (mem t) r = leaf (mem s) r \<and> tabs (mem t) r = tabs (mem s) r \<and>
     ubytes (mem t) r va (length bs) = bs \<and>
     (\<forall>x. (\<forall>v. unat va \<le> unat v \<and> unat v < unat va + length bs \<longrightarrow> x \<noteq> uaddr (mem s) r v) \<longrightarrow> mem t x = mem s x)"

text \<open>One page of the copy.\<close>

lemma uaddr_within:
  assumes "unat va mod 4096 + n \<le> 4096" "unat va + n \<le> 2 ^ 38" "i < n"
  shows "uaddr m r (va + of_nat i) = uaddr m r va + of_nat i" "unat (va + of_nat i) = unat va + i"
    "leaf m r (va + of_nat i) = leaf m r va"
proof -
  show u: "unat (va + of_nat i) = unat va + i"
    using assms(2,3) by (simp add: unat_word_ariths unat_of_nat mod_simps)
  then have sp: "same_page va (va + of_nat i)" using assms(1,3) by (simp add: same_page_unat div_within)
  moreover have "va < MAXVA" "va + of_nat i < MAXVA" using assms(2,3) u by (simp_all add: less_MAXVA)
  ultimately show l: "leaf m r (va + of_nat i) = leaf m r va" using leaf_same_page by blast
  have "PGROUNDDOWN (va + of_nat i) = PGROUNDDOWN va" using sp PGROUNDDOWN_same by metis
  then show "uaddr m r (va + of_nat i) = uaddr m r va + of_nat i" using l by (simp add: uaddr_def algebra_simps)
qed

lemma copied_out_page:
  assumes w: "user_writable r va n s" and bs: "0 < length bs" "length bs \<le> n" "unat va mod 4096 + length bs \<le> 4096"
  defines "t \<equiv> s\<lparr>mem := store_bytes (mem s) (uaddr (mem s) r va) bs\<rparr>"
  shows "copied_out r va bs s t"
proof -
  let ?q = "PTE2PA (leaf (mem s) r va)" and ?a = "uaddr (mem s) r va" and ?n = "length bs"
  have ur: "user_range r va n s" using w by (simp add: user_writable_def)
  note f = user_range_first [OF ur]
  have n: "0 < n" using bs(1,2) by linarith
  have q: "kpage s ?q" "1 \<le> refs s ?q" "?q \<notin> tabs (mem s) r" using w n unfolding user_writable_def by auto
  have lim: "unat va + ?n \<le> 2 ^ 38" using f(7) [OF n] bs(2) by simp
  have off: "unat (?a - ?q) + ?n \<le> 4096" using bs(3) by (simp add: uaddr_def PGROUNDDOWN_offset)
  have out: "store_bytes (mem s) ?a bs x = mem s x" if "x \<notin> page_bytes ?q" for x
  proof -
    have "\<not> unat (x - ?a) < ?n"
    proof
      assume i: "unat (x - ?a) < ?n"
      have "unat (x - ?q) = unat ((x - ?a) + (?a - ?q))" by simp
      also have "\<dots> \<le> unat (x - ?a) + unat (?a - ?q)" by (simp only: unat_word_ariths mod_less_eq_dividend)
      also have "\<dots> < 4096" using i off by simp
      finally show False using that by (simp add: page_bytes_def)
    qed
    then show ?thesis by (simp add: store_bytes_def)
  qed
  note sp = store_in_page [OF f(5,6) [OF n] q out, folded t_def]
  have lf: "leaf (mem t) r = leaf (mem s) r" by (rule sp)
  have mt: "mem t (?a + of_nat i) = bs ! i" if "i < ?n" for i
    using that lim by (simp add: t_def store_bytes_def unat_of_nat_small)
  have ub: "ubytes (mem t) r va ?n = bs"
  proof (rule nth_equalityI)
    fix i assume "i < length (ubytes (mem t) r va ?n)"
    then have i: "i < ?n" by (simp add: ubytes_def)
    have "uaddr (mem t) r (va + of_nat i) = ?a + of_nat i"
      using uaddr_within(1) [OF bs(3) lim i, of "mem s" r] lf by (simp add: uaddr_def)
    then show "ubytes (mem t) r va ?n ! i = bs ! i" using i mt by (simp add: ubytes_def ubyte_uaddr)
  qed (simp add: ubytes_def)
  have fr: "\<forall>x. (\<forall>v. unat va \<le> unat v \<and> unat v < unat va + ?n \<longrightarrow> x \<noteq> uaddr (mem s) r v) \<longrightarrow> mem t x = mem s x"
  proof (intro allI impI)
    fix x assume x: "\<forall>v. unat va \<le> unat v \<and> unat v < unat va + ?n \<longrightarrow> x \<noteq> uaddr (mem s) r v"
    have "\<not> unat (x - ?a) < ?n"
    proof
      assume i: "unat (x - ?a) < ?n"
      have "x = uaddr (mem s) r (va + of_nat (unat (x - ?a)))" using uaddr_within(1) [OF bs(3) lim i, of "mem s" r] by simp
      then show False using x uaddr_within(2) [OF bs(3) lim i] i by auto
    qed
    then show "mem t x = mem s x" by (simp add: t_def store_bytes_def)
  qed
  show ?thesis unfolding copied_out_def using sp(1-4) ub fr by (simp add: t_def)
qed

lemma user_writable_cong:
  assumes "t = s\<lparr>mem := mem t\<rparr>" "kmem_inv t" "pt_ok t r" "leaf (mem t) r = leaf (mem s) r" "tabs (mem t) r = tabs (mem s) r"
    "user_writable r va n s"
  shows "user_writable r va n t"
proof -
  have "kpage t p = kpage s p" "refs t p = refs s p" for p
    by (subst assms(1), simp add: kpage_def refs_def)+
  then show ?thesis using assms(2,3,6) unfolding user_writable_def user_range_def assms(4,5) by simp
qed

lemma copied_out_append:
  assumes w: "user_writable r va (length bs) s" and m: "m < length bs" "unat va' = unat va + m" "va' = va + of_nat m"
    and 1: "copied_out r va (take m bs) s s1" and 2: "copied_out r va' (drop m bs) s1 t"
  shows "copied_out r va bs s t"
proof -
  note a = 1 [unfolded copied_out_def] and b = 2 [unfolded copied_out_def]
  have lf: "leaf (mem s1) r = leaf (mem s) r" "leaf (mem t) r = leaf (mem s) r" using a b by simp_all
  have ua: "uaddr (mem s1) r v = uaddr (mem s) r v" "uaddr (mem t) r v = uaddr (mem s) r v" for v using lf by (simp_all add: uaddr_def)
  have lim: "unat va + length bs \<le> 2 ^ 38" using w by (simp add: user_writable_def user_range_def)
  have len: "length (take m bs) = m" "length (drop m bs) = length bs - m" using m(1) by simp_all
  have u: "unat (va + of_nat i) = unat va + i" if "i < length bs" for i
    using that lim by (simp add: unat_word_ariths unat_of_nat mod_simps)
  have keep: "mem t (uaddr (mem s) r (va + of_nat i)) = mem s1 (uaddr (mem s) r (va + of_nat i))" if "i < m" for i
  proof -
    have "uaddr (mem s) r (va + of_nat i) \<noteq> uaddr (mem s) r v" if "unat va' \<le> unat v \<and> unat v < unat va' + (length bs - m)" for v
      using uaddr_inj [OF w, of "va + of_nat i" v] u [of i] \<open>i < m\<close> that m by auto
    then show ?thesis using b len(2) ua(1) by metis
  qed
  have "ubytes (mem t) r va m = ubytes (mem s1) r va m"
    using keep ua by (simp add: ubytes_def ubyte_uaddr)
  also have "\<dots> = take m bs" using a len(1) by metis
  finally have "ubytes (mem t) r va (m + (length bs - m)) = take m bs @ drop m bs"
    unfolding ubytes_split using b len(2) m(3) by metis
  then have "ubytes (mem t) r va (length bs) = bs" using m(1) by simp
  moreover have "mem t x = mem s x" if x: "\<forall>v. unat va \<le> unat v \<and> unat v < unat va + length bs \<longrightarrow> x \<noteq> uaddr (mem s) r v" for x
  proof -
    have "mem s1 x = mem s x" using a x len(1) m(1) by simp
    moreover have "mem t x = mem s1 x" using b x len(2) m ua(1) by simp
    ultimately show ?thesis by simp
  qed
  moreover have "t = s\<lparr>mem := mem t\<rparr>" using a b by (metis kmem.surjective kmem.update_convs(1))
  ultimately show ?thesis unfolding copied_out_def using a b by simp
qed

lemma copyout_loop_mapped:
  assumes "user_writable r va (length bs) s" "copy_turns va (length bs) \<le> k"
  shows "\<exists>t. copyout_loop k r va bs s = Ok 0 t \<and> copied_out r va bs s t"
  using assms
proof (induction k arbitrary: va bs s)
  case 0
  then show ?case by (simp add: copy_turns_def)
next
  case (Suc k)
  have ur: "user_range r va (length bs) s" using Suc.prems(1) by (simp add: user_writable_def)
  show ?case
  proof (cases "bs = []")
    case True
    then show ?thesis using ur by (simp add: copied_out_def ubytes_def user_range_def)
  next
    case False
    then have n: "0 < length bs" by simp
    note f = user_range_first [OF ur n]
    define m where "m = min (unat (PGSIZE - (va - PGROUNDDOWN va))) (length bs)"
    note ct = copy_turn [OF n f(7), folded m_def]
    let ?w = "PGROUNDDOWN va"
    note wm = walkaddr_mapped [OF f(5,6) DOWN_MAXVA [OF f(1)], unfolded leaf_DOWN [OF f(1)], OF f(2,3)]
    have W: "leaf (mem s) r va AND PTE_W \<noteq> 0" using Suc.prems(1) n unfolding user_writable_def by auto
    let ?s = "s\<lparr>mem := store_bytes (mem s) (uaddr (mem s) r va) (take m bs)\<rparr>"
    have step: "copyout_loop (Suc k) r va bs s = copyout_loop k r (?w + PGSIZE) (drop m bs) ?s"
      using False wm f(4) W DOWN_MAXVA [OF f(1), folded not_le] by (simp add: Let_def m_def uaddr_def)
    have c1: "copied_out r va (take m bs) s ?s"
      by (rule copied_out_page [OF Suc.prems(1)]) (use ct(1-3) in simp_all)
    show ?thesis
    proof (cases "m < length bs")
      case True
      have "user_writable r va (length bs) ?s"
        by (rule user_writable_cong [OF _ _ _ _ _ Suc.prems(1)]) (use c1 in \<open>simp_all add: copied_out_def\<close>)
      then have w: "user_writable r (?w + PGSIZE) (length (drop m bs)) ?s"
        using user_writable_rest [OF _ True ct(5) [OF True]] by simp
      have "copy_turns (?w + PGSIZE) (length (drop m bs)) \<le> k" using ct(6) [OF True] Suc.prems(2) by simp
      from Suc.IH [OF w this] obtain t where t: "copyout_loop k r (?w + PGSIZE) (drop m bs) ?s = Ok 0 t"
        "copied_out r (?w + PGSIZE) (drop m bs) ?s t" by blast
      then show ?thesis unfolding step
        using copied_out_append [OF Suc.prems(1) True ct(5) [OF True] ct(4) [OF True] c1 t(2)] by blast
    next
      case all: False
      then have "m = length bs" using ct(2) by simp
      moreover have "k \<noteq> 0" using Suc.prems(2) copy_turns_pos [OF n, of va] by linarith
      ultimately show ?thesis unfolding step using c1 by (cases k) simp_all
    qed
  qed
qed

lemma demo_writable: "user_writable (Q 0) 4090 3 (on_machine demo)"
proof -
  let ?s = "on_machine demo"
  have in0: "same_page 0 v" "v < MAXVA" if "4090 \<le> unat v" "unat v < 4093" for v :: u64
    using that by (auto simp: same_page_unat less_MAXVA)
  have lf: "leaf (mem demo) (Q 0) v = PA2PTE (Q 3) OR PTE_R OR PTE_W OR PTE_U OR PTE_V" if "4090 \<le> unat v" "unat v < 4093" for v :: u64
    using demo_leaf(1) [OF in0(2) [OF that]] in0(1) [OF that] by (simp add: demo_def)
  have u: "(PA2PTE (Q 3) OR PTE_R OR PTE_W OR PTE_U OR PTE_V) AND PTE_U \<noteq> 0"
    unfolding flag_iffs by (simp add: bit_simps pte_defs)
  have q: "kpage demo (Q 3)" by (rule demo_kpage) simp
  have q0: "Q 3 \<noteq> 0" using Q_unat [of 3] by auto
  have "tabs (mem demo) (Q 0) = {Q 0, Q 1, Q 2}" using demo_tabs [of 0] by (simp add: demo_def numeral_2_eq_2)
  then have qt: "Q 3 \<notin> tabs (mem demo) (Q 0)" by (simp add: Q_eq)
  note q = q q0 qt
  have "user_range (Q 0) 4090 3 ?s"
    unfolding user_range_def using lf demo_entry u q demo_inv demo_pt_ok by (simp add: on_machine_ok)
  moreover have "same_page v w" if "4090 \<le> unat v" "unat v < 4093" "4090 \<le> unat w" "unat w < 4093" for v w :: u64
    using that by (simp add: same_page_unat)
  ultimately show ?thesis
    unfolding user_writable_def using lf demo_entry u q by simp
qed

text \<open>
  (C10) Bytes that the kernel copies out to a mapped, writable user range, however many pages it spans, are the bytes that
  the process then sees there, no other byte of memory changes, and copying the range in again returns them.
\<close>

theorem copyout_copyin:
  assumes "user_writable r va (length bs) s"
  shows "\<exists>t. copyout r va bs s = Ok 0 t \<and> copied_out r va bs s t \<and> copyin r va (length bs) t = Ok (0, bs) t"
proof -
  obtain t where t: "copyout r va bs s = Ok 0 t" "copied_out r va bs s t"
    using copyout_loop_mapped [OF assms copy_turns_bound] unfolding copyout_def by blast
  have "user_writable r va (length bs) t"
    using user_writable_cong [OF _ _ _ _ _ assms, of t] t(2) by (simp add: copied_out_def)
  then have "user_range r va (length bs) t" by (simp add: user_writable_def)
  from copyin_loop_mapped [OF this copy_turns_bound, of "[]"] t show ?thesis
    by (simp add: copyin_def copied_out_def)
qed

theorem copyout_copyin_witness:
  "\<exists>t. copyout (Q 0) 4090 [1, 2, 3] (on_machine demo) = Ok 0 t \<and> copyin (Q 0) 4090 3 t = Ok (0, [1, 2, 3]) t"
proof -
  have len: "3 = length [1, 2, 3 :: u8]" by simp
  from copyout_copyin [OF demo_writable [unfolded len]] show ?thesis unfolding len by blast
qed

section \<open>Addresses beyond the address space\<close>

text \<open>
  (C31) User addresses from \<open>MAXVA\<close> on. Copying out to such an address fails with -1; but copying in from it, reading a
  string there, and a page fault there reach \<^verbatim>\<open>walk\<close>, which panics: only \<^verbatim>\<open>copyout\<close> checks the address first.
\<close>

theorem copy_beyond_MAXVA:
  assumes "MAXVA \<le> PGROUNDDOWN va" "0 < n" "bs \<noteq> []"
  shows "copyout r va bs s = Ok (- 1) s \<and> copyin r va n s = Panic ''walk'' \<and> copyinstr r va n s = Panic ''walk'' \<and>
    vmfault r va rw s = Panic ''walk''"
proof -
  have w: "walk r (PGROUNDDOWN va) False s = Panic ''walk''" using assms(1) by (simp add: walk_def)
  have f: "vmfault r va rw s = Panic ''walk''" if "MAXVA \<le> PGROUNDDOWN va" for va rw
    using that by (simp add: vmfault_def walk_def Let_def)
  have "PGROUNDDOWN (PGROUNDDOWN va) = PGROUNDDOWN va" by (simp add: PGROUNDDOWN_id)
  then have "vmfault r (PGROUNDDOWN va) rw s = Panic ''walk''" for rw using f [of "PGROUNDDOWN va"] assms(1) by simp
  moreover have "walkaddr r (PGROUNDDOWN va) s = Ok 0 s" using assms(1) by (simp add: walkaddr_def)
  ultimately show ?thesis using assms f
    by (simp add: copyout_def copyin_def copyinstr_def numeral_3_eq_3 Let_def)
qed

theorem copy_beyond_MAXVA_witness:
  "copyout 0 MAXVA [7] zero_machine = Ok (- 1) zero_machine \<and> copyin 0 MAXVA 1 zero_machine = Panic ''walk''"
proof -
  have "MAXVA \<le> PGROUNDDOWN MAXVA" by (simp add: MAXVA_def PGROUNDDOWN_def PGSIZE_def)
  from copy_beyond_MAXVA [OF this, of 1 "[7]" 0 zero_machine True] show ?thesis by simp
qed

end
