(* ===== verification/Pipeprops.thy ===== *)
theory Pipeprops
  imports Usercopy Ring
begin

text \<open>
  A pipe is a bounded queue of bytes: writing appends the bytes of the writer's buffer, reading takes bytes from the front.
\<close>

interpretation pipe_ring: ring PIPESIZE
  by unfold_locales (simp_all add: PIPESIZE_def)

section \<open>The queue\<close>

definition pipe_bytes :: "pipe \<Rightarrow> u8 list" where
  "pipe_bytes q = ring_contents PIPESIZE (pdata q) (nread q) (nwrite q)"

definition pipe_ok :: "pipe \<Rightarrow> bool" where
  "pipe_ok q \<longleftrightarrow> unat (nwrite q - nread q) \<le> PIPESIZE"

lemma length_pipe_bytes: "length (pipe_bytes q) = unat (nwrite q - nread q)"
  by (simp add: pipe_bytes_def)

lemma pipe_full_iff: "pipe_ok q \<Longrightarrow> pipe_full q \<longleftrightarrow> length (pipe_bytes q) = PIPESIZE"
proof -
  assume "pipe_ok q"
  have "nwrite q = nread q + of_nat PIPESIZE \<longleftrightarrow> nwrite q - nread q = of_nat PIPESIZE"
    by (simp add: diff_eq_eq add.commute)
  also have "\<dots> \<longleftrightarrow> unat (nwrite q - nread q) = PIPESIZE"
    by (simp add: word_unat_eq_iff PIPESIZE_def)
  finally show ?thesis by (simp add: pipe_full_def length_pipe_bytes)
qed

lemma pipe_put_bytes:
  assumes "length (pipe_bytes q) < PIPESIZE"
  shows "pipe_bytes (pipe_put b q) = pipe_bytes q @ [b]" "pipe_ok (pipe_put b q)"
proof -
  have "unat (nwrite q - nread q) < PIPESIZE" using assms by (simp add: length_pipe_bytes)
  then show p: "pipe_bytes (pipe_put b q) = pipe_bytes q @ [b]"
    unfolding pipe_bytes_def pipe_put_def using pipe_ring.contents_put [of "nwrite q" "nread q" "pdata q" b]
    by (simp add: PIPESIZE_def)
  have "length (pipe_bytes (pipe_put b q)) \<le> PIPESIZE" unfolding p using assms by simp
  then show "pipe_ok (pipe_put b q)" by (simp add: pipe_ok_def length_pipe_bytes)
qed

lemma pipe_get_bytes:
  assumes "nread q \<noteq> nwrite q"
  shows "pipe_bytes q = pipe_get q # pipe_bytes (q\<lparr>nread := nread q + 1\<rparr>)"
  using pipe_ring.contents_get [OF assms, of "pdata q"] by (simp add: pipe_bytes_def pipe_get_def)

lemma pipe_empty_iff: "nread q = nwrite q \<longleftrightarrow> pipe_bytes q = []"
proof -
  have "pipe_bytes q = [] \<longleftrightarrow> unat (nwrite q - nread q) = 0" by (metis length_0_conv length_pipe_bytes)
  then show ?thesis by (auto simp: unat_eq_zero)
qed

lemma pipe_ok_get: "pipe_ok q \<Longrightarrow> nread q \<noteq> nwrite q \<Longrightarrow> pipe_ok (q\<lparr>nread := nread q + 1\<rparr>)"
proof -
  assume "pipe_ok q" "nread q \<noteq> nwrite q"
  then have "length (pipe_bytes (q\<lparr>nread := nread q + 1\<rparr>)) \<le> PIPESIZE"
    using pipe_get_bytes [of q] length_pipe_bytes [of q] by (simp add: pipe_ok_def)
  then show ?thesis by (simp add: pipe_ok_def length_pipe_bytes)
qed

definition pipe_puts :: "u8 list \<Rightarrow> pipe \<Rightarrow> pipe" where
  "pipe_puts bs q = foldl (\<lambda>q b. pipe_put b q) q bs"

lemma pipe_puts_bytes:
  "pipe_ok q \<Longrightarrow> length (pipe_bytes q) + length bs \<le> PIPESIZE \<Longrightarrow>
     pipe_bytes (pipe_puts bs q) = pipe_bytes q @ bs \<and> pipe_ok (pipe_puts bs q) \<and>
     readopen (pipe_puts bs q) = readopen q \<and> writeopen (pipe_puts bs q) = writeopen q"
proof (induction bs arbitrary: q)
  case (Cons b bs)
  then have "length (pipe_bytes q) < PIPESIZE" by simp
  note pb = pipe_put_bytes [OF this, of b]
  from Cons.IH [OF pb(2)] pb(1) Cons.prems show ?case by (simp add: pipe_puts_def pipe_put_def)
qed (simp add: pipe_puts_def)

section \<open>What the memory lemmas depend on\<close>

definition same_mem :: "'a kmem_scheme \<Rightarrow> 'a kmem_scheme \<Rightarrow> bool" where
  "same_mem s t \<longleftrightarrow> mem t = mem s \<and> freelist t = freelist s \<and> refcnt t = refcnt s \<and> kend t = kend s \<and>
     (KmemLock \<in> held t \<longleftrightarrow> KmemLock \<in> held s)"

lemma same_mem_iffs:
  assumes "same_mem s t"
  shows "user_range r va n t = user_range r va n s" "user_writable r va n t = user_writable r va n s"
proof -
  have k: "kpage t = kpage s" "refs t = refs s" "free_pages t = free_pages s"
    using assms by (simp_all add: same_mem_def kpage_def refs_def free_pages_def fun_eq_iff)
  have ki: "kmem_inv t = kmem_inv s" "pt_ok t r = pt_ok s r"
    using assms k by (simp_all add: same_mem_def kmem_inv_def kmem_ok_def pt_ok_def)
  have m: "mem t = mem s" using assms by (simp add: same_mem_def)
  show ur: "user_range r va n t = user_range r va n s" unfolding user_range_def ki m ..
  show "user_writable r va n t = user_writable r va n s" unfolding user_writable_def ur k m ..
qed

lemma user_range_byte:
  assumes "user_range r va n s" "i < n"
  shows "user_range r (va + of_nat i) 1 s"
proof -
  have "unat (va + of_nat i) = unat va + i"
    using assms by (simp add: user_range_def unat_word_ariths unat_of_nat mod_simps)
  then show ?thesis using assms unfolding user_range_def by auto
qed

lemma ubytes_Suc: "ubytes m r va (Suc n) = ubyte m r va # ubytes m r (va + 1) n"
proof -
  have "ubytes m r va 1 = [ubyte m r va]" by (simp add: ubytes_def)
  then show ?thesis using ubytes_split [of m r va 1 n] by simp
qed

lemma copyin_byte:
  assumes "user_range r va 1 s"
  shows "copyin r va 1 s = Ok (0, [ubyte (mem s) r va]) s"
  using copyin_loop_mapped [OF assms copy_turns_bound, of "[]"] by (simp add: copyin_def ubytes_def)

section \<open>Writing\<close>

lemma killed_eq: "ProcLock p \<notin> held s \<Longrightarrow> killed p s = Ok (pkilled (procs s p)) s"
  by (simp add: killed_def Let_def)

lemma pipewrite_loop_eq:
  assumes "ProcLock pr \<notin> held s" "pkilled (procs s pr) = 0" "user_range (ppagetable (procs s pr)) a n s"
  shows "i \<le> n \<Longrightarrow> n - i < k \<Longrightarrow> readopen q \<Longrightarrow> pipe_ok q \<Longrightarrow> length (pipe_bytes q) + (n - i) \<le> PIPESIZE \<Longrightarrow>
    pipewrite_loop k pr pi a (int i) (int n) (s\<lparr>pipes := (pipes s)(pi := q)\<rparr>) =
      Ok (Some (int n)) (s\<lparr>pipes := (pipes s)(pi := pipe_puts (ubytes (mem s) (ppagetable (procs s pr)) (a + of_nat i) (n - i)) q)\<rparr>)"
proof (induction k arbitrary: i q)
  case (Suc k)
  let ?r = "ppagetable (procs s pr)" and ?s = "s\<lparr>pipes := (pipes s)(pi := q)\<rparr>"
  show ?case
  proof (cases "i = n")
    case True
    then show ?thesis by (simp add: ubytes_def pipe_puts_def)
  next
    case False
    then have i: "i < n" using Suc.prems(1) by simp
    let ?b = "ubyte (mem s) ?r (a + of_nat i)"
    have "user_range ?r (a + of_nat i) 1 ?s"
      using same_mem_iffs(1) [of s ?s] user_range_byte [OF assms(3) i] by (simp add: same_mem_def)
    then have cp: "copyin ?r (a + of_nat i) 1 ?s = Ok (0, [?b]) ?s" using copyin_byte by fastforce
    have nf: "\<not> pipe_full q" "length (pipe_bytes q) < PIPESIZE" using pipe_full_iff [OF Suc.prems(4)] Suc.prems(5) i by auto
    have "pipewrite_loop k pr pi a (int (Suc i)) (int n) (s\<lparr>pipes := (pipes s)(pi := pipe_put ?b q)\<rparr>) =
      Ok (Some (int n)) (s\<lparr>pipes := (pipes s)(pi := pipe_puts (ubytes (mem s) ?r (a + of_nat (Suc i)) (n - Suc i)) (pipe_put ?b q))\<rparr>)"
      using Suc.prems i pipe_put_bytes [OF nf(2)] by (intro Suc.IH) (simp_all add: pipe_put_def)
    moreover have "pipewrite_loop (Suc k) pr pi a (int i) (int n) ?s =
        pipewrite_loop k pr pi a (int (Suc i)) (int n) (s\<lparr>pipes := (pipes s)(pi := pipe_put ?b q)\<rparr>)"
      using i Suc.prems(3) assms(1,2) nf(1) cp by (simp add: killed_eq add.commute)
    moreover have "ubytes (mem s) ?r (a + of_nat i) (n - i) = ?b # ubytes (mem s) ?r (a + of_nat (Suc i)) (n - Suc i)"
    proof -
      have "n - i = Suc (n - Suc i)" "a + of_nat i + 1 = a + of_nat (Suc i)" using i by simp_all
      then show ?thesis using ubytes_Suc [of "mem s" ?r "a + of_nat i" "n - Suc i"] by (simp only:)
    qed
    ultimately show ?thesis by (simp only: pipe_puts_def foldl_Cons)
  qed
qed simp

text \<open>A process with three mapped bytes at a pipe, for evaluation.\<close>

definition pipe_machine :: "pipe \<Rightarrow> ktrap" where
  "pipe_machine q = (on_machine demo)\<lparr>procs := (\<lambda>_. idle_proc\<lparr>ppagetable := Q 0\<rparr>), curproc := Some 0, pipes := (\<lambda>_. q)\<rparr>"

lemma pipe_machine_sel [simp]:
  "myproc (pipe_machine q) = Some 0" "no_plocks (pipe_machine q)" "held (pipe_machine q) = {}" "pipes (pipe_machine q) p = q"
  "procs (pipe_machine q) n = idle_proc\<lparr>ppagetable := Q 0\<rparr>" "patience (pipe_machine q) = 5"
  by (simp_all add: pipe_machine_def myproc_def no_plocks_def on_machine_def)

lemma pipe_machine_buffer: "user_writable (Q 0) 4090 3 (pipe_machine q)" "user_range (Q 0) 4090 3 (pipe_machine q)"
proof -
  have "same_mem (on_machine demo) (pipe_machine q)" by (simp add: same_mem_def pipe_machine_def)
  then show "user_writable (Q 0) 4090 3 (pipe_machine q)" using demo_writable by (simp add: same_mem_iffs)
  then show "user_range (Q 0) 4090 3 (pipe_machine q)" by (simp add: user_writable_def)
qed

text \<open>
  (C21) Writing to a pipe. A writer whose buffer is mapped and fits into the space left appends exactly the bytes of the buffer,
  returns their number, wakes the readers, and keeps no lock. If the pipe has no reader any more, or the
  writer has been killed, the call fails with -1 and the queue is unchanged.
\<close>

theorem pipewrite_appends:
  assumes "myproc s = Some pr" "no_plocks s" "PipeLock pi \<notin> held s" "pipe_ok (pipes s pi)" "0 < n"
    and "user_range (ppagetable (procs s pr)) a n s"
  shows "(readopen (pipes s pi) \<and> pkilled (procs s pr) = 0 \<and> length (pipe_bytes (pipes s pi)) + n \<le> PIPESIZE \<longrightarrow>
      (\<exists>t. pipewrite pi a (int n) s = Ok (int n) t \<and> held t = held s \<and> pipe_ok (pipes t pi) \<and>
         pipe_bytes (pipes t pi) = pipe_bytes (pipes s pi) @ ubytes (mem s) (ppagetable (procs s pr)) a n \<and>
         (\<forall>p<NPROC. p \<noteq> pr \<and> pstate (procs s p) = SLEEPING \<and> pchan (procs s p) = nread_chan pi \<longrightarrow>
            pstate (procs t p) = RUNNABLE))) \<and>
    (\<not> readopen (pipes s pi) \<or> pkilled (procs s pr) \<noteq> 0 \<longrightarrow> pipewrite pi a (int n) s = Ok (- 1) s)"
proof (intro conjI impI)
  let ?r = "ppagetable (procs s pr)" and ?q = "pipes s pi"
  let ?s = "s\<lparr>held := insert (PipeLock pi) (held s)\<rparr>"
  assume a: "readopen ?q \<and> pkilled (procs s pr) = 0 \<and> length (pipe_bytes ?q) + n \<le> PIPESIZE"
  let ?bs = "ubytes (mem s) ?r a n"
  let ?q' = "pipe_puts ?bs ?q"
  let ?u = "s\<lparr>held := insert (PipeLock pi) (held s), pipes := (pipes s)(pi := ?q')\<rparr>"
  have ur: "user_range (ppagetable (procs ?s pr)) a n ?s"
    using same_mem_iffs(1) [of s ?s] assms(6) by (simp add: same_mem_def)
  have "pipewrite_loop (Suc (n + patience s)) pr pi a (int 0) (int n) (?s\<lparr>pipes := (pipes ?s)(pi := ?q)\<rparr>) =
      Ok (Some (int n)) (?s\<lparr>pipes := (pipes ?s)(pi := pipe_puts (ubytes (mem ?s) (ppagetable (procs ?s pr)) (a + of_nat 0) (n - 0)) ?q)\<rparr>)"
    by (rule pipewrite_loop_eq [OF _ _ ur]) (use assms a in \<open>simp_all del: pipewrite_loop.simps\<close>)
  then have loop: "pipewrite_loop (Suc (n + patience s)) pr pi a 0 (int n) ?s = Ok (Some (int n)) ?u"
    by (simp del: pipewrite_loop.simps)
  have "no_plocks ?u" using assms(2) by (simp add: no_plocks_def)
  then have wk: "wakeup (nread_chan pi) ?u = Ok () (upd_procs (woken (nread_chan pi) (myproc ?u)) NPROC ?u)" by (rule wakeup_eq)
  let ?t = "(upd_procs (woken (nread_chan pi) (myproc ?u)) NPROC ?u)\<lparr>held := held s\<rparr>"
  have "pipewrite pi a (int n) s = Ok (int n) ?t"
    using assms(1,3) loop wk by (simp add: pipewrite_def deref_def del: pipewrite_loop.simps)
  moreover have "pipe_bytes ?q' = pipe_bytes ?q @ ?bs" "pipe_ok ?q'"
    using pipe_puts_bytes [OF assms(4), of ?bs] a by (simp_all add: ubytes_def)
  ultimately show "\<exists>t. pipewrite pi a (int n) s = Ok (int n) t \<and> held t = held s \<and> pipe_ok (pipes t pi) \<and>
         pipe_bytes (pipes t pi) = pipe_bytes ?q @ ?bs \<and>
         (\<forall>p<NPROC. p \<noteq> pr \<and> pstate (procs s p) = SLEEPING \<and> pchan (procs s p) = nread_chan pi \<longrightarrow>
            pstate (procs t p) = RUNNABLE)"
    using assms(1) by (intro exI [of _ ?t]) (simp add: woken_def myproc_def)
next
  assume "\<not> readopen (pipes s pi) \<or> pkilled (procs s pr) \<noteq> 0"
  then show "pipewrite pi a (int n) s = Ok (- 1) s"
    using assms(1-3,5) by (auto simp: pipewrite_def deref_def killed_eq)
qed

theorem pipewrite_appends_witness:
  "\<exists>t. pipewrite 0 4090 3 (pipe_machine (zero_pipe\<lparr>readopen := True\<rparr>)) = Ok 3 t \<and> length (pipe_bytes (pipes t 0)) = 3"
proof -
  let ?q = "zero_pipe\<lparr>readopen := True\<rparr>"
  have q: "pipe_ok ?q" "pipe_bytes ?q = []" by (simp_all add: pipe_ok_def pipe_empty_iff [symmetric] zero_pipe_def)
  have "\<exists>t. pipewrite 0 4090 (int 3) (pipe_machine ?q) = Ok (int 3) t \<and> pipe_bytes (pipes t 0) = ubytes (mem (pipe_machine ?q)) (Q 0) 4090 3"
    using pipewrite_appends [of "pipe_machine ?q" 0 0 3 4090] q pipe_machine_buffer(2) by (auto simp: idle_proc_def PIPESIZE_def)
  then show ?thesis by (auto simp: ubytes_def)
qed

section \<open>Reading\<close>

lemma kmem_pipes [simp]:
  "kmem_inv (s\<lparr>pipes := x\<rparr>) = kmem_inv s" "pt_ok (s\<lparr>pipes := x\<rparr>) r = pt_ok s r"
  "user_writable r va n (s\<lparr>pipes := x\<rparr>) = user_writable r va n s"
proof -
  have "same_mem s (s\<lparr>pipes := x\<rparr>)" by (simp add: same_mem_def)
  then show "user_writable r va n (s\<lparr>pipes := x\<rparr>) = user_writable r va n s" by (rule same_mem_iffs)
qed (simp_all add: kmem_inv_def kmem_ok_def pt_ok_def kpage_def refs_def free_pages_def)

lemma copied_out_pipes:
  assumes "copied_out r va bs (s\<lparr>pipes := x\<rparr>) u"
  shows "copied_out r va bs s (u\<lparr>pipes := pipes s\<rparr>)" "u = u\<lparr>pipes := x\<rparr>"
proof -
  have u: "u = s\<lparr>pipes := x\<rparr>\<lparr>mem := mem u\<rparr>" using assms by (simp add: copied_out_def)
  have "pipes u = x" by (subst u) simp
  then show "u = u\<lparr>pipes := x\<rparr>" by simp
  have "u\<lparr>pipes := pipes s\<rparr> = s\<lparr>mem := mem u\<rparr>" by (subst u) simp
  moreover have "kmem_inv (u\<lparr>pipes := pipes s\<rparr>)" "pt_ok (u\<lparr>pipes := pipes s\<rparr>) r"
    using assms by (simp_all add: copied_out_def)
  ultimately show "copied_out r va bs s (u\<lparr>pipes := pipes s\<rparr>)"
    using assms by (simp add: copied_out_def)
qed

lemma user_writable_within:
  assumes "user_writable r va n s" "unat va \<le> unat va'" "unat va' + m \<le> unat va + n"
  shows "user_writable r va' m s"
proof -
  have w: "unat va \<le> unat v \<and> unat v < unat va + n" if "unat va' \<le> unat v \<and> unat v < unat va' + m" for v :: u64
    using that assms(2,3) by linarith
  have "unat va' + m \<le> 2 ^ 38" using assms(1,3) by (simp add: user_writable_def user_range_def)
  then show ?thesis using assms(1) w unfolding user_writable_def user_range_def by presburger
qed

lemma copyout_byte:
  assumes "user_writable r va n s" "0 < n"
  shows "\<exists>t. copyout r va [b] s = Ok 0 t \<and> copied_out r va [b] s t"
proof -
  have "user_writable r va 1 s"
    using user_writable_within [OF assms(1), of va 1] assms(2) by simp
  then show ?thesis using copyout_loop_mapped [of r va "[b]" s "length [b] div 4096 + 3"] copy_turns_bound [of va 1]
    by (simp add: copyout_def)
qed

lemma copied_out_bytes:
  assumes w: "user_writable r va n s" and 1: "copied_out r va [b] s s1"
    and 2: "copied_out r (va + 1) bs s1 t" and "cs = b # bs" "length cs \<le> n"
  shows "copied_out r va cs s t"
proof (cases "bs = []")
  case True
  then have "mem t x = mem s1 x" for x using 2 by (auto simp: copied_out_def)
  then have "mem t = mem s1" by (rule ext)
  moreover have "t = s1\<lparr>mem := mem t\<rparr>" using 2 by (simp add: copied_out_def)
  ultimately have "t = s1" by simp
  then show ?thesis using 1 True assms(4) by simp
next
  case False
  have lim: "unat va + n \<le> 2 ^ 38" using w by (simp add: user_writable_def user_range_def)
  then have u: "unat (va + 1) = unat va + 1" using assms(4,5) by (simp add: unat_word_ariths)
  have w': "user_writable r va (length cs) s" by (rule user_writable_within [OF w]) (use assms(5) in linarith)+
  have cs: "1 < length cs" "take 1 cs = [b]" "drop 1 cs = bs" unfolding assms(4) using False by (cases bs; simp)+
  show ?thesis by (rule copied_out_append [OF w' cs(1) u]) (unfold cs, rule of_nat_1 [THEN arg_cong, symmetric], rule 1, rule 2)
qed

lemma nread_next: "nread_update (\<lambda>x. x + 1) q = q\<lparr>nread := nread q + 1\<rparr>"
  by (cases q) simp

lemma piperead_loop_eq:
  "user_writable (ppagetable (procs s pr)) va n s \<Longrightarrow> va = a + of_nat i \<Longrightarrow> n < k \<Longrightarrow> pipe_ok (pipes s pi) \<Longrightarrow>
     \<exists>u q. piperead_loop k pr pi a (int i) (int (i + n)) s =
         Ok (int (i + min n (length (pipe_bytes (pipes s pi))))) (u\<lparr>pipes := (pipes s)(pi := q)\<rparr>) \<and>
       copied_out (ppagetable (procs s pr)) va (take n (pipe_bytes (pipes s pi))) s u \<and>
       pipe_bytes q = drop n (pipe_bytes (pipes s pi)) \<and> pipe_ok q"
proof (induction k arbitrary: s va n i)
  case (Suc k)
  let ?r = "ppagetable (procs s pr)" and ?q = "pipes s pi"
  have ur: "kmem_inv s" "pt_ok s ?r" using Suc.prems(1) by (simp_all add: user_writable_def user_range_def)
  show ?case
  proof (cases "n = 0 \<or> nread ?q = nwrite ?q")
    case True
    then have "min n (length (pipe_bytes ?q)) = 0" "take n (pipe_bytes ?q) = []" "drop n (pipe_bytes ?q) = pipe_bytes ?q"
      by (auto simp: pipe_empty_iff)
    then show ?thesis using True ur Suc.prems(4)
      by (intro exI [of _ s] exI [of _ ?q]) (auto simp: copied_out_def ubytes_def)
  next
    case False
    then obtain n' where n: "n = Suc n'" and ne: "nread ?q \<noteq> nwrite ?q" by (cases n) auto
    let ?q1 = "?q\<lparr>nread := nread ?q + 1\<rparr>" and ?b = "pipe_get ?q"
    note pb = pipe_get_bytes [OF ne]
    obtain s1 where s1: "copyout ?r va [?b] s = Ok 0 s1" "copied_out ?r va [?b] s s1"
      using copyout_byte [OF Suc.prems(1)] n by blast
    have eq1: "s1 = s\<lparr>mem := mem s1\<rparr>" using s1(2) by (simp add: copied_out_def)
    have fr: "procs s1 = procs s" "pipes s1 = pipes s" by (subst eq1, simp)+
    let ?s2 = "s1\<lparr>pipes := (pipes s)(pi := ?q1)\<rparr>"
    have lim: "unat va + n \<le> 2 ^ 38" using Suc.prems(1) by (simp add: user_writable_def user_range_def)
    then have va1: "unat (va + 1) = unat va + 1" using n by (simp add: unat_word_ariths)
    have "user_writable ?r va n s1"
      by (rule user_writable_cong [OF _ _ _ _ _ Suc.prems(1)]) (use s1(2) in \<open>simp_all add: copied_out_def\<close>)
    then have "user_writable ?r (va + 1) n' s1"
      by (rule user_writable_within) (use va1 n in simp_all)
    then have w: "user_writable (ppagetable (procs ?s2 pr)) (va + 1) n' ?s2" using fr by simp
    have pq: "pipes ?s2 pi = ?q1" "procs ?s2 = procs s" using fr by simp_all
    have "va + 1 = a + of_nat (Suc i)" "n' < k" "pipe_ok (pipes ?s2 pi)"
      using Suc.prems(2,3) n pipe_ok_get [OF Suc.prems(4) ne] by simp_all
    from Suc.IH [OF w this, unfolded pq] obtain u2 q where ih: "piperead_loop k pr pi a (int (Suc i)) (int (Suc i + n')) ?s2 =
         Ok (int (Suc i + min n' (length (pipe_bytes ?q1)))) (u2\<lparr>pipes := (pipes ?s2)(pi := q)\<rparr>)"
      and c2: "copied_out ?r (va + 1) (take n' (pipe_bytes ?q1)) ?s2 u2"
      and q: "pipe_bytes q = drop n' (pipe_bytes ?q1)" "pipe_ok q"
      by (elim exE conjE) (rule that)
    let ?u = "u2\<lparr>pipes := pipes s1\<rparr>"
    have tk: "take n (pipe_bytes ?q) = ?b # take n' (pipe_bytes ?q1)" "drop n (pipe_bytes ?q) = drop n' (pipe_bytes ?q1)"
      and len: "int (i + min n (length (pipe_bytes ?q))) = int (Suc i + min n' (length (pipe_bytes ?q1)))"
      and ii: "int i + 1 = int (Suc i)" "int (i + n) = int (Suc i + n')" "int i < int (Suc i + n')"
      unfolding pb n by simp_all
    have "copied_out ?r (va + 1) (take n' (pipe_bytes ?q1)) s1 ?u" by (rule copied_out_pipes(1) [OF c2])
    then have cp: "copied_out ?r va (take n (pipe_bytes ?q)) s ?u"
      by (rule copied_out_bytes [OF Suc.prems(1) s1(2) _ tk(1)]) simp
    have va: "a + word_of_int (int i) = va" using Suc.prems(2) by simp
    have st: "u2\<lparr>pipes := (pipes ?s2)(pi := q)\<rparr> = ?u\<lparr>pipes := (pipes s)(pi := q)\<rparr>" by simp
    have "piperead_loop (Suc k) pr pi a (int i) (int (i + n)) s = piperead_loop k pr pi a (int (Suc i)) (int (Suc i + n')) ?s2"
      unfolding piperead_loop.simps va s1(1) ii bnd.simps using ne fr ii by (simp add: nread_next)
    also have "\<dots> = Ok (int (i + min n (length (pipe_bytes ?q)))) (?u\<lparr>pipes := (pipes s)(pi := q)\<rparr>)"
      unfolding len st [symmetric] by (rule ih)
    finally have res: "piperead_loop (Suc k) pr pi a (int i) (int (i + n)) s =
         Ok (int (i + min n (length (pipe_bytes ?q)))) (?u\<lparr>pipes := (pipes s)(pi := q)\<rparr>)" .
    show ?thesis by (rule exI [of _ ?u], rule exI [of _ q], intro conjI) (rule res, rule cp, unfold tk(2), rule q(1), rule q(2))
  qed
qed simp

text \<open>
  (C8) Reading from a pipe. A reader whose buffer is mapped and writable gets the oldest bytes of the queue, as many as there are
  and fit, and returns their number (0 at the end of a pipe that has no writer any more); the bytes leave the queue,
  the writers are woken and no lock is kept. On an empty pipe that still has a writer, a killed reader gets -1 and a live one sleeps on
  the queue.
\<close>

theorem piperead_takes:
  assumes "myproc s = Some pr" "no_plocks s" "PipeLock pi \<notin> held s" "pipe_ok (pipes s pi)" "0 < patience s"
    and "user_writable (ppagetable (procs s pr)) a n s"
  shows "(pipe_bytes (pipes s pi) \<noteq> [] \<or> \<not> writeopen (pipes s pi) \<longrightarrow>
      (\<exists>t. piperead pi a (int n) s = Ok (int (min n (length (pipe_bytes (pipes s pi))))) t \<and> held t = held s \<and>
         ubytes (mem t) (ppagetable (procs s pr)) a (min n (length (pipe_bytes (pipes s pi)))) = take n (pipe_bytes (pipes s pi)) \<and>
         pipe_bytes (pipes t pi) = drop n (pipe_bytes (pipes s pi)) \<and> pipe_ok (pipes t pi) \<and>
         (\<forall>p<NPROC. p \<noteq> pr \<and> pstate (procs s p) = SLEEPING \<and> pchan (procs s p) = nwrite_chan pi \<longrightarrow>
            pstate (procs t p) = RUNNABLE))) \<and>
    (pipe_bytes (pipes s pi) = [] \<and> writeopen (pipes s pi) \<longrightarrow>
       (if pkilled (procs s pr) \<noteq> 0 then piperead pi a (int n) s = Ok (- 1) s
        else held s = {} \<longrightarrow> (\<exists>u k. piperead pi a (int n) s = Sleep u k \<and> pstate (procs u pr) = SLEEPING \<and> pchan (procs u pr) = nread_chan pi)))"
proof (intro conjI impI)
  let ?r = "ppagetable (procs s pr)" and ?q = "pipes s pi"
  let ?s = "s\<lparr>held := insert (PipeLock pi) (held s)\<rparr>"
  let ?bs = "pipe_bytes ?q"
  assume a: "?bs \<noteq> [] \<or> \<not> writeopen ?q"
  have sm: "same_mem s ?s" by (simp add: same_mem_def)
  have uw: "user_writable (ppagetable (procs ?s pr)) a n ?s" using same_mem_iffs [OF sm] assms(6) by simp
  have ps: "pipes ?s = pipes s" "procs ?s = procs s" by simp_all
  have "pipe_ok (pipes ?s pi)" using assms(4) by simp
  from piperead_loop_eq [OF uw _ lessI this, of a 0, unfolded ps] obtain u q where
    l: "piperead_loop (Suc n) pr pi a (int 0) (int (0 + n)) ?s = Ok (int (0 + min n (length ?bs))) (u\<lparr>pipes := (pipes s)(pi := q)\<rparr>)"
    and c: "copied_out ?r a (take n ?bs) ?s u" and q: "pipe_bytes q = drop n ?bs" "pipe_ok q"
    by (auto simp del: piperead_loop.simps)
  have u: "u = ?s\<lparr>mem := mem u\<rparr>" using c by (simp add: copied_out_def)
  let ?u = "u\<lparr>pipes := (pipes s)(pi := q)\<rparr>"
  have fr: "held u = held ?s" "procs u = procs s" "curproc u = curproc s" by (subst u, simp)+
  have "no_plocks ?u" using assms(2) fr(1) by (simp add: no_plocks_def)
  then have wk: "wakeup (nwrite_chan pi) ?u = Ok () (upd_procs (woken (nwrite_chan pi) (myproc ?u)) NPROC ?u)" by (rule wakeup_eq)
  let ?t = "(upd_procs (woken (nwrite_chan pi) (myproc ?u)) NPROC ?u)\<lparr>held := held s\<rparr>"
  obtain k where k: "patience s = Suc k" using assms(5) by (cases "patience s") auto
  have rw: "piperead_wait (patience s) pr pi ?s = Ok True ?s" using a by (auto simp: k pipe_empty_iff)
  have "piperead pi a (int n) s = Ok (int (min n (length ?bs))) ?t"
    using assms(1,3) l wk rw fr by (simp add: piperead_def deref_def del: piperead_loop.simps)
  moreover have "ubytes (mem ?t) ?r a (min n (length ?bs)) = take n ?bs"
    using c by (simp add: copied_out_def min.commute)
  ultimately show "\<exists>t. piperead pi a (int n) s = Ok (int (min n (length ?bs))) t \<and> held t = held s \<and>
         ubytes (mem t) ?r a (min n (length ?bs)) = take n ?bs \<and> pipe_bytes (pipes t pi) = drop n ?bs \<and> pipe_ok (pipes t pi) \<and>
         (\<forall>p<NPROC. p \<noteq> pr \<and> pstate (procs s p) = SLEEPING \<and> pchan (procs s p) = nwrite_chan pi \<longrightarrow>
            pstate (procs t p) = RUNNABLE)"
    using assms(1) q fr by (intro exI [of _ ?t]) (simp add: woken_def myproc_def)
next
  obtain k where k: "patience s = Suc k" using assms(5) by (cases "patience s") auto
  assume e: "pipe_bytes (pipes s pi) = [] \<and> writeopen (pipes s pi)"
  have sl: "sleep (nread_chan pi) (PipeLock pi) (s\<lparr>held := {PipeLock pi}\<rparr>) =
      Sleep (s\<lparr>held := {ProcLock pr}, procs := (procs s)(pr := (procs s pr)\<lparr>pchan := nread_chan pi, pstate := SLEEPING\<rparr>)\<rparr>)
        (\<lambda>t. bnd (release (ProcLock pr) (upd_proc pr (pchan_update (\<lambda>_. ChNull)) t)) (\<lambda>_ s. acquire (PipeLock pi) s))"
    using assms(1) by (subst sleep_eq [of _ pr]) (simp_all add: myproc_def)
  show "if pkilled (procs s pr) \<noteq> 0 then piperead pi a (int n) s = Ok (- 1) s
        else held s = {} \<longrightarrow> (\<exists>u k. piperead pi a (int n) s = Sleep u k \<and> pstate (procs u pr) = SLEEPING \<and> pchan (procs u pr) = nread_chan pi)"
    using assms(1-3) e by (auto simp: piperead_def deref_def killed_eq k pipe_empty_iff sl)
qed

theorem piperead_takes_witness:
  "\<exists>t. piperead 0 4090 3 (pipe_machine (zero_pipe\<lparr>pdata := (\<lambda>i. of_nat i), nwrite := 2\<rparr>)) = Ok 2 t \<and>
     ubytes (mem t) (Q 0) 4090 2 = [0, 1] \<and> pipe_bytes (pipes t 0) = []"
proof -
  let ?q = "zero_pipe\<lparr>pdata := (\<lambda>i. of_nat i), nwrite := 2\<rparr>"
  have q: "pipe_ok ?q" "pipe_bytes ?q = [0, 1]"
    by (simp_all add: pipe_ok_def pipe_bytes_def ring_contents_def zero_pipe_def PIPESIZE_def upt_rec)
  have "\<exists>t. piperead 0 4090 (int 3) (pipe_machine ?q) = Ok (int 2) t \<and> ubytes (mem t) (Q 0) 4090 2 = [0, 1] \<and> pipe_bytes (pipes t 0) = []"
    using piperead_takes [of "pipe_machine ?q" 0 0 4090 3] q pipe_machine_buffer(1) by (auto simp: numeral_2_eq_2)
  then show ?thesis by simp
qed

end
