(* ===== verification/Diskprops.thy ===== *)
theory Diskprops
  imports Machine
begin

unbundle bit_operations_syntax

text \<open>
  The disk driver together with the device and the interrupt handler: a transfer puts its request into the
  queue and sleeps, the device serves the request, the interrupt wakes the sleeper, and the transfer returns with the
  block moved and the queue as before.
\<close>

section \<open>Running against the device\<close>

text \<open>
  What happens while a process waits for the disk and no other thread uses it: the scheduler gives up the lock of
  the process, the device serves the next request and raises its interrupt, and the process, which the
  handler has woken, is switched to again.
\<close>

definition disk_turn :: "('a kdisk_scheme \<Rightarrow> 'a kdisk_scheme) \<Rightarrow> 'a kdisk_scheme \<Rightarrow> ('a kdisk_scheme, unit) out" where
  "disk_turn dev s =
     (case curproc s of
        None \<Rightarrow> Diverge
      | Some p \<Rightarrow>
          bnd (release (ProcLock p) (s\<lparr>curproc := None\<rparr>)) (\<lambda>_ s.
          bnd (virtio_disk_intr (dev s)) (\<lambda>_ s.
          bnd (acquire (ProcLock p) s) (\<lambda>_ s.
          if pstate (procs s p) = RUNNABLE
          then Ok () ((upd_proc p (pstate_update (\<lambda>_. RUNNING)) s)\<lparr>curproc := Some p\<rparr>)
          else Diverge))))"

text \<open>A routine run to its end with a device, each sleep filled by a turn of the disk.\<close>

primrec drive_with :: "('a kdisk_scheme \<Rightarrow> 'a kdisk_scheme) \<Rightarrow> ('a kdisk_scheme, 'r) out \<Rightarrow> ('a kdisk_scheme, 'r) out" where
  "drive_with dev (Ok x s) = Ok x s"
| "drive_with dev (Panic m) = Panic m"
| "drive_with dev (Sleep s k) = bnd (disk_turn dev s) (\<lambda>_ t. drive_with dev (k t))"
| "drive_with dev Diverge = Diverge"

text \<open>
  The contents the disk may be left with if the machine stops at some point of the run: the disk changes only
  when the device serves a request.
\<close>

primrec crashes_with :: "('a kdisk_scheme \<Rightarrow> 'a kdisk_scheme) \<Rightarrow> ('a kdisk_scheme, 'r) out \<Rightarrow> (nat \<Rightarrow> u8) set" where
  "crashes_with dev (Ok x s) = {img s}"
| "crashes_with dev (Panic m) = {}"
| "crashes_with dev (Sleep s k) = insert (img s) (case disk_turn dev s of Ok _ t \<Rightarrow> crashes_with dev (k t) | _ \<Rightarrow> {})"
| "crashes_with dev Diverge = {}"

abbreviation drive :: "('a kdisk_scheme, 'r) out \<Rightarrow> ('a kdisk_scheme, 'r) out" where
  "drive \<equiv> drive_with dev_serve"

abbreviation crash_imgs :: "('a kdisk_scheme, 'r) out \<Rightarrow> (nat \<Rightarrow> u8) set" where
  "crash_imgs \<equiv> crashes_with dev_serve"

lemma drive_bnd: "drive_with dev (bnd r f) = bnd (drive_with dev r) (\<lambda>x s. drive_with dev (f x s))"
  by (induction r) (auto simp: bnd_assoc)

lemma crash_bnd:
  assumes "drive_with dev r = Ok x t"
  shows "crashes_with dev (bnd r f) \<subseteq> crashes_with dev r \<union> crashes_with dev (f x t)"
  using assms
proof (induction r)
  case (Sleep s k)
  from Sleep.prems obtain u where u: "disk_turn dev s = Ok () u" "drive_with dev (k u) = Ok x t" by (auto simp: bnd_Ok_iff)
  then show ?case using Sleep.IH [of "k u"] by auto
qed auto

section \<open>Effects on the process table\<close>

text \<open>Sleeping, waking and switching change the scheduling fields of processes only.\<close>

definition sched_eq :: "(nat \<Rightarrow> proc) \<Rightarrow> (nat \<Rightarrow> proc) \<Rightarrow> bool" where
  "sched_eq ps qs \<longleftrightarrow> (\<forall>p. qs p = (ps p)\<lparr>pstate := pstate (qs p), pchan := pchan (qs p), priority := priority (qs p),
     ticks_used := ticks_used (qs p)\<rparr>)"

lemma sched_eq_refl [simp]: "sched_eq ps ps"
  by (simp add: sched_eq_def)

lemma sched_eq_trans: "sched_eq ps qs \<Longrightarrow> sched_eq qs rs \<Longrightarrow> sched_eq ps rs"
  unfolding sched_eq_def
proof
  fix p assume a: "\<forall>p. qs p = (ps p)\<lparr>pstate := pstate (qs p), pchan := pchan (qs p), priority := priority (qs p), ticks_used := ticks_used (qs p)\<rparr>"
    and b: "\<forall>p. rs p = (qs p)\<lparr>pstate := pstate (rs p), pchan := pchan (rs p), priority := priority (rs p), ticks_used := ticks_used (rs p)\<rparr>"
  show "rs p = (ps p)\<lparr>pstate := pstate (rs p), pchan := pchan (rs p), priority := priority (rs p), ticks_used := ticks_used (rs p)\<rparr>"
    by (subst b [rule_format], subst a [rule_format]) simp
qed

lemma sched_eq_upd:
  assumes "sched_eq ps qs"
  shows "sched_eq ps (qs(p := (qs p)\<lparr>pstate := x\<rparr>))" "sched_eq ps (qs(p := (qs p)\<lparr>pchan := c\<rparr>))"
    "sched_eq ps (qs(p := (qs p)\<lparr>pchan := c, pstate := x\<rparr>))"
  by (rule sched_eq_trans [OF assms], simp add: sched_eq_def)+

lemma sched_eq_pid: "sched_eq ps qs \<Longrightarrow> pid (qs p) = pid (ps p)"
proof -
  assume "sched_eq ps qs"
  then have "qs p = (ps p)\<lparr>pstate := pstate (qs p), pchan := pchan (qs p), priority := priority (qs p), ticks_used := ticks_used (qs p)\<rparr>"
    by (simp add: sched_eq_def)
  then show ?thesis by (metis proc.select_convs(5) proc.surjective proc.update_convs(1,2,17,18))
qed

lemma wakeup_sched:
  assumes "no_plocks s"
  shows "\<exists>ps. wakeup ch s = Ok () (s\<lparr>procs := ps\<rparr>) \<and> sched_eq (procs s) ps \<and>
     (\<forall>p. myproc s = Some p \<longrightarrow> ps p = procs s p) \<and>
     (\<forall>p<NPROC. myproc s \<noteq> Some p \<longrightarrow> pstate (procs s p) = SLEEPING \<longrightarrow> pchan (procs s p) = ch \<longrightarrow> pstate (ps p) = RUNNABLE)"
  by (intro exI, intro conjI, rule wakeup_eq [OF assms]) (auto simp: sched_eq_def woken_def)

section \<open>One transfer\<close>

text \<open>The queue between transfers: all descriptors free, all requests served and collected.\<close>

definition vq_idle :: "'a kdisk_scheme \<Rightarrow> bool" where
  "vq_idle s \<longleftrightarrow> (\<forall>i<NUM. dfree s i) \<and> dev_idx s = avail_idx s \<and> used_idx s = used_widx s"

lemma get_descs_free:
  assumes "\<forall>i<NUM. dfree s i"
  shows "get_descs (Suc n) s = Ok [0, 1, 2] (s\<lparr>dfree := (dfree s)(0 := False, 1 := False, 2 := False)\<rparr>)"
proof -
  have "find f [0..<NUM] = Some i" if "i < 3" "f i" "\<forall>j<i. \<not> f j" for f i
    using that unfolding find_upt_Some by (simp add: NUM_def)
  then have "alloc_desc (s\<lparr>dfree := f\<rparr>) = (int i, s\<lparr>dfree := f(i := False)\<rparr>)" if "i < 3" "f i" "\<forall>j<i. \<not> f j" for f i
    using that by (simp add: alloc_desc_def)
  from this [of 0 "dfree s"] this [of 1 "(dfree s)(0 := False)"] this [of 2 "(dfree s)(0 := False, 1 := False)"] assms
  show ?thesis by (simp add: alloc3_desc_def numeral_3_eq_3 NUM_def less_Suc_eq)
qed

text \<open>The request that a transfer leaves in the queue.\<close>

definition queued :: "nat \<Rightarrow> bool \<Rightarrow> 'a kdisk_scheme \<Rightarrow> 'a kdisk_scheme" where
  "queued b w s = wr VIRTIO_MMIO_QUEUE_NOTIFY 0
     (format_descs b w 0 1 2 (ucast (bblockno (bufs s b) * (of_nat BSIZE div 512)))
        (s\<lparr>dfree := (dfree s)(0 := False, 1 := False, 2 := False)\<rparr>))"

text \<open>The end of a transfer, after the wait.\<close>

definition collect :: "'a kdisk_scheme \<Rightarrow> ('a kdisk_scheme, unit) out" where
  "collect s = bnd (free_chain 0 (s\<lparr>info_b := (info_b s)(0 := None)\<rparr>)) (\<lambda>_ s. release VdiskLock s)"

definition waiting :: "nat \<Rightarrow> nat \<Rightarrow> 'a kdisk_scheme \<Rightarrow> 'a kdisk_scheme" where
  "waiting p b s = s\<lparr>procs := (procs s)(p := (procs s p)\<lparr>pchan := ChBuf b, pstate := SLEEPING\<rparr>), held := {ProcLock p}\<rparr>"

lemma rw_sleeps:
  assumes "vq_idle s" "held s = {}" "myproc s = Some p" "patience s = Suc n"
  shows "virtio_disk_rw b w s = Sleep (waiting p b (queued b w (s\<lparr>held := {VdiskLock}\<rparr>)))
     (\<lambda>t. bnd (release (ProcLock p) (upd_proc p (pchan_update (\<lambda>_. ChNull)) t)) (\<lambda>_ s.
          bnd (acquire VdiskLock s) (\<lambda>_ s. bnd (wait_buf n b s) (\<lambda>_ s. collect s))))"
proof -
  let ?s = "s\<lparr>held := {VdiskLock}\<rparr>"
  have g: "get_descs (Suc n) ?s = Ok [0, 1, 2] (?s\<lparr>dfree := (dfree ?s)(0 := False, 1 := False, 2 := False)\<rparr>)"
    by (rule get_descs_free) (use assms(1) in \<open>simp add: vq_idle_def\<close>)
  have q: "myproc (queued b w ?s) = Some p" "held (queued b w ?s) = {VdiskLock}" "patience (queued b w ?s) = Suc n"
    "bdisk (bufs (queued b w ?s) b) = 1"
    using assms(3,4) by (simp_all add: queued_def format_descs_def wr_def Let_def myproc_def)
  have sl: "sleep (ChBuf b) VdiskLock (queued b w ?s) = Sleep (waiting p b (queued b w ?s))
      (\<lambda>t. bnd (release (ProcLock p) (upd_proc p (pchan_update (\<lambda>_. ChNull)) t)) (\<lambda>_ s. acquire VdiskLock s))"
    unfolding waiting_def by (rule sleep_eq) (use q in simp_all)
  have "virtio_disk_rw b w s = bnd (wait_buf (patience (queued b w ?s)) b (queued b w ?s)) (\<lambda>_ s. collect s)"
    using assms(2,4) g by (simp add: virtio_disk_rw_def Let_def queued_def collect_def del: get_descs.simps wait_buf.simps)
  then show ?thesis using q sl by (simp add: bnd_assoc)
qed

text \<open>What a transfer moves.\<close>

definition sector_of :: "nat \<Rightarrow> 'a kdisk_scheme \<Rightarrow> nat" where
  "sector_of b s = unat (ucast (bblockno (bufs s b) * (of_nat BSIZE div 512)) :: u64)"

definition moved_img :: "nat \<Rightarrow> bool \<Rightarrow> 'a kdisk_scheme \<Rightarrow> nat \<Rightarrow> u8" where
  "moved_img b w s = (if w then put_blk (img s) (sector_of b s) (bdata (bufs s b)) else img s)"

definition moved_bufs :: "nat \<Rightarrow> bool \<Rightarrow> 'a kdisk_scheme \<Rightarrow> nat \<Rightarrow> buf" where
  "moved_bufs b w s = (bufs s)(b := (bufs s b)\<lparr>bdisk := 0,
     bdata := (\<lambda>i. if \<not> w \<and> i < BSIZE then blk (img s) (sector_of b s) i else bdata (bufs s b) i)\<rparr>)"

text \<open>
  A transfer changes the buffer, the disk, the queue, and the scheduling fields of processes: two states agree on the
  rest if they are equal once these fields are blanked.
\<close>

definition blank :: "'a kdisk_scheme \<Rightarrow> 'a kdisk_scheme" where
  "blank s = s\<lparr>procs := (\<lambda>_. undefined), bufs := (\<lambda>_. undefined), desc := (\<lambda>_. no_desc), avail_idx := 0, avail_ring := (\<lambda>_. 0),
     used_widx := 0, used_ring := (\<lambda>_. 0), dfree := (\<lambda>_. False), used_idx := 0, info_b := (\<lambda>_. None),
     info_status := (\<lambda>_. 0), ops := (\<lambda>_. undefined), vwrites := [], dev_idx := 0, img := (\<lambda>_. 0)\<rparr>"

lemma blank_upd [simp]:
  "blank (s\<lparr>procs := a1\<rparr>) = blank s" "blank (s\<lparr>bufs := a2\<rparr>) = blank s" "blank (s\<lparr>desc := a3\<rparr>) = blank s"
  "blank (s\<lparr>avail_idx := a4\<rparr>) = blank s" "blank (s\<lparr>avail_ring := a5\<rparr>) = blank s" "blank (s\<lparr>used_widx := a6\<rparr>) = blank s"
  "blank (s\<lparr>used_ring := a7\<rparr>) = blank s" "blank (s\<lparr>dfree := a8\<rparr>) = blank s" "blank (s\<lparr>used_idx := a9\<rparr>) = blank s"
  "blank (s\<lparr>info_b := b1\<rparr>) = blank s" "blank (s\<lparr>info_status := b2\<rparr>) = blank s" "blank (s\<lparr>ops := b3\<rparr>) = blank s"
  "blank (s\<lparr>vwrites := b4\<rparr>) = blank s" "blank (s\<lparr>dev_idx := b5\<rparr>) = blank s" "blank (s\<lparr>img := b6\<rparr>) = blank s"
  "blank (s\<lparr>held := h\<rparr>) = (blank s)\<lparr>held := h\<rparr>" "blank (s\<lparr>curproc := c\<rparr>) = (blank s)\<lparr>curproc := c\<rparr>"
  by (simp_all add: blank_def)

lemma blank_sel:
  "held (blank s) = held s" "curproc (blank s) = curproc s" "patience (blank s) = patience s" "slocks (blank s) = slocks s"
  "kdisk.more (blank s) = kdisk.more s"
  by (simp_all add: blank_def)

definition queue_frame :: "'a kdisk_scheme \<Rightarrow> 'a kdisk_scheme \<Rightarrow> bool" where
  "queue_frame s t \<longleftrightarrow> sched_eq (procs s) (procs t) \<and> blank t = blank s"

lemma desc_flags:
  "has_next \<lparr>daddr = a, dlen = n, dflags = VRING_DESC_F_NEXT, dnext = x\<rparr>" "\<not> dev_writes \<lparr>daddr = a, dlen = n, dflags = VRING_DESC_F_NEXT, dnext = x\<rparr>"
  "\<not> has_next \<lparr>daddr = a, dlen = n, dflags = VRING_DESC_F_WRITE, dnext = x\<rparr>" "dev_writes \<lparr>daddr = a, dlen = n, dflags = VRING_DESC_F_WRITE, dnext = x\<rparr>"
  "has_next \<lparr>daddr = a, dlen = n, dflags = (if w then 0 else VRING_DESC_F_WRITE) OR VRING_DESC_F_NEXT, dnext = x\<rparr>"
  "dev_writes \<lparr>daddr = a, dlen = n, dflags = (if w then 0 else VRING_DESC_F_WRITE) OR VRING_DESC_F_NEXT, dnext = x\<rparr> \<longleftrightarrow> \<not> w"
  by (cases w; simp add: has_next_def dev_writes_def VRING_DESC_F_NEXT_def VRING_DESC_F_WRITE_def)+

lemma queued_fields:
  "avail_ring (queued b w s) (unat (avail_idx s) mod NUM) = 0" "avail_idx (queued b w s) = avail_idx s + 1"
  "desc (queued b w s) 0 = \<lparr>daddr = DOps 0, dlen = 16, dflags = VRING_DESC_F_NEXT, dnext = 1\<rparr>"
  "desc (queued b w s) 1 = \<lparr>daddr = DData b, dlen = of_nat BSIZE, dflags = (if w then 0 else VRING_DESC_F_WRITE) OR VRING_DESC_F_NEXT, dnext = 2\<rparr>"
  "desc (queued b w s) 2 = \<lparr>daddr = DStatus 0, dlen = 1, dflags = VRING_DESC_F_WRITE, dnext = 0\<rparr>"
  "rtype (ops (queued b w s) 0) = (if w then VIRTIO_BLK_T_OUT else VIRTIO_BLK_T_IN)" "unat (rsector (ops (queued b w s) 0)) = sector_of b s"
  "bufs (queued b w s) = (bufs s)(b := (bufs s b)\<lparr>bdisk := 1\<rparr>)" "img (queued b w s) = img s"
  "used_ring (queued b w s) = used_ring s" "used_widx (queued b w s) = used_widx s" "dev_idx (queued b w s) = dev_idx s"
  "curproc (queued b w s) = curproc s" "held (queued b w s) = held s" "info_b (queued b w s) 0 = Some b"
  "used_idx (queued b w s) = used_idx s" "procs (queued b w s) = procs s" "patience (queued b w s) = patience s"
  "dfree (queued b w s) = (dfree s)(0 := False, 1 := False, 2 := False)"
  by (simp_all add: queued_def format_descs_def wr_def Let_def sector_of_def)

lemma held_same: "held s = h \<Longrightarrow> s\<lparr>held := h\<rparr> = s"
  by simp

lemma curproc_same: "curproc s = c \<Longrightarrow> s\<lparr>held := h, curproc := c\<rparr> = s\<lparr>held := h\<rparr>"
proof -
  assume "curproc s = c"
  moreover have "s\<lparr>held := h, curproc := curproc s\<rparr> = s\<lparr>held := h\<rparr>" by simp
  ultimately show ?thesis by simp
qed

lemma queued_frame: "queue_frame s (queued b w s)"
  by (simp add: queue_frame_def queued_def format_descs_def wr_def Let_def)

lemma queued_request:
  assumes "vq_idle s"
  shows "dev_request (queued b w s) = Some \<lparr>q_buf = b, q_write = w, q_sector = sector_of b s, q_len = BSIZE, q_status = 0\<rparr>"
    "dev_head (queued b w s) = 0"
proof -
  show h: "dev_head (queued b w s) = 0" using assms by (simp add: dev_head_def queued_fields vq_idle_def)
  show "dev_request (queued b w s) = Some \<lparr>q_buf = b, q_write = w, q_sector = sector_of b s, q_len = BSIZE, q_status = 0\<rparr>"
    by (simp add: dev_request_def h queued_fields desc_flags VIRTIO_BLK_T_OUT_def VIRTIO_BLK_T_IN_def BSIZE_def del: One_nat_def)
qed

lemma dev_request_upd: "dev_request (s\<lparr>procs := a, curproc := c, held := h\<rparr>) = dev_request s"
  by (simp add: dev_request_def dev_head_def Let_def cong: dmaaddr.case_cong)

lemma served:
  fixes s :: "'a kdisk_scheme" and p b :: nat and w :: bool
  assumes "virtio_device dev" "vq_idle s" "u = (queued b w s)\<lparr>procs := ps, curproc := None, held := {}\<rparr>"
  shows "dev u = u\<lparr>img := moved_img b w s, bufs := (moved_bufs b w s)(b := (moved_bufs b w s b)\<lparr>bdisk := 1\<rparr>),
     info_status := (info_status u)(0 := 0), used_ring := (used_ring s)(unat (used_widx s) mod NUM := 0),
     used_widx := used_widx s + 1, dev_idx := dev_idx s + 1\<rparr>"
proof -
  let ?r = "\<lparr>q_buf = b, q_write = w, q_sector = sector_of b s, q_len = BSIZE, q_status = 0\<rparr>"
  have "dev_request u = Some ?r" "dev_head u = 0" "dev_idx u \<noteq> avail_idx u"
    using queued_request [OF assms(2), of b w] assms(2)
    by (simp_all add: assms(3) dev_request_upd dev_head_def queued_fields vq_idle_def)
  then have d: "dev u = dev_done ?r u" using assms(1) by (simp add: virtio_device_def)
  show ?thesis unfolding d
    by (cases w; cases "bufs s b")
      (use \<open>dev_head u = 0\<close> in \<open>simp_all add: assms(3) dev_done_def dev_reply_def dev_move_def dev_head_def queued_fields moved_bufs_def moved_img_def put_blk_def blk_def
        Let_def fun_eq_iff cong: if_cong\<close>)
qed

lemma intr_one:
  assumes "held d = {}" "used_widx d = used_idx d + 1" "used_ring d (unat (used_idx d) mod NUM) = 0"
    and "info_status d 0 = 0" "info_b d 0 = Some b" "curproc d = None"
  shows "\<exists>ps vw. virtio_disk_intr d = Ok () (d\<lparr>bufs := (bufs d)(b := (bufs d b)\<lparr>bdisk := 0\<rparr>), procs := ps,
       used_idx := used_idx d + 1, vwrites := vw\<rparr>) \<and> sched_eq (procs d) ps \<and>
     (\<forall>p<NPROC. pstate (procs d p) = SLEEPING \<longrightarrow> pchan (procs d p) = ChBuf b \<longrightarrow> pstate (ps p) = RUNNABLE)"
proof -
  let ?vw = "vwrites d @ [(VIRTIO_MMIO_INTERRUPT_ACK, rd VIRTIO_MMIO_INTERRUPT_STATUS (d\<lparr>held := {VdiskLock}\<rparr>) AND 0x3)]"
  let ?e = "d\<lparr>held := {VdiskLock}, vwrites := ?vw, bufs := (bufs d)(b := (bufs d b)\<lparr>bdisk := 0\<rparr>)\<rparr>"
  have "no_plocks ?e" by (simp add: no_plocks_def)
  from wakeup_sched [OF this, of "ChBuf b"] obtain ps where
    w: "wakeup (ChBuf b) ?e = Ok () (?e\<lparr>procs := ps\<rparr>)" and ps: "sched_eq (procs d) ps"
    "\<forall>p<NPROC. pstate (procs d p) = SLEEPING \<longrightarrow> pchan (procs d p) = ChBuf b \<longrightarrow> pstate (ps p) = RUNNABLE"
    using assms(6) by (auto simp: myproc_def)
  have "virtio_disk_intr d = Ok () (d\<lparr>bufs := (bufs d)(b := (bufs d b)\<lparr>bdisk := 0\<rparr>), procs := ps,
       used_idx := used_idx d + 1, vwrites := ?vw\<rparr>)"
    using assms(1-5) w by (simp add: virtio_disk_intr_def Let_def wr_def deref_def)
  then show ?thesis using ps by (intro exI conjI)
qed

lemma turn:
  assumes "vq_idle s" "myproc s = Some p" "p < NPROC" "virtio_device dev"
  shows "\<exists>t. disk_turn dev (waiting p b (queued b w s)) = Ok () t \<and> held t = {ProcLock p} \<and> bufs t = moved_bufs b w s \<and> img t = moved_img b w s \<and>
     used_idx t = used_widx t \<and> dev_idx t = avail_idx t \<and> desc t = desc (queued b w s) \<and> dfree t = dfree (queued b w s) \<and>
     queue_frame (s\<lparr>held := {ProcLock p}\<rparr>) t"
proof -
  let ?q = "queued b w s"
  let ?u = "?q\<lparr>procs := (procs s)(p := (procs s p)\<lparr>pchan := ChBuf b, pstate := SLEEPING\<rparr>), curproc := None, held := {}\<rparr>"
  let ?d = "?u\<lparr>img := moved_img b w s, bufs := (moved_bufs b w s)(b := (moved_bufs b w s b)\<lparr>bdisk := 1\<rparr>),
     info_status := (info_status ?q)(0 := 0), used_ring := (used_ring s)(unat (used_widx s) mod NUM := 0),
     used_widx := used_widx s + 1, dev_idx := dev_idx s + 1\<rparr>"
  have qf: "curproc ?q = Some p" "info_b ?q 0 = Some b" "used_idx ?q = used_idx s" "procs ?q = procs s" "avail_idx ?q = avail_idx s + 1"
    using assms(2) by (simp_all add: queued_fields myproc_def)
  have sv: "dev ?u = ?d" using served [OF assms(4,1) refl, where b = b and w = w] by simp
  have "\<exists>ps vw. virtio_disk_intr ?d = Ok () (?d\<lparr>bufs := (bufs ?d)(b := (bufs ?d b)\<lparr>bdisk := 0\<rparr>), procs := ps,
       used_idx := used_idx ?d + 1, vwrites := vw\<rparr>) \<and> sched_eq (procs ?d) ps \<and>
     (\<forall>p<NPROC. pstate (procs ?d p) = SLEEPING \<longrightarrow> pchan (procs ?d p) = ChBuf b \<longrightarrow> pstate (ps p) = RUNNABLE)"
    by (rule intr_one) (use assms(1) qf in \<open>simp_all add: vq_idle_def\<close>)
  then obtain ps vw where it: "virtio_disk_intr ?d = Ok () (?d\<lparr>bufs := (bufs ?d)(b := (bufs ?d b)\<lparr>bdisk := 0\<rparr>), procs := ps,
       used_idx := used_idx ?d + 1, vwrites := vw\<rparr>)" and ps: "sched_eq (procs ?d) ps" "pstate (ps p) = RUNNABLE"
    using assms(3) by auto
  let ?t = "?d\<lparr>bufs := moved_bufs b w s, procs := ps(p := (ps p)\<lparr>pstate := RUNNING\<rparr>),
     used_idx := used_idx s + 1, vwrites := vw, held := {ProcLock p}, curproc := Some p\<rparr>"
  have mb: "(moved_bufs b w s)(b := (moved_bufs b w s b)\<lparr>bdisk := 0\<rparr>) = moved_bufs b w s" by (cases "bufs s b") (simp add: moved_bufs_def)
  have "disk_turn dev (waiting p b ?q) = Ok () ?t"
    using qf it ps(2) by (simp add: disk_turn_def waiting_def sv mb)
  moreover have sq: "sched_eq (procs s) (ps(p := (ps p)\<lparr>pstate := RUNNING\<rparr>))"
    by (rule sched_eq_upd(1), rule sched_eq_trans [OF _ ps(1)]) (simp add: sched_eq_upd)
  have cp: "(blank s)\<lparr>held := {ProcLock p}, curproc := Some p\<rparr> = (blank s)\<lparr>held := {ProcLock p}\<rparr>"
    using curproc_same [of "blank s" "Some p" "{ProcLock p}"] assms(2) by (simp add: blank_sel myproc_def)
  have "queue_frame (s\<lparr>held := {ProcLock p}\<rparr>) ?t"
    using queued_frame [of s b w] sq cp by (simp add: queue_frame_def)
  ultimately show ?thesis using assms(1) qf by (intro exI [of _ ?t]) (simp add: vq_idle_def)
qed

lemma free_desc_sched:
  assumes "no_plocks s" "i < NUM" "\<not> dfree s i"
  shows "\<exists>ps. free_desc (int i) s = Ok () (s\<lparr>desc := (desc s)(i := no_desc), dfree := (dfree s)(i := True), procs := ps\<rparr>) \<and>
    sched_eq (procs s) ps"
  using wakeup_sched [of "s\<lparr>desc := (desc s)(i := no_desc), dfree := (dfree s)(i := True)\<rparr>" ChDisk] assms
  by (auto simp: free_desc_def no_plocks_def)

lemma collect_chain:
  assumes "held s = {VdiskLock}" "\<forall>i<3. \<not> dfree s i"
    and "dflags (desc s 0) AND VRING_DESC_F_NEXT \<noteq> 0" "dnext (desc s 0) = 1"
    and "dflags (desc s 1) AND VRING_DESC_F_NEXT \<noteq> 0" "dnext (desc s 1) = 2"
    and "dflags (desc s 2) AND VRING_DESC_F_NEXT = 0"
  shows "\<exists>ps ds ib. collect s = Ok () (s\<lparr>held := {}, desc := ds, dfree := (dfree s)(0 := True, 1 := True, 2 := True), procs := ps, info_b := ib\<rparr>) \<and>
    sched_eq (procs s) ps"
proof -
  let ?s = "s\<lparr>info_b := (info_b s)(0 := None)\<rparr>"
  have np: "no_plocks (t :: 'a kdisk_scheme)" if "held t = {VdiskLock}" for t using that by (simp add: no_plocks_def)
  have n: "(0 :: nat) < NUM" "1 < NUM" "2 < NUM" by (simp_all add: NUM_def)
  obtain m where k: "NUM = Suc (Suc m)" using n(2) less_iff_Suc_add by auto
  obtain p0 where f0: "free_desc 0 ?s = Ok () (?s\<lparr>desc := (desc s)(0 := no_desc), dfree := (dfree s)(0 := True), procs := p0\<rparr>)"
    and e0: "sched_eq (procs s) p0"
    using free_desc_sched [of ?s 0] np [of ?s] n assms(1,2) by auto
  let ?s1 = "?s\<lparr>desc := (desc s)(0 := no_desc), dfree := (dfree s)(0 := True), procs := p0\<rparr>"
  obtain p1 where f1: "free_desc 1 ?s1 = Ok () (?s1\<lparr>desc := (desc s)(0 := no_desc, 1 := no_desc), dfree := (dfree s)(0 := True, 1 := True), procs := p1\<rparr>)"
    and e1: "sched_eq p0 p1"
    using free_desc_sched [of ?s1 1] np [of ?s1] n assms(1,2) by auto
  let ?s2 = "?s1\<lparr>desc := (desc s)(0 := no_desc, 1 := no_desc), dfree := (dfree s)(0 := True, 1 := True), procs := p1\<rparr>"
  obtain p2 where f2: "free_desc 2 ?s2 = Ok () (?s2\<lparr>desc := (desc s)(0 := no_desc, 1 := no_desc, 2 := no_desc), dfree := (dfree s)(0 := True, 1 := True, 2 := True), procs := p2\<rparr>)"
    and e2: "sched_eq p1 p2"
    using free_desc_sched [of ?s2 2] np [of ?s2] n assms(1,2) by auto
  have "collect s = Ok () (s\<lparr>held := {}, desc := (desc s)(0 := no_desc, 1 := no_desc, 2 := no_desc), dfree := (dfree s)(0 := True, 1 := True, 2 := True), procs := p2, info_b := (info_b s)(0 := None)\<rparr>)"
    using assms f0 f1 f2 by (simp add: collect_def free_chain_def k Let_def)
  then show ?thesis using sched_eq_trans [OF sched_eq_trans [OF e0 e1] e2] by (intro exI conjI)
qed

lemma rw_done:
  assumes "vq_idle s" "held s = {}" "myproc s = Some p" "p < NPROC" "2 \<le> patience s" "virtio_device dev"
  shows "\<exists>t. drive_with dev (virtio_disk_rw b w s) = Ok () t \<and> crashes_with dev (virtio_disk_rw b w s) = {img s, img t} \<and> img t = moved_img b w s \<and>
    bufs t = moved_bufs b w s \<and> vq_idle t \<and> queue_frame s t"
proof -
  let ?s = "s\<lparr>held := {VdiskLock}\<rparr>"
  obtain n where n: "patience s = Suc (Suc n)" using assms(5) by (metis Suc_le_D numeral_2_eq_2 Suc_le_mono)
  have q: "vq_idle ?s" "myproc ?s = Some p" using assms(1,3) by (simp_all add: vq_idle_def myproc_def)
  from turn [OF q assms(4,6), of b w] obtain t where
    t: "disk_turn dev (waiting p b (queued b w ?s)) = Ok () t" "held t = {ProcLock p}" "bufs t = moved_bufs b w ?s" "img t = moved_img b w ?s"
      "used_idx t = used_widx t" "dev_idx t = avail_idx t" "desc t = desc (queued b w ?s)" "dfree t = dfree (queued b w ?s)"
      "queue_frame (?s\<lparr>held := {ProcLock p}\<rparr>) t" by (elim exE conjE) (rule that)
  let ?t = "(upd_proc p (pchan_update (\<lambda>_. ChNull)) t)\<lparr>held := {VdiskLock}\<rparr>"
  have "\<exists>ps ds ib. collect ?t = Ok () (?t\<lparr>held := {}, desc := ds, dfree := (dfree ?t)(0 := True, 1 := True, 2 := True), procs := ps, info_b := ib\<rparr>) \<and>
    sched_eq (procs ?t) ps"
    by (rule collect_chain) (simp_all add: t queued_def format_descs_def wr_def Let_def VRING_DESC_F_NEXT_def VRING_DESC_F_WRITE_def
      less_Suc_eq numeral_3_eq_3)
  then obtain ps ds ib where c: "collect ?t = Ok () (?t\<lparr>held := {}, desc := ds, dfree := (dfree ?t)(0 := True, 1 := True, 2 := True), procs := ps, info_b := ib\<rparr>)"
    and ps: "sched_eq (procs ?t) ps" by (elim exE conjE) (rule that)
  let ?u = "?t\<lparr>held := {}, desc := ds, dfree := (dfree ?t)(0 := True, 1 := True, 2 := True), procs := ps, info_b := ib\<rparr>"
  have bd: "bdisk (bufs t b) = 0" by (simp add: t moved_bufs_def)
  have "drive_with dev (virtio_disk_rw b w s) = Ok () ?u"
    using t(1,2) c bd by (simp add: rw_sleeps [OF assms(1-3) n] drive_bnd)
  moreover have "crashes_with dev (virtio_disk_rw b w s) = {img s, img ?u}"
    using t(1,2) c bd by (simp add: rw_sleeps [OF assms(1-3) n] waiting_def [symmetric]) (simp add: waiting_def queued_fields)
  moreover have "moved_img b w ?s = moved_img b w s" "moved_bufs b w ?s = moved_bufs b w s"
    by (simp_all add: moved_img_def moved_bufs_def sector_of_def cong: if_cong)
  moreover have "vq_idle ?u" using t assms(1) by (simp add: vq_idle_def queued_def format_descs_def wr_def Let_def)
  moreover have "queue_frame s ?u"
  proof -
    have "sched_eq (procs s) (procs t)" "blank t = (blank s)\<lparr>held := {ProcLock p}\<rparr>" using t(9) by (simp_all add: queue_frame_def)
    moreover have "(blank s)\<lparr>held := {}\<rparr> = blank s" using held_same [of "blank s" "{}"] assms(2) by (simp add: blank_sel)
    moreover have "sched_eq (procs t) (procs ?t)" by (simp add: sched_eq_upd)
    ultimately show ?thesis using sched_eq_trans [OF _ ps, of "procs s"] sched_eq_trans [of "procs s" "procs t" "procs ?t"]
      by (simp add: queue_frame_def)
  qed
  ultimately show ?thesis using t by (intro exI [of _ ?u]) simp
qed

text \<open>A machine with one process and a disk whose byte at address \<open>a\<close> is \<open>a\<close> modulo 256.\<close>

definition disk_machine :: ktrap where
  "disk_machine = zero_machine\<lparr>curproc := Some 0, dfree := (\<lambda>i. i < NUM), img := of_nat\<rparr>"

lemma disk_machine_ok: "vq_idle disk_machine" "held disk_machine = {}" "myproc disk_machine = Some 0" "2 \<le> patience disk_machine"
  "img disk_machine = of_nat"
  by (simp_all add: disk_machine_def vq_idle_def myproc_def zero_machine_def)

text \<open>
  (C19) A disk transfer. With any device that keeps the contract of a virtio block device, the driver queues the request and sleeps holding no lock but its own; once the device has served the
  request and its interrupt has woken the process, the call returns with the buffer's block on the disk (a
  write) or the disk's block in the buffer (a read), nothing else on the disk or in the cache changed, all
  descriptors free again and the rings empty.
\<close>

theorem virtio_transfer:
  assumes "vq_idle s" "held s = {}" "myproc s = Some p" "p < NPROC" "2 \<le> patience s" "virtio_device dev"
  shows "\<exists>t. drive_with dev (virtio_disk_rw b w s) = Ok () t \<and> img t = moved_img b w s \<and> bufs t = moved_bufs b w s \<and> vq_idle t \<and> queue_frame s t"
  using rw_done [OF assms] by blast

theorem virtio_transfer_witness:
  "\<exists>t. drive (virtio_disk_rw 3 False (upd_buf 3 (bblockno_update (\<lambda>_. 2)) disk_machine)) = Ok () t \<and>
     bdata (bufs t 3) 7 = 7 \<and> img t = img disk_machine"
proof -
  let ?s = "upd_buf 3 (bblockno_update (\<lambda>_. 2)) disk_machine"
  have s: "vq_idle ?s" "held ?s = {}" "myproc ?s = Some 0" "2 \<le> patience ?s"
    using disk_machine_ok by (simp_all add: vq_idle_def myproc_def)
  have "sector_of 3 ?s = 4" by (simp add: sector_of_def BSIZE_def)
  then have "bdata (moved_bufs 3 False ?s 3) 7 = 7" by (simp add: moved_bufs_def blk_def BSIZE_def disk_machine_ok)
  moreover have "moved_img 3 False ?s = img disk_machine" by (simp add: moved_img_def)
  ultimately show ?thesis using virtio_transfer [OF s(1-3) _ s(4) dev_serve_contract, of 3 False] by (auto simp: NPROC_def)
qed

end
