(* ===== verification/Bcache.thy ===== *)
theory Bcache
  imports Diskprops Printprops Bio
begin

text \<open>
  The buffer cache: its list is a doubly linked ring of all buffers in the order of their last release, and on top of the
  disk driver it is a store of blocks, in which a buffer shows the block it was read for until it is written.
\<close>

section \<open>Doubly linked lists\<close>

text \<open>Consecutive elements of the list are linked in both directions.\<close>

fun chain :: "('a \<Rightarrow> 'a) \<Rightarrow> ('a \<Rightarrow> 'a) \<Rightarrow> 'a list \<Rightarrow> bool" where
  "chain nx pv (a # b # xs) \<longleftrightarrow> nx a = b \<and> pv b = a \<and> chain nx pv (b # xs)"
| "chain nx pv _ \<longleftrightarrow> True"

lemma chain_append: "chain nx pv (xs @ m # ys) \<longleftrightarrow> chain nx pv (xs @ [m]) \<and> chain nx pv (m # ys)"
  by (induction nx pv xs rule: chain.induct) auto

lemma chain_Cons: "chain nx pv (a # xs) \<longleftrightarrow> (xs = [] \<or> nx a = hd xs \<and> pv (hd xs) = a \<and> chain nx pv xs)"
  by (cases xs) auto

lemma chain_snoc: "chain nx pv (xs @ [a]) \<longleftrightarrow> (xs = [] \<or> nx (last xs) = a \<and> pv a = last xs \<and> chain nx pv xs)"
proof (cases xs rule: rev_cases)
  case (snoc ys y)
  then show ?thesis using chain_append [of nx pv ys y "[a]"] by auto
qed simp

lemma chain_cong:
  assumes "\<And>a. a \<in> set (butlast xs) \<Longrightarrow> nx a = nx' a" "\<And>a. a \<in> set (tl xs) \<Longrightarrow> pv a = pv' a"
  shows "chain nx pv xs = chain nx' pv' xs"
  using assms by (induction nx pv xs rule: chain.induct) auto

lemma chain_push:
  assumes "chain nx pv (h # xs @ [h])" "distinct (h # b # xs)"
  shows "chain (nx(b := nx h, h := b)) (pv(b := h, nx h := b)) (h # b # xs @ [h])"
proof (cases xs)
  case (Cons x ys)
  have "chain (nx(b := nx h, h := b)) (pv(b := h, nx h := b)) (x # ys @ [h]) = chain nx pv (x # ys @ [h])"
    by (rule chain_cong) (use assms Cons in \<open>auto simp: butlast_append\<close>)
  then show ?thesis using assms Cons by auto
qed (use assms in auto)

lemma chain_join:
  "xs \<noteq> [] \<Longrightarrow> ys \<noteq> [] \<Longrightarrow> chain nx pv (xs @ ys) \<longleftrightarrow> chain nx pv xs \<and> chain nx pv ys \<and> nx (last xs) = hd ys \<and> pv (hd ys) = last xs"
  by (induction nx pv xs rule: chain.induct) (auto simp: chain_Cons)

lemma last_not_butlast: "distinct xs \<Longrightarrow> xs \<noteq> [] \<Longrightarrow> last xs \<notin> set (butlast xs)"
  by (cases xs rule: rev_cases) auto

lemma chain_middle:
  assumes "chain nx pv (h # xs @ b # ys @ [h])"
  shows "chain nx pv (h # xs)" "chain nx pv (ys @ [h])" "pv b = last (h # xs)" "nx b = hd (ys @ [h])"
  using assms chain_join [of "h # xs @ [b]" "ys @ [h]" nx pv] chain_join [of "h # xs" "[b]" nx pv] by auto

lemma chain_unlink:
  assumes "chain nx pv (h # xs @ b # ys @ [h])" "distinct (h # xs @ b # ys)"
  shows "chain (nx(pv b := nx b)) (pv(nx b := pv b)) (h # xs @ ys @ [h])"
proof -
  let ?as = "h # xs" and ?bs = "ys @ [h]"
  let ?nx = "nx(last ?as := hd ?bs)" and ?pv = "pv(hd ?bs := last ?as)"
  note c = chain_middle(1,2) [OF assms(1)] and e = chain_middle(3,4) [OF assms(1)]
  have l: "last ?as \<in> set ?as" "last ?as \<notin> set (butlast ?as)" "last ?as \<notin> set ys"
    using assms(2) last_not_butlast [of ?as] last_in_set [of ?as] by (auto simp del: last.simps butlast.simps)
  have r: "hd ?bs \<notin> set xs" "hd ?bs \<notin> set (tl ?bs)" using assms(2) by (cases ys; auto)+
  have "chain ?nx ?pv ?as = chain nx pv ?as" by (rule chain_cong) (use l r in auto)
  moreover have "chain ?nx ?pv ?bs = chain nx pv ?bs" by (rule chain_cong) (use l r in \<open>auto simp: butlast_append\<close>)
  ultimately have "chain ?nx ?pv (?as @ ?bs)" using c by (subst chain_join) auto
  then show ?thesis unfolding e by simp
qed

section \<open>The ring of buffers\<close>

definition bring :: "nat list \<Rightarrow> 'a kdisk_scheme \<Rightarrow> bool" where
  "bring L s \<longleftrightarrow> distinct L \<and> set L = {0..<NBUF} \<and>
     chain (\<lambda>b. bnext (bufs s b)) (\<lambda>b. bprev (bufs s b)) (bhead # L @ [bhead])"

lemma bring_cong:
  assumes "\<And>b. bnext (bufs t b) = bnext (bufs s b)" "\<And>b. bprev (bufs t b) = bprev (bufs s b)"
  shows "bring L t = bring L s"
  using assms by (simp add: bring_def)

lemma bget_cached_scan:
  "chain (\<lambda>b. bnext (bufs s b)) pv (L @ [bhead]) \<Longrightarrow> bhead \<notin> set L \<Longrightarrow> length L < n \<Longrightarrow>
     bget_cached n (hd (L @ [bhead])) dev bno s = Ok (find (\<lambda>b. bdev (bufs s b) = dev \<and> bblockno (bufs s b) = bno) L) s"
proof (induction L arbitrary: n)
  case Nil
  then show ?case by (cases n) auto
next
  case (Cons b L)
  then show ?case by (cases n) (auto simp: chain_Cons)
qed

lemma bget_unused_scan:
  "chain nx (\<lambda>b. bprev (bufs s b)) (bhead # L) \<Longrightarrow> bhead \<notin> set L \<Longrightarrow> length L < n \<Longrightarrow>
     bget_unused n (last (bhead # L)) s = Ok (find (\<lambda>b. brefcnt (bufs s b) = 0) (rev L)) s"
proof (induction L arbitrary: n rule: rev_induct)
  case Nil
  then show ?case by (cases n) auto
next
  case (snoc b L)
  then show ?case using chain_snoc [of nx "\<lambda>b. bprev (bufs s b)" "bhead # L" b] by (cases n) auto
qed

lemma bring_scans:
  assumes "bring L s"
  shows "bget_cached (Suc NBUF) (bnext (bufs s bhead)) dev bno s = Ok (find (\<lambda>b. bdev (bufs s b) = dev \<and> bblockno (bufs s b) = bno) L) s"
    "bget_unused (Suc NBUF) (bprev (bufs s bhead)) s = Ok (find (\<lambda>b. brefcnt (bufs s b) = 0) (rev L)) s"
proof -
  let ?nx = "\<lambda>b. bnext (bufs s b)" and ?pv = "\<lambda>b. bprev (bufs s b)"
  have L: "length L = NBUF" "bhead \<notin> set L" using assms distinct_card [of L] by (auto simp: bring_def bhead_def)
  have c: "chain ?nx ?pv (L @ [bhead])" "?nx bhead = hd (L @ [bhead])" "chain ?nx ?pv (bhead # L)" "?pv bhead = last (bhead # L)"
    using assms chain_Cons [of ?nx ?pv bhead "L @ [bhead]"] chain_snoc [of ?nx ?pv "bhead # L" bhead] by (simp_all add: bring_def)
  show "bget_cached (Suc NBUF) (?nx bhead) dev bno s = Ok (find (\<lambda>b. bdev (bufs s b) = dev \<and> bblockno (bufs s b) = bno) L) s"
    unfolding c(2) by (rule bget_cached_scan [OF c(1) L(2)]) (simp add: L)
  show "bget_unused (Suc NBUF) (?pv bhead) s = Ok (find (\<lambda>b. brefcnt (bufs s b) = 0) (rev L)) s"
    unfolding c(4) by (rule bget_unused_scan [OF c(3) L(2)]) (simp add: L)
qed

section \<open>Relinking\<close>

abbreviation nexts :: "'a kdisk_scheme \<Rightarrow> nat \<Rightarrow> nat" where
  "nexts s \<equiv> \<lambda>b. bnext (bufs s b)"

abbreviation prevs :: "'a kdisk_scheme \<Rightarrow> nat \<Rightarrow> nat" where
  "prevs s \<equiv> \<lambda>b. bprev (bufs s b)"

lemma links_upd:
  "nexts (upd_buf c (bnext_update (\<lambda>_. v)) s) = (nexts s)(c := v)" "prevs (upd_buf c (bnext_update (\<lambda>_. v)) s) = prevs s"
  "nexts (upd_buf c (bprev_update (\<lambda>_. v)) s) = nexts s" "prevs (upd_buf c (bprev_update (\<lambda>_. v)) s) = (prevs s)(c := v)"
  by auto

text \<open>The step of \<^verbatim>\<open>brelse\<close> that moves a buffer to the front of the ring, and that of \<^verbatim>\<open>binit\<close> that adds one.\<close>

definition to_front :: "nat \<Rightarrow> 'a kdisk_scheme \<Rightarrow> 'a kdisk_scheme" where
  "to_front b s =
     (let s = upd_buf (bnext (bufs s b)) (bprev_update (\<lambda>_. bprev (bufs s b))) s;
          s = upd_buf (bprev (bufs s b)) (bnext_update (\<lambda>_. bnext (bufs s b))) s;
          s = upd_buf b (bnext_update (\<lambda>_. bnext (bufs s bhead))) s;
          s = upd_buf b (bprev_update (\<lambda>_. bhead)) s;
          s = upd_buf (bnext (bufs s bhead)) (bprev_update (\<lambda>_. b)) s
      in upd_buf bhead (bnext_update (\<lambda>_. b)) s)"

definition to_ring :: "nat \<Rightarrow> 'a kdisk_scheme \<Rightarrow> 'a kdisk_scheme" where
  "to_ring b s =
     (let s = upd_buf b (bnext_update (\<lambda>_. bnext (bufs s bhead))) s;
          s = upd_buf b (bprev_update (\<lambda>_. bhead)) s;
          s = initsleeplock (BufSlk b) s;
          s = upd_buf (bnext (bufs s bhead)) (bprev_update (\<lambda>_. b)) s
      in upd_buf bhead (bnext_update (\<lambda>_. b)) s)"

lemma to_front_links:
  assumes "b \<noteq> bhead" "prevs s b \<noteq> b" "nexts s b \<noteq> b"
  shows "nexts (to_front b s) = (let nx = (nexts s)(prevs s b := nexts s b) in nx(b := nx bhead, bhead := b))"
    "prevs (to_front b s) = (let nx = (nexts s)(prevs s b := nexts s b) in ((prevs s)(nexts s b := prevs s b))(b := bhead, nx bhead := b))"
proof -
  define s1 where "s1 = upd_buf (nexts s b) (bprev_update (\<lambda>_. prevs s b)) s"
  define s2 where "s2 = upd_buf (prevs s1 b) (bnext_update (\<lambda>_. nexts s1 b)) s1"
  define s3 where "s3 = upd_buf b (bnext_update (\<lambda>_. nexts s2 bhead)) s2"
  define s4 where "s4 = upd_buf b (bprev_update (\<lambda>_. bhead)) s3"
  define s5 where "s5 = upd_buf (nexts s4 bhead) (bprev_update (\<lambda>_. b)) s4"
  have t: "to_front b s = upd_buf bhead (bnext_update (\<lambda>_. b)) s5"
    by (simp only: to_front_def Let_def s1_def s2_def s3_def s4_def s5_def)
  note l1 = links_upd(3,4) [where c = "nexts s b" and v = "prevs s b" and s = s, folded s1_def]
  have "nexts s1 b = nexts s b" "prevs s1 b = prevs s b" using fun_cong [OF l1(1), of b] fun_cong [OF l1(2), of b] assms by simp_all
  note l2 = links_upd(1,2) [where c = "prevs s1 b" and v = "nexts s1 b" and s = s1, folded s2_def, unfolded this l1]
  note l3 = links_upd(1,2) [where c = b and v = "nexts s2 bhead" and s = s2, folded s3_def]
  note l4 = links_upd(3,4) [where c = b and v = bhead and s = s3, folded s4_def]
  have "nexts s4 bhead = nexts s2 bhead" using fun_cong [OF l4(1), of bhead] fun_cong [OF l3(1), of bhead] assms by simp
  note l5 = links_upd(3,4) [where c = "nexts s4 bhead" and v = b and s = s4, folded s5_def, unfolded this]
  note l6 = links_upd(1,2) [where c = bhead and v = b and s = s5, folded t]
  have "nexts s2 bhead = ((nexts s)(prevs s b := nexts s b)) bhead" by (rule fun_cong [OF l2(1)])
  then show "nexts (to_front b s) = (let nx = (nexts s)(prevs s b := nexts s b) in nx(b := nx bhead, bhead := b))"
    "prevs (to_front b s) = (let nx = (nexts s)(prevs s b := nexts s b) in ((prevs s)(nexts s b := prevs s b))(b := bhead, nx bhead := b))"
    unfolding Let_def l6 l5 l4 l3 l2 by (simp_all only:)
qed

lemma to_front_ring:
  assumes "bring (xs @ b # ys) s"
  shows "bring (b # xs @ ys) (to_front b s)"
proof -
  have c: "chain (nexts s) (prevs s) (bhead # xs @ b # ys @ [bhead])" and d: "distinct (bhead # xs @ b # ys)"
    using assms by (auto simp: bring_def bhead_def)
  have "last (bhead # xs) \<in> set (bhead # xs)" "hd (ys @ [bhead]) \<in> set (ys @ [bhead])" by (rule last_in_set hd_in_set; simp)+
  then have "prevs s b \<noteq> b" "nexts s b \<noteq> b" using d unfolding chain_middle(3,4) [OF c] by (auto simp del: last.simps)
  note l = to_front_links [OF _ this]
  have b: "b \<noteq> bhead" and d': "distinct (bhead # b # xs @ ys)" using d by auto
  have "chain ((nexts s)(prevs s b := nexts s b)) ((prevs s)(nexts s b := prevs s b)) (bhead # (xs @ ys) @ [bhead])"
    using chain_unlink [OF c d] by simp
  from chain_push [OF this d'] have "chain (nexts (to_front b s)) (prevs (to_front b s)) (bhead # b # (xs @ ys) @ [bhead])"
    unfolding l [OF b] Let_def .
  then show ?thesis using assms by (auto simp: bring_def)
qed

lemma to_ring_links:
  assumes "b \<noteq> bhead"
  shows "nexts (to_ring b s) = (nexts s)(b := nexts s bhead, bhead := b)" "prevs (to_ring b s) = (prevs s)(b := bhead, nexts s bhead := b)"
  using assms by (auto simp: to_ring_def Let_def initsleeplock_def initlock_def fun_eq_iff)

lemma foreach_Ok: "foreach xs (\<lambda>x s. Ok () (f x s)) s = Ok () (fold f xs s)"
  by (induction xs arbitrary: s) auto

lemma binit_eq:
  "binit s = Ok () (fold to_ring [0..<NBUF]
     (upd_buf bhead (bnext_update (\<lambda>_. bhead)) (upd_buf bhead (bprev_update (\<lambda>_. bhead)) (initlock BcacheLock s))))"
  unfolding binit_def Let_def foreach_Ok [symmetric] by (simp add: to_ring_def Let_def cong: if_cong)

lemma binit_chain:
  assumes "chain (nexts s) (prevs s) [bhead, bhead]" "n \<le> NBUF"
  shows "chain (nexts (fold to_ring [0..<n] s)) (prevs (fold to_ring [0..<n] s)) (bhead # rev [0..<n] @ [bhead])"
  using assms(2)
proof (induction n)
  case (Suc n)
  let ?t = "fold to_ring [0..<n] s"
  have "chain (nexts ?t) (prevs ?t) (bhead # rev [0..<n] @ [bhead])" using Suc by simp
  moreover have "n \<noteq> bhead" "distinct (bhead # n # rev [0..<n])" using Suc.prems by (auto simp: bhead_def)
  ultimately show ?case using chain_push [of "nexts ?t" "prevs ?t" bhead "rev [0..<n]" n] to_ring_links [of n ?t] by simp
qed (use assms(1) in simp)

lemma binit_ring: "\<exists>t. binit s = Ok () t \<and> bring (rev [0..<NBUF]) t"
  unfolding binit_eq bring_def
  by (intro exI conjI, rule refl) (auto intro!: binit_chain)

section \<open>Sleep locks without contention\<close>

lemma acquiresleep_free:
  assumes "slk l \<notin> held s" "slocked (slocks s l) = 0" "0 < patience s" "myproc s = Some p"
  shows "acquiresleep l s = Ok () (s\<lparr>slocks := (slocks s)(l := \<lparr>slocked = 1, spid = pid (procs s p)\<rparr>)\<rparr>)"
proof -
  obtain n where "patience s = Suc n" using assms(3) by (cases "patience s") auto
  then show ?thesis using assms by (simp add: acquiresleep_def deref_def myproc_def)
qed

lemma holdingsleep_mine:
  assumes "slk l \<notin> held s" "slocks s l = \<lparr>slocked = 1, spid = pid (procs s p)\<rparr>" "myproc s = Some p"
  shows "holdingsleep l s = Ok True s"
  using assms by (simp add: holdingsleep_def deref_def myproc_def)

lemma releasesleep_sched:
  assumes "slk l \<notin> held s" "no_plocks s"
  shows "\<exists>ps. releasesleep l s = Ok () (s\<lparr>slocks := (slocks s)(l := \<lparr>slocked = 0, spid = 0\<rparr>), procs := ps\<rparr>) \<and> sched_eq (procs s) ps"
proof -
  let ?s = "s\<lparr>held := insert (slk l) (held s), slocks := (slocks s)(l := \<lparr>slocked = 0, spid = 0\<rparr>)\<rparr>"
  have "no_plocks ?s" using assms(2) by (auto simp: no_plocks_def slk_def split: slock.splits)
  from wakeup_sched [OF this, of "ChSlk l"] obtain ps where "wakeup (ChSlk l) ?s = Ok () (?s\<lparr>procs := ps\<rparr>)" "sched_eq (procs s) ps"
    by auto
  then show ?thesis using assms(1) by (auto simp: releasesleep_def)
qed

section \<open>The cache as a store of blocks\<close>

text \<open>The running process holds no spin lock and the disk is idle.\<close>

definition calm :: "nat \<Rightarrow> 'a kdisk_scheme \<Rightarrow> bool" where
  "calm p s \<longleftrightarrow> held s = {} \<and> myproc s = Some p \<and> p < NPROC \<and> 2 \<le> patience s \<and> vq_idle s"

text \<open>The bytes of a block, in a buffer and on the disk, and the buffer that caches a block of a device.\<close>

definition block :: "(nat \<Rightarrow> u8) \<Rightarrow> u8 list" where
  "block f = map f [0..<BSIZE]"

definition iblock :: "(nat \<Rightarrow> u8) \<Rightarrow> u32 \<Rightarrow> u8 list" where
  "iblock im n = block (\<lambda>i. im (BSIZE * unat n + i))"

definition bufof :: "u32 \<Rightarrow> u32 \<Rightarrow> 'a kdisk_scheme \<Rightarrow> nat option" where
  "bufof d n s = find (\<lambda>b. bdev (bufs s b) = d \<and> bblockno (bufs s b) = n) [0..<NBUF]"

text \<open>What a reader of the block sees.\<close>

definition view :: "u32 \<Rightarrow> 'a kdisk_scheme \<Rightarrow> u32 \<Rightarrow> u8 list" where
  "view d s n =
     (case bufof d n s of
        Some b \<Rightarrow> if bvalid (bufs s b) \<noteq> 0 then block (bdata (bufs s b)) else iblock (img s) n
      | None \<Rightarrow> iblock (img s) n)"

abbreviation my_lock :: "nat \<Rightarrow> 'a kproc_scheme \<Rightarrow> sleeplock" where
  "my_lock p s \<equiv> \<lparr>slocked = 1, spid = pid (procs s p)\<rparr>"

text \<open>
  The invariant, for a process that holds the buffers of a set: the list is a ring, no block of the device is cached twice,
  exactly the buffers of the set are locked, and an unreferenced buffer agrees with the disk.
\<close>

definition cached_once :: "u32 \<Rightarrow> 'a kdisk_scheme \<Rightarrow> bool" where
  "cached_once d s \<longleftrightarrow> (\<forall>b<NBUF. \<forall>c<NBUF. bdev (bufs s b) = d \<longrightarrow> bdev (bufs s c) = d \<longrightarrow>
     bblockno (bufs s b) = bblockno (bufs s c) \<longrightarrow> b = c)"

definition buf_ok :: "nat set \<Rightarrow> u32 \<Rightarrow> nat \<Rightarrow> 'a kdisk_scheme \<Rightarrow> nat \<Rightarrow> bool" where
  "buf_ok H d p s b \<longleftrightarrow>
     (if b \<in> H then slocks s (BufSlk b) = my_lock p s \<and> brefcnt (bufs s b) \<noteq> 0 \<and> bvalid (bufs s b) \<noteq> 0 \<and> bdev (bufs s b) = d
      else slocked (slocks s (BufSlk b)) = 0) \<and>
     (bdev (bufs s b) = d \<and> bvalid (bufs s b) \<noteq> 0 \<and> brefcnt (bufs s b) = 0 \<longrightarrow>
        block (bdata (bufs s b)) = iblock (img s) (bblockno (bufs s b)))"

definition cache_inv :: "nat set \<Rightarrow> u32 \<Rightarrow> nat \<Rightarrow> 'a kdisk_scheme \<Rightarrow> bool" where
  "cache_inv H d p s \<longleftrightarrow> calm p s \<and> (\<exists>L. bring L s) \<and> cached_once d s \<and> H \<subseteq> {0..<NBUF} \<and> (\<forall>b<NBUF. buf_ok H d p s b)"

lemma find_unique:
  assumes "b \<in> set L" "P b" "\<And>c. c \<in> set L \<Longrightarrow> P c \<Longrightarrow> c = b"
  shows "find P L = Some b"
proof -
  obtain c where c: "find P L = Some c" using assms(1,2) by (cases "find P L") (auto simp: find_None_iff)
  then have "c \<in> set L" "P c" by (auto simp: find_Some_iff)
  then show ?thesis using assms(3) c by simp
qed

lemma bufof_iff:
  assumes "cached_once d s"
  shows "bufof d n s = Some b \<longleftrightarrow> b < NBUF \<and> bdev (bufs s b) = d \<and> bblockno (bufs s b) = n"
proof
  assume "bufof d n s = Some b"
  then show "b < NBUF \<and> bdev (bufs s b) = d \<and> bblockno (bufs s b) = n"
    unfolding bufof_def find_upt_Some by blast
next
  assume b: "b < NBUF \<and> bdev (bufs s b) = d \<and> bblockno (bufs s b) = n"
  show "bufof d n s = Some b" unfolding bufof_def
    by (rule find_unique) (use b assms in \<open>auto simp: cached_once_def\<close>)
qed

lemma bufof_None: "bufof d n s = None \<longleftrightarrow> (\<forall>b<NBUF. \<not> (bdev (bufs s b) = d \<and> bblockno (bufs s b) = n))"
  unfolding bufof_def find_upt_None ..

lemma brefcnt_step: "brefcnt_update (\<lambda>c. c + 1) x = x\<lparr>brefcnt := brefcnt x + 1\<rparr>" "brefcnt_update (\<lambda>c. c - 1) x = x\<lparr>brefcnt := brefcnt x - 1\<rparr>"
  by (cases x; simp)+

lemma find_in: "find P L = Some b \<Longrightarrow> b \<in> set L \<and> P b"
  by (auto simp: find_Some_iff)

lemma bget_eq:
  assumes "bring L s" "held s = {}"
  shows "bget d n s =
    (case find (\<lambda>b. bdev (bufs s b) = d \<and> bblockno (bufs s b) = n) L of
       Some b \<Rightarrow> bnd (acquiresleep (BufSlk b) (s\<lparr>bufs := (bufs s)(b := (bufs s b)\<lparr>brefcnt := brefcnt (bufs s b) + 1\<rparr>)\<rparr>)) (\<lambda>_ s. Ok b s)
     | None \<Rightarrow>
       (case find (\<lambda>b. brefcnt (bufs s b) = 0) (rev L) of
          Some b \<Rightarrow> bnd (acquiresleep (BufSlk b)
            (s\<lparr>bufs := (bufs s)(b := (bufs s b)\<lparr>bdev := d, bblockno := n, bvalid := 0, brefcnt := 1\<rparr>)\<rparr>)) (\<lambda>_ s. Ok b s)
        | None \<Rightarrow> Panic ''bget: no buffers''))"
proof -
  have "bring L (s\<lparr>held := {BcacheLock}\<rparr>)" using assms(1) by (simp add: bring_def)
  note sc = bring_scans [OF this]
  have h: "s\<lparr>bufs := B, held := {}\<rparr> = s\<lparr>bufs := B\<rparr>" for B using held_same [of "s\<lparr>bufs := B\<rparr>" "{}"] assms(2) by simp
  show ?thesis using assms(2) sc
    by (simp add: bget_def brefcnt_step h del: bget_cached.simps bget_unused.simps split: option.split)
qed

lemma bget_got:
  assumes inv: "cache_inv H d p s" and free: "\<And>b. bufof d n s = Some b \<Longrightarrow> b \<notin> H"
    and room: "bufof d n s = None \<Longrightarrow> \<exists>b<NBUF. brefcnt (bufs s b) = 0"
  obtains b where "b < NBUF" "b \<notin> H" "bufof d n s = Some b \<or> bufof d n s = None \<and> brefcnt (bufs s b) = 0"
    "bget d n s = Ok b (s\<lparr>bufs := (bufs s)(b := if bufof d n s = None
        then (bufs s b)\<lparr>bdev := d, bblockno := n, bvalid := 0, brefcnt := 1\<rparr> else (bufs s b)\<lparr>brefcnt := brefcnt (bufs s b) + 1\<rparr>),
      slocks := (slocks s)(BufSlk b := my_lock p s)\<rparr>)"
proof -
  let ?P = "\<lambda>b. bdev (bufs s b) = d \<and> bblockno (bufs s b) = n"
  obtain L where L: "bring L s" using inv by (auto simp: cache_inv_def)
  have sL: "set L = {0..<NBUF}" using L by (simp add: bring_def)
  have cm: "held s = {}" "myproc s = Some p" "0 < patience s" using inv by (auto simp: cache_inv_def calm_def)
  have fr: "slocked (slocks s (BufSlk b)) = 0" if "b < NBUF" "b \<notin> H" for b using that inv by (simp add: cache_inv_def buf_ok_def)
  have lk: "acquiresleep (BufSlk b) (s\<lparr>bufs := B\<rparr>) = Ok () (s\<lparr>bufs := B, slocks := (slocks s)(BufSlk b := my_lock p s)\<rparr>)"
    if "b < NBUF" "b \<notin> H" for b B
    using acquiresleep_free [of "BufSlk b" "s\<lparr>bufs := B\<rparr>" p] fr [OF that] cm by (simp add: myproc_def)
  show thesis
  proof (cases "bufof d n s")
    case (Some b)
    then have b: "b < NBUF" "?P b" "b \<notin> H" using inv free bufof_iff [of d s n b] by (auto simp: cache_inv_def)
    have "find ?P L = Some b" by (rule find_unique) (use b inv sL in \<open>auto simp: cache_inv_def cached_once_def\<close>)
    then show ?thesis using b Some lk [OF b(1,3)] by (intro that [of b]) (simp_all add: bget_eq [OF L cm(1)])
  next
    case None
    then have "find ?P L = None" using sL by (auto simp: bufof_None find_None_iff)
    moreover obtain b where b: "find (\<lambda>b. brefcnt (bufs s b) = 0) (rev L) = Some b"
      using room [OF None] sL by (cases "find (\<lambda>b. brefcnt (bufs s b) = 0) (rev L)") (auto simp: find_None_iff)
    moreover from b have b': "b < NBUF" "brefcnt (bufs s b) = 0" using sL find_in [OF b] by auto
    moreover have "b \<notin> H" using inv b' by (auto simp: cache_inv_def buf_ok_def)
    ultimately show ?thesis using None lk [of b] by (intro that [of b]) (simp_all add: bget_eq [OF L cm(1)])
  qed
qed

section \<open>Reading a block\<close>

text \<open>Cache operations change the fields of a transfer and the sleep locks; output to the console is not told apart either.\<close>

definition cblank :: "'a kdisk_scheme \<Rightarrow> 'a kdisk_scheme" where
  "cblank s = (blank s)\<lparr>slocks := (\<lambda>_. \<lparr>slocked = 0, spid = 0\<rparr>), uart_writes := [], lsr_reads := 0\<rparr>"

lemma cblank_upd [simp]:
  "cblank (s\<lparr>procs := a1\<rparr>) = cblank s" "cblank (s\<lparr>bufs := a2\<rparr>) = cblank s" "cblank (s\<lparr>slocks := a3\<rparr>) = cblank s"
  "cblank (s\<lparr>uart_writes := a4\<rparr>) = cblank s" "cblank (s\<lparr>lsr_reads := a5\<rparr>) = cblank s"
  "cblank (s\<lparr>held := h\<rparr>) = (cblank s)\<lparr>held := h\<rparr>"
  by (simp_all add: cblank_def blank_def)

lemma cblank_sel:
  "held (cblank s) = held s" "curproc (cblank s) = curproc s" "patience (cblank s) = patience s" "kdisk.more (cblank s) = kdisk.more s"
  "panicked (cblank s) = panicked s" "panicking (cblank s) = panicking s" "lsr_idle (cblank s) = lsr_idle s"
  by (simp_all add: cblank_def blank_def)

definition cframe :: "'a kdisk_scheme \<Rightarrow> 'a kdisk_scheme \<Rightarrow> bool" where
  "cframe s t \<longleftrightarrow> sched_eq (procs s) (procs t) \<and> cblank t = cblank s"

lemma cframe_refl [simp]: "cframe s s"
  by (simp add: cframe_def)

lemma cframe_trans: "cframe s t \<Longrightarrow> cframe t u \<Longrightarrow> cframe s u"
  by (auto simp: cframe_def intro: sched_eq_trans)

lemma queue_cframe: "queue_frame s t \<Longrightarrow> cframe s t"
  by (simp add: cframe_def queue_frame_def cblank_def)

lemma cframeD:
  assumes "cframe s t"
  shows "held t = held s" "myproc t = myproc s" "patience t = patience s" "kdisk.more t = kdisk.more s" "pid (procs t q) = pid (procs s q)"
    "tx_ready t = tx_ready s" "panicking t = panicking s"
proof -
  have "cblank t = cblank s" using assms by (simp add: cframe_def)
  from arg_cong [OF this, of held] arg_cong [OF this, of curproc] arg_cong [OF this, of patience] arg_cong [OF this, of kdisk.more]
    arg_cong [OF this, of panicked] arg_cong [OF this, of lsr_idle] arg_cong [OF this, of panicking]
  show "held t = held s" "myproc t = myproc s" "patience t = patience s" "kdisk.more t = kdisk.more s" "tx_ready t = tx_ready s" "panicking t = panicking s"
    by (simp_all add: cblank_sel myproc_def tx_ready_def)
  show "pid (procs t q) = pid (procs s q)" using assms by (simp add: cframe_def sched_eq_pid)
qed

lemma calm_cframe: "calm p s \<Longrightarrow> cframe s t \<Longrightarrow> vq_idle t \<Longrightarrow> calm p t"
  by (simp add: calm_def cframeD)

definition fetched :: "nat set \<Rightarrow> u32 \<Rightarrow> nat \<Rightarrow> u32 \<Rightarrow> 'a kdisk_scheme \<Rightarrow> nat \<Rightarrow> 'a kdisk_scheme \<Rightarrow> bool" where
  "fetched H d p n s b t \<longleftrightarrow> cache_inv (insert b H) d p t \<and> b < NBUF \<and> b \<notin> H \<and> bufof d n t = Some b \<and>
     view d t = view d s \<and> img t = img s \<and> cframe s t \<and>
     (\<forall>c. brefcnt (bufs t c) = (if c = b then brefcnt (bufs s c) + 1 else brefcnt (bufs s c))) \<and>
     (\<forall>m c. bufof d m s = Some c \<longrightarrow> brefcnt (bufs s c) \<noteq> 0 \<longrightarrow> bufof d m t = Some c)"

lemma fetchedI:
  assumes inv: "cache_inv H d p s" and b: "b < NBUF" "b \<notin> H"
    and hit: "bufof d n s = Some b \<or> bufof d n s = None \<and> brefcnt (bufs s b) = 0"
    and t: "vq_idle t" "bufs t = (bufs s)(b := x)" "slocks t = (slocks s)(BufSlk b := my_lock p s)" "img t = img s" "cframe s t"
    and x: "bdev x = d" "bblockno x = n" "bvalid x \<noteq> 0" "brefcnt x = brefcnt (bufs s b) + 1" "brefcnt x \<noteq> 0"
      "block (bdata x) = view d s n" "bnext x = bnext (bufs s b)" "bprev x = bprev (bufs s b)"
  shows "fetched H d p n s b t"
proof -
  have one: "cached_once d s" and ok: "\<forall>c<NBUF. buf_ok H d p s c" using inv by (auto simp: cache_inv_def)
  have nb: "c = b" if "c < NBUF" "bdev (bufs s c) = d" "bblockno (bufs s c) = n" for c
    using hit that b one bufof_iff [OF one, of n b] by (auto simp: bufof_None cached_once_def)
  have one': "cached_once d t" using one nb b x unfolding cached_once_def t by auto
  have bt: "bufof d n t = Some b" unfolding bufof_iff [OF one'] t using b x by simp
  have ring: "\<exists>L. bring L t"
  proof -
    have "bring L t = bring L s" for L by (rule bring_cong) (use x in \<open>auto simp: t\<close>)
    then show ?thesis using inv by (simp add: cache_inv_def)
  qed
  have "buf_ok (insert b H) d p t c" if "c < NBUF" for c
    using ok [rule_format, OF that] x b by (auto simp: buf_ok_def t cframeD(5) [OF t(5)])
  then have inv': "cache_inv (insert b H) d p t"
    using inv one' ring b calm_cframe [OF _ t(5,1)] by (auto simp: cache_inv_def)
  have same: "bufof d m t = (if m = n then Some b else if bufof d m s = Some b then None else bufof d m s)" for m
  proof (cases "bufof d m t")
    case None
    have "c = b" if "bufof d m s = Some c" for c
      using None that by (cases "c = b") (auto simp: bufof_iff [OF one] bufof_None t)
    then show ?thesis using None bt by (cases "bufof d m s") auto
  next
    case (Some c)
    then have c: "c < NBUF" "bdev (bufs t c) = d" "bblockno (bufs t c) = m" by (auto simp: bufof_iff [OF one'])
    show ?thesis
    proof (cases "c = b")
      case True
      then show ?thesis using Some c x by (simp add: t)
    next
      case False
      then have "bufof d m s = Some c" "m \<noteq> n" using c nb by (auto simp: bufof_iff [OF one] t)
      then show ?thesis using Some False by simp
    qed
  qed
  have "view d t m = view d s m" for m
  proof -
    consider "m = n" | "m \<noteq> n" "bufof d m s = Some b" | "m \<noteq> n" "bufof d m s \<noteq> Some b" by blast
    then show ?thesis
    proof cases
      case 1
      then show ?thesis using bt x by (simp add: view_def [of d t] t)
    next
      case 2
      then have b': "bdev (bufs s b) = d" "bblockno (bufs s b) = m" by (auto simp: bufof_iff [OF one])
      then have "bufof d n s = None" "brefcnt (bufs s b) = 0" using hit 2 bufof_iff [OF one, of n b] by auto
      then have "bvalid (bufs s b) \<noteq> 0 \<longrightarrow> block (bdata (bufs s b)) = iblock (img s) m"
        using ok b b' by (auto simp: buf_ok_def)
      then show ?thesis using 2 by (simp add: view_def same t)
    next
      case 3
      then show ?thesis by (auto simp: view_def same t split: option.split)
    qed
  qed
  then have "view d t = view d s" by (rule ext)
  moreover have "bufof d m t = Some c" if "bufof d m s = Some c" "brefcnt (bufs s c) \<noteq> 0" for m c
  proof (cases "m = n")
    case True
    then show ?thesis using that hit bt by auto
  next
    case False
    moreover have "c \<noteq> b"
    proof
      assume "c = b"
      then have "bufof d n s = Some b" "bblockno (bufs s b) = m" using that hit by (auto simp: bufof_iff [OF one])
      then show False using False by (simp add: bufof_iff [OF one])
    qed
    ultimately show ?thesis using that by (simp add: same)
  qed
  moreover have "brefcnt (bufs t c) = (if c = b then brefcnt (bufs s c) + 1 else brefcnt (bufs s c))" for c using x(4) by (simp add: t)
  ultimately show ?thesis unfolding fetched_def using inv' b bt t(4,5) by (intro conjI allI impI)
qed

lemma block_cong: "(\<And>i. i < BSIZE \<Longrightarrow> f i = g i) \<Longrightarrow> block f = block g"
  by (simp add: block_def)

lemma sector_of_block:
  assumes "unat (bblockno (bufs s b)) < 2 ^ 31"
  shows "512 * sector_of b s = BSIZE * unat (bblockno (bufs s b))"
proof -
  let ?n = "bblockno (bufs s b)"
  have "unat (?n * 2) = 2 * unat ?n" using assms by (simp add: unat_word_ariths)
  then have "unat (ucast (?n * 2) :: u64) = 2 * unat ?n" using unsigned_less [of "?n * 2", where 'a = nat] by (simp add: unsigned_ucast_eq take_bit_nat_eq_self)
  then show ?thesis by (simp add: sector_of_def BSIZE_def)
qed

lemma moved_block:
  assumes "unat (bblockno (bufs s b)) < 2 ^ 31"
  shows "block (bdata (moved_bufs b False s b)) = iblock (img s) (bblockno (bufs s b))"
  using sector_of_block [OF assms] by (simp add: moved_bufs_def iblock_def blk_def block_def)

lemma bread_fetched:
  assumes inv: "cache_inv H d p s" and n: "unat n < 2 ^ 31" and free: "\<And>b. bufof d n s = Some b \<Longrightarrow> b \<notin> H \<and> brefcnt (bufs s b) + 1 \<noteq> 0"
    and room: "bufof d n s = None \<Longrightarrow> \<exists>b<NBUF. brefcnt (bufs s b) = 0"
  shows "\<exists>b t. drive (bread d n s) = Ok b t \<and> crash_imgs (bread d n s) \<subseteq> {img s} \<and> fetched H d p n s b t"
proof -
  obtain b where b: "b < NBUF" "b \<notin> H" "bufof d n s = Some b \<or> bufof d n s = None \<and> brefcnt (bufs s b) = 0"
    "bget d n s = Ok b (s\<lparr>bufs := (bufs s)(b := if bufof d n s = None
        then (bufs s b)\<lparr>bdev := d, bblockno := n, bvalid := 0, brefcnt := 1\<rparr> else (bufs s b)\<lparr>brefcnt := brefcnt (bufs s b) + 1\<rparr>),
      slocks := (slocks s)(BufSlk b := my_lock p s)\<rparr>)"
    by (rule bget_got [OF inv _ room]) (use free in auto)
  define x where "x = (if bufof d n s = None
        then (bufs s b)\<lparr>bdev := d, bblockno := n, bvalid := 0, brefcnt := 1\<rparr> else (bufs s b)\<lparr>brefcnt := brefcnt (bufs s b) + 1\<rparr>)"
  define s1 where "s1 = s\<lparr>bufs := (bufs s)(b := x), slocks := (slocks s)(BufSlk b := my_lock p s)\<rparr>"
  have g: "bget d n s = Ok b s1" using b(4) by (simp only: s1_def x_def)
  have one: "cached_once d s" using inv by (simp add: cache_inv_def)
  have x: "bdev x = d" "bblockno x = n" "brefcnt x = brefcnt (bufs s b) + 1" "brefcnt x \<noteq> 0" "bnext x = bnext (bufs s b)" "bprev x = bprev (bufs s b)"
    using b(3) free bufof_iff [OF one, of n b] by (auto simp: x_def)
  have s1: "bufs s1 = (bufs s)(b := x)" "slocks s1 = (slocks s)(BufSlk b := my_lock p s)" "img s1 = img s" "cframe s s1" "vq_idle s1 = vq_idle s"
    by (simp_all add: s1_def cframe_def vq_idle_def)
  have vq: "vq_idle s" using inv by (simp add: cache_inv_def calm_def)
  have vw: "view d s n = (if bvalid x \<noteq> 0 then block (bdata x) else iblock (img s) n)"
    using b(3) by (auto simp: view_def x_def)
  show ?thesis
  proof (cases "bvalid x = 0")
    case False
    then have "bread d n s = Ok b s1" by (simp add: bread_def g s1)
    moreover have "fetched H d p n s b s1"
      by (rule fetchedI [OF inv b(1-3) _ s1(1-4) x(1,2) _ x(3,4) _ x(5,6)]) (use False s1 vq vw in simp_all)
    ultimately show ?thesis using s1 by (intro exI conjI) simp_all
  next
    case True
    have c: "calm p s1" by (rule calm_cframe [OF _ s1(4)]) (use inv s1 in \<open>simp_all add: cache_inv_def calm_def\<close>)
    then obtain t where t: "drive (virtio_disk_rw b False s1) = Ok () t" "crash_imgs (virtio_disk_rw b False s1) = {img s1, img t}"
      "img t = moved_img b False s1" "bufs t = moved_bufs b False s1" "vq_idle t" "queue_frame s1 t"
      using rw_done [OF _ _ _ _ _ dev_serve_contract, of s1 p b False] by (auto simp: calm_def)
    have bn: "bblockno (bufs s1 b) = n" using x by (simp add: s1)
    let ?x = "(moved_bufs b False s1 b)\<lparr>bvalid := 1\<rparr>"
    let ?t = "t\<lparr>bufs := (bufs t)(b := ?x)\<rparr>"
    have "blank t = blank s1" using t(6) by (simp add: queue_frame_def)
    from arg_cong [OF this, of slocks] have sl: "slocks t = slocks s1" by (simp add: blank_sel)
    have "bread d n s = bnd (virtio_disk_rw b False s1) (\<lambda>_ s. Ok b (upd_buf b (bvalid_update (\<lambda>_. 1)) s))"
      using True by (simp add: bread_def g s1)
    then have "drive (bread d n s) = Ok b ?t" "crash_imgs (bread d n s) \<subseteq> {img s1, img t}"
      using t(1,2,4) crash_bnd [OF t(1), of "\<lambda>_ s. Ok b (upd_buf b (bvalid_update (\<lambda>_. 1)) s)"] by (auto simp: drive_bnd)
    moreover have "img t = img s" "img s1 = img s" by (simp_all add: t moved_img_def s1)
    moreover have "fetched H d p n s b ?t"
    proof (rule fetchedI [OF inv b(1-3)])
      show "bufs ?t = (bufs s)(b := ?x)" by (simp add: t moved_bufs_def s1)
      show "slocks ?t = (slocks s)(BufSlk b := my_lock p s)" "img ?t = img s" "vq_idle ?t"
        using t(5) by (simp_all add: sl s1 t moved_img_def vq_idle_def)
      show "cframe s ?t" using cframe_trans [OF s1(4) queue_cframe [OF t(6)]] by (simp add: cframe_def)
      show "block (bdata ?x) = view d s n" using moved_block [of s1 b] n bn s1(3) vw True by simp
    qed (use x s1 in \<open>simp_all add: moved_bufs_def\<close>)
    ultimately show ?thesis by (intro exI conjI) auto
  qed
qed

section \<open>Writing a block\<close>

lemma iblock_put:
  assumes "512 * sec = BSIZE * unat n"
  shows "iblock (put_blk im sec f) m = (if m = n then block f else iblock im m)"
proof (cases "m = n")
  case True
  then show ?thesis using assms by (simp add: iblock_def block_def put_blk_def)
next
  case False
  have "put_blk im sec f (BSIZE * unat m + i) = im (BSIZE * unat m + i)" if "i < BSIZE" for i
  proof -
    have "unat m \<noteq> unat n" using False by (simp add: word_unat_eq_iff)
    then consider "Suc (unat m) \<le> unat n" | "Suc (unat n) \<le> unat m" by linarith
    then have "BSIZE * unat m + i < BSIZE * unat n \<or> BSIZE * unat n + BSIZE \<le> BSIZE * unat m + i"
      using that mult_le_mono2 [of "Suc (unat m)" "unat n" BSIZE] mult_le_mono2 [of "Suc (unat n)" "unat m" BSIZE] by cases auto
    then show ?thesis using assms by (auto simp: put_blk_def)
  qed
  then show ?thesis using False by (auto simp: iblock_def intro: block_cong)
qed

definition stored :: "u32 \<Rightarrow> u8 list \<Rightarrow> (nat \<Rightarrow> u8) \<Rightarrow> (nat \<Rightarrow> u8) \<Rightarrow> bool" where
  "stored n v im im' \<longleftrightarrow> (\<forall>m. iblock im' m = (if m = n then v else iblock im m))"

lemma bwrite_stored:
  assumes inv: "cache_inv H d p s" and b: "b \<in> H" "bblockno (bufs s b) = n" "unat n < 2 ^ 31"
  shows "\<exists>t. drive (bwrite b s) = Ok () t \<and> crash_imgs (bwrite b s) \<subseteq> {img s, img t} \<and> cache_inv H d p t \<and>
    stored n (block (bdata (bufs s b))) (img s) (img t) \<and> view d t = view d s \<and> cframe s t \<and>
    bufs t = (bufs s)(b := (bufs s b)\<lparr>bdisk := 0\<rparr>)"
proof -
  have bN: "b < NBUF" and c: "calm p s" and one: "cached_once d s" using inv b(1) by (auto simp: cache_inv_def)
  have bo: "slocks s (BufSlk b) = my_lock p s" "brefcnt (bufs s b) \<noteq> 0" "bvalid (bufs s b) \<noteq> 0" "bdev (bufs s b) = d"
    using inv b(1) bN by (auto simp: cache_inv_def buf_ok_def)
  have "holdingsleep (BufSlk b) s = Ok True s" by (rule holdingsleep_mine [where p = p]) (use c bo in \<open>auto simp: calm_def\<close>)
  then have w: "bwrite b s = virtio_disk_rw b True s" by (simp add: bwrite_def)
  obtain t where t: "drive (virtio_disk_rw b True s) = Ok () t" "crash_imgs (virtio_disk_rw b True s) = {img s, img t}"
      "img t = moved_img b True s" "bufs t = moved_bufs b True s" "vq_idle t" "queue_frame s t"
    using rw_done [OF _ _ _ _ _ dev_serve_contract, of s p b True] c by (auto simp: calm_def)
  have bt: "bufs t = (bufs s)(b := (bufs s b)\<lparr>bdisk := 0\<rparr>)" by (cases "bufs s b") (simp add: t moved_bufs_def)
  have fr: "cframe s t" by (rule queue_cframe [OF t(6)])
  have "blank t = blank s" using t(6) by (simp add: queue_frame_def)
  from arg_cong [OF this, of slocks] have sl: "slocks t = slocks s" by (simp add: blank_sel)
  have st: "stored n (block (bdata (bufs s b))) (img s) (img t)"
    using sector_of_block [of s b] iblock_put [of "sector_of b s" n] b(2,3) by (simp add: stored_def t moved_img_def)
  have same: "bufof d m t = bufof d m s" for m by (auto simp: bufof_def bt intro: arg_cong [of _ _ "\<lambda>P. find P _"])
  have one': "cached_once d t" using one by (auto simp: cached_once_def bt)
  have "bring L t = bring L s" for L by (rule bring_cong) (simp_all add: bt)
  moreover have "buf_ok H d p t c" if "c < NBUF" for c
  proof -
    have "bblockno (bufs s c) \<noteq> n" if "brefcnt (bufs s c) = 0" "bdev (bufs s c) = d"
      using that bo one bN b(2) \<open>c < NBUF\<close> unfolding cached_once_def by metis
    then show ?thesis using inv that st b(1) by (auto simp: cache_inv_def buf_ok_def bt sl stored_def cframeD(5) [OF fr])
  qed
  ultimately have "cache_inv H d p t" using inv one' calm_cframe [OF c fr t(5)] by (auto simp: cache_inv_def)
  moreover have "bufof d n s = Some b" using bN bo b(2) by (simp add: bufof_iff [OF one])
  then have "view d t m = view d s m" for m
    using st bo(3) by (cases "m = n") (auto simp: view_def same stored_def bt split: option.split)
  then have "view d t = view d s" by (rule ext)
  ultimately show ?thesis using t(1,2) st fr bt unfolding w by (intro exI conjI) simp_all
qed

section \<open>Releasing, pinning and changing a buffer\<close>

lemma cache_step:
  assumes inv: "cache_inv H d p s" and t: "vq_idle t" "cframe s t" "img t = img s" "\<exists>L. bring L t"
    and same: "\<And>c. bdev (bufs t c) = bdev (bufs s c)" "\<And>c. bblockno (bufs t c) = bblockno (bufs s c)" "\<And>c. bvalid (bufs t c) = bvalid (bufs s c)"
    and locks: "H' \<subseteq> H" "\<And>c. c \<in> H' \<Longrightarrow> slocks t (BufSlk c) = slocks s (BufSlk c)"
      "\<And>c. c \<notin> H \<Longrightarrow> slocks t (BufSlk c) = slocks s (BufSlk c)" "\<And>c. c \<in> H \<Longrightarrow> c \<notin> H' \<Longrightarrow> slocked (slocks t (BufSlk c)) = 0"
    and refs: "\<And>c. c \<in> H' \<Longrightarrow> brefcnt (bufs t c) \<noteq> 0"
    and clean: "\<And>c. c < NBUF \<Longrightarrow> bdev (bufs s c) = d \<Longrightarrow> bvalid (bufs s c) \<noteq> 0 \<Longrightarrow> brefcnt (bufs t c) = 0 \<Longrightarrow>
      brefcnt (bufs s c) = 0 \<and> bdata (bufs t c) = bdata (bufs s c) \<or> block (bdata (bufs t c)) = iblock (img s) (bblockno (bufs s c))"
  shows "cache_inv H' d p t"
proof -
  have "buf_ok H' d p t c" if "c < NBUF" for c
  proof -
    have o: "buf_ok H d p s c" using inv that by (simp add: cache_inv_def)
    have "bdev (bufs t c) = d \<and> bvalid (bufs t c) \<noteq> 0 \<and> brefcnt (bufs t c) = 0 \<longrightarrow> block (bdata (bufs t c)) = iblock (img t) (bblockno (bufs t c))"
      using clean [OF that] o unfolding same t(3) buf_ok_def by auto
    moreover consider "c \<in> H'" "c \<in> H" | "c \<in> H" "c \<notin> H'" | "c \<notin> H" "c \<notin> H'" using locks(1) by blast
    then have "if c \<in> H' then slocks t (BufSlk c) = my_lock p t \<and> brefcnt (bufs t c) \<noteq> 0 \<and> bvalid (bufs t c) \<noteq> 0 \<and> bdev (bufs t c) = d
      else slocked (slocks t (BufSlk c)) = 0"
      using o by cases (simp_all add: buf_ok_def locks refs same cframeD(5) [OF t(2)])
    ultimately show ?thesis by (simp add: buf_ok_def)
  qed
  moreover have "cached_once d t" using inv by (simp add: cache_inv_def cached_once_def same)
  ultimately show "cache_inv H' d p t" using inv t locks(1) calm_cframe [OF _ t(2,1)] by (auto simp: cache_inv_def)
qed

lemma bufof_same:
  "(\<And>c. bdev (bufs t c) = bdev (bufs s c)) \<Longrightarrow> (\<And>c. bblockno (bufs t c) = bblockno (bufs s c)) \<Longrightarrow> bufof d m t = bufof d m s"
  by (simp add: bufof_def)

lemma vq_idle_upd [simp]:
  "vq_idle (s\<lparr>bufs := x\<rparr>) = vq_idle s" "vq_idle (s\<lparr>slocks := y\<rparr>) = vq_idle s" "vq_idle (s\<lparr>procs := z\<rparr>) = vq_idle s" "vq_idle (s\<lparr>held := h\<rparr>) = vq_idle s"
  by (simp_all add: vq_idle_def)

text \<open>The fields that relinking leaves alone.\<close>

lemma link_same:
  "bdev (bufs (upd_buf b (bnext_update f) s) c) = bdev (bufs s c)" "bdev (bufs (upd_buf b (bprev_update f) s) c) = bdev (bufs s c)"
  "bblockno (bufs (upd_buf b (bnext_update f) s) c) = bblockno (bufs s c)" "bblockno (bufs (upd_buf b (bprev_update f) s) c) = bblockno (bufs s c)"
  "bvalid (bufs (upd_buf b (bnext_update f) s) c) = bvalid (bufs s c)" "bvalid (bufs (upd_buf b (bprev_update f) s) c) = bvalid (bufs s c)"
  "bdata (bufs (upd_buf b (bnext_update f) s) c) = bdata (bufs s c)" "bdata (bufs (upd_buf b (bprev_update f) s) c) = bdata (bufs s c)"
  "brefcnt (bufs (upd_buf b (bnext_update f) s) c) = brefcnt (bufs s c)" "brefcnt (bufs (upd_buf b (bprev_update f) s) c) = brefcnt (bufs s c)"
  by simp_all

lemma link_frame:
  "vq_idle (upd_buf b g s) = vq_idle s" "img (upd_buf b g s) = img s" "slocks (upd_buf b g s) = slocks s" "procs (upd_buf b g s) = procs s"
  "cblank (upd_buf b g s) = cblank s" "held (upd_buf b g s) = held s"
  by simp_all

lemma to_front_same:
  "bdev (bufs (to_front b s) c) = bdev (bufs s c)" "bblockno (bufs (to_front b s) c) = bblockno (bufs s c)"
  "bvalid (bufs (to_front b s) c) = bvalid (bufs s c)" "bdata (bufs (to_front b s) c) = bdata (bufs s c)"
  "brefcnt (bufs (to_front b s) c) = brefcnt (bufs s c)" "vq_idle (to_front b s) = vq_idle s" "img (to_front b s) = img s"
  "slocks (to_front b s) = slocks s" "procs (to_front b s) = procs s" "cblank (to_front b s) = cblank s" "held (to_front b s) = held s"
  by (simp_all only: to_front_def Let_def link_same link_frame)

text \<open>The state after \<^verbatim>\<open>brelse\<close>, apart from the processes it wakes.\<close>

definition released :: "nat \<Rightarrow> 'a kdisk_scheme \<Rightarrow> 'a kdisk_scheme" where
  "released b s =
     (let s = s\<lparr>bufs := (bufs s)(b := (bufs s b)\<lparr>brefcnt := brefcnt (bufs s b) - 1\<rparr>)\<rparr>
      in if brefcnt (bufs s b) = 0 then to_front b s else s)"

lemma released_same:
  "bdev (bufs (released b s) c) = bdev (bufs s c)" "bblockno (bufs (released b s) c) = bblockno (bufs s c)"
  "bvalid (bufs (released b s) c) = bvalid (bufs s c)" "bdata (bufs (released b s) c) = bdata (bufs s c)"
  "brefcnt (bufs (released b s) c) = (if c = b then brefcnt (bufs s b) - 1 else brefcnt (bufs s c))"
  "vq_idle (released b s) = vq_idle s" "img (released b s) = img s"
  "slocks (released b s) = slocks s" "procs (released b s) = procs s" "cblank (released b s) = cblank s" "held (released b s) = held s"
  by (simp_all add: released_def Let_def to_front_same)

lemma released_ring:
  assumes "bring L s" "b < NBUF"
  shows "bring (if brefcnt (bufs s b) = 1 then b # remove1 b L else L) (released b s)"
proof -
  let ?s = "s\<lparr>bufs := (bufs s)(b := (bufs s b)\<lparr>brefcnt := brefcnt (bufs s b) - 1\<rparr>)\<rparr>"
  have r: "bring L ?s" using assms(1) bring_cong [of ?s s L] by simp
  obtain xs ys where L: "L = xs @ b # ys" "b \<notin> set xs" using assms split_list_first [of b L] by (auto simp: bring_def)
  then have "remove1 b L = xs @ ys" by (simp add: remove1_append)
  then show ?thesis using to_front_ring [of xs b ys ?s] r L(1)
    by (cases "brefcnt (bufs s b) = 1") (simp_all add: released_def Let_def)
qed

lemma upd_buf_held: "s\<lparr>held := h, bufs := x\<rparr> = s\<lparr>bufs := x, held := h\<rparr>" "bufs (s\<lparr>held := h\<rparr>) = bufs s"
  by simp_all

lemma to_front_held: "to_front b (s\<lparr>held := h\<rparr>) = (to_front b s)\<lparr>held := h\<rparr>"
  by (simp only: to_front_def Let_def upd_buf_held)

lemma released_held: "released b (s\<lparr>held := h\<rparr>) = (released b s)\<lparr>held := h\<rparr>"
  unfolding released_def Let_def upd_buf_held to_front_held by (rule if_distrib [symmetric])

lemma brelse_alt:
  "brelse b s =
     bnd (holdingsleep (BufSlk b) s) (\<lambda>h s.
       if \<not> h then Panic ''brelse''
       else bnd (releasesleep (BufSlk b) s) (\<lambda>_ s. bnd (acquire BcacheLock s) (\<lambda>_ s. release BcacheLock (released b s))))"
  by (simp only: brelse_def released_def to_front_def Let_def brefcnt_step)

lemma brelse_eq:
  assumes "calm p s" "slocks s (BufSlk b) = my_lock p s"
  shows "\<exists>ps. brelse b s = Ok () (released b (s\<lparr>slocks := (slocks s)(BufSlk b := \<lparr>slocked = 0, spid = 0\<rparr>), procs := ps\<rparr>)) \<and> sched_eq (procs s) ps"
proof -
  have cm: "held s = {}" "myproc s = Some p" using assms(1) by (simp_all add: calm_def)
  have np: "no_plocks s" using cm by (simp add: no_plocks_def)
  have h: "holdingsleep (BufSlk b) s = Ok True s" by (rule holdingsleep_mine [where p = p]) (use cm assms(2) in auto)
  obtain ps where r: "releasesleep (BufSlk b) s = Ok () (s\<lparr>slocks := (slocks s)(BufSlk b := \<lparr>slocked = 0, spid = 0\<rparr>), procs := ps\<rparr>)" "sched_eq (procs s) ps"
    using releasesleep_sched [of "BufSlk b" s] cm np by auto
  let ?s = "s\<lparr>slocks := (slocks s)(BufSlk b := \<lparr>slocked = 0, spid = 0\<rparr>), procs := ps\<rparr>"
  have "released b (?s\<lparr>held := {BcacheLock}\<rparr>)\<lparr>held := {}\<rparr> = (released b ?s)\<lparr>held := {}\<rparr>" by (simp add: released_held)
  also have "\<dots> = released b ?s" by (rule held_same) (simp add: released_same cm)
  finally have "brelse b s = Ok () (released b ?s)"
    using h r cm by (simp add: brelse_alt released_same)
  then show ?thesis using r(2) by (intro exI conjI)
qed

text \<open>An operation that keeps the blocks, their data, and all references but those of one buffer.\<close>

definition kept :: "u32 \<Rightarrow> nat \<Rightarrow> (u32 \<Rightarrow> u32) \<Rightarrow> 'a kdisk_scheme \<Rightarrow> 'a kdisk_scheme \<Rightarrow> bool" where
  "kept d b f s t \<longleftrightarrow> view d t = view d s \<and> img t = img s \<and> cframe s t \<and> (\<forall>m. bufof d m t = bufof d m s) \<and>
     (\<forall>c. brefcnt (bufs t c) = (if c = b then f (brefcnt (bufs s c)) else brefcnt (bufs s c)))"

lemma view_same:
  assumes "\<And>m. bufof d m t = bufof d m s" "\<And>c. bvalid (bufs t c) = bvalid (bufs s c)" "\<And>c. bdata (bufs t c) = bdata (bufs s c)" "img t = img s"
  shows "view d t = view d s"
  using assms by (intro ext) (simp add: view_def split: option.split)

lemma brelse_done:
  assumes inv: "cache_inv H d p s" and b: "b \<in> H"
    and clean: "brefcnt (bufs s b) = 1 \<Longrightarrow> block (bdata (bufs s b)) = iblock (img s) (bblockno (bufs s b))"
  shows "\<exists>t. brelse b s = Ok () t \<and> cache_inv (H - {b}) d p t \<and> kept d b (\<lambda>x. x - 1) s t"
proof -
  have bN: "b < NBUF" and cm: "calm p s" and vq: "vq_idle s" using inv b by (auto simp: cache_inv_def calm_def)
  have sl: "slocks s (BufSlk b) = my_lock p s" using inv b bN by (auto simp: cache_inv_def buf_ok_def)
  obtain ps where r: "brelse b s = Ok () (released b (s\<lparr>slocks := (slocks s)(BufSlk b := \<lparr>slocked = 0, spid = 0\<rparr>), procs := ps\<rparr>))"
    and ps: "sched_eq (procs s) ps" using brelse_eq [OF cm sl] by (elim exE conjE) (rule that)
  let ?s = "s\<lparr>slocks := (slocks s)(BufSlk b := \<lparr>slocked = 0, spid = 0\<rparr>), procs := ps\<rparr>"
  let ?t = "released b ?s"
  have fr: "cframe s ?t" using ps by (simp add: cframe_def released_same)
  obtain L where "bring L s" using inv by (auto simp: cache_inv_def)
  then have "bring L ?s" by (simp add: bring_def)
  then have ring: "\<exists>L. bring L ?t" by (intro exI) (rule released_ring [OF _ bN])
  have refs: "brefcnt (bufs s c) \<noteq> 0" if "c \<in> H" for c using inv that by (auto simp: cache_inv_def buf_ok_def)
  have "cache_inv (H - {b}) d p ?t"
    by (rule cache_step [OF inv _ fr _ ring]) (use vq clean refs b in \<open>auto simp: released_same split: if_splits\<close>)
  moreover have st: "bufof d m ?t = bufof d m s" for m by (rule bufof_same) (simp_all add: released_same)
  moreover have "view d ?t = view d s" by (rule view_same) (simp_all add: st released_same)
  moreover have "img ?t = img s" "brefcnt (bufs ?t c) = (if c = b then brefcnt (bufs s c) - 1 else brefcnt (bufs s c))" for c
    by (simp_all add: released_same)
  ultimately show ?thesis using r fr unfolding kept_def by (intro exI [of _ ?t] conjI allI)
qed

lemma bunpin_eq:
  assumes "BcacheLock \<notin> held s"
  shows "bunpin b s = Ok () (s\<lparr>bufs := (bufs s)(b := (bufs s b)\<lparr>brefcnt := brefcnt (bufs s b) - 1\<rparr>)\<rparr>)"
  using assms by (simp add: bunpin_def brefcnt_step)

lemma bpin_eq:
  assumes "BcacheLock \<notin> held s"
  shows "bpin b s = Ok () (s\<lparr>bufs := (bufs s)(b := (bufs s b)\<lparr>brefcnt := brefcnt (bufs s b) + 1\<rparr>)\<rparr>)"
  using assms by (simp add: bpin_def brefcnt_step)

lemma bunpin_done:
  assumes inv: "cache_inv H d p s" and b: "b \<in> H" "brefcnt (bufs s b) \<noteq> 1"
  shows "\<exists>t. bunpin b s = Ok () t \<and> cache_inv H d p t \<and> kept d b (\<lambda>x. x - 1) s t"
proof -
  let ?t = "s\<lparr>bufs := (bufs s)(b := (bufs s b)\<lparr>brefcnt := brefcnt (bufs s b) - 1\<rparr>)\<rparr>"
  have fr: "cframe s ?t" and vq: "vq_idle s" using inv by (simp_all add: cframe_def cache_inv_def calm_def)
  have refs: "brefcnt (bufs s c) \<noteq> 0" if "c \<in> H" for c using inv that by (auto simp: cache_inv_def buf_ok_def)
  have "bring L ?t = bring L s" for L by (rule bring_cong) simp_all
  then have ring: "\<exists>L. bring L ?t" using inv by (simp add: cache_inv_def)
  have "cache_inv H d p ?t"
    by (rule cache_step [OF inv _ fr _ ring]) (use vq refs b in \<open>auto split: if_splits\<close>)
  moreover have st: "bufof d m ?t = bufof d m s" for m by (rule bufof_same) simp_all
  moreover have "view d ?t = view d s" by (rule view_same) (simp_all add: st)
  moreover have "held s = {}" using inv by (simp add: cache_inv_def calm_def)
  ultimately show ?thesis using bunpin_eq [of s b] fr unfolding kept_def by (intro exI [of _ ?t] conjI allI) simp_all
qed

lemma modify_done:
  fixes f :: "nat \<Rightarrow> u8"
  assumes inv: "cache_inv H d p s" and b: "b \<in> H" "bblockno (bufs s b) = n"
  defines "t \<equiv> s\<lparr>bufs := (bufs s)(b := (bufs s b)\<lparr>bdata := f\<rparr>)\<rparr>"
  shows "cache_inv H d p t" "view d t = (view d s)(n := block f)" "bufof d m t = bufof d m s"
proof -
  have fr: "cframe s t" and vq: "vq_idle s" using inv by (simp_all add: cframe_def cache_inv_def calm_def t_def)
  have bo: "b < NBUF" "bvalid (bufs s b) \<noteq> 0" "bdev (bufs s b) = d" using inv b by (auto simp: cache_inv_def buf_ok_def)
  have refs: "brefcnt (bufs s c) \<noteq> 0" if "c \<in> H" for c using inv that by (auto simp: cache_inv_def buf_ok_def)
  have "bring L t = bring L s" for L by (rule bring_cong) (simp_all add: t_def)
  then have ring: "\<exists>L. bring L t" using inv by (simp add: cache_inv_def)
  show "cache_inv H d p t"
    by (rule cache_step [OF inv _ fr _ ring]) (use vq refs b in \<open>auto simp: t_def split: if_splits\<close>)
  show same: "bufof d m t = bufof d m s" for m by (rule bufof_same) (simp_all add: t_def)
  have one: "cached_once d s" using inv by (simp add: cache_inv_def)
  have n: "bufof d n s = Some b" using bo b by (simp add: bufof_iff [OF one])
  have tb: "bufs t = (bufs s)(b := (bufs s b)\<lparr>bdata := f\<rparr>)" "img t = img s" by (simp_all add: t_def)
  show "view d t = (view d s)(n := block f)"
  proof
    fix m
    show "view d t m = ((view d s)(n := block f)) m"
    proof (cases "m = n")
      case True
      then show ?thesis using bo(2) by (simp add: view_def [of d t] same n tb)
    next
      case False
      then have "bufof d m s \<noteq> Some b" using b(2) by (auto simp: bufof_iff [OF one])
      then show ?thesis using False by (cases "bufof d m s") (simp_all add: view_def same tb)
    qed
  qed
qed

section \<open>The cache at boot\<close>

lemma to_ring_same:
  "bdev (bufs (to_ring b s) c) = bdev (bufs s c)" "bblockno (bufs (to_ring b s) c) = bblockno (bufs s c)"
  "bvalid (bufs (to_ring b s) c) = bvalid (bufs s c)" "brefcnt (bufs (to_ring b s) c) = brefcnt (bufs s c)"
  "vq_idle (to_ring b s) = vq_idle s" "img (to_ring b s) = img s"
  "slocks (to_ring b s) = (slocks s)(BufSlk b := \<lparr>slocked = 0, spid = 0\<rparr>)" "procs (to_ring b s) = procs s"
  "held s = {} \<Longrightarrow> cblank (to_ring b s) = cblank s" "held (to_ring b s) = held s - {BufSleep b}"
  by (simp_all add: to_ring_def Let_def initsleeplock_def initlock_def slk_def vq_idle_def cblank_sel)

lemma fold_ring_same:
  fixes n :: nat and s :: "'a kdisk_scheme"
  assumes "held s = {}"
  defines "t \<equiv> fold to_ring [0..<n] s"
  shows "held t = {}" "cblank t = cblank s" "bdev (bufs t c) = bdev (bufs s c)" "bblockno (bufs t c) = bblockno (bufs s c)"
    "bvalid (bufs t c) = bvalid (bufs s c)" "brefcnt (bufs t c) = brefcnt (bufs s c)" "vq_idle t = vq_idle s" "img t = img s" "procs t = procs s"
    "b < n \<Longrightarrow> slocked (slocks t (BufSlk b)) = 0"
  unfolding t_def by (induction n) (auto simp: assms(1) to_ring_same less_Suc_eq)

lemma binit_boot:
  assumes "calm p s" "\<forall>b<NBUF. bdev (bufs s b) \<noteq> d"
  shows "\<exists>t. binit s = Ok () t \<and> bring (rev [0..<NBUF]) t \<and> cache_inv {} d p t \<and> img t = img s \<and> cframe s t \<and>
    (\<forall>c. bdev (bufs t c) = bdev (bufs s c) \<and> brefcnt (bufs t c) = brefcnt (bufs s c)) \<and> (\<forall>b<NBUF. slocked (slocks t (BufSlk b)) = 0)"
proof -
  let ?s = "upd_buf bhead (bnext_update (\<lambda>_. bhead)) (upd_buf bhead (bprev_update (\<lambda>_. bhead)) (initlock BcacheLock s))"
  let ?t = "fold to_ring [0..<NBUF] ?s"
  have h: "held s = {}" "held ?s = {}" using assms(1) by (simp_all add: calm_def initlock_def)
  have i: "initlock BcacheLock s = s" using h by (simp add: initlock_def)
  note f = fold_ring_same [OF h(2)]
  have s: "bdev (bufs ?s c) = bdev (bufs s c)" "brefcnt (bufs ?s c) = brefcnt (bufs s c)" "vq_idle ?s = vq_idle s" "img ?s = img s" "procs ?s = procs s"
    "cblank ?s = cblank s" for c by (simp_all add: i)
  define t where "t = ?t"
  have b: "binit s = Ok () t" unfolding t_def by (rule binit_eq)
  have r: "bring (rev [0..<NBUF]) t" unfolding bring_def t_def by (auto intro!: binit_chain)
  have t: "bdev (bufs t c) = bdev (bufs s c)" "brefcnt (bufs t c) = brefcnt (bufs s c)" "vq_idle t = vq_idle s" "img t = img s" for c
    unfolding t_def by (simp_all only: f s)
  have sl: "slocked (slocks t (BufSlk b)) = 0" if "b < NBUF" for b unfolding t_def by (rule f(10) [OF that])
  have fr: "cframe s t" unfolding cframe_def t_def by (simp only: f s sched_eq_refl)
  have cm: "calm p t" by (rule calm_cframe [OF assms(1) fr]) (use assms(1) in \<open>simp add: t calm_def\<close>)
  have "cache_inv {} d p t"
    unfolding cache_inv_def cached_once_def buf_ok_def using r cm assms(2) sl by (auto simp: t)
  then show ?thesis using b r fr sl t by (intro exI [of _ t] conjI allI impI)
qed

section \<open>Properties\<close>

text \<open>
  (C20) The list of the buffer cache. \<^verbatim>\<open>binit\<close> links all buffers into one doubly linked ring; \<^verbatim>\<open>bget\<close> returns the
  buffer that has the block, or else recycles the unreferenced buffer released longest ago, and panics exactly if all
  are referenced; \<^verbatim>\<open>brelse\<close> moves a buffer that nobody references any more to the front and keeps the order
  otherwise. The list stays a ring of all buffers throughout.
\<close>

theorem bcache_ring:
  "(\<exists>t. binit s = Ok () t \<and> bring (rev [0..<NBUF]) t) \<and>
   (calm p s \<and> bring L s \<longrightarrow>
     (b < NBUF \<and> slocks s (BufSlk b) = my_lock p s \<longrightarrow>
        (\<exists>t. brelse b s = Ok () t \<and> bring (if brefcnt (bufs s b) = 1 then b # remove1 b L else L) t)) \<and>
     ((\<forall>b<NBUF. slocked (slocks s (BufSlk b)) = 0) \<longrightarrow>
        (case find (\<lambda>b. bdev (bufs s b) = d \<and> bblockno (bufs s b) = n) L of
           Some b \<Rightarrow> \<exists>t. bget d n s = Ok b t \<and> bring L t
         | None \<Rightarrow>
            (case find (\<lambda>b. brefcnt (bufs s b) = 0) (rev L) of
               Some b \<Rightarrow> \<exists>t. bget d n s = Ok b t \<and> bring L t \<and> bdev (bufs t b) = d \<and> bblockno (bufs t b) = n \<and> brefcnt (bufs t b) = 1
             | None \<Rightarrow> bget d n s = Panic ''bget: no buffers''))))"
proof (intro conjI impI, goal_cases)
  case 1
  show ?case by (rule binit_ring)
next
  case 2
  then obtain ps where ps: "brelse b s = Ok () (released b (s\<lparr>slocks := (slocks s)(BufSlk b := \<lparr>slocked = 0, spid = 0\<rparr>), procs := ps\<rparr>))"
    using brelse_eq [of p s b] by blast
  show ?case by (rule exI, rule conjI, rule ps)
      (use released_ring [of L "s\<lparr>slocks := (slocks s)(BufSlk b := \<lparr>slocked = 0, spid = 0\<rparr>), procs := ps\<rparr>" b] 2 in \<open>simp add: bring_def\<close>)
next
  case 3
  then have L: "bring L s" and cm: "held s = {}" "myproc s = Some p" "0 < patience s" and sL: "set L = {0..<NBUF}"
    by (auto simp: calm_def bring_def)
  have lk: "acquiresleep (BufSlk b) (s\<lparr>bufs := x\<rparr>) = Ok () (s\<lparr>bufs := x, slocks := (slocks s)(BufSlk b := my_lock p s)\<rparr>)" if "b \<in> set L" for b x
    using acquiresleep_free [of "BufSlk b" "s\<lparr>bufs := x\<rparr>" p] that 3 cm sL by (simp add: myproc_def)
  have ring: "bring L (s\<lparr>bufs := (bufs s)(b := x), slocks := y\<rparr>)" if "bnext x = bnext (bufs s b)" "bprev x = bprev (bufs s b)" for b x y
    using that L bring_cong [of "s\<lparr>bufs := (bufs s)(b := x), slocks := y\<rparr>" s L] by auto
  show ?case
    by (auto simp: bget_eq [OF L cm(1)] lk ring dest!: find_in split: option.split)
qed

theorem bcache_ring_witness:
  "\<exists>t u. binit disk_machine = Ok () t \<and> bget 1 7 t = Ok 0 u \<and> bring (rev [0..<NBUF]) u"
proof -
  have "calm 0 disk_machine" using disk_machine_ok by (simp add: calm_def NPROC_def)
  moreover have "\<forall>b<NBUF. bdev (bufs disk_machine b) \<noteq> 1" by (simp add: disk_machine_def zero_machine_def zero_buf_def)
  ultimately obtain t where t: "binit disk_machine = Ok () t" "bring (rev [0..<NBUF]) t" "cache_inv {} 1 0 t"
    "\<forall>c. bdev (bufs t c) = bdev (bufs disk_machine c) \<and> brefcnt (bufs t c) = brefcnt (bufs disk_machine c)"
    "\<forall>b<NBUF. slocked (slocks t (BufSlk b)) = 0" using binit_boot [of 0 disk_machine 1] by blast
  have z: "bdev (bufs t c) = 0" "brefcnt (bufs t c) = 0" for c using t(4) by (simp_all add: disk_machine_def zero_machine_def zero_buf_def)
  have "find (\<lambda>b. bdev (bufs t b) = 1 \<and> bblockno (bufs t b) = 7) (rev [0..<NBUF]) = None" by (simp add: z find_None_iff)
  moreover have "find (\<lambda>b. brefcnt (bufs t b) = 0) (rev (rev [0..<NBUF])) = Some 0"
    by (simp add: z NBUF_def MAXOPBLOCKS_def upt_rec)
  moreover have "calm 0 t" using t(3) by (simp add: cache_inv_def)
  ultimately have "\<exists>u. bget 1 7 t = Ok 0 u \<and> bring (rev [0..<NBUF]) u"
    using bcache_ring [of t 0 "rev [0..<NBUF]" 0 1 7] t(2,5) by auto
  then show ?thesis using t(1) by blast
qed

end
