(* ===== verification/Blockops.thy ===== *)
theory Blockops
  imports Bcache
begin

text \<open>
  Sequences of block operations run against the device, with the disk contents that a crash may leave: rules for
  reading, changing, writing and releasing blocks, and for loops over them.
\<close>

section \<open>Runs and their crash states\<close>

text \<open>\<open>does K r Q\<close>: the run of \<open>r\<close> ends in a state with \<open>Q\<close>, and all disk contents on the way satisfy \<open>K\<close>.\<close>

definition does :: "((nat \<Rightarrow> u8) \<Rightarrow> bool) \<Rightarrow> ('a kdisk_scheme, 'r) out \<Rightarrow> ('r \<Rightarrow> 'a kdisk_scheme \<Rightarrow> bool) \<Rightarrow> bool" where
  "does K r Q \<longleftrightarrow> (\<exists>x t. drive r = Ok x t \<and> (\<forall>im\<in>crash_imgs r. K im) \<and> Q x t)"

lemma does_Ok: "K (img s) \<Longrightarrow> Q x s \<Longrightarrow> does K (Ok x s) Q"
  by (simp add: does_def)

lemma does_bnd:
  assumes "does K r P" "\<And>x t. P x t \<Longrightarrow> does K (f x t) Q"
  shows "does K (bnd r f) Q"
proof -
  obtain x t where r: "drive r = Ok x t" "\<forall>im\<in>crash_imgs r. K im" "P x t" using assms(1) by (auto simp: does_def)
  obtain y u where f: "drive (f x t) = Ok y u" "\<forall>im\<in>crash_imgs (f x t). K im" "Q y u" using assms(2) [OF r(3)] by (auto simp: does_def)
  show ?thesis unfolding does_def using r f crash_bnd [OF r(1), of f] by (auto simp: drive_bnd)
qed

lemma does_mono: "does K r Q \<Longrightarrow> (\<And>im. K im \<Longrightarrow> K' im) \<Longrightarrow> (\<And>x t. Q x t \<Longrightarrow> Q' x t) \<Longrightarrow> does K' r Q'"
  by (auto simp: does_def)

lemma does_foreach:
  assumes "I 0 s" "\<And>t. I 0 t \<Longrightarrow> K (img t)" "\<And>i t. i < n \<Longrightarrow> I i t \<Longrightarrow> does K (f i t) (\<lambda>_. I (Suc i))"
  shows "does K (foreach [0..<n] f s) (\<lambda>_. I n)"
proof -
  have "does K (foreach [0..<k] f s) (\<lambda>_. I k)" if "k \<le> n" for k
    using that
  proof (induction k)
    case 0
    then show ?case using assms(1,2) by (simp add: does_Ok)
  next
    case (Suc k)
    then show ?case using assms(3) by (auto simp: foreach_snoc intro: does_bnd)
  qed
  then show ?thesis by simp
qed

section \<open>Block operations\<close>

lemma does_now: "\<exists>t. r = Ok () t \<and> Q t \<and> img t = im \<Longrightarrow> K im \<Longrightarrow> does K r (\<lambda>_. Q)"
  by (auto simp: does_def)

lemma does_bread:
  assumes "cache_inv H d p s" "unat n < 2 ^ 31" "\<And>b. bufof d n s = Some b \<Longrightarrow> b \<notin> H \<and> brefcnt (bufs s b) + 1 \<noteq> 0"
    and "bufof d n s = None \<Longrightarrow> \<exists>b<NBUF. brefcnt (bufs s b) = 0" "K (img s)"
  shows "does K (bread d n s) (fetched H d p n s)"
  using bread_fetched [OF assms(1-4)] assms(5) by (auto simp: does_def)

lemma does_bwrite:
  assumes "cache_inv H d p s" "b \<in> H" "bblockno (bufs s b) = n" "unat n < 2 ^ 31" "K (img s)"
    and "\<And>im. stored n (block (bdata (bufs s b))) (img s) im \<Longrightarrow> K im"
  shows "does K (bwrite b s) (\<lambda>_ t. cache_inv H d p t \<and> stored n (block (bdata (bufs s b))) (img s) (img t) \<and> view d t = view d s \<and>
    cframe s t \<and> bufs t = (bufs s)(b := (bufs s b)\<lparr>bdisk := 0\<rparr>))"
proof -
  obtain t where t: "drive (bwrite b s) = Ok () t" "crash_imgs (bwrite b s) \<subseteq> {img s, img t}" "stored n (block (bdata (bufs s b))) (img s) (img t)"
    and r: "cache_inv H d p t" "view d t = view d s" "cframe s t" "bufs t = (bufs s)(b := (bufs s b)\<lparr>bdisk := 0\<rparr>)"
    using bwrite_stored [OF assms(1-4)] by (elim exE conjE) (rule that)
  have "K im" if "im \<in> crash_imgs (bwrite b s)" for im using that t(2) assms(5) assms(6) [OF t(3)] by auto
  then show ?thesis unfolding does_def using t(1,3) r by (intro exI [of _ "()"] exI [of _ t] conjI ballI)
qed

lemma does_brelse:
  assumes "cache_inv H d p s" "b \<in> H" "K (img s)"
    and "brefcnt (bufs s b) = 1 \<Longrightarrow> block (bdata (bufs s b)) = iblock (img s) (bblockno (bufs s b))"
  shows "does K (brelse b s) (\<lambda>_ t. cache_inv (H - {b}) d p t \<and> kept d b (\<lambda>x. x - 1) s t)"
  by (rule does_now [where im = "img s"]) (use brelse_done [OF assms(1,2,4)] assms(3) in \<open>unfold kept_def, blast+\<close>)

lemma does_bunpin:
  assumes "cache_inv H d p s" "b \<in> H" "brefcnt (bufs s b) \<noteq> 1" "K (img s)"
  shows "does K (bunpin b s) (\<lambda>_ t. cache_inv H d p t \<and> kept d b (\<lambda>x. x - 1) s t)"
  by (rule does_now [where im = "img s"]) (use bunpin_done [OF assms(1-3)] assms(4) in \<open>unfold kept_def, blast+\<close>)

text \<open>A buffer of the set shows its block; an unreferenced one agrees with the disk.\<close>

lemma view_held:
  assumes "cache_inv H d p s" "b \<in> H" "bufof d n s = Some b"
  shows "block (bdata (bufs s b)) = view d s n" "bblockno (bufs s b) = n"
proof -
  have one: "cached_once d s" and b: "b < NBUF" "buf_ok H d p s b" using assms(1,2) by (auto simp: cache_inv_def)
  show "bblockno (bufs s b) = n" using assms(3) by (simp add: bufof_iff [OF one])
  show "block (bdata (bufs s b)) = view d s n" using b(2) assms(2,3) by (simp add: buf_ok_def view_def)
qed

lemma view_clean:
  assumes "cache_inv H d p s" "\<And>b. bufof d n s = Some b \<Longrightarrow> brefcnt (bufs s b) = 0"
  shows "view d s n = iblock (img s) n"
proof (cases "bufof d n s")
  case (Some b)
  have one: "cached_once d s" using assms(1) by (simp add: cache_inv_def)
  have b: "b < NBUF" "bdev (bufs s b) = d" "bblockno (bufs s b) = n" using Some by (simp_all add: bufof_iff [OF one])
  then have "buf_ok H d p s b" using assms(1) by (simp add: cache_inv_def)
  then show ?thesis using Some b assms(2) [OF Some] by (simp add: buf_ok_def view_def)
qed (simp add: view_def)

end
