(* ===== verification/Logspec.thy ===== *)
theory Logspec
  imports Blockops Log
begin

text \<open>
  The steps of the log over the block store: copying one block to another, writing and reading the header, and the loops
  that install and record a transaction.
\<close>

section \<open>Copying a block\<close>

lemma bdata_copy: "bdata_update (\<lambda>y. copy_block y g) x = x\<lparr>bdata := copy_block (bdata x) g\<rparr>"
  by (cases x) simp

lemma block_copy [simp]: "block (copy_block f g) = block g"
  by (simp add: block_def copy_block_def)

text \<open>The effect on the references.\<close>

definition drops :: "(nat \<Rightarrow> u32) \<Rightarrow> 'a kdisk_scheme \<Rightarrow> 'a kdisk_scheme \<Rightarrow> bool" where
  "drops f s t \<longleftrightarrow> (\<forall>c. brefcnt (bufs t c) = brefcnt (bufs s c) - f c)"

lemma does_write_release:
  fixes s :: "'a kdisk_scheme" and u :: bool
  assumes inv: "cache_inv {w, r} d p s" and wr: "w \<noteq> r" "bufof d nw s = Some w" "bufof d nr s = Some r" "unat nw < 2 ^ 31"
    and K: "K (img s)" "\<And>im. stored nw (view d s nr) (img s) im \<Longrightarrow> K im"
    and clean: "brefcnt (bufs s r) = 1 \<Longrightarrow> view d s nr = iblock (img s) nr"
    and unpin: "u \<Longrightarrow> brefcnt (bufs s w) \<noteq> 1"
  defines "s1 \<equiv> upd_buf w (bdata_update (\<lambda>x. copy_block x (bdata (bufs s r)))) s"
  shows "does K (bnd (bwrite w s1) (\<lambda>_ s. bnd (if u then bunpin w s else Ok () s) (\<lambda>_ s. bnd (brelse r s) (\<lambda>_ s. brelse w s))))
    (\<lambda>_ t. cache_inv {} d p t \<and> stored nw (view d s nr) (img s) (img t) \<and> view d t = (view d s)(nw := view d s nr) \<and> cframe s t \<and>
       (\<forall>m. bufof d m t = bufof d m s) \<and> drops (\<lambda>c. (if c = r then 1 else 0) + (if c = w then if u then 2 else 1 else 0)) s t)"
proof -
  have vr: "block (bdata (bufs s r)) = view d s nr" and nr: "bblockno (bufs s r) = nr" and nw: "bblockno (bufs s w) = nw"
    using view_held [OF inv, of r nr] view_held [OF inv, of w nw] wr by simp_all
  have neq: "nw \<noteq> nr" using wr(1-3) by auto
  have s1: "s1 = s\<lparr>bufs := (bufs s)(w := (bufs s w)\<lparr>bdata := copy_block (bdata (bufs s w)) (bdata (bufs s r))\<rparr>)\<rparr>"
    unfolding s1_def bdata_copy by (rule refl)
  have wH: "w \<in> {w, r}" by simp
  note md = modify_done [OF inv wH nw, where f = "copy_block (bdata (bufs s w)) (bdata (bufs s r))", folded s1]
  note i1 = md(1) and b1 = md(3) and v1 = md(2) [unfolded block_copy vr]
  have f1: "img s1 = img s" "cframe s s1" "brefcnt (bufs s1 c) = brefcnt (bufs s c)" "bblockno (bufs s1 c) = bblockno (bufs s c)"
    "block (bdata (bufs s1 w)) = view d s nr" for c
    by (simp_all add: s1 vr cframe_def)
  show ?thesis
  proof (rule does_bnd [OF does_bwrite [OF i1 wH _ wr(4)]])
    show "bblockno (bufs s1 w) = nw" "K (img s1)" using f1 nw K by simp_all
    show "K im" if "stored nw (block (bdata (bufs s1 w))) (img s1) im" for im using that f1 K(2) by simp
    fix x t assume t: "cache_inv {w, r} d p t \<and> stored nw (block (bdata (bufs s1 w))) (img s1) (img t) \<and> view d t = view d s1 \<and>
      cframe s1 t \<and> bufs t = (bufs s1)(w := (bufs s1 w)\<lparr>bdisk := 0\<rparr>)"
    have it: "cache_inv {w, r} d p t" using t by blast
    have st: "stored nw (view d s nr) (img s) (img t)" and Kt: "K (img t)" and rt: "brefcnt (bufs t c) = brefcnt (bufs s c)"
      and bt: "bufof d m t = bufof d m s" and ft: "cframe s t" and vt: "view d t = (view d s)(nw := view d s nr)" for c m
      using t f1 K(2) cframe_trans [OF f1(2)] bufof_same [of t s1 d m] b1 v1 by auto
    show "does K (bnd (if u then bunpin w t else Ok () t) (\<lambda>_ s. bnd (brelse r s) (\<lambda>_ s. brelse w s)))
      (\<lambda>_ t. cache_inv {} d p t \<and> stored nw (view d s nr) (img s) (img t) \<and> view d t = (view d s)(nw := view d s nr) \<and> cframe s t \<and>
       (\<forall>m. bufof d m t = bufof d m s) \<and> drops (\<lambda>c. (if c = r then 1 else 0) + (if c = w then if u then 2 else 1 else 0)) s t)"
    proof (rule does_bnd)
      show "does K (if u then bunpin w t else Ok () t) (\<lambda>_ t'. cache_inv {w, r} d p t' \<and> kept d w (\<lambda>x. if u then x - 1 else x) t t')"
      proof (cases u)
        case True
        then have "brefcnt (bufs t w) \<noteq> 1" using unpin rt [of w] by simp
        from does_bunpin [where K = K, OF it wH this Kt] show ?thesis using True by simp
      next
        case False
        then show ?thesis using it Kt by (simp add: does_Ok kept_def)
      qed
      fix x1 t1 assume t1: "cache_inv {w, r} d p t1 \<and> kept d w (\<lambda>x. if u then x - 1 else x) t t1"
      then have k1: "view d t1 = view d t" "img t1 = img t" "cframe t t1" "bufof d m t1 = bufof d m t"
        "brefcnt (bufs t1 c) = (if c = w then if u then brefcnt (bufs s c) - 1 else brefcnt (bufs s c) else brefcnt (bufs s c))" for c m
        by (simp_all add: kept_def rt)
      have r1: "block (bdata (bufs t1 r)) = view d s nr" "bblockno (bufs t1 r) = nr"
        using view_held [of "{w, r}" d p t1 r nr] t1 wr neq by (simp_all add: k1 bt vt)
      show "does K (bnd (brelse r t1) (\<lambda>_ s. brelse w s))
        (\<lambda>_ t. cache_inv {} d p t \<and> stored nw (view d s nr) (img s) (img t) \<and> view d t = (view d s)(nw := view d s nr) \<and> cframe s t \<and>
         (\<forall>m. bufof d m t = bufof d m s) \<and> drops (\<lambda>c. (if c = r then 1 else 0) + (if c = w then if u then 2 else 1 else 0)) s t)"
      proof (rule does_bnd [OF does_brelse [of "{w, r}" d p t1 r K]])
        show "cache_inv {w, r} d p t1" "r \<in> {w, r}" "K (img t1)" using t1 Kt k1 by simp_all
        show "block (bdata (bufs t1 r)) = iblock (img t1) (bblockno (bufs t1 r))" if "brefcnt (bufs t1 r) = 1"
          using that clean wr(1) st neq by (simp add: r1 k1 stored_def)
        fix x2 t2 assume t2: "cache_inv ({w, r} - {r}) d p t2 \<and> kept d r (\<lambda>x. x - 1) t1 t2"
        then have i2: "cache_inv {w} d p t2" and k2: "view d t2 = view d t" "img t2 = img t" "cframe t1 t2" "bufof d m t2 = bufof d m s"
          "brefcnt (bufs t2 c) = (if c = r then brefcnt (bufs t1 c) - 1 else brefcnt (bufs t1 c))" for m c
          using wr(1) by (simp_all add: kept_def k1 bt insert_Diff_if)
        have r2: "block (bdata (bufs t2 w)) = iblock (img t2) (bblockno (bufs t2 w))"
          using view_held [OF i2, of w nw] wr st by (simp add: k2 vt stored_def)
        show "does K (brelse w t2) (\<lambda>_ t. cache_inv {} d p t \<and> stored nw (view d s nr) (img s) (img t) \<and> view d t = (view d s)(nw := view d s nr) \<and>
          cframe s t \<and> (\<forall>m. bufof d m t = bufof d m s) \<and> drops (\<lambda>c. (if c = r then 1 else 0) + (if c = w then if u then 2 else 1 else 0)) s t)"
        proof (rule does_mono [OF does_brelse [OF i2, of w K]])
          fix x3 t3 assume t3: "cache_inv ({w} - {w}) d p t3 \<and> kept d w (\<lambda>x. x - 1) t2 t3"
          show "cache_inv {} d p t3 \<and> stored nw (view d s nr) (img s) (img t3) \<and> view d t3 = (view d s)(nw := view d s nr) \<and>
            cframe s t3 \<and> (\<forall>m. bufof d m t3 = bufof d m s) \<and> drops (\<lambda>c. (if c = r then 1 else 0) + (if c = w then if u then 2 else 1 else 0)) s t3"
            using t3 st vt wr(1) cframe_trans [OF ft cframe_trans [OF k1(3) k2(3)]] cframe_trans
            by (auto simp: kept_def k2 drops_def k1)
        qed (use Kt r2 k2 in simp_all)
      qed
    qed
  qed
qed

text \<open>References are 0 or 1 while no buffer is held, and there is room for two more blocks.\<close>

definition few_refs :: "'a kdisk_scheme \<Rightarrow> bool" where
  "few_refs s \<longleftrightarrow> (\<forall>c<NBUF. brefcnt (bufs s c) = 0 \<or> brefcnt (bufs s c) = 1)"

definition room_for :: "u32 \<Rightarrow> u32 \<Rightarrow> 'a kdisk_scheme \<Rightarrow> bool" where
  "room_for d n s \<longleftrightarrow> (\<exists>x<NBUF. brefcnt (bufs s x) = 0 \<and>
     ((\<exists>y. bufof d n s = Some y \<and> brefcnt (bufs s y) \<noteq> 0) \<or> (\<exists>y<NBUF. y \<noteq> x \<and> brefcnt (bufs s y) = 0)))"

definition pins_kept :: "u32 \<Rightarrow> 'a kdisk_scheme \<Rightarrow> 'a kdisk_scheme \<Rightarrow> bool" where
  "pins_kept d s t \<longleftrightarrow> (\<forall>m c. bufof d m s = Some c \<longrightarrow> brefcnt (bufs s c) \<noteq> 0 \<longrightarrow> bufof d m t = Some c)"

definition both_read :: "u32 \<Rightarrow> nat \<Rightarrow> u32 \<Rightarrow> u32 \<Rightarrow> 'a kdisk_scheme \<Rightarrow> nat \<Rightarrow> nat \<Rightarrow> 'a kdisk_scheme \<Rightarrow> bool" where
  "both_read d p a b s x y t \<longleftrightarrow> cache_inv {x, y} d p t \<and> x \<noteq> y \<and> bufof d a t = Some x \<and> bufof d b t = Some y \<and>
     view d t = view d s \<and> img t = img s \<and> cframe s t \<and> pins_kept d s t \<and>
     (\<forall>c. brefcnt (bufs t c) = brefcnt (bufs s c) + (if c = x then 1 else 0) + (if c = y then 1 else 0))"

lemma small_Suc: "few_refs s \<Longrightarrow> c < NBUF \<Longrightarrow> brefcnt (bufs s c) + 1 \<noteq> 0"
  by (auto simp: few_refs_def)

lemma does_two_reads:
  assumes inv: "cache_inv {} d p s" and few: "few_refs s" and n: "a \<noteq> b" "unat a < 2 ^ 31" "unat b < 2 ^ 31"
    and room: "room_for d b s" and K: "K (img s)" and g: "\<And>t. cframe s t \<Longrightarrow> g t = d \<and> h t = b"
    and f: "\<And>x y t. both_read d p a b s x y t \<Longrightarrow> does K (f x y t) Q"
  shows "does K (bnd (bread d a s) (\<lambda>x s. bnd (bread (g s) (h s) s) (\<lambda>y s. f x y s))) Q"
proof (rule does_bnd [OF does_bread [OF inv n(2)]])
  have one: "cached_once d s" using inv by (simp add: cache_inv_def)
  have lt: "c < NBUF" if "bufof d m s = Some c" for m c using that by (simp add: bufof_iff [OF one])
  show "c \<notin> {} \<and> brefcnt (bufs s c) + 1 \<noteq> 0" if "bufof d a s = Some c" for c using lt [OF that] small_Suc [OF few] by simp
  show "\<exists>c<NBUF. brefcnt (bufs s c) = 0" using room by (auto simp: room_for_def)
  fix x t assume "fetched {} d p a s x t"
  then have t: "cache_inv {x} d p t" "x < NBUF" "bufof d a t = Some x" "view d t = view d s" "img t = img s" "cframe s t"
    and rt: "\<And>c. brefcnt (bufs t c) = (if c = x then brefcnt (bufs s c) + 1 else brefcnt (bufs s c))" and pt: "pins_kept d s t"
    by (auto simp: fetched_def pins_kept_def)
  have onet: "cached_once d t" using t(1) by (simp add: cache_inv_def)
  have "does K (bnd (bread d b t) (\<lambda>y s. f x y s)) Q"
  proof (rule does_bnd [OF does_bread [OF t(1) n(3)]])
    show "c \<notin> {x} \<and> brefcnt (bufs t c) + 1 \<noteq> 0" if "bufof d b t = Some c" for c
    proof -
      have "c < NBUF" "c \<noteq> x" using that t(3) n(1) by (auto simp: bufof_iff [OF onet])
      then show ?thesis using small_Suc [OF few] by (simp add: rt)
    qed
    show "\<exists>c<NBUF. brefcnt (bufs t c) = 0" if none: "bufof d b t = None"
    proof -
      obtain x1 y1 where "x1 < NBUF" "y1 < NBUF" "y1 \<noteq> x1" "brefcnt (bufs s x1) = 0" "brefcnt (bufs s y1) = 0"
        using room none pt unfolding room_for_def pins_kept_def by auto
      then show ?thesis by (cases "x1 = x") (auto simp: rt intro: exI [of _ y1] exI [of _ x1])
    qed
    show "K (img t)" using K t by simp
    fix y u assume "fetched {x} d p b t y u"
    then have u: "cache_inv {y, x} d p u" "y \<noteq> x" "bufof d b u = Some y" "view d u = view d t" "img u = img t" "cframe t u"
      and ru: "\<And>c. brefcnt (bufs u c) = (if c = y then brefcnt (bufs t c) + 1 else brefcnt (bufs t c))" and pu: "pins_kept d t u"
      by (auto simp: fetched_def pins_kept_def)
    have "brefcnt (bufs t x) \<noteq> 0" using small_Suc [OF few t(2)] by (simp add: rt)
    then have "bufof d a u = Some x" using pu t(3) by (simp add: pins_kept_def)
    moreover have "pins_kept d s u" unfolding pins_kept_def
    proof (intro allI impI)
      fix m c assume m: "bufof d m s = Some c" "brefcnt (bufs s c) \<noteq> 0"
      then have "bufof d m t = Some c" "brefcnt (bufs t c) \<noteq> 0" using pt small_Suc [OF few lt] by (auto simp: pins_kept_def rt)
      then show "bufof d m u = Some c" using pu by (simp add: pins_kept_def)
    qed
    ultimately have "both_read d p a b s x y u"
      using u t rt ru cframe_trans [OF t(6) u(6)] by (auto simp: both_read_def insert_commute)
    then show "does K (f x y u) Q" by (rule f)
  qed
  then show "does K (bnd (bread (g t) (h t) t) (\<lambda>y s. f x y s)) Q" using g [OF t(6)] by simp
qed (rule K)

section \<open>The two copies of the log\<close>

definition copied :: "bool \<Rightarrow> u32 \<Rightarrow> nat \<Rightarrow> u32 \<Rightarrow> u32 \<Rightarrow> 'a kdisk_scheme \<Rightarrow> 'a kdisk_scheme \<Rightarrow> bool" where
  "copied u d p a b s t \<longleftrightarrow> cache_inv {} d p t \<and> stored a (view d s b) (img s) (img t) \<and> view d t = (view d s)(a := view d s b) \<and>
     cframe s t \<and> pins_kept d s t \<and>
     (\<forall>c. brefcnt (bufs t c) = brefcnt (bufs s c) - (if u \<and> bufof d a s = Some c then 1 else 0))"

lemma read_clean:
  assumes "cache_inv {} d p s" "both_read d p a b s x y t"
  shows "brefcnt (bufs t x) = 1 \<Longrightarrow> view d t a = iblock (img t) a" "brefcnt (bufs t y) = 1 \<Longrightarrow> view d t b = iblock (img t) b"
proof -
  have t: "x \<noteq> y" "bufof d a t = Some x" "bufof d b t = Some y" "view d t = view d s" "img t = img s" "pins_kept d s t"
    and r: "\<And>c. brefcnt (bufs t c) = brefcnt (bufs s c) + (if c = x then 1 else 0) + (if c = y then 1 else 0)"
    using assms(2) by (auto simp: both_read_def)
  have k: "c = z" if "bufof d n s = Some c" "brefcnt (bufs s c) \<noteq> 0" "bufof d n t = Some z" for n c z
    using t(6) that unfolding pins_kept_def by auto
  show "view d t a = iblock (img t) a" if "brefcnt (bufs t x) = 1"
    unfolding t(4,5) by (rule view_clean [OF assms(1)]) (use k [OF _ _ t(2)] that t(1) in \<open>auto simp: r\<close>)
  show "view d t b = iblock (img t) b" if "brefcnt (bufs t y) = 1"
    unfolding t(4,5) by (rule view_clean [OF assms(1)]) (use k [OF _ _ t(3)] that t(1) in \<open>auto simp: r\<close>)
qed

lemma does_copy_out:
  assumes inv: "cache_inv {} d p s" and few: "few_refs s" and n: "a \<noteq> b" "unat a < 2 ^ 31" "unat b < 2 ^ 31"
    and room: "room_for d b s" and K: "K (img s)" "\<And>im. stored a (view d s b) (img s) im \<Longrightarrow> K im"
    and g: "\<And>t. cframe s t \<Longrightarrow> g t = d \<and> h t = b"
  shows "does K (bnd (bread d a s) (\<lambda>to s. bnd (bread (g s) (h s) s) (\<lambda>from s.
       let s = upd_buf to (bdata_update (\<lambda>d. copy_block d (bdata (bufs s from)))) s in
       bnd (bwrite to s) (\<lambda>_ s. bnd (brelse from s) (\<lambda>_ s. brelse to s)))))
     (\<lambda>_. copied False d p a b s)"
proof (rule does_two_reads [where K = K, OF inv few n room K(1) g])
  fix x y t assume br: "both_read d p a b s x y t"
  then have t: "cache_inv {x, y} d p t" "x \<noteq> y" "bufof d a t = Some x" "bufof d b t = Some y" "view d t = view d s" "img t = img s" "cframe s t" "pins_kept d s t"
    and r: "\<And>c. brefcnt (bufs t c) = brefcnt (bufs s c) + (if c = x then 1 else 0) + (if c = y then 1 else 0)"
    by (auto simp: both_read_def)
  note w = does_write_release [OF t(1-4) n(2), where u = False and K = K, simplified if_False bnd.simps]
  show "does K (let s = upd_buf x (bdata_update (\<lambda>d. copy_block d (bdata (bufs t y)))) t in
       bnd (bwrite x s) (\<lambda>_ s. bnd (brelse y s) (\<lambda>_ s. brelse x s))) (\<lambda>_. copied False d p a b s)"
    unfolding Let_def
  proof (rule does_mono [OF w])
    fix z u assume "cache_inv {} d p u \<and> stored a (view d t b) (img t) (img u) \<and> view d u = (view d t)(a := view d t b) \<and> cframe t u \<and>
       (\<forall>m. bufof d m u = bufof d m t) \<and> drops (\<lambda>c. (if c = y then 1 else 0) + (if c = x then 1 else 0)) t u"
    then show "copied False d p a b s u"
      using t cframe_trans [OF t(7)] by (auto simp: copied_def pins_kept_def drops_def r)
  qed (use K read_clean(2) [OF inv br] t in simp_all)
qed

lemma does_copy_in:
  assumes inv: "cache_inv {} d p s" and few: "few_refs s" and n: "b \<noteq> a" "unat b < 2 ^ 31" "unat a < 2 ^ 31"
    and room: "room_for d a s" and K: "K (img s)" "\<And>im. stored a (view d s b) (img s) im \<Longrightarrow> K im"
    and g: "\<And>t. cframe s t \<Longrightarrow> g t = d \<and> h t = a"
    and pin: "u \<Longrightarrow> \<exists>c. bufof d a s = Some c \<and> brefcnt (bufs s c) \<noteq> 0"
  shows "does K (bnd (bread d b s) (\<lambda>lbuf s. bnd (bread (g s) (h s) s) (\<lambda>dbuf s.
       let s = upd_buf dbuf (bdata_update (\<lambda>d. copy_block d (bdata (bufs s lbuf)))) s in
       bnd (bwrite dbuf s) (\<lambda>_ s. bnd (if u then bunpin dbuf s else Ok () s) (\<lambda>_ s. bnd (brelse lbuf s) (\<lambda>_ s. brelse dbuf s))))))
     (\<lambda>_. copied u d p a b s)"
proof (rule does_two_reads [where K = K, OF inv few n room K(1) g])
  fix x y t assume br: "both_read d p b a s x y t"
  then have t: "cache_inv {y, x} d p t" "y \<noteq> x" "bufof d a t = Some y" "bufof d b t = Some x" "view d t = view d s" "img t = img s" "cframe s t" "pins_kept d s t"
    and r: "\<And>c. brefcnt (bufs t c) = brefcnt (bufs s c) + (if c = x then 1 else 0) + (if c = y then 1 else 0)"
    by (auto simp: both_read_def insert_commute)
  have py: "bufof d a s = Some y \<and> brefcnt (bufs s y) \<noteq> 0" if u
    using pin [OF that] t(3,8) by (auto simp: pins_kept_def)
  have "brefcnt (bufs t y) \<noteq> 1" if u using py [OF that] t(2) by (simp add: r)
  note w = does_write_release [where K = K and u = u, OF t(1-4) n(3)]
  show "does K (let s = upd_buf y (bdata_update (\<lambda>d. copy_block d (bdata (bufs t x)))) t in
       bnd (bwrite y s) (\<lambda>_ s. bnd (if u then bunpin y s else Ok () s) (\<lambda>_ s. bnd (brelse x s) (\<lambda>_ s. brelse y s)))) (\<lambda>_. copied u d p a b s)"
    unfolding Let_def
  proof (rule does_mono [OF w])
    fix z v assume v: "cache_inv {} d p v \<and> stored a (view d t b) (img t) (img v) \<and> view d v = (view d t)(a := view d t b) \<and> cframe t v \<and>
       (\<forall>m. bufof d m v = bufof d m t) \<and> drops (\<lambda>c. (if c = x then 1 else 0) + (if c = y then if u then 2 else 1 else 0)) t v"
    then have "brefcnt (bufs v c) = brefcnt (bufs s c) - (if u \<and> bufof d a s = Some c then 1 else 0)" for c
      using py t(2) by (auto simp: drops_def r)
    then show "copied u d p a b s v"
      using v t cframe_trans [OF t(7)] by (auto simp: copied_def pins_kept_def)
  qed (use K read_clean(1) [OF inv br] t py r in auto)
qed

section \<open>The header block\<close>

lemma ld32_st32: "ld32 (st32 f off v) off = v"
  using le_bytes_byte_of [of 4 v] by (simp add: ld32_def st32_def cong: le_bytes_cong)

lemma ld32_st32_other: "off + 4 \<le> off' \<or> off' + 4 \<le> off \<Longrightarrow> ld32 (st32 f off v) off' = ld32 f off'"
  unfolding ld32_def by (rule le_bytes_cong) (auto simp: st32_def)

lemma ld32_put_blocks:
  "i < n \<Longrightarrow> ld32 (put_blocks n blks f) (4 + 4 * i) = blks i" "ld32 (put_blocks n blks f) 0 = ld32 f 0"
  by (induction n) (auto simp: ld32_st32 ld32_st32_other less_Suc_eq)

text \<open>The count and the block numbers in a header block.\<close>

definition hdr_count :: "u8 list \<Rightarrow> int" where
  "hdr_count bs = sint (ld32 ((!) bs) 0)"

definition hdr_block :: "u8 list \<Rightarrow> nat \<Rightarrow> u32" where
  "hdr_block bs i = ld32 ((!) bs) (4 + 4 * i)"

lemma ld32_block: "off + 4 \<le> BSIZE \<Longrightarrow> ld32 ((!) (block f)) off = ld32 f off"
  unfolding ld32_def by (rule le_bytes_cong) (simp add: block_def)

lemma hdr_of_block:
  "hdr_count (block f) = sint (ld32 f 0)" "i < LOGBLOCKS \<Longrightarrow> hdr_block (block f) i = ld32 f (4 + 4 * i)"
  by (simp_all add: hdr_count_def hdr_block_def ld32_block BSIZE_def LOGBLOCKS_def MAXOPBLOCKS_def)

lemma hdr_written:
  fixes f :: "nat \<Rightarrow> u8" and blks :: "nat \<Rightarrow> u32"
  assumes "0 \<le> n" "n \<le> int LOGBLOCKS"
  defines "v \<equiv> block (put_blocks (nat n) blks (st32 f 0 (word_of_int n)))"
  shows "hdr_count v = n" "i < nat n \<Longrightarrow> hdr_block v i = blks i"
proof -
  have "sint (word_of_int n :: u32) = n"
    using assms(1,2) by (simp add: signed_of_int signed_take_bit_int_eq_self LOGBLOCKS_def MAXOPBLOCKS_def)
  then show "hdr_count v = n" by (simp add: v_def hdr_of_block ld32_put_blocks ld32_st32)
  show "hdr_block v i = blks i" if "i < nat n" using that assms(2) by (simp add: v_def hdr_of_block ld32_put_blocks)
qed

section \<open>Updating one block\<close>

definition updated :: "u32 \<Rightarrow> nat \<Rightarrow> u32 \<Rightarrow> u8 list \<Rightarrow> 'a kdisk_scheme \<Rightarrow> 'a kdisk_scheme \<Rightarrow> bool" where
  "updated d p n v s t \<longleftrightarrow> cache_inv {} d p t \<and> stored n v (img s) (img t) \<and> view d t = (view d s)(n := v) \<and>
     cframe s t \<and> pins_kept d s t \<and> (\<forall>c. brefcnt (bufs t c) = brefcnt (bufs s c))"

lemma does_write_back:
  fixes s :: "'a kdisk_scheme" and f :: "nat \<Rightarrow> u8"
  assumes inv: "cache_inv {b} d p s" and b: "bufof d n s = Some b" "unat n < 2 ^ 31"
    and K: "K (img s)" "\<And>im. stored n (block f) (img s) im \<Longrightarrow> K im"
  shows "does K (bnd (bwrite b (s\<lparr>bufs := (bufs s)(b := (bufs s b)\<lparr>bdata := f\<rparr>)\<rparr>)) (\<lambda>_ s. brelse b s))
    (\<lambda>_ t. cache_inv {} d p t \<and> stored n (block f) (img s) (img t) \<and> view d t = (view d s)(n := block f) \<and> cframe s t \<and>
       (\<forall>m. bufof d m t = bufof d m s) \<and> (\<forall>c. brefcnt (bufs t c) = brefcnt (bufs s c) - (if c = b then 1 else 0)))"
proof -
  define s1 where "s1 = s\<lparr>bufs := (bufs s)(b := (bufs s b)\<lparr>bdata := f\<rparr>)\<rparr>"
  have bH: "b \<in> {b}" and nb: "bblockno (bufs s b) = n" using view_held [OF inv _ b(1)] by simp_all
  note md = modify_done [OF inv bH nb, where f = f, folded s1_def]
  have f1: "img s1 = img s" "cframe s s1" "brefcnt (bufs s1 c) = brefcnt (bufs s c)" "bblockno (bufs s1 c) = bblockno (bufs s c)"
    "bdata (bufs s1 b) = f" for c
    by (simp_all add: s1_def cframe_def)
  show ?thesis unfolding s1_def [symmetric]
  proof (rule does_bnd [OF does_bwrite [OF md(1) bH _ b(2)]])
    show "bblockno (bufs s1 b) = n" "K (img s1)" using f1 nb K by simp_all
    show "K im" if "stored n (block (bdata (bufs s1 b))) (img s1) im" for im using that f1 K(2) by simp
    fix x t assume t: "cache_inv {b} d p t \<and> stored n (block (bdata (bufs s1 b))) (img s1) (img t) \<and> view d t = view d s1 \<and>
      cframe s1 t \<and> bufs t = (bufs s1)(b := (bufs s1 b)\<lparr>bdisk := 0\<rparr>)"
    have it: "cache_inv {b} d p t" and st: "stored n (block f) (img s) (img t)" and Kt: "K (img t)" and rt: "brefcnt (bufs t c) = brefcnt (bufs s c)"
      and bt: "bufof d m t = bufof d m s" and ft: "cframe s t" and vt: "view d t = (view d s)(n := block f)" for c m
      using t f1 K(2) cframe_trans [OF f1(2)] bufof_same [of t s1 d m] md(2,3) by auto
    show "does K (brelse b t) (\<lambda>_ t. cache_inv {} d p t \<and> stored n (block f) (img s) (img t) \<and> view d t = (view d s)(n := block f) \<and> cframe s t \<and>
       (\<forall>m. bufof d m t = bufof d m s) \<and> (\<forall>c. brefcnt (bufs t c) = brefcnt (bufs s c) - (if c = b then 1 else 0)))"
    proof (rule does_mono [OF does_brelse [OF it bH, of K]])
      show "block (bdata (bufs t b)) = iblock (img t) (bblockno (bufs t b))"
        using view_held [OF it bH, of n] b(1) st by (simp add: bt vt stored_def)
      show "K (img t)" by (rule Kt)
      fix y u assume "cache_inv ({b} - {b}) d p u \<and> kept d b (\<lambda>x. x - 1) t u"
      then show "cache_inv {} d p u \<and> stored n (block f) (img s) (img u) \<and> view d u = (view d s)(n := block f) \<and> cframe s u \<and>
       (\<forall>m. bufof d m u = bufof d m s) \<and> (\<forall>c. brefcnt (bufs u c) = brefcnt (bufs s c) - (if c = b then 1 else 0))"
        using st vt bt rt cframe_trans [OF ft] by (auto simp: kept_def)
    qed
  qed
qed

lemma does_update:
  assumes inv: "cache_inv {} d p s" and few: "few_refs s" and n: "unat n < 2 ^ 31"
    and room: "bufof d n s = None \<Longrightarrow> \<exists>c<NBUF. brefcnt (bufs s c) = 0"
    and K: "K (img s)" "\<And>x im. block x = view d s n \<Longrightarrow> stored n (block (f x)) (img s) im \<Longrightarrow> K im"
    and g: "\<And>t. cframe s t \<Longrightarrow> g t = f"
  shows "does K (bnd (bread d n s) (\<lambda>b s. bnd (bwrite b (upd_buf b (bdata_update (g s)) s)) (\<lambda>_ s. brelse b s)))
    (\<lambda>_ t. \<exists>x. block x = view d s n \<and> updated d p n (block (f x)) s t)"
proof (rule does_bnd [OF does_bread [OF inv n _ room]])
  have one: "cached_once d s" using inv by (simp add: cache_inv_def)
  show "c \<notin> {} \<and> brefcnt (bufs s c) + 1 \<noteq> 0" if "bufof d n s = Some c" for c
    using that small_Suc [OF few, of c] by (simp add: bufof_iff [OF one])
  fix b t assume "fetched {} d p n s b t"
  then have t: "cache_inv {b} d p t" "bufof d n t = Some b" "view d t = view d s" "img t = img s" "cframe s t"
    and rt: "\<And>c. brefcnt (bufs t c) = (if c = b then brefcnt (bufs s c) + 1 else brefcnt (bufs s c))" and pt: "pins_kept d s t"
    by (auto simp: fetched_def pins_kept_def)
  let ?x = "bdata (bufs t b)"
  have x: "block ?x = view d s n" using view_held [OF t(1) _ t(2)] t(3) by simp
  have e: "upd_buf b (bdata_update (g t)) t = t\<lparr>bufs := (bufs t)(b := (bufs t b)\<lparr>bdata := f ?x\<rparr>)\<rparr>"
    using g [OF t(5)] by (cases "bufs t b") simp
  show "does K (bnd (bwrite b (upd_buf b (bdata_update (g t)) t)) (\<lambda>_ s. brelse b s)) (\<lambda>_ t. \<exists>x. block x = view d s n \<and> updated d p n (block (f x)) s t)"
    unfolding e
  proof (rule does_mono [OF does_write_back [where K = K and f = "f ?x", OF t(1,2) n]])
    show "K (img t)" "\<And>im. stored n (block (f ?x)) (img t) im \<Longrightarrow> K im" using K x t(4) by simp_all
    fix y u assume u: "cache_inv {} d p u \<and> stored n (block (f ?x)) (img t) (img u) \<and> view d u = (view d t)(n := block (f ?x)) \<and> cframe t u \<and>
       (\<forall>m. bufof d m u = bufof d m t) \<and> (\<forall>c. brefcnt (bufs u c) = brefcnt (bufs t c) - (if c = b then 1 else 0))"
    then have "updated d p n (block (f ?x)) s u"
      using t rt pt cframe_trans [OF t(5)] by (auto simp: updated_def pins_kept_def)
    then show "\<exists>x. block x = view d s n \<and> updated d p n (block (f x)) s u" using x by blast
  qed
qed (use K(1) in simp_all)

section \<open>Reading and writing the header\<close>

lemma log_fields:
  fixes s t :: "'a klog_scheme"
  assumes "cframe s t"
  shows "lh_n t = lh_n s" "lh_block t = lh_block s" "log_dev t = log_dev s" "log_start t = log_start s"
proof -
  have e: "cblank t = cblank s" using assms by (simp add: cframe_def)
  have "lh_n (cblank u) = lh_n u" "lh_block (cblank u) = lh_block u" "log_dev (cblank u) = log_dev u" "log_start (cblank u) = log_start u"
    for u :: "'a klog_scheme" by (simp_all add: cblank_def blank_def)
  then show "lh_n t = lh_n s" "lh_block t = lh_block s" "log_dev t = log_dev s" "log_start t = log_start s"
    using arg_cong [OF e, of lh_n] arg_cong [OF e, of lh_block] arg_cong [OF e, of log_dev] arg_cong [OF e, of log_start] by simp_all
qed

lemma does_write_head:
  assumes inv: "cache_inv {} (log_dev s) p s" and few: "few_refs s" and n: "unat (log_start s) < 2 ^ 31" "0 \<le> lh_n s" "lh_n s \<le> int LOGBLOCKS"
    and room: "\<exists>c<NBUF. brefcnt (bufs s c) = 0"
    and K: "K (img s)" "\<And>v im. hdr_count v = lh_n s \<Longrightarrow> (\<And>i. i < nat (lh_n s) \<Longrightarrow> hdr_block v i = lh_block s i) \<Longrightarrow> stored (log_start s) v (img s) im \<Longrightarrow> K im"
  shows "does K (write_head s) (\<lambda>_ t. \<exists>v. hdr_count v = lh_n s \<and> (\<forall>i<nat (lh_n s). hdr_block v i = lh_block s i) \<and>
    updated (log_dev s) p (log_start s) v s t)"
proof -
  let ?f = "\<lambda>x. put_blocks (nat (lh_n s)) (lh_block s) (st32 x 0 (word_of_int (lh_n s)))"
  let ?g = "\<lambda>s x. put_blocks (nat (lh_n s)) (lh_block s) (st32 x 0 (word_of_int (lh_n s)))"
  have h: "hdr_count (block (?f x)) = lh_n s" "i < nat (lh_n s) \<Longrightarrow> hdr_block (block (?f x)) i = lh_block s i" for x i
    using hdr_written [OF n(2,3)] by simp_all
  have "does K (bnd (bread (log_dev s) (log_start s) s) (\<lambda>b s. bnd (bwrite b (upd_buf b (bdata_update (?g s)) s)) (\<lambda>_ s. brelse b s)))
    (\<lambda>_ t. \<exists>x. block x = view (log_dev s) s (log_start s) \<and> updated (log_dev s) p (log_start s) (block (?f x)) s t)"
  proof (rule does_update [where K = K, OF inv few n(1) room K(1)])
    show "K im" if "block x = view (log_dev s) s (log_start s)" "stored (log_start s) (block (?f x)) (img s) im" for x im
      by (rule K(2) [OF h(1) h(2) that(2)])
    show "?g t = ?f" if "cframe s t" for t using log_fields [OF that] by simp
  qed
  then show ?thesis unfolding write_head_def Let_def
    by (rule does_mono) (use h in blast)+
qed

text \<open>The fields of the log are no part of the cache.\<close>

lemma bring_log [simp]: "bring L (s\<lparr>lh_n := x\<rparr>) = bring L s" "bring L (s\<lparr>lh_block := y\<rparr>) = bring L s"
  by (simp_all add: bring_def)

lemma bufof_log [simp]: "bufof d n (s\<lparr>lh_n := x\<rparr>) = bufof d n s" "bufof d n (s\<lparr>lh_block := y\<rparr>) = bufof d n s"
  by (simp_all add: bufof_def)

lemma view_log [simp]: "view d (s\<lparr>lh_n := x\<rparr>) = view d s" "view d (s\<lparr>lh_block := y\<rparr>) = view d s"
  by (simp_all add: view_def fun_eq_iff split: option.split)

lemma cache_log [simp]:
  "cache_inv H d p (s\<lparr>lh_n := x\<rparr>) = cache_inv H d p s" "cache_inv H d p (s\<lparr>lh_block := y\<rparr>) = cache_inv H d p s"
  by (simp_all add: cache_inv_def calm_def vq_idle_def cached_once_def buf_ok_def myproc_def)

lemma does_read_head:
  fixes s :: "'a klog_scheme"
  assumes inv: "cache_inv {} d p s" and few: "few_refs s" and n: "unat (log_start s) < 2 ^ 31" and d: "log_dev s = d"
    and room: "\<exists>c<NBUF. brefcnt (bufs s c) = 0" and K: "K (img s)"
    and v: "hdr_count (view d s (log_start s)) \<le> int LOGBLOCKS"
  shows "does K (read_head s) (\<lambda>_ t. cache_inv {} d p t \<and> view d t = view d s \<and> img t = img s \<and>
    (\<forall>c. brefcnt (bufs t c) = brefcnt (bufs s c)) \<and> log_dev t = d \<and> log_start t = log_start s \<and> tx_ready t = tx_ready s \<and> panicking t = panicking s \<and>
    lh_n t = hdr_count (view d s (log_start s)) \<and>
    (\<forall>i<nat (lh_n t). lh_block t i = hdr_block (view d s (log_start s)) i))"
  unfolding read_head_def d
proof (rule does_bnd [OF does_bread [OF inv n]])
  have one: "cached_once d s" using inv by (simp add: cache_inv_def)
  show "c \<notin> {} \<and> brefcnt (bufs s c) + 1 \<noteq> 0" if "bufof d (log_start s) s = Some c" for c
    using that small_Suc [OF few, of c] by (simp add: bufof_iff [OF one])
  fix b t assume "fetched {} d p (log_start s) s b t"
  then have t: "cache_inv {b} d p t" "bufof d (log_start s) t = Some b" "view d t = view d s" "img t = img s" "cframe s t"
    and rt: "\<And>c. brefcnt (bufs t c) = (if c = b then brefcnt (bufs s c) + 1 else brefcnt (bufs s c))" and pt: "pins_kept d s t"
    by (auto simp: fetched_def pins_kept_def)
  let ?f = "bdata (bufs t b)"
  let ?n = "sint (ld32 ?f 0)"
  have x: "block ?f = view d s (log_start s)" using view_held [OF t(1) _ t(2)] t(3) by simp
  have n: "?n = hdr_count (view d s (log_start s))" "i < nat ?n \<Longrightarrow> ld32 ?f (4 + 4 * i) = hdr_block (view d s (log_start s)) i" for i
    using v hdr_of_block [where f = ?f] by (simp_all add: x)
  let ?t = "t\<lparr>lh_n := ?n, lh_block := (\<lambda>i. if i < nat ?n then ld32 ?f (4 + 4 * i) else lh_block t i)\<rparr>"
  have cl: "block (bdata (bufs ?t b)) = iblock (img ?t) (bblockno (bufs ?t b))" if "brefcnt (bufs ?t b) = 1"
  proof -
    have "view d s (log_start s) = iblock (img s) (log_start s)"
      using view_clean [OF inv, of "log_start s"] that pt t(2) rt unfolding pins_kept_def by fastforce
    then show ?thesis using view_held [OF t(1) _ t(2)] t(4) x by simp
  qed
  have "does K (brelse b ?t) (\<lambda>_ u. cache_inv ({b} - {b}) d p u \<and> kept d b (\<lambda>x. x - 1) ?t u)"
    by (rule does_brelse [OF _ _ _ cl]) (use t K in simp_all)
  then show "does K (let lh = ?f; n = sint (ld32 lh 0); s = t\<lparr>lh_n := n, lh_block := (\<lambda>i. if i < nat n then ld32 lh (4 + 4 * i) else lh_block t i)\<rparr> in brelse b s)
    (\<lambda>_ t. cache_inv {} d p t \<and> view d t = view d s \<and> img t = img s \<and>
    (\<forall>c. brefcnt (bufs t c) = brefcnt (bufs s c)) \<and> log_dev t = d \<and> log_start t = log_start s \<and> tx_ready t = tx_ready s \<and> panicking t = panicking s \<and>
    lh_n t = hdr_count (view d s (log_start s)) \<and>
    (\<forall>i<nat (lh_n t). lh_block t i = hdr_block (view d s (log_start s)) i))"
    unfolding Let_def
  proof (rule does_mono)
    fix z u assume u: "cache_inv ({b} - {b}) d p u \<and> kept d b (\<lambda>x. x - 1) ?t u"
    then have fr: "cframe ?t u" by (simp add: kept_def)
    have tx: "tx_ready ?t = tx_ready t" "panicking ?t = panicking t" by (simp_all add: tx_ready_def)
    note lf = log_fields [OF fr] log_fields [OF t(5)] cframeD(6,7) [OF fr, unfolded tx] cframeD(6,7) [OF t(5)]
    show "cache_inv {} d p u \<and> view d u = view d s \<and> img u = img s \<and>
      (\<forall>c. brefcnt (bufs u c) = brefcnt (bufs s c)) \<and> log_dev u = d \<and> log_start u = log_start s \<and> tx_ready u = tx_ready s \<and> panicking u = panicking s \<and>
      lh_n u = hdr_count (view d s (log_start s)) \<and>
      (\<forall>i<nat (lh_n u). lh_block u i = hdr_block (view d s (log_start s)) i)"
      using u t rt n d by (auto simp: kept_def lf)
  qed
qed (use room K in auto)

end
