(* ===== verification/Logloops.thy ===== *)
theory Logloops
  imports Logspec
begin

text \<open>
  The loops of the log: recording the blocks of a transaction in the log area, and installing the recorded blocks at
  their home locations, with the disk contents that a crash may leave in between.
\<close>

section \<open>Layout\<close>

definition lblk :: "u32 \<Rightarrow> nat \<Rightarrow> u32" where
  "lblk hb i = hb + of_nat i + 1"

definition log_area :: "u32 \<Rightarrow> u32 set" where
  "log_area hb = {m. unat hb \<le> unat m \<and> unat m \<le> unat hb + LOGBLOCKS}"

text \<open>A transaction of \<open>n\<close> blocks that fits the log, with distinct home locations outside the log.\<close>

definition txn :: "u32 \<Rightarrow> nat \<Rightarrow> (nat \<Rightarrow> u32) \<Rightarrow> bool" where
  "txn hb n blks \<longleftrightarrow> unat hb + LOGBLOCKS < 2 ^ 31 \<and> n \<le> LOGBLOCKS \<and> (\<forall>i<n. unat (blks i) < 2 ^ 31 \<and> blks i \<notin> log_area hb) \<and>
     inj_on blks {..<n}"

lemma unat_lblk:
  assumes "unat hb + LOGBLOCKS < 2 ^ 31" "i < LOGBLOCKS"
  shows "unat (lblk hb i) = unat hb + i + 1"
  using assms by (simp add: lblk_def unat_word_ariths unat_of_nat mod_simps)

lemma lblk_facts:
  assumes "unat hb + LOGBLOCKS < 2 ^ 31" "i < LOGBLOCKS"
  shows "lblk hb i \<in> log_area hb" "lblk hb i \<noteq> hb" "unat (lblk hb i) < 2 ^ 31" "hb \<in> log_area hb"
    "j < LOGBLOCKS \<Longrightarrow> lblk hb i = lblk hb j \<longleftrightarrow> i = j"
proof -
  note u = unat_lblk [OF assms(1)]
  show "lblk hb i \<in> log_area hb" "unat (lblk hb i) < 2 ^ 31" using u [OF assms(2)] assms by (simp_all add: log_area_def)
  have "unat (lblk hb i) \<noteq> unat hb" using u [OF assms(2)] by simp
  then show "lblk hb i \<noteq> hb" by auto
  show "hb \<in> log_area hb" by (simp add: log_area_def)
  have "unat (lblk hb i) = unat (lblk hb j) \<Longrightarrow> i = j" if "j < LOGBLOCKS" unfolding u [OF assms(2)] u [OF that] by simp
  then show "lblk hb i = lblk hb j \<longleftrightarrow> i = j" if "j < LOGBLOCKS" using that by metis
qed

lemma txnD:
  assumes "txn hb n blks"
  shows "i < n \<Longrightarrow> i < LOGBLOCKS" "i < n \<Longrightarrow> unat (blks i) < 2 ^ 31" "i < n \<Longrightarrow> blks i \<noteq> hb" "i < n \<Longrightarrow> j < LOGBLOCKS \<Longrightarrow> blks i \<noteq> lblk hb j"
    "i < n \<Longrightarrow> j < n \<Longrightarrow> blks i = blks j \<longleftrightarrow> i = j" "unat hb + LOGBLOCKS < 2 ^ 31" "unat hb < 2 ^ 31"
proof -
  have g: "unat hb + LOGBLOCKS < 2 ^ 31" using assms by (simp add: txn_def)
  then show "unat hb + LOGBLOCKS < 2 ^ 31" "unat hb < 2 ^ 31" by simp_all
  show "i < n \<Longrightarrow> i < LOGBLOCKS" "i < n \<Longrightarrow> unat (blks i) < 2 ^ 31" using assms by (auto simp: txn_def)
  have hb: "hb \<in> log_area hb" by (simp add: log_area_def)
  show "blks i \<noteq> hb" if "i < n" using that assms hb by (auto simp: txn_def)
  show "blks i \<noteq> lblk hb j" if "i < n" "j < LOGBLOCKS" using that assms lblk_facts(1) [OF g that(2)] by (auto simp: txn_def)
  show "blks i = blks j \<longleftrightarrow> i = j" if "i < n" "j < n" using that assms by (auto simp: txn_def inj_on_def)
qed

text \<open>From the \<open>i\<close>-th on, the home blocks are cached and pinned, and nothing else is referenced.\<close>

definition pinned_from :: "nat \<Rightarrow> nat \<Rightarrow> (nat \<Rightarrow> u32) \<Rightarrow> u32 \<Rightarrow> 'a kdisk_scheme \<Rightarrow> bool" where
  "pinned_from i n blks d s \<longleftrightarrow> few_refs s \<and> (\<exists>x<NBUF. brefcnt (bufs s x) = 0) \<and>
     (\<forall>j. i \<le> j \<longrightarrow> j < n \<longrightarrow> (\<exists>c. bufof d (blks j) s = Some c \<and> brefcnt (bufs s c) \<noteq> 0)) \<and>
     (\<forall>c<NBUF. brefcnt (bufs s c) \<noteq> 0 \<longrightarrow> (\<exists>j. i \<le> j \<and> j < n \<and> bufof d (blks j) s = Some c))"

lemma few_same: "(\<And>c. brefcnt (bufs t c) = brefcnt (bufs s c)) \<Longrightarrow> few_refs t = few_refs s"
  by (simp add: few_refs_def)

lemma pinned_same:
  assumes "pinned_from i n blks d s" "pins_kept d s t" "\<And>c. brefcnt (bufs t c) = brefcnt (bufs s c)"
  shows "pinned_from i n blks d t"
proof -
  have k: "bufof d m t = Some c" if "bufof d m s = Some c" "brefcnt (bufs s c) \<noteq> 0" for m c
    using that assms(2) by (auto simp: pins_kept_def)
  show ?thesis using assms(1) k few_same [of t s, OF assms(3)] unfolding pinned_from_def assms(3) by blast
qed

lemma pinned_next:
  assumes p: "pinned_from i n blks d s" and i: "i < n" and k: "pins_kept d s t" and "txn hb n blks" and one: "cached_once d s"
    and r: "\<And>c. brefcnt (bufs t c) = brefcnt (bufs s c) - (if bufof d (blks i) s = Some c then 1 else 0)"
  shows "pinned_from (Suc i) n blks d t"
proof -
  obtain c where c: "bufof d (blks i) s = Some c" "brefcnt (bufs s c) \<noteq> 0" using p i by (auto simp: pinned_from_def)
  then have cN: "c < NBUF" by (simp add: bufof_iff [OF one])
  have c1: "brefcnt (bufs s c) = 1" using p c cN by (auto simp: pinned_from_def few_refs_def)
  have r': "brefcnt (bufs t e) = (if e = c then 0 else brefcnt (bufs s e))" for e using c c1 by (simp add: r)
  have other: "e \<noteq> c" if "bufof d (blks j) s = Some e" "Suc i \<le> j" "j < n" for e j
    using that c(1) txnD(5) [OF assms(4), of i j] i by (auto simp: bufof_iff [OF one])
  have "few_refs t" using p by (simp add: few_refs_def pinned_from_def r')
  moreover have "\<exists>x<NBUF. brefcnt (bufs t x) = 0" using cN by (auto simp: r')
  moreover have "\<exists>e. bufof d (blks j) t = Some e \<and> brefcnt (bufs t e) \<noteq> 0" if j: "Suc i \<le> j" "j < n" for j
  proof -
    obtain e where e: "bufof d (blks j) s = Some e" "brefcnt (bufs s e) \<noteq> 0"
      using p j unfolding pinned_from_def by (meson Suc_leD)
    then have "bufof d (blks j) t = Some e" using k by (auto simp: pins_kept_def)
    then show ?thesis using e other [OF e(1) j] by (auto simp: r')
  qed
  moreover have "\<exists>j. Suc i \<le> j \<and> j < n \<and> bufof d (blks j) t = Some e" if l: "e < NBUF" "brefcnt (bufs t e) \<noteq> 0" for e
  proof -
    have e: "e \<noteq> c" "brefcnt (bufs s e) \<noteq> 0" using l by (auto simp: r' split: if_splits)
    then obtain j where j: "i \<le> j" "j < n" "bufof d (blks j) s = Some e" using p l by (auto simp: pinned_from_def)
    then have "j \<noteq> i" "bufof d (blks j) t = Some e" using e c k by (auto simp: pins_kept_def)
    then show ?thesis using j by (intro exI [of _ j]) auto
  qed
  ultimately show ?thesis by (auto simp: pinned_from_def)
qed

section \<open>A sequence of block copies\<close>

text \<open>
  After the first \<open>i\<close> copies of the blocks \<open>src j\<close> to the blocks \<open>dst j\<close>, on the disk and as seen through the cache; and
  the disk contents that a crash during \<open>n\<close> copies may leave.
\<close>

definition moved :: "(nat \<Rightarrow> u32) \<Rightarrow> (nat \<Rightarrow> u32) \<Rightarrow> u32 \<Rightarrow> 'a kdisk_scheme \<Rightarrow> nat \<Rightarrow> 'a kdisk_scheme \<Rightarrow> bool" where
  "moved src dst d s i t \<longleftrightarrow>
     (\<forall>m. m \<notin> dst ` {..<i} \<longrightarrow> iblock (img t) m = iblock (img s) m \<and> view d t m = view d s m) \<and>
     (\<forall>j<i. iblock (img t) (dst j) = view d s (src j) \<and> view d t (dst j) = view d s (src j))"

definition midway :: "(nat \<Rightarrow> u32) \<Rightarrow> (nat \<Rightarrow> u32) \<Rightarrow> u32 \<Rightarrow> nat \<Rightarrow> 'a kdisk_scheme \<Rightarrow> (nat \<Rightarrow> u8) \<Rightarrow> bool" where
  "midway src dst d n s im \<longleftrightarrow>
     (\<forall>m. m \<notin> dst ` {..<n} \<longrightarrow> iblock im m = iblock (img s) m) \<and>
     (\<forall>j<n. iblock im (dst j) = iblock (img s) (dst j) \<or> iblock im (dst j) = view d s (src j))"

definition separate :: "(nat \<Rightarrow> u32) \<Rightarrow> (nat \<Rightarrow> u32) \<Rightarrow> nat \<Rightarrow> bool" where
  "separate src dst n \<longleftrightarrow> inj_on dst {..<n} \<and> src ` {..<n} \<inter> dst ` {..<n} = {}"

lemma moved_0 [simp]: "moved src dst d s 0 s"
  by (simp add: moved_def)

lemma separateD:
  assumes "separate src dst n" "i < n"
  shows "j < n \<Longrightarrow> dst i = dst j \<longleftrightarrow> i = j" "j < n \<Longrightarrow> src i \<noteq> dst j"
  using assms by (auto simp: separate_def inj_on_def)

lemma separate_src:
  assumes "separate src dst n" "i < n"
  shows "src i \<notin> dst ` {..<i}"
proof
  assume "src i \<in> dst ` {..<i}"
  then obtain j where "j < i" "src i = dst j" by auto
  then show False using separateD(2) [OF assms, of j] assms(2) by simp
qed

lemma moved_step:
  assumes "moved src dst d s i t" "separate src dst n" "i < n" "copied u d p (dst i) (src i) t t'"
  shows "moved src dst d s (Suc i) t'"
proof -
  note sep = separateD [OF assms(2)]
  have v: "view d t (src i) = view d s (src i)" using assms(1) separate_src [OF assms(2,3)] by (simp add: moved_def)
  have st: "iblock (img t') m = (if m = dst i then view d s (src i) else iblock (img t) m)"
    "view d t' m = (if m = dst i then view d s (src i) else view d t m)" for m
    using assms(4) v by (simp_all add: copied_def stored_def)
  have ne: "dst j \<noteq> dst i" if "j < i" for j using sep(1) [OF assms(3), of j] that assms(3) by auto
  show ?thesis using assms(1) ne unfolding moved_def st by (simp add: less_Suc_eq lessThan_Suc)
qed

lemma moved_midway:
  assumes "moved src dst d s i t" "i \<le> n" "separate src dst n"
  shows "midway src dst d n s (img t)"
proof -
  have a: "dst j \<notin> dst ` {..<i}" if "i \<le> j" "j < n" for j
    using separateD(1) [OF assms(3)] that assms(2) by (metis imageE lessThan_iff less_le_trans not_le)
  have "m \<notin> dst ` {..<n} \<Longrightarrow> m \<notin> dst ` {..<i}" for m using assms(2) by force
  moreover have "iblock (img t) (dst j) = iblock (img s) (dst j) \<or> iblock (img t) (dst j) = view d s (src j)" if "j < n" for j
    using assms(1) a [OF _ that] by (cases "j < i") (auto simp: moved_def)
  ultimately show ?thesis using assms(1) by (auto simp: midway_def moved_def)
qed

lemma stored_midway:
  assumes "moved src dst d s i t" "i < n" "separate src dst n" "stored (dst i) (view d t (src i)) (img t) im"
  shows "midway src dst d n s im"
proof -
  have "view d t (src i) = view d s (src i)" using assms(1) separate_src [OF assms(3,2)] by (simp add: moved_def)
  moreover have "midway src dst d n s (img t)" using moved_midway [OF assms(1) _ assms(3)] assms(2) by simp
  moreover have "dst j = dst i \<longleftrightarrow> j = i" if "j < n" for j using separateD(1) [OF assms(3,2) that] by auto
  ultimately show ?thesis using assms(2,4) by (auto simp: midway_def stored_def)
qed

lemma txn_separate:
  assumes "txn hb n blks"
  shows "separate (lblk hb) blks n" "separate blks (lblk hb) n"
proof -
  note t = txnD [OF assms]
  show "separate (lblk hb) blks n" using assms t(1,4) by (auto simp: separate_def txn_def dest!: sym [of "lblk hb _"])
  have "inj_on (lblk hb) {..<n}" using lblk_facts(5) [OF t(6)] t(1) by (auto simp: inj_on_def)
  then show "separate blks (lblk hb) n" using t(1,4) by (auto simp: separate_def)
qed

section \<open>Recording a transaction in the log\<close>

lemma pinned_room:
  assumes "pinned_from i n blks d s" "i \<le> j" "j < n"
  shows "room_for d (blks j) s"
  using assms unfolding pinned_from_def room_for_def by blast

lemma does_write_log:
  fixes s :: "'a klog_scheme"
  assumes inv: "cache_inv {} d p s" and d: "log_dev s = d" and tx: "txn (log_start s) (nat (lh_n s)) (lh_block s)"
    and pin: "pinned_from 0 (nat (lh_n s)) (lh_block s) d s"
    and K: "\<And>im. midway (lh_block s) (lblk (log_start s)) d (nat (lh_n s)) s im \<Longrightarrow> K im"
  shows "does K (write_log s) (\<lambda>_ t. cache_inv {} d p t \<and> cframe s t \<and> pinned_from 0 (nat (lh_n s)) (lh_block s) d t \<and>
    moved (lh_block s) (lblk (log_start s)) d s (nat (lh_n s)) t)"
proof -
  let ?n = "nat (lh_n s)" and ?hb = "log_start s" and ?b = "lh_block s"
  define I where "I i t \<longleftrightarrow> cache_inv {} d p t \<and> cframe s t \<and> pinned_from 0 ?n ?b d t \<and> moved ?b (lblk ?hb) d s i t" for i t
  note sep = txn_separate(2) [OF tx]
  have step: "does K (bnd (bread (log_dev t) (log_start t + of_nat i + 1) t) (\<lambda>to s.
       bnd (bread (log_dev s) (lh_block s i) s) (\<lambda>from s.
       let s = upd_buf to (bdata_update (\<lambda>d. copy_block d (bdata (bufs s from)))) s in
       bnd (bwrite to s) (\<lambda>_ s. bnd (brelse from s) (\<lambda>_ s. brelse to s))))) (\<lambda>_. I (Suc i))" if i: "i < ?n" and I: "I i t" for i t
  proof -
    have t: "cache_inv {} d p t" "cframe s t" "pinned_from 0 ?n ?b d t" "moved ?b (lblk ?hb) d s i t" using I by (simp_all add: I_def)
    note f = log_fields [OF t(2)]
    have g: "log_dev u = d \<and> lh_block u i = ?b i" if "cframe t u" for u using log_fields [OF that] f d by simp
    note a = txnD(4) [OF tx i txnD(1) [OF tx i], symmetric] lblk_facts(3) [OF txnD(6) [OF tx] txnD(1) [OF tx i]] txnD(2) [OF tx i]
    have few: "few_refs t" using t(3) by (simp add: pinned_from_def)
    have K1: "K (img t)" using K [OF moved_midway [OF t(4) _ sep]] i by simp
    have K2: "K im" if "stored (lblk ?hb i) (view d t (?b i)) (img t) im" for im
      using K [OF stored_midway [OF t(4) i sep that]] .
    have "does K (bnd (bread (log_dev t) (log_start t + of_nat i + 1) t) (\<lambda>to s.
       bnd (bread (log_dev s) (lh_block s i) s) (\<lambda>from s.
       let s = upd_buf to (bdata_update (\<lambda>d. copy_block d (bdata (bufs s from)))) s in
       bnd (bwrite to s) (\<lambda>_ s. bnd (brelse from s) (\<lambda>_ s. brelse to s))))) (\<lambda>_. copied False d p (lblk ?hb i) (?b i) t)"
      using does_copy_out [where K = K and g = log_dev and h = "\<lambda>s. lh_block s i", OF t(1) few a pinned_room [OF t(3) _ i] K1 K2 g]
      by (simp add: f d lblk_def)
    then show ?thesis
    proof (rule does_mono)
      fix x u
      assume c: "copied False d p (lblk ?hb i) (?b i) t u"
      then have "cframe s u" "pinned_from 0 ?n ?b d u" using pinned_same [OF t(3), of u] cframe_trans [OF t(2), of u] by (simp_all add: copied_def)
      then show "I (Suc i) u" using c moved_step [OF t(4) sep i c] by (simp add: I_def copied_def)
    qed
  qed
  have "does K (write_log s) (\<lambda>_. I ?n)" unfolding write_log_def
  proof (rule does_foreach [where I = I])
    show "I 0 s" using inv pin by (simp add: I_def)
    show "K (img t)" if "I 0 t" for t using that K [OF moved_midway [where i = 0 and t = t, OF _ _ sep]] by (simp add: I_def)
  qed (rule step)
  then show ?thesis by (rule does_mono) (simp_all add: I_def)
qed

section \<open>Installing a transaction\<close>

text \<open>The console is no part of the cache.\<close>

lemma bring_uart [simp]: "bring L (s\<lparr>uart_writes := x, lsr_reads := y\<rparr>) = bring L s"
  by (simp add: bring_def)

lemma bufof_uart [simp]: "bufof d n (s\<lparr>uart_writes := x, lsr_reads := y\<rparr>) = bufof d n s"
  by (simp add: bufof_def)

lemma view_uart [simp]: "view d (s\<lparr>uart_writes := x, lsr_reads := y\<rparr>) = view d s"
  by (intro ext) (simp add: view_def split: option.split)

lemma cache_uart [simp]: "cache_inv H d p (s\<lparr>uart_writes := x, lsr_reads := y\<rparr>) = cache_inv H d p s"
  by (simp add: cache_inv_def calm_def cached_once_def buf_ok_def vq_idle_def myproc_def)

text \<open>The references while the blocks are installed: at a commit the home blocks are pinned, at recovery nothing is.\<close>

definition refs_from :: "bool \<Rightarrow> nat \<Rightarrow> nat \<Rightarrow> (nat \<Rightarrow> u32) \<Rightarrow> u32 \<Rightarrow> 'a kdisk_scheme \<Rightarrow> bool" where
  "refs_from u i n blks d s \<longleftrightarrow> (if u then pinned_from i n blks d s else \<forall>c<NBUF. brefcnt (bufs s c) = 0)"

lemma refs_few: "refs_from u i n blks d s \<Longrightarrow> few_refs s"
  by (auto simp: refs_from_def pinned_from_def few_refs_def split: if_splits)

lemma refs_room:
  assumes "refs_from u i n blks d s" "i < n"
  shows "room_for d (blks i) s"
proof (cases u)
  case False
  have "brefcnt (bufs s 0) = 0" "brefcnt (bufs s 1) = 0" "0 < NBUF" "1 < NBUF" "(1::nat) \<noteq> 0"
    using assms False by (simp_all add: refs_from_def NBUF_def MAXOPBLOCKS_def)
  then show ?thesis unfolding room_for_def by blast
qed (use assms in \<open>simp add: refs_from_def pinned_room\<close>)

lemma refs_next:
  assumes "refs_from u i n blks d s" "i < n" "txn hb n blks" "cache_inv {} d p s" "copied u d p (blks i) b s t"
  shows "refs_from u (Suc i) n blks d t"
proof (cases u)
  case True
  have "cached_once d s" "pins_kept d s t" using assms by (simp_all add: cache_inv_def copied_def)
  then show ?thesis using pinned_next [of i n blks d s t hb] assms True by (simp add: refs_from_def copied_def)
qed (use assms in \<open>simp add: refs_from_def copied_def\<close>)

lemma refs_uart [simp]: "refs_from u i n blks d (s\<lparr>uart_writes := x, lsr_reads := y\<rparr>) = refs_from u i n blks d s"
  by (simp add: refs_from_def pinned_from_def few_refs_def)

lemma does_install_trans:
  fixes s :: "'a klog_scheme"
  assumes inv: "cache_inv {} d p s" and d: "log_dev s = d" and tx: "txn (log_start s) (nat (lh_n s)) (lh_block s)"
    and refs: "refs_from (\<not> recovering) 0 (nat (lh_n s)) (lh_block s) d s" and con: "recovering \<Longrightarrow> tx_ready s"
    and K: "\<And>im. midway (lblk (log_start s)) (lh_block s) d (nat (lh_n s)) s im \<Longrightarrow> K im"
  shows "does K (install_trans recovering s) (\<lambda>_ t. cache_inv {} d p t \<and> cframe s t \<and>
    refs_from (\<not> recovering) (nat (lh_n s)) (nat (lh_n s)) (lh_block s) d t \<and> moved (lblk (log_start s)) (lh_block s) d s (nat (lh_n s)) t)"
proof -
  let ?n = "nat (lh_n s)" and ?hb = "log_start s" and ?b = "lh_block s" and ?u = "\<not> recovering"
  define I where "I i t \<longleftrightarrow> cache_inv {} d p t \<and> cframe s t \<and> refs_from ?u i ?n ?b d t \<and> moved (lblk ?hb) ?b d s i t" for i t
  note sep = txn_separate(1) [OF tx]
  have msg: "does K (if recovering then printf fmt args t else Ok () t) (\<lambda>_. I i)" if i: "i < ?n" and I: "I i t" for i t fmt args
  proof -
    have K1: "K (img t)" using I K [OF moved_midway [where i = i and t = t, OF _ _ sep]] i by (simp add: I_def)
    have "does K (printf fmt args t) (\<lambda>_. I i)" if recovering
    proof (rule does_now [where im = "img t"])
      have "tx_ready t" "held t = {}" using I con [OF that] cframeD(6) [of s t] by (auto simp: I_def cache_inv_def calm_def)
      then obtain u where u: "printf fmt args t = Ok () u" "sent t u" using printf_returns [of t fmt args] by auto
      obtain w m where uw: "u = t\<lparr>uart_writes := w, lsr_reads := m\<rparr>" by (rule sentE [OF u(2)])
      have "I i u" using I unfolding uw by (simp add: I_def cframe_def moved_def)
      then show "\<exists>u. printf fmt args t = Ok () u \<and> I i u \<and> img u = img t" using u(1) uw by (intro exI [of _ u]) simp
    qed (rule K1)
    then show ?thesis using does_Ok [of K t "\<lambda>_. I i" "()", OF K1 I] by simp
  qed
  have step: "does K (bnd (bread (log_dev t) (log_start t + of_nat i + 1) t) (\<lambda>lbuf s.
       bnd (bread (log_dev s) (lh_block s i) s) (\<lambda>dbuf s.
       let s = upd_buf dbuf (bdata_update (\<lambda>d. copy_block d (bdata (bufs s lbuf)))) s in
       bnd (bwrite dbuf s) (\<lambda>_ s. bnd (if ?u then bunpin dbuf s else Ok () s) (\<lambda>_ s. bnd (brelse lbuf s) (\<lambda>_ s. brelse dbuf s))))))
       (\<lambda>_. I (Suc i))" (is "does K ?r _") if i: "i < ?n" and I: "I i t" for i t
  proof -
    have t: "cache_inv {} d p t" "cframe s t" "refs_from ?u i ?n ?b d t" "moved (lblk ?hb) ?b d s i t" using I by (simp_all add: I_def)
    note f = log_fields [OF t(2)]
    have g: "log_dev u = d \<and> lh_block u i = ?b i" if "cframe t u" for u using log_fields [OF that] f d by simp
    note a = txnD(4) [OF tx i txnD(1) [OF tx i], symmetric] lblk_facts(3) [OF txnD(6) [OF tx] txnD(1) [OF tx i]] txnD(2) [OF tx i]
    have K1: "K (img t)" using K [OF moved_midway [OF t(4) _ sep]] i by simp
    have K2: "K im" if "stored (?b i) (view d t (lblk ?hb i)) (img t) im" for im
      using K [OF stored_midway [OF t(4) i sep that]] .
    have pin: "\<exists>c. bufof d (?b i) t = Some c \<and> brefcnt (bufs t c) \<noteq> 0" if ?u using t(3) i that by (simp add: refs_from_def pinned_from_def)
    have "does K ?r (\<lambda>_. copied ?u d p (?b i) (lblk ?hb i) t)"
      using does_copy_in [where K = K and g = log_dev and h = "\<lambda>s. lh_block s i" and u = ?u,
        OF t(1) refs_few [OF t(3)] a refs_room [OF t(3) i] K1 K2 g pin]
      by (simp add: f d lblk_def)
    then show ?thesis
    proof (rule does_mono)
      fix x u
      assume c: "copied ?u d p (?b i) (lblk ?hb i) t u"
      then show "I (Suc i) u"
        using moved_step [OF t(4) sep i c] refs_next [OF t(3) i tx t(1) c] cframe_trans [OF t(2), of u] by (simp add: I_def copied_def)
    qed
  qed
  have "does K (install_trans recovering s) (\<lambda>_. I ?n)" unfolding install_trans_def
  proof (rule does_foreach [where I = I])
    show "I 0 s" using inv refs by (simp add: I_def)
    show "K (img t)" if "I 0 t" for t using that K [OF moved_midway [where i = 0 and t = t, OF _ _ sep]] by (simp add: I_def)
  qed (rule does_bnd [OF msg], assumption+, rule step)
  then show ?thesis by (rule does_mono) (simp_all add: I_def)
qed

end
