(* ===== verification/Crash.thy ===== *)
theory Crash
  imports Logloops
begin

text \<open>
  Crash safety of the log: what recovery makes of a disk, and that a commit interrupted at any point leaves a disk that
  recovers to the contents before the transaction or to the contents after it.
\<close>

section \<open>What recovery makes of a disk\<close>

definition recov :: "u32 \<Rightarrow> (u32 \<Rightarrow> u8 list) \<Rightarrow> u32 \<Rightarrow> u8 list" where
  "recov hb D = fold (\<lambda>i E. E(hdr_block (D hb) i := D (lblk hb i))) [0..<nat (hdr_count (D hb))] D"

text \<open>A header that lists the given home locations.\<close>

definition lists :: "nat \<Rightarrow> (nat \<Rightarrow> u32) \<Rightarrow> u8 list \<Rightarrow> bool" where
  "lists n blks v \<longleftrightarrow> nat (hdr_count v) = n \<and> (\<forall>i<n. hdr_block v i = blks i)"

lemma fold_upd_other: "m \<notin> f ` {..<n} \<Longrightarrow> fold (\<lambda>i E. E(f i := g i)) [0..<n] D m = D m"
  by (induction n) (auto simp: lessThan_Suc)

lemma fold_upd_at: "inj_on f {..<n} \<Longrightarrow> i < n \<Longrightarrow> fold (\<lambda>i E. E(f i := g i)) [0..<n] D (f i) = g i"
  by (induction n) (auto simp: lessThan_Suc less_Suc_eq, metis imageI lessThan_iff)

lemma recov_lists:
  assumes "lists n blks (D hb)" "txn hb n blks"
  shows "i < n \<Longrightarrow> recov hb D (blks i) = D (lblk hb i)" "m \<notin> blks ` {..<n} \<Longrightarrow> recov hb D m = D m"
proof -
  have e: "recov hb D = fold (\<lambda>i E. E(blks i := D (lblk hb i))) [0..<n] D"
    using assms(1) unfolding recov_def lists_def by (intro fold_cong) auto
  have "inj_on blks {..<n}" using assms(2) by (simp add: txn_def)
  then show "i < n \<Longrightarrow> recov hb D (blks i) = D (lblk hb i)" unfolding e by (rule fold_upd_at)
  show "m \<notin> blks ` {..<n} \<Longrightarrow> recov hb D m = D m" unfolding e by (rule fold_upd_other)
qed

lemma recov_empty: "hdr_count (D hb) \<le> 0 \<Longrightarrow> recov hb D = D"
  by (simp add: recov_def)

text \<open>Agreement outside the log.\<close>

definition agree :: "u32 \<Rightarrow> (u32 \<Rightarrow> u8 list) \<Rightarrow> (u32 \<Rightarrow> u8 list) \<Rightarrow> bool" where
  "agree hb D E \<longleftrightarrow> (\<forall>m. m \<notin> log_area hb \<longrightarrow> D m = E m)"

lemma agree_lists:
  assumes "lists n blks (D hb)" "txn hb n blks" "\<And>i. i < n \<Longrightarrow> D (lblk hb i) = E (blks i)"
    and "\<And>m. m \<notin> log_area hb \<Longrightarrow> m \<notin> blks ` {..<n} \<Longrightarrow> D m = E m"
  shows "agree hb (recov hb D) E"
  unfolding agree_def
proof (intro allI impI)
  fix m assume m: "m \<notin> log_area hb"
  show "recov hb D m = E m"
    using recov_lists [where D = D and hb = hb, OF assms(1,2)] assms(3) assms(4) [OF m] by (cases "m \<in> blks ` {..<n}") auto
qed

section \<open>Commit\<close>

lemma unpinned_view:
  assumes "cache_inv {} d p s" "pinned_from 0 n blks d s" "m \<notin> blks ` {..<n}"
  shows "view d s m = iblock (img s) m"
proof (rule view_clean [OF assms(1)])
  fix b assume b: "bufof d m s = Some b"
  have one: "cached_once d s" using assms(1) by (simp add: cache_inv_def)
  have bN: "b < NBUF" using b by (simp add: bufof_iff [OF one])
  show "brefcnt (bufs s b) = 0"
  proof (rule ccontr)
    assume "brefcnt (bufs s b) \<noteq> 0"
    then obtain j where "j < n" "bufof d (blks j) s = Some b" using assms(2) bN by (auto simp: pinned_from_def)
    then show False using b assms(3) by (auto simp: bufof_iff [OF one])
  qed
qed

lemma outside_log:
  assumes "unat hb + LOGBLOCKS < 2 ^ 31" "n \<le> LOGBLOCKS" "m \<notin> log_area hb"
  shows "m \<notin> lblk hb ` {..<n}" "m \<noteq> hb"
  using assms lblk_facts(1) [OF assms(1)] by (auto simp: log_area_def)

lemma midway_old:
  assumes "midway blks (lblk hb) d n s im" "txn hb n blks"
  shows "iblock im hb = iblock (img s) hb" "m \<notin> log_area hb \<Longrightarrow> iblock im m = iblock (img s) m"
proof -
  have "hb \<notin> lblk hb ` {..<n}" using lblk_facts(2) [OF txnD(6) [OF assms(2)] txnD(1) [OF assms(2)]] by force
  then show "iblock im hb = iblock (img s) hb" using assms(1) by (simp add: midway_def)
  have "n \<le> LOGBLOCKS" using assms(2) by (simp add: txn_def)
  then show "m \<notin> log_area hb \<Longrightarrow> iblock im m = iblock (img s) m"
    using assms(1) outside_log(1) [OF txnD(6) [OF assms(2)], of n m] by (simp add: midway_def)
qed

lemma midway_log:
  assumes "midway (lblk hb) blks d n s im" "txn hb n blks"
  shows "iblock im hb = iblock (img s) hb" "i < n \<Longrightarrow> iblock im (lblk hb i) = iblock (img s) (lblk hb i)"
proof -
  have "hb \<notin> blks ` {..<n}" "\<And>i. i < n \<Longrightarrow> lblk hb i \<notin> blks ` {..<n}"
    using txnD(3) [OF assms(2)] txnD(4) [OF assms(2) _ txnD(1) [OF assms(2)]] by (metis imageE lessThan_iff)+
  then show "iblock im hb = iblock (img s) hb" "i < n \<Longrightarrow> iblock im (lblk hb i) = iblock (img s) (lblk hb i)"
    using assms(1) by (simp_all add: midway_def)
qed

lemma movedD:
  assumes "moved src dst d s n t"
  shows "i < n \<Longrightarrow> iblock (img t) (dst i) = view d s (src i)" "i < n \<Longrightarrow> view d t (dst i) = view d s (src i)"
    "m \<notin> dst ` {..<n} \<Longrightarrow> iblock (img t) m = iblock (img s) m"
  using assms unfolding moved_def by blast+

lemma stored_at: "stored n v im im' \<Longrightarrow> iblock im' n = v" "stored n v im im' \<Longrightarrow> m \<noteq> n \<Longrightarrow> iblock im' m = iblock im m"
  by (simp_all add: stored_def)

text \<open>
  The state between two transactions: nothing is referenced or logged, and the header on the disk is empty; and the two
  contents that a crash during a transaction may recover to.
\<close>

definition quiet :: "u32 \<Rightarrow> nat \<Rightarrow> 'a klog_scheme \<Rightarrow> bool" where
  "quiet d p s \<longleftrightarrow> cache_inv {} d p s \<and> (\<forall>c<NBUF. brefcnt (bufs s c) = 0) \<and> lh_n s = 0 \<and>
     hdr_count (iblock (img s) (log_start s)) = 0"

definition old_or_new :: "u32 \<Rightarrow> nat \<Rightarrow> (nat \<Rightarrow> u32) \<Rightarrow> (u32 \<Rightarrow> u8 list) \<Rightarrow> (u32 \<Rightarrow> u8 list) \<Rightarrow> (nat \<Rightarrow> u8) \<Rightarrow> bool" where
  "old_or_new hb n blks D E im \<longleftrightarrow>
     hdr_count (iblock im hb) = 0 \<and> (agree hb (iblock im) D \<or> agree hb (iblock im) E) \<or>
     lists n blks (iblock im hb) \<and> hdr_count (iblock im hb) \<le> int LOGBLOCKS \<and> agree hb (recov hb (iblock im)) E"

lemma quiet_view: "quiet d p s \<Longrightarrow> view d s m = iblock (img s) m"
  by (rule view_clean [where H = "{}" and p = p]) (auto simp: quiet_def bufof_iff cache_inv_def)

lemma op_fields:
  fixes s t :: "'a klog_scheme"
  assumes "cframe s t"
  shows "outstanding t = outstanding s" "committing t = committing s"
proof -
  have e: "cblank t = cblank s" using assms by (simp add: cframe_def)
  have "outstanding (cblank u) = outstanding u" "committing (cblank u) = committing u" for u :: "'a klog_scheme" by (simp_all add: cblank_def blank_def)
  then show "outstanding t = outstanding s" "committing t = committing s" using arg_cong [OF e, of outstanding] arg_cong [OF e, of committing] by simp_all
qed

text \<open>Once the header lists the transaction: installing it and clearing the header.\<close>

lemma does_finish:
  fixes s :: "'a klog_scheme"
  assumes inv: "cache_inv {} d p s" and d: "log_dev s = d" and tx: "txn (log_start s) (nat (lh_n s)) (lh_block s)"
    and refs: "refs_from (\<not> recovering) 0 (nat (lh_n s)) (lh_block s) d s" and con: "recovering \<Longrightarrow> tx_ready s"
    and hdr: "lists (nat (lh_n s)) (lh_block s) (iblock (img s) (log_start s))" "hdr_count (iblock (img s) (log_start s)) \<le> int LOGBLOCKS"
    and L: "\<And>i. i < nat (lh_n s) \<Longrightarrow> iblock (img s) (lblk (log_start s) i) = E (lh_block s i)"
      "\<And>i. i < nat (lh_n s) \<Longrightarrow> view d s (lblk (log_start s) i) = E (lh_block s i)"
    and O: "\<And>m. m \<notin> log_area (log_start s) \<Longrightarrow> m \<notin> lh_block s ` {..<nat (lh_n s)} \<Longrightarrow> iblock (img s) m = E m"
  shows "does (old_or_new (log_start s) (nat (lh_n s)) (lh_block s) D E)
      (bnd (install_trans recovering s) (\<lambda>_ s. write_head (s\<lparr>lh_n := 0\<rparr>)))
      (\<lambda>_ t. quiet d p t \<and> log_start t = log_start s \<and> log_dev t = d \<and> agree (log_start s) (view d t) E \<and>
        outstanding t = outstanding s \<and> committing t = committing s)"
proof -
  let ?n = "nat (lh_n s)" and ?hb = "log_start s" and ?b = "lh_block s"
  let ?K = "old_or_new ?hb ?n ?b D E"
  have K1: "?K im" if m: "midway (lblk ?hb) ?b d ?n s im" for im
  proof -
    have "agree ?hb (recov ?hb (iblock im)) E"
      by (rule agree_lists [OF _ tx]) (use m midway_log [OF m tx] hdr L O in \<open>auto simp: midway_def\<close>)
    then show ?thesis using midway_log [OF m tx] hdr by (simp add: old_or_new_def)
  qed
  show ?thesis
  proof (rule does_bnd [OF does_install_trans [OF inv d tx refs con K1]], assumption, assumption, elim conjE)
    fix t assume t: "cache_inv {} d p t" "cframe s t" "refs_from (\<not> recovering) ?n ?n ?b d t" "moved (lblk ?hb) ?b d s ?n t"
    let ?t = "t\<lparr>lh_n := 0\<rparr>"
    note f = log_fields [OF t(2)]
    have z: "brefcnt (bufs t c) = 0" if "c < NBUF" for c using t(3) that by (cases recovering) (auto simp: refs_from_def pinned_from_def)
    have E: "iblock (img t) m = E m" if "m \<notin> log_area ?hb" for m
      using t(4) L O [OF that] by (cases "m \<in> ?b ` {..<?n}") (auto simp: moved_def)
    have E': "hdr_count (iblock im ?hb) = 0 \<and> agree ?hb (iblock im) E" if "hdr_count v = 0" "stored ?hb v (img t) im" for v im
      using that E by (auto simp: stored_def agree_def log_area_def)
    have "does ?K (write_head ?t) (\<lambda>_ u. \<exists>v. hdr_count v = lh_n ?t \<and> (\<forall>i<nat (lh_n ?t). hdr_block v i = lh_block ?t i) \<and>
        updated (log_dev ?t) p (log_start ?t) v ?t u)"
    proof (rule does_write_head)
      show "?K (img ?t)" using K1 [OF moved_midway [OF t(4) _ txn_separate(1) [OF tx]]] by simp
      show "?K im" if "hdr_count v = lh_n ?t" "stored (log_start ?t) v (img ?t) im" for v im
        using E' [of v im] that f by (simp add: old_or_new_def)
      show "\<exists>c<NBUF. brefcnt (bufs ?t c) = 0" using z [of 0] by (intro exI [of _ 0]) (simp add: NBUF_def MAXOPBLOCKS_def)
    qed (use t z f d txnD(7) [OF tx] in \<open>simp_all add: few_refs_def\<close>)
    then show "does ?K (write_head ?t) (\<lambda>_ u. quiet d p u \<and> log_start u = ?hb \<and> log_dev u = d \<and> agree ?hb (view d u) E \<and>
        outstanding u = outstanding s \<and> committing u = committing s)"
    proof (rule does_mono)
      fix u assume "\<exists>v. hdr_count v = lh_n ?t \<and> (\<forall>i<nat (lh_n ?t). hdr_block v i = lh_block ?t i) \<and> updated (log_dev ?t) p (log_start ?t) v ?t u"
      then obtain v where v: "hdr_count v = lh_n ?t" "updated (log_dev ?t) p (log_start ?t) v ?t u" by (elim exE conjE)
      have u: "cache_inv {} d p u" "cframe ?t u" "stored ?hb v (img t) (img u)" "\<forall>c. brefcnt (bufs u c) = brefcnt (bufs t c)"
        using v(2) f d by (simp_all add: updated_def)
      note g = log_fields [OF u(2)]
      have "quiet d p u" using u g z E' [OF _ u(3)] v(1) f by (simp add: quiet_def)
      then show "quiet d p u \<and> log_start u = ?hb \<and> log_dev u = d \<and> agree ?hb (view d u) E \<and> outstanding u = outstanding s \<and> committing u = committing s"
        using E' [OF _ u(3)] v(1) g f d op_fields [OF u(2)] op_fields [OF t(2)] by (simp add: quiet_view agree_def)
    qed
  qed
qed

lemma does_commit:
  fixes s :: "'a klog_scheme"
  assumes inv: "cache_inv {} d p s" and d: "log_dev s = d" and n: "0 < lh_n s" and tx: "txn (log_start s) (nat (lh_n s)) (lh_block s)"
    and pin: "pinned_from 0 (nat (lh_n s)) (lh_block s) d s" and hdr: "hdr_count (iblock (img s) (log_start s)) = 0"
  shows "does (old_or_new (log_start s) (nat (lh_n s)) (lh_block s) (iblock (img s)) (view d s)) (commit s)
    (\<lambda>_ t. quiet d p t \<and> log_start t = log_start s \<and> log_dev t = d \<and> agree (log_start s) (view d t) (view d s) \<and>
      outstanding t = outstanding s \<and> committing t = committing s)"
proof -
  let ?n = "nat (lh_n s)" and ?hb = "log_start s" and ?b = "lh_block s"
  let ?K = "old_or_new ?hb ?n ?b (iblock (img s)) (view d s)"
  let ?Q = "\<lambda>_ t. quiet d p t \<and> log_start t = ?hb \<and> log_dev t = d \<and> agree ?hb (view d t) (view d s) \<and> outstanding t = outstanding s \<and> committing t = committing s"
  have hb: "unat ?hb < 2 ^ 31" "unat ?hb + LOGBLOCKS < 2 ^ 31" using txnD(6,7) [OF tx] by simp_all
  have nL: "lh_n s \<le> int LOGBLOCKS" using tx n unfolding txn_def by linarith
  note unp = unpinned_view [OF inv pin] and lb = lblk_facts(2) [OF hb(2) txnD(1) [OF tx]]
  note out = outside_log [OF hb(2), of ?n]
  have K1: "?K im" if "midway ?b (lblk ?hb) d ?n s im" for im
    using midway_old [OF that tx] hdr by (simp add: old_or_new_def agree_def)
  have K2: "?K im" if v: "lists ?n ?b (iblock im ?hb)" "hdr_count (iblock im ?hb) = lh_n s" "\<And>i. i < ?n \<Longrightarrow> iblock im (lblk ?hb i) = view d s (?b i)"
    "\<And>m. m \<notin> log_area ?hb \<Longrightarrow> m \<notin> ?b ` {..<?n} \<Longrightarrow> iblock im m = iblock (img s) m" for im
    using v nL agree_lists [where D = "iblock im" and E = "view d s" and hb = ?hb, OF v(1) tx v(3)] unp by (simp add: old_or_new_def)
  have "does ?K (commit s) ?Q" unfolding commit_def if_P [OF n]
  proof (rule does_bnd [OF does_write_log [OF inv d tx pin K1]], assumption, elim conjE)
    fix t1 assume t1: "cache_inv {} d p t1" "cframe s t1" "pinned_from 0 ?n ?b d t1" "moved ?b (lblk ?hb) d s ?n t1"
    note f1 = log_fields [OF t1(2)]
    show "does ?K (bnd (write_head t1) (\<lambda>_ s. bnd (install_trans False s) (\<lambda>_ s. write_head (s\<lparr>lh_n := 0\<rparr>)))) ?Q"
    proof (rule does_bnd [OF does_write_head [where K = ?K]])
      show "?K (img t1)" using K1 [OF moved_midway [OF t1(4) _ txn_separate(2) [OF tx]]] by simp
      have nL': "?n \<le> LOGBLOCKS" using nL n by linarith
      have L: "iblock im (lblk ?hb i) = view d s (?b i)" if "stored ?hb v (img t1) im" "i < ?n" for v im i
        unfolding stored_at(2) [OF that(1) lb [OF that(2)]] by (rule movedD(1) [OF t1(4) that(2)])
      have O: "iblock im m = iblock (img s) m" if "stored ?hb v (img t1) im" "m \<notin> log_area ?hb" for v im m
        unfolding stored_at(2) [OF that(1) out(2) [OF nL' that(2)]] by (rule movedD(3) [OF t1(4) out(1) [OF nL' that(2)]])
      show "?K im" if "hdr_count v = lh_n t1" "\<And>i. i < nat (lh_n t1) \<Longrightarrow> hdr_block v i = lh_block t1 i" "stored (log_start t1) v (img t1) im" for v im
        by (rule K2) (use that L [of v im] O [of v im] f1 stored_at(1) [OF that(3)] in \<open>simp_all add: lists_def\<close>)
      fix t2 assume "\<exists>v. hdr_count v = lh_n t1 \<and> (\<forall>i<nat (lh_n t1). hdr_block v i = lh_block t1 i) \<and> updated (log_dev t1) p (log_start t1) v t1 t2"
      then obtain v where v: "hdr_count v = lh_n s" "\<forall>i<?n. hdr_block v i = ?b i" "updated d p ?hb v t1 t2" using f1 d by auto
      then have t2: "cache_inv {} d p t2" "stored ?hb v (img t1) (img t2)" "view d t2 = (view d t1)(?hb := v)" "cframe t1 t2"
        "pins_kept d t1 t2" "\<And>c. brefcnt (bufs t2 c) = brefcnt (bufs t1 c)" by (simp_all add: updated_def)
      note f2 = log_fields [OF t2(4)]
      have "does (old_or_new (log_start t2) (nat (lh_n t2)) (lh_block t2) (iblock (img s)) (view d s)) 
          (bnd (install_trans False t2) (\<lambda>_ s. write_head (s\<lparr>lh_n := 0\<rparr>)))
          (\<lambda>_ t. quiet d p t \<and> log_start t = log_start t2 \<and> log_dev t = d \<and> agree (log_start t2) (view d t) (view d s) \<and>
            outstanding t = outstanding t2 \<and> committing t = committing t2)"
      proof (rule does_finish)
        show "view d t2 (lblk (log_start t2) i) = view d s (lh_block t2 i)" if "i < nat (lh_n t2)" for i
          using that movedD(2) [OF t1(4), of i] lb [of i] by (simp add: t2(3) f1 f2)
        show "refs_from (\<not> False) 0 (nat (lh_n t2)) (lh_block t2) d t2"
          using pinned_same [OF t1(3) t2(5,6)] by (simp add: refs_from_def f1 f2)
      qed (use t2(1) f1 f2 d tx v nL L [OF t2(2)] O [OF t2(2)] unp stored_at(1) [OF t2(2)] in \<open>simp_all add: lists_def\<close>)
      then show "does ?K (bnd (install_trans False t2) (\<lambda>_ s. write_head (s\<lparr>lh_n := 0\<rparr>))) ?Q"
        using f1 f2 op_fields [OF t1(2)] op_fields [OF t2(4)] by simp
    qed (use t1 f1 d n nL hb in \<open>auto simp: pinned_from_def\<close>)
  qed
  then show ?thesis .
qed

section \<open>Recovery\<close>

lemma lists_cong: "(\<And>i. i < n \<Longrightarrow> f i = g i) \<Longrightarrow> lists n f v = lists n g v"
  by (simp add: lists_def)

lemma txn_cong: "(\<And>i. i < n \<Longrightarrow> f i = g i) \<Longrightarrow> txn hb n f = txn hb n g"
  by (auto simp: txn_def inj_on_def)

lemma old_or_new_cong: "(\<And>i. i < n \<Longrightarrow> f i = g i) \<Longrightarrow> old_or_new hb n f D E = old_or_new hb n g D E"
  by (simp add: old_or_new_def lists_cong [of n f g] fun_eq_iff)

text \<open>A disk whose log can be replayed: the header lists no more blocks than fit, at locations outside the log.\<close>

definition log_ok :: "u32 \<Rightarrow> u8 list \<Rightarrow> bool" where
  "log_ok hb v \<longleftrightarrow> hdr_count v \<le> int LOGBLOCKS \<and> txn hb (nat (hdr_count v)) (hdr_block v)"

definition booted :: "u32 \<Rightarrow> nat \<Rightarrow> 'a kdisk_scheme \<Rightarrow> bool" where
  "booted d p s \<longleftrightarrow> cache_inv {} d p s \<and> (\<forall>c<NBUF. brefcnt (bufs s c) = 0) \<and> tx_ready s"

lemma booted_view: "booted d p s \<Longrightarrow> view d s m = iblock (img s) m"
  by (rule view_clean [where H = "{}" and p = p]) (auto simp: booted_def bufof_iff cache_inv_def)

lemma does_recover:
  fixes s :: "'a klog_scheme"
  defines "v \<equiv> iblock (img s) (log_start s)"
  assumes boot: "booted d p s" and d: "log_dev s = d" and ok: "log_ok (log_start s) v"
  shows "does (old_or_new (log_start s) (nat (hdr_count v)) (hdr_block v) D (recov (log_start s) (iblock (img s)))) (recover_from_log s)
    (\<lambda>_ t. quiet d p t \<and> log_start t = log_start s \<and> log_dev t = d \<and> agree (log_start s) (view d t) (recov (log_start s) (iblock (img s))))"
    (is "does ?K _ ?Q")
proof -
  let ?hb = "log_start s" and ?n = "nat (hdr_count v)" and ?E = "recov (log_start s) (iblock (img s))"
  have inv: "cache_inv {} d p s" and z: "\<And>c. c < NBUF \<Longrightarrow> brefcnt (bufs s c) = 0" and con: "tx_ready s" using boot by (simp_all add: booted_def)
  have tx: "txn ?hb ?n (hdr_block v)" and cnt: "hdr_count v \<le> int LOGBLOCKS" using ok by (simp_all add: log_ok_def)
  note vi = booted_view [OF boot]
  have few: "few_refs s" and free: "\<exists>c<NBUF. brefcnt (bufs s c) = 0" using z z [of 0] by (auto simp: few_refs_def NBUF_def MAXOPBLOCKS_def intro!: exI [of _ 0])
  have hv: "view d s ?hb = v" by (simp add: v_def vi)
  have K: "?K (img s)" using cnt by (simp add: old_or_new_def lists_def agree_def v_def)
  have "does ?K (recover_from_log s) ?Q" unfolding recover_from_log_def
  proof (rule does_bnd [OF does_read_head [where K = ?K, OF inv few txnD(7) [OF tx] d free K]], unfold hv, rule cnt, elim conjE)
    fix t :: "'a klog_scheme" assume t: "cache_inv {} d p t" "view d t = view d s" "img t = img s" "\<forall>c. brefcnt (bufs t c) = brefcnt (bufs s c)"
      "log_dev t = d" "log_start t = ?hb" "tx_ready t = tx_ready s" "lh_n t = hdr_count v" "\<forall>i<nat (lh_n t). lh_block t i = hdr_block v i"
    have c: "lh_block t i = hdr_block v i" if "i < ?n" for i using t(8,9) that by simp
    have L: "lists ?n (hdr_block v) (iblock (img s) ?hb)" by (simp add: lists_def v_def)
    note rl = recov_lists [where D = "iblock (img s)" and hb = ?hb, OF L tx]
    have "does (old_or_new (log_start t) (nat (lh_n t)) (lh_block t) D ?E)
      (bnd (install_trans True t) (\<lambda>_ s. write_head (s\<lparr>lh_n := 0\<rparr>)))
      (\<lambda>_ u. quiet d p u \<and> log_start u = log_start t \<and> log_dev u = d \<and> agree (log_start t) (view d u) ?E \<and>
        outstanding u = outstanding t \<and> committing u = committing t)"
    proof (rule does_finish [OF t(1,5)])
      show "txn (log_start t) (nat (lh_n t)) (lh_block t)" using tx txn_cong [OF c] t by simp
      show "lists (nat (lh_n t)) (lh_block t) (iblock (img t) (log_start t))" using L lists_cong [OF c] t by simp
      show "iblock (img t) m = ?E m" if "m \<notin> lh_block t ` {..<nat (lh_n t)}" for m
        using that rl(2) [of m] c t by (simp add: image_def)
    qed (use t rl(1) c vi z con cnt in \<open>simp_all add: refs_from_def v_def\<close>)
    then show "does ?K (bnd (install_trans True t) (\<lambda>_ s. write_head (s\<lparr>lh_n := 0\<rparr>))) ?Q"
      by (rule does_mono) (use t old_or_new_cong [OF c] in simp_all)
  qed
  then show ?thesis .
qed

end
