(* ===== verification/Transact.thy ===== *)
theory Transact
  imports Crash
begin

text \<open>
  A file system operation as a transaction: the block updates between \<^verbatim>\<open>begin_op\<close> and \<^verbatim>\<open>end_op\<close> reach the disk
  together or not at all.
\<close>

section \<open>Operations\<close>

text \<open>
  The use of the log that \<^verbatim>\<open>log.c\<close> prescribes: read a block, modify the copy in the buffer, \<^verbatim>\<open>log_write\<close> it, release
  it; several of these between \<^verbatim>\<open>begin_op\<close> and \<^verbatim>\<open>end_op\<close>.
\<close>

definition logged_update :: "u32 \<Rightarrow> u32 \<Rightarrow> ((nat \<Rightarrow> u8) \<Rightarrow> nat \<Rightarrow> u8) \<Rightarrow> 'a klog_scheme \<Rightarrow> ('a klog_scheme, unit) out" where
  "logged_update d m f s =
     bnd (bread d m s) (\<lambda>b s.
     let s = upd_buf b (bdata_update f) s in
     bnd (log_write b s) (\<lambda>_ s.
     brelse b s))"

definition logged_op :: "u32 \<Rightarrow> (u32 \<times> ((nat \<Rightarrow> u8) \<Rightarrow> nat \<Rightarrow> u8)) list \<Rightarrow> 'a klog_scheme \<Rightarrow> ('a klog_scheme, unit) out" where
  "logged_op d ups s =
     bnd (begin_op s) (\<lambda>_ s.
     bnd (foreach ups (\<lambda>u s. logged_update d (fst u) (snd u) s) s) (\<lambda>_ s.
     end_op s))"

text \<open>The effect of an update on the contents of the disk; an update is one of the block's bytes only.\<close>

definition blockwise :: "((nat \<Rightarrow> u8) \<Rightarrow> nat \<Rightarrow> u8) \<Rightarrow> bool" where
  "blockwise f \<longleftrightarrow> (\<forall>x y. block x = block y \<longrightarrow> block (f x) = block (f y))"

definition put :: "u32 \<times> ((nat \<Rightarrow> u8) \<Rightarrow> nat \<Rightarrow> u8) \<Rightarrow> (u32 \<Rightarrow> u8 list) \<Rightarrow> u32 \<Rightarrow> u8 list" where
  "put u D = D(fst u := block (snd u ((!) (D (fst u)))))"

lemma block_nth: "block ((!) (block x)) = block x"
  by (simp add: block_def)

lemma put_view: "blockwise f \<Longrightarrow> block x = D m \<Longrightarrow> put (m, f) D = D(m := block (f x))"
  unfolding put_def blockwise_def using block_nth [of x] by (metis fst_conv snd_conv)

section \<open>The blocks of the open transaction\<close>

definition homes :: "'a klog_scheme \<Rightarrow> u32 set" where
  "homes s = lh_block s ` {..<nat (lh_n s)}"

definition open_tx :: "u32 \<Rightarrow> nat \<Rightarrow> 'a klog_scheme \<Rightarrow> bool" where
  "open_tx d p s \<longleftrightarrow> cache_inv {} d p s \<and> log_dev s = d \<and> 0 \<le> lh_n s \<and> txn (log_start s) (nat (lh_n s)) (lh_block s) \<and>
     pinned_from 0 (nat (lh_n s)) (lh_block s) d s \<and> hdr_count (iblock (img s) (log_start s)) = 0 \<and> outstanding s = 1 \<and> committing s = 0"

text \<open>
  The same with any number of operations in progress, and with no buffer left over once the pins are as many as the buffers.
\<close>

definition pins :: "nat \<Rightarrow> (nat \<Rightarrow> u32) \<Rightarrow> u32 \<Rightarrow> 'a kdisk_scheme \<Rightarrow> bool" where
  "pins n blks d s \<longleftrightarrow> few_refs s \<and> (\<forall>j<n. \<exists>c. bufof d (blks j) s = Some c \<and> brefcnt (bufs s c) \<noteq> 0) \<and>
     (\<forall>c<NBUF. brefcnt (bufs s c) \<noteq> 0 \<longrightarrow> (\<exists>j<n. bufof d (blks j) s = Some c))"

definition in_tx :: "u32 \<Rightarrow> nat \<Rightarrow> 'a klog_scheme \<Rightarrow> bool" where
  "in_tx d p s \<longleftrightarrow> cache_inv {} d p s \<and> log_dev s = d \<and> 0 \<le> lh_n s \<and> txn (log_start s) (nat (lh_n s)) (lh_block s) \<and>
     pins (nat (lh_n s)) (lh_block s) d s \<and> hdr_count (iblock (img s) (log_start s)) = 0 \<and> 1 \<le> outstanding s \<and> committing s = 0"

lemma log_slot_new: "bno \<notin> homes s \<Longrightarrow> log_slot bno s = nat (lh_n s)"
proof -
  assume "bno \<notin> homes s"
  then have "find (\<lambda>i. lh_block s i = bno) [0..<nat (lh_n s)] = None" by (force simp: find_None_iff homes_def)
  then show ?thesis by (simp add: log_slot_def)
qed

lemma log_slot_old:
  assumes "bno \<in> homes s"
  shows "log_slot bno s < nat (lh_n s)" "lh_block s (log_slot bno s) = bno"
proof -
  have "find (\<lambda>i. lh_block s i = bno) [0..<nat (lh_n s)] \<noteq> None" using assms by (auto simp: find_None_iff homes_def)
  then obtain i where i: "find (\<lambda>i. lh_block s i = bno) [0..<nat (lh_n s)] = Some i" by auto
  then have "i < nat (lh_n s)" "lh_block s i = bno" by (auto simp: find_Some_iff)
  then show "log_slot bno s < nat (lh_n s)" "lh_block s (log_slot bno s) = bno" by (simp_all add: log_slot_def i)
qed

lemma log_slot_held [simp]: "log_slot m (s\<lparr>held := h\<rparr>) = log_slot m s"
  by (simp add: log_slot_def split: option.split)

lemma log_write_old:
  assumes "held s = {}" "lh_n s < int LOGBLOCKS" "1 \<le> outstanding s" "0 \<le> lh_n s" "bblockno (bufs s b) \<in> homes s"
  shows "log_write b s = Ok () s"
proof -
  let ?i = "log_slot (bblockno (bufs s b)) s"
  have i: "int ?i \<noteq> lh_n s" "(lh_block s)(?i := bblockno (bufs s b)) = lh_block s" using log_slot_old [OF assms(5)] assms(4) by auto
  have "s\<lparr>lh_block := lh_block s\<rparr> = s" "s\<lparr>held := {}\<rparr> = s" using assms(1) by simp_all
  then show ?thesis using assms i by (simp add: log_write_def acquire_def release_def Let_def)
qed

lemma log_write_new:
  assumes "held s = {}" "lh_n s < int LOGBLOCKS" "1 \<le> outstanding s" "0 \<le> lh_n s" "bblockno (bufs s b) \<notin> homes s"
  shows "log_write b s = Ok () (s\<lparr>bufs := (bufs s)(b := (bufs s b)\<lparr>brefcnt := brefcnt (bufs s b) + 1\<rparr>),
    lh_block := (lh_block s)(nat (lh_n s) := bblockno (bufs s b)), lh_n := lh_n s + 1\<rparr>)"
proof -
  have "s\<lparr>held := {}\<rparr> = s" using assms(1) by simp
  then show ?thesis using assms log_slot_new [OF assms(5)] by (simp add: log_write_def acquire_def release_def Let_def bpin_eq)
qed

section \<open>One update\<close>

text \<open>Fewer pins than buffers leave a free buffer.\<close>

lemma pins_free:
  assumes "cached_once d s" "n < NBUF" "\<forall>c<NBUF. brefcnt (bufs s c) \<noteq> 0 \<longrightarrow> (\<exists>j. j < n \<and> bufof d (blks j) s = Some c)"
  shows "\<exists>c<NBUF. brefcnt (bufs s c) = 0"
proof (rule ccontr)
  assume "\<not> ?thesis"
  then have "{..<NBUF} \<subseteq> (\<lambda>j. the (bufof d (blks j) s)) ` {..<n}" using assms(3) by (force simp: image_def)
  then have "card {..<NBUF} \<le> card ((\<lambda>j. the (bufof d (blks j) s)) ` {..<n})" by (intro card_mono) auto
  also have "\<dots> \<le> n" using card_image_le [of "{..<n}"] by simp
  finally show False using assms(2) by simp
qed

lemma pins_pinned: "pinned_from 0 n blks d s \<longleftrightarrow> pins n blks d s \<and> (\<exists>c<NBUF. brefcnt (bufs s c) = 0)"
  by (auto simp: pinned_from_def pins_def)

lemma open_in_tx:
  assumes "nat (lh_n s) < NBUF"
  shows "open_tx d p s \<longleftrightarrow> in_tx d p s \<and> outstanding s = 1"
  using pins_free [OF _ assms, of d s "lh_block s"] by (auto simp: open_tx_def in_tx_def pins_pinned pins_def cache_inv_def)

lemma pins_same:
  assumes "pins n blks d s" "pins_kept d s t" "\<And>c. brefcnt (bufs t c) = brefcnt (bufs s c)"
  shows "pins n blks d t"
proof -
  have k: "bufof d m t = Some c" if "bufof d m s = Some c" "brefcnt (bufs s c) \<noteq> 0" for m c
    using that assms(2) by (auto simp: pins_kept_def)
  show ?thesis using assms(1) k few_same [of t s, OF assms(3)] unfolding pins_def assms(3) by blast
qed

lemma pins_enlist:
  assumes p: "pins n blks d s" and one: "cached_once d t" and m: "m \<notin> blks ` {..<n}" and k: "pins_kept d s t"
    and b: "bufof d m t = Some b" and r: "\<And>c. brefcnt (bufs t c) = brefcnt (bufs s c) + (if c = b then 1 else 0)"
  shows "pins (Suc n) (blks(n := m)) d t"
proof -
  have bN: "b < NBUF" using b by (simp add: bufof_iff [OF one])
  have home: "bufof d (blks j) t = Some c \<and> brefcnt (bufs s c) \<noteq> 0 \<and> c \<noteq> b" if "j < n" "bufof d (blks j) s = Some c" "brefcnt (bufs s c) \<noteq> 0" for j c
  proof -
    have j: "bufof d (blks j) t = Some c" using that k by (auto simp: pins_kept_def)
    have "blks j \<noteq> m" using m that by auto
    then show ?thesis using j b that by (auto simp: bufof_iff [OF one])
  qed
  have ex: "\<exists>j<n. bufof d (blks j) t = Some c \<and> c \<noteq> b" if c: "c < NBUF" "brefcnt (bufs s c) \<noteq> 0" for c
  proof -
    obtain j where "j < n" "bufof d (blks j) s = Some c" using p c by (auto simp: pins_def)
    then show ?thesis using home c(2) by blast
  qed
  have b0: "brefcnt (bufs s b) = 0" using ex [OF bN] by blast
  have one_of: "brefcnt (bufs t b) = 1" using r [of b] b0 by simp
  have few: "few_refs t" using p one_of r by (auto simp: few_refs_def pins_def)
  have fwd: "\<exists>c. bufof d ((blks(n := m)) j) t = Some c \<and> brefcnt (bufs t c) \<noteq> 0" if j: "j < Suc n" for j
  proof (cases "j = n")
    case False
    then have "j < n" using j by simp
    then obtain c where "bufof d (blks j) s = Some c" "brefcnt (bufs s c) \<noteq> 0" using p by (auto simp: pins_def)
    then show ?thesis using home [of j c] False j r [of c] by auto
  qed (use b one_of in simp)
  have bwd: "\<exists>j. j < Suc n \<and> bufof d ((blks(n := m)) j) t = Some c" if c: "c < NBUF" "brefcnt (bufs t c) \<noteq> 0" for c
  proof (cases "c = b")
    case False
    then obtain j where "j < n" "bufof d (blks j) t = Some c" using ex [OF c(1)] c(2) r [of c] by auto
    then show ?thesis by (intro exI [of _ j]) auto
  qed (use b in \<open>auto intro: exI [of _ n]\<close>)
  show ?thesis using few fwd bwd by (simp add: pins_def)
qed

lemma txn_enlist:
  assumes "txn hb n blks" "m \<notin> blks ` {..<n}" "unat m < 2 ^ 31" "m \<notin> log_area hb" "n < LOGBLOCKS"
  shows "txn hb (Suc n) (blks(n := m))"
proof -
  have "inj_on (blks(n := m)) {..<Suc n}" using assms(1,2) by (auto simp: txn_def inj_on_def less_Suc_eq image_def)
  then show ?thesis using assms by (auto simp: txn_def less_Suc_eq)
qed

text \<open>What \<^verbatim>\<open>log_write\<close> of a block changes.\<close>

definition enlisted :: "u32 \<Rightarrow> nat \<Rightarrow> 'a klog_scheme \<Rightarrow> 'a klog_scheme \<Rightarrow> bool" where
  "enlisted m b s t \<longleftrightarrow>
     (if m \<in> homes s then lh_n t = lh_n s \<and> lh_block t = lh_block s
      else lh_n t = lh_n s + 1 \<and> lh_block t = (lh_block s)(nat (lh_n s) := m)) \<and>
     (\<forall>c. brefcnt (bufs t c) = brefcnt (bufs s c) + (if c = b \<and> m \<notin> homes s then 1 else 0)) \<and>
     log_start t = log_start s \<and> log_dev t = log_dev s \<and> outstanding t = outstanding s \<and> committing t = committing s \<and>
     klog.more t = klog.more s"

lemma bpin_done:
  assumes inv: "cache_inv H d p s" and b: "b \<in> H" "brefcnt (bufs s b) + 1 \<noteq> 0"
  defines "t \<equiv> s\<lparr>bufs := (bufs s)(b := (bufs s b)\<lparr>brefcnt := brefcnt (bufs s b) + 1\<rparr>)\<rparr>"
  shows "cache_inv H d p t" "view d t = view d s" "bufof d m t = bufof d m s"
proof -
  have fr: "cframe s t" and vq: "vq_idle s" using inv by (simp_all add: t_def cframe_def cache_inv_def calm_def)
  have refs: "brefcnt (bufs s c) \<noteq> 0" if "c \<in> H" for c using inv that by (auto simp: cache_inv_def buf_ok_def)
  have "bring L t = bring L s" for L by (rule bring_cong) (simp_all add: t_def)
  then have ring: "\<exists>L. bring L t" using inv by (simp add: cache_inv_def)
  show "cache_inv H d p t"
    by (rule cache_step [OF inv _ fr _ ring]) (use vq refs b in \<open>auto simp: t_def split: if_splits\<close>)
  show st: "bufof d m t = bufof d m s" for m by (rule bufof_same) (simp_all add: t_def)
  show "view d t = view d s" by (rule view_same) (simp_all add: st, simp_all add: t_def)
qed

lemma log_write_done:
  fixes s :: "'a klog_scheme"
  assumes inv: "cache_inv {b} d p s" and b: "bufof d m s = Some b" "brefcnt (bufs s b) + 1 \<noteq> 0"
    and l: "0 \<le> lh_n s" "lh_n s < int LOGBLOCKS" "1 \<le> outstanding s"
  shows "\<exists>t. log_write b s = Ok () t \<and> cache_inv {b} d p t \<and> view d t = view d s \<and> img t = img s \<and> (\<forall>m. bufof d m t = bufof d m s) \<and> enlisted m b s t"
proof -
  have h: "held s = {}" and bm: "bblockno (bufs s b) = m" using inv view_held [OF inv _ b(1)] by (simp_all add: cache_inv_def calm_def)
  show ?thesis
  proof (cases "m \<in> homes s")
    case True
    then show ?thesis using log_write_old [of s b] h l bm inv by (intro exI [of _ s]) (simp add: enlisted_def)
  next
    case False
    let ?t = "s\<lparr>bufs := (bufs s)(b := (bufs s b)\<lparr>brefcnt := brefcnt (bufs s b) + 1\<rparr>)\<rparr>"
    note pd = bpin_done [OF inv _ b(2)]
    have "log_write b s = Ok () (?t\<lparr>lh_block := (lh_block s)(nat (lh_n s) := m), lh_n := lh_n s + 1\<rparr>)" (is "_ = Ok () ?u")
      using log_write_new [of s b] h l bm False by simp
    moreover have "cache_inv {b} d p ?u" "view d ?u = view d s" "\<forall>m. bufof d m ?u = bufof d m s" using pd by simp_all
    moreover have "enlisted m b s ?u" using False by (simp add: enlisted_def)
    ultimately show ?thesis by (intro exI [of _ ?u]) simp
  qed
qed

lemma log_more: "cframe s t \<Longrightarrow> klog.more t = klog.more s"
proof -
  assume "cframe s t"
  then have e: "cblank t = cblank s" by (simp add: cframe_def)
  have "klog.more (cblank u) = klog.more u" for u :: "'a klog_scheme" by (simp add: cblank_def blank_def)
  then show "klog.more t = klog.more s" using arg_cong [OF e, of klog.more] by simp
qed

lemma homes_same: "cframe s t \<Longrightarrow> homes t = homes s"
  by (simp add: homes_def log_fields)

text \<open>The transaction after an update, from what the steps did to the references.\<close>

lemma in_tx_enlist:
  fixes s u :: "'a klog_scheme"
  assumes o: "in_tx d p s" and m: "m \<notin> log_area (log_start s)" "unat m < 2 ^ 31" and n: "nat (lh_n s) < LOGBLOCKS"
    and u: "cache_inv {} d p u" "img u = img s" "bufof d m u = Some b" "pins_kept d s u" "enlisted m b s u"
  shows "in_tx d p u"
proof -
  have tx: "txn (log_start s) (nat (lh_n s)) (lh_block s)" and pin: "pins (nat (lh_n s)) (lh_block s) d s" and l: "0 \<le> lh_n s"
    using o by (simp_all add: in_tx_def)
  have one: "cached_once d u" using u(1) by (simp add: cache_inv_def)
  have "0 \<le> lh_n u \<and> txn (log_start s) (nat (lh_n u)) (lh_block u) \<and> pins (nat (lh_n u)) (lh_block u) d u"
  proof (cases "m \<in> homes s")
    case True
    then show ?thesis using u(5) tx l pins_same [OF pin u(4)] by (simp add: enlisted_def)
  next
    case False
    have r: "\<And>c. brefcnt (bufs u c) = brefcnt (bufs s c) + (if c = b then 1 else 0)" using u(5) False by (simp add: enlisted_def)
    have h: "m \<notin> lh_block s ` {..<nat (lh_n s)}" using False by (simp add: homes_def)
    have "nat (lh_n u) = Suc (nat (lh_n s))" "lh_block u = (lh_block s)(nat (lh_n s) := m)" "0 \<le> lh_n u"
      using u(5) False l by (simp_all add: enlisted_def nat_add_distrib)
    then show ?thesis using pins_enlist [OF pin one h u(4,3) r] txn_enlist [OF tx h m(2,1) n] by simp
  qed
  then show ?thesis using o u(1,2,5) by (simp add: in_tx_def enlisted_def)
qed

lemma does_enlist:
  fixes s :: "'a klog_scheme"
  assumes o: "in_tx d p s" and m: "m \<notin> log_area (log_start s)" "unat m < 2 ^ 31" and n: "nat (lh_n s) < LOGBLOCKS"
    and f: "blockwise f" and K: "K (img s)" and g: "\<And>t. cframe s t \<Longrightarrow> g t = f"
  shows "does K (bnd (bread d m s) (\<lambda>b s. let s = upd_buf b (bdata_update (g s)) s in bnd (log_write b s) (\<lambda>_ s. brelse b s)))
    (\<lambda>_ t. in_tx d p t \<and> view d t = put (m, f) (view d s) \<and> img t = img s \<and>
      log_start t = log_start s \<and> (\<exists>b. enlisted m b s t))"
proof (rule does_bnd [OF does_bread [of "{}" d p s m]])
  have inv: "cache_inv {} d p s" and one: "cached_once d s" and pin: "pins (nat (lh_n s)) (lh_block s) d s" and l: "0 \<le> lh_n s" "1 \<le> outstanding s"
    using o by (simp_all add: in_tx_def cache_inv_def)
  have free: "\<exists>b<NBUF. brefcnt (bufs s b) = 0" by (rule pins_free [OF one, of "nat (lh_n s)"]) (use n pin in \<open>auto simp: pins_def LOGBLOCKS_def NBUF_def\<close>)
  have few: "few_refs s" using pin by (simp add: pins_def)
  show "cache_inv {} d p s" "unat m < 2 ^ 31" "K (img s)" "\<exists>b<NBUF. brefcnt (bufs s b) = 0"
    using inv m K free by simp_all
  show "c \<notin> {} \<and> brefcnt (bufs s c) + 1 \<noteq> 0" if "bufof d m s = Some c" for c
    using that small_Suc [OF few, of c] by (simp add: bufof_iff [OF one])
  fix b t1 assume "fetched {} d p m s b t1"
  then have t1: "cache_inv {b} d p t1" "bufof d m t1 = Some b" "view d t1 = view d s" "img t1 = img s" "cframe s t1" "b < NBUF"
    and r1: "\<And>c. brefcnt (bufs t1 c) = (if c = b then brefcnt (bufs s c) + 1 else brefcnt (bufs s c))" and k1: "pins_kept d s t1"
    by (auto simp: fetched_def pins_kept_def)
  define x where "x = bdata (bufs t1 b)"
  define t2 where "t2 = t1\<lparr>bufs := (bufs t1)(b := (bufs t1 b)\<lparr>bdata := f x\<rparr>)\<rparr>"
  have e: "upd_buf b (bdata_update (g t1)) t1 = t2" unfolding t2_def x_def g [OF t1(5)] by (cases "bufs t1 b") simp
  have x: "block x = view d s m" and bm: "bblockno (bufs t1 b) = m" using view_held [OF t1(1) _ t1(2)] t1(3) by (simp_all add: x_def)
  note md = modify_done [OF t1(1) _ bm, where f = "f x", folded t2_def]
  have f2: "cframe s t2" using cframe_trans [OF t1(5), of t2] by (simp add: t2_def cframe_def)
  have r2: "brefcnt (bufs t2 c) = brefcnt (bufs t1 c)" "img t2 = img s" for c using t1(4) by (simp_all add: t2_def)
  have b01: "brefcnt (bufs s b) = 0 \<or> brefcnt (bufs s b) = 1" using few t1(6) by (simp add: few_refs_def)
  have nl: "lh_n s < int LOGBLOCKS" using n l(1) by linarith
  obtain t3 where t3: "log_write b t2 = Ok () t3" "cache_inv {b} d p t3" "view d t3 = view d t2" "img t3 = img t2" "\<forall>m. bufof d m t3 = bufof d m t2" "enlisted m b t2 t3"
    using log_write_done [of b d p t2 m] md b01 r1 r2 l nl log_fields [OF f2] op_fields [OF f2] t1(2) by auto
  have hm: "homes t2 = homes s" by (rule homes_same [OF f2])
  have r3: "brefcnt (bufs t3 c) = brefcnt (bufs s c) + (if c = b then 1 else 0) + (if c = b \<and> m \<notin> homes s then 1 else 0)" for c
    using t3(6) r1 r2 hm by (simp add: enlisted_def)
  have b3: "brefcnt (bufs t3 b) \<noteq> 1"
  proof (cases "m \<in> homes s")
    case True
    then obtain c where "bufof d m s = Some c" "brefcnt (bufs s c) \<noteq> 0" using pin by (auto simp: homes_def pins_def)
    then have "brefcnt (bufs s b) = 1" using k1 t1(2) b01 by (auto simp: pins_kept_def)
    then show ?thesis using True by (simp add: r3)
  qed (use b01 in \<open>auto simp: r3\<close>)
  show "does K (let s = upd_buf b (bdata_update (g t1)) t1 in bnd (log_write b s) (\<lambda>_. brelse b))
    (\<lambda>_ t. in_tx d p t \<and> view d t = put (m, f) (view d s) \<and> img t = img s \<and> log_start t = log_start s \<and> (\<exists>b. enlisted m b s t))"
    unfolding e Let_def t3(1) bnd.simps
  proof (rule does_mono [OF does_brelse [OF t3(2), where K = K]])
    show "K (img t3)" using K t3(4) r2 by simp
    fix y u assume "cache_inv ({b} - {b}) d p u \<and> kept d b (\<lambda>x. x - 1) t3 u"
    then have u: "cache_inv {} d p u" "view d u = view d t3" "img u = img t3" "cframe t3 u" "\<forall>m. bufof d m u = bufof d m t3"
      and ru: "\<And>c. brefcnt (bufs u c) = brefcnt (bufs t3 c) - (if c = b then 1 else 0)" by (auto simp: kept_def)
    have bu: "bufof d k u = bufof d k t1" for k using u(5) t3(5) md(3) by simp
    have "brefcnt (bufs u c) = brefcnt (bufs s c) + (if c = b \<and> m \<notin> homes s then 1 else 0)" for c by (simp add: ru r3)
    then have en: "enlisted m b s u"
      using t3(6) hm log_fields [OF u(4)] op_fields [OF u(4)] log_fields [OF f2] op_fields [OF f2] log_more [OF u(4)] log_more [OF f2] by (simp add: enlisted_def)
    have "in_tx d p u" by (rule in_tx_enlist [OF o m n u(1) _ _ _ en]) (use u t3 r2 bu t1 k1 in \<open>simp_all add: pins_kept_def\<close>)
    then show "in_tx d p u \<and> view d u = put (m, f) (view d s) \<and> img u = img s \<and> log_start u = log_start s \<and>
      (\<exists>b. enlisted m b s u)"
      using u(2,3) t3(3,4) md(2) r2 t1(3) put_view [where D = "view d s" and m = m, OF f x] en by (auto simp: enlisted_def split: if_splits)
  qed (use b3 in simp_all)
qed

lemma does_logged:
  fixes s :: "'a klog_scheme"
  assumes o: "open_tx d p s" and m: "m \<notin> log_area (log_start s)" "unat m < 2 ^ 31" and n: "nat (lh_n s) < LOGBLOCKS" "Suc (nat (lh_n s)) < NBUF"
    and f: "blockwise f" and K: "K (img s)" and g: "\<And>t. cframe s t \<Longrightarrow> g t = f"
  shows "does K (bnd (bread d m s) (\<lambda>b s. let s = upd_buf b (bdata_update (g s)) s in bnd (log_write b s) (\<lambda>_ s. brelse b s)))
    (\<lambda>_ t. open_tx d p t \<and> view d t = put (m, f) (view d s) \<and> img t = img s \<and>
      log_start t = log_start s \<and> lh_n t \<le> lh_n s + 1 \<and> klog.more t = klog.more s)"
proof -
  have i: "in_tx d p s" "outstanding s = 1" "0 \<le> lh_n s" using o open_in_tx [of s d p] n(2) by (auto simp: in_tx_def)
  show ?thesis
  proof (rule does_mono [OF does_enlist [where K = K and g = g, OF i(1) m n(1) f K g]])
    fix x and t :: "'a klog_scheme"
    assume t: "in_tx d p t \<and> view d t = put (m, f) (view d s) \<and> img t = img s \<and> log_start t = log_start s \<and> (\<exists>b. enlisted m b s t)"
    then have e: "outstanding t = 1" "lh_n t \<le> lh_n s + 1" "klog.more t = klog.more s" using i(2) by (auto simp: enlisted_def split: if_splits)
    have "nat (lh_n t) < NBUF" using e(2) n(2) i(3) by linarith
    then show "open_tx d p t \<and> view d t = put (m, f) (view d s) \<and> img t = img s \<and> log_start t = log_start s \<and> lh_n t \<le> lh_n s + 1 \<and> klog.more t = klog.more s"
      using open_in_tx [of t d p] t e by simp
  qed simp_all
qed

lemma does_logged_update:
  assumes "open_tx d p s" "m \<notin> log_area (log_start s)" "unat m < 2 ^ 31" "nat (lh_n s) < LOGBLOCKS" "Suc (nat (lh_n s)) < NBUF" "blockwise f" "K (img s)"
  shows "does K (logged_update d m f s) (\<lambda>_ t. open_tx d p t \<and> view d t = put (m, f) (view d s) \<and> img t = img s \<and>
    log_start t = log_start s \<and> lh_n t \<le> lh_n s + 1)"
  unfolding logged_update_def by (rule does_mono [OF does_logged [where K = K and g = "\<lambda>_. f", OF assms]]) simp_all

section \<open>The whole operation\<close>

definition proper :: "u32 \<Rightarrow> u32 \<times> ((nat \<Rightarrow> u8) \<Rightarrow> nat \<Rightarrow> u8) \<Rightarrow> bool" where
  "proper hb u \<longleftrightarrow> fst u \<notin> log_area hb \<and> unat (fst u) < 2 ^ 31 \<and> blockwise (snd u)"

lemma does_updates:
  fixes s :: "'a klog_scheme"
  assumes "open_tx d p s" "list_all (proper (log_start s)) ups" "lh_n s + int (length ups) \<le> int MAXOPBLOCKS" "K (img s)"
  shows "does K (foreach ups (\<lambda>u s. logged_update d (fst u) (snd u) s) s)
    (\<lambda>_ t. open_tx d p t \<and> view d t = fold put ups (view d s) \<and> img t = img s \<and> log_start t = log_start s)"
  using assms
proof (induction ups arbitrary: s)
  case Nil
  then show ?case by (simp add: does_Ok)
next
  case (Cons u ups)
  have l: "0 \<le> lh_n s" using Cons.prems(1) by (simp add: open_tx_def)
  have n: "nat (lh_n s) < LOGBLOCKS" "Suc (nat (lh_n s)) < NBUF" using Cons.prems(3) l by (simp_all add: LOGBLOCKS_def NBUF_def MAXOPBLOCKS_def)
  have u: "fst u \<notin> log_area (log_start s)" "unat (fst u) < 2 ^ 31" "blockwise (snd u)" using Cons.prems(2) by (simp_all add: proper_def)
  note step = does_logged_update [where K = K, OF Cons.prems(1) u(1,2) n u(3) Cons.prems(4)]
  show ?case unfolding foreach.simps
  proof (rule does_bnd [OF step], elim conjE)
    fix t :: "'a klog_scheme" assume t: "open_tx d p t" "view d t = put (fst u, snd u) (view d s)" "img t = img s" "log_start t = log_start s" "lh_n t \<le> lh_n s + 1"
    have "does K (foreach ups (\<lambda>u s. logged_update d (fst u) (snd u) s) t)
      (\<lambda>_ v. open_tx d p v \<and> view d v = fold put ups (view d t) \<and> img v = img t \<and> log_start v = log_start t)"
      by (rule Cons.IH) (use t Cons.prems in auto)
    then show "does K (foreach ups (\<lambda>u s. logged_update d (fst u) (snd u) s) t)
      (\<lambda>_ v. open_tx d p v \<and> view d v = fold put (u # ups) (view d s) \<and> img v = img s \<and> log_start v = log_start s)"
      using t by simp
  qed
qed

text \<open>The counters of the log are no part of the cache either.\<close>

lemma cache_ops [simp]:
  "cache_inv H d p (s\<lparr>outstanding := x\<rparr>) = cache_inv H d p s" "cache_inv H d p (s\<lparr>committing := y\<rparr>) = cache_inv H d p s"
  "cache_inv {} d p (s\<lparr>procs := ps\<rparr>) = cache_inv {} d p s"
  by (simp_all add: cache_inv_def calm_def vq_idle_def cached_once_def buf_ok_def myproc_def bring_def)

lemma bufof_ops [simp]:
  "bufof d n (s\<lparr>outstanding := x\<rparr>) = bufof d n s" "bufof d n (s\<lparr>committing := y\<rparr>) = bufof d n s" "bufof d n (s\<lparr>procs := ps\<rparr>) = bufof d n s"
  by (simp_all add: bufof_def)

lemma view_ops [simp]:
  "view d (s\<lparr>outstanding := x\<rparr>) = view d s" "view d (s\<lparr>committing := y\<rparr>) = view d s" "view d (s\<lparr>procs := ps\<rparr>) = view d s"
  by (simp_all add: view_def fun_eq_iff split: option.split)

lemma pinned_ops [simp]:
  "pinned_from i n blks d (s\<lparr>outstanding := x\<rparr>) = pinned_from i n blks d s" "pinned_from i n blks d (s\<lparr>committing := y\<rparr>) = pinned_from i n blks d s"
  by (simp_all add: pinned_from_def few_refs_def)

lemma quiet_ops [simp]:
  "quiet d p (s\<lparr>committing := y\<rparr>) = quiet d p s" "quiet d p (s\<lparr>procs := ps\<rparr>) = quiet d p s"
  by (simp_all add: quiet_def)

lemma begin_op_quiet:
  assumes "quiet d p s" "log_dev s = d" "outstanding s = 0" "committing s = 0" "unat (log_start s) + LOGBLOCKS < 2 ^ 31"
  shows "begin_op s = Ok () (s\<lparr>outstanding := 1\<rparr>)" "open_tx d p (s\<lparr>outstanding := 1\<rparr>)"
proof -
  have h: "held s = {}" "lh_n s = 0" "0 < patience s" using assms(1) by (simp_all add: quiet_def cache_inv_def calm_def)
  then obtain n where n: "patience s = Suc n" by (cases "patience s") auto
  have "s\<lparr>outstanding := 1, held := {}\<rparr> = s\<lparr>outstanding := 1\<rparr>" using h(1) by simp
  then show "begin_op s = Ok () (s\<lparr>outstanding := 1\<rparr>)"
    using assms h n by (simp add: begin_op_def acquire_def release_def LOGBLOCKS_def MAXOPBLOCKS_def)
  have "0 < NBUF" by (simp add: NBUF_def MAXOPBLOCKS_def)
  then have "pinned_from 0 0 (lh_block s) d s" using assms(1) by (auto simp: pinned_from_def few_refs_def quiet_def)
  then show "open_tx d p (s\<lparr>outstanding := 1\<rparr>)" using assms h by (simp add: open_tx_def quiet_def txn_def)
qed

text \<open>A disk that a crash may leave: recovery makes of it the contents \<open>D\<close> or the contents \<open>E\<close>.\<close>

definition recoverable :: "u32 \<Rightarrow> (u32 \<Rightarrow> u8 list) \<Rightarrow> (u32 \<Rightarrow> u8 list) \<Rightarrow> (nat \<Rightarrow> u8) \<Rightarrow> bool" where
  "recoverable hb D E im \<longleftrightarrow> (\<exists>n blks. txn hb n blks \<and> old_or_new hb n blks D E im)"

lemma commit_open:
  fixes s :: "'a klog_scheme"
  assumes o: "open_tx d p s"
  defines "s1 \<equiv> s\<lparr>outstanding := 0, committing := 1\<rparr>"
  shows "does (recoverable (log_start s) (iblock (img s)) (view d s)) (commit s1)
    (\<lambda>_ t. quiet d p t \<and> log_start t = log_start s \<and> log_dev t = d \<and> agree (log_start s) (view d t) (view d s) \<and> outstanding t = 0)"
proof -
  have tx: "txn (log_start s) (nat (lh_n s)) (lh_block s)" using o by (simp add: open_tx_def)
  have f: "log_start s1 = log_start s" "lh_n s1 = lh_n s" "lh_block s1 = lh_block s" "img s1 = img s" "view d s1 = view d s" "outstanding s1 = 0"
    by (simp_all add: s1_def)
  have o1: "cache_inv {} d p s1" "log_dev s1 = d" "pinned_from 0 (nat (lh_n s1)) (lh_block s1) d s1" "hdr_count (iblock (img s1) (log_start s1)) = 0"
    using o by (simp_all add: open_tx_def s1_def)
  show ?thesis
  proof (cases "lh_n s = 0")
    case True
    have "quiet d p s1" using o1 True f by (auto simp: quiet_def pinned_from_def)
    moreover have "recoverable (log_start s) (iblock (img s)) (view d s) (img s1)"
      using tx o1(4) f by (auto simp: recoverable_def old_or_new_def agree_def)
    ultimately show ?thesis using True f o1 by (simp add: commit_def does_Ok agree_def)
  next
    case False
    then have n: "0 < lh_n s1" using o f by (simp add: open_tx_def)
    have tx1: "txn (log_start s1) (nat (lh_n s1)) (lh_block s1)" using tx f by simp
    show ?thesis by (rule does_mono [OF does_commit [OF o1(1,2) n tx1 o1(3,4)]]) (use tx f in \<open>auto simp: recoverable_def\<close>)
  qed
qed

lemma end_op_last:
  assumes "held s = {}" "outstanding s = 1" "committing s = 0"
  shows "end_op s = bnd (commit (s\<lparr>outstanding := 0, committing := 1\<rparr>)) (\<lambda>_ s.
    bnd (acquire LogLock s) (\<lambda>_ s. bnd (wakeup ChLog (s\<lparr>committing := 0\<rparr>)) (\<lambda>_ s. release LogLock s)))"
proof -
  have e: "s\<lparr>outstanding := 0, committing := 1, held := {}\<rparr> = s\<lparr>outstanding := 0, committing := 1\<rparr>" using assms(1) by simp
  have a: "acquire LogLock s = Ok () (s\<lparr>held := {LogLock}\<rparr>)" using assms(1) by (simp add: acquire_def)
  have r: "release LogLock (s\<lparr>held := {LogLock}, outstanding := 0, committing := 1\<rparr>) = Ok () (s\<lparr>outstanding := 0, committing := 1\<rparr>)"
    by (simp add: release_def e)
  show ?thesis by (simp add: end_op_def a r assms)
qed

lemma does_wake_log:
  assumes "quiet d p t" "K (img t)"
  shows "does K (bnd (acquire LogLock t) (\<lambda>_ s. bnd (wakeup ChLog (s\<lparr>committing := 0\<rparr>)) (\<lambda>_ s. release LogLock s)))
    (\<lambda>_ u. \<exists>ps. u = t\<lparr>procs := ps, committing := 0\<rparr>)"
proof -
  have h: "held t = {}" using assms(1) by (simp add: quiet_def cache_inv_def calm_def)
  let ?t = "t\<lparr>held := {LogLock}, committing := 0\<rparr>"
  have "no_plocks ?t" by (simp add: no_plocks_def)
  then obtain ps where ps: "wakeup ChLog ?t = Ok () (?t\<lparr>procs := ps\<rparr>)" using wakeup_sched [of ?t ChLog] by blast
  have "?t\<lparr>procs := ps, held := {}\<rparr> = t\<lparr>procs := ps, committing := 0\<rparr>" using h by simp
  then have "bnd (acquire LogLock t) (\<lambda>_ s. bnd (wakeup ChLog (s\<lparr>committing := 0\<rparr>)) (\<lambda>_ s. release LogLock s)) =
      Ok () (t\<lparr>procs := ps, committing := 0\<rparr>)"
    using h ps by (simp add: acquire_def release_def)
  then show ?thesis using assms(2) by (auto intro!: does_Ok)
qed

lemma does_end_op:
  assumes o: "open_tx d p s"
  shows "does (recoverable (log_start s) (iblock (img s)) (view d s)) (end_op s)
    (\<lambda>_ t. quiet d p t \<and> log_start t = log_start s \<and> log_dev t = d \<and> agree (log_start s) (view d t) (view d s) \<and> outstanding t = 0 \<and> committing t = 0)"
proof -
  let ?K = "recoverable (log_start s) (iblock (img s)) (view d s)"
  have e: "held s = {}" "outstanding s = 1" "committing s = 0" using o by (simp_all add: open_tx_def cache_inv_def calm_def)
  have tx: "txn (log_start s) 0 (lh_block s)" using o by (simp add: open_tx_def txn_def)
  show ?thesis unfolding end_op_last [OF e]
  proof (rule does_bnd [OF commit_open [OF o]], elim conjE)
    fix t assume t: "quiet d p t" "log_start t = log_start s" "log_dev t = d" "agree (log_start s) (view d t) (view d s)" "outstanding t = 0"
    have "?K (img t)"
      using t tx by (auto simp: recoverable_def old_or_new_def quiet_view [OF t(1)] agree_def quiet_def)
    then show "does ?K (bnd (acquire LogLock t) (\<lambda>_ s. bnd (wakeup ChLog (s\<lparr>committing := 0\<rparr>)) (\<lambda>_ s. release LogLock s)))
      (\<lambda>_ t. quiet d p t \<and> log_start t = log_start s \<and> log_dev t = d \<and> agree (log_start s) (view d t) (view d s) \<and> outstanding t = 0 \<and> committing t = 0)"
      by (rule does_mono [OF does_wake_log [OF t(1)]]) (use t in auto)
  qed
qed

lemma does_logged_op:
  fixes s :: "'a klog_scheme"
  assumes q: "quiet d p s" and s: "log_dev s = d" "outstanding s = 0" "committing s = 0" and g: "unat (log_start s) + LOGBLOCKS < 2 ^ 31"
    and u: "list_all (proper (log_start s)) ups" "length ups \<le> MAXOPBLOCKS"
  shows "does (recoverable (log_start s) (view d s) (fold put ups (view d s))) (logged_op d ups s)
    (\<lambda>_ t. quiet d p t \<and> log_start t = log_start s \<and> log_dev t = d \<and> agree (log_start s) (view d t) (fold put ups (view d s)) \<and>
      outstanding t = 0 \<and> committing t = 0)" (is "does ?K _ _")
proof -
  let ?s = "s\<lparr>outstanding := 1\<rparr>"
  note b = begin_op_quiet [OF q s g]
  have v: "view d s = iblock (img s)" using quiet_view [OF q] by (simp add: fun_eq_iff)
  have n: "lh_n ?s + int (length ups) \<le> int MAXOPBLOCKS" using q u(2) by (simp add: quiet_def)
  have "txn (log_start s) 0 (lh_block s)" using g by (simp add: txn_def)
  then have K: "?K (img ?s)" using q v by (auto simp: recoverable_def old_or_new_def agree_def quiet_def)
  have us: "list_all (proper (log_start ?s)) ups" using u(1) by simp
  show ?thesis unfolding logged_op_def b(1) bnd.simps
  proof (rule does_bnd [OF does_updates [where K = ?K, OF b(2) us n K]], elim conjE)
    fix t :: "'a klog_scheme" assume t: "open_tx d p t" "view d t = fold put ups (view d ?s)" "img t = img ?s" "log_start t = log_start ?s"
    show "does ?K (end_op t) (\<lambda>_ t. quiet d p t \<and> log_start t = log_start s \<and> log_dev t = d \<and> agree (log_start s) (view d t) (fold put ups (view d s)) \<and>
      outstanding t = 0 \<and> committing t = 0)"
      by (rule does_mono [OF does_end_op [OF t(1)]]) (use t v in simp_all)
  qed
qed

section \<open>Recovery after a crash\<close>

lemma boot_log [simp]:
  "cache_inv {} d p (s\<lparr>log_start := x, log_dev := y\<rparr>) = cache_inv {} d p s"
  by (simp add: cache_inv_def calm_def vq_idle_def cached_once_def buf_ok_def myproc_def bring_def)

lemma initlog_eq:
  assumes "booted d p r"
  shows "initlog d su r = recover_from_log (r\<lparr>log_start := logstart su, log_dev := d\<rparr>)" "booted d p (r\<lparr>log_start := logstart su, log_dev := d\<rparr>)"
proof -
  have "held r = {}" using assms by (simp add: booted_def cache_inv_def calm_def)
  then have "initlock LogLock r = r" by (simp add: initlock_def)
  then show "initlog d su r = recover_from_log (r\<lparr>log_start := logstart su, log_dev := d\<rparr>)"
    by (simp add: initlog_def LOGBLOCKS_def MAXOPBLOCKS_def BSIZE_def)
  show "booted d p (r\<lparr>log_start := logstart su, log_dev := d\<rparr>)" using assms by (simp add: booted_def tx_ready_def)
qed

lemma does_initlog:
  fixes r :: "'a klog_scheme" and su :: superblock
  defines "hb \<equiv> logstart su"
  assumes "booted d p r" "log_ok hb (iblock (img r) hb)"
  shows "does (\<lambda>im. log_ok hb (iblock im hb) \<and> agree hb (recov hb (iblock im)) (recov hb (iblock (img r)))) (initlog d su r)
    (\<lambda>_ t. quiet d p t \<and> agree hb (view d t) (recov hb (iblock (img r))))"
proof -
  let ?r = "r\<lparr>log_start := hb, log_dev := d\<rparr>" and ?v = "iblock (img r) hb" and ?E = "recov hb (iblock (img r))"
  note e = initlog_eq [OF assms(2), of su, folded hb_def]
  have f: "log_start ?r = hb" "img ?r = img r" "log_dev ?r = d" by simp_all
  have ok: "log_ok (log_start ?r) (iblock (img ?r) (log_start ?r))" using assms(3) by simp
  have tx: "txn hb (nat (hdr_count ?v)) (hdr_block ?v)" using assms(3) by (simp add: log_ok_def)
  have K: "log_ok hb (iblock im hb) \<and> agree hb (recov hb (iblock im)) ?E" if im: "old_or_new hb (nat (hdr_count ?v)) (hdr_block ?v) ?E ?E im" for im
  proof (cases "hdr_count (iblock im hb) = 0 \<and> agree hb (iblock im) ?E")
    case True
    then show ?thesis using tx by (simp add: log_ok_def txn_def recov_empty)
  next
    case False
    then have l: "lists (nat (hdr_count ?v)) (hdr_block ?v) (iblock im hb)" "hdr_count (iblock im hb) \<le> int LOGBLOCKS" "agree hb (recov hb (iblock im)) ?E"
      using im by (auto simp: old_or_new_def)
    have "txn hb (nat (hdr_count ?v)) (hdr_block (iblock im hb))" using tx txn_cong l(1) by (metis lists_def)
    then show ?thesis using l by (simp add: log_ok_def lists_def)
  qed
  show ?thesis unfolding e(1) by (rule does_mono [OF does_recover [OF e(2) f(3) ok, where D = ?E]]) (use K f in \<open>simp_all only: f simp_thms\<close>)
qed

lemma recoverable_ok:
  assumes "recoverable hb D E im"
  shows "log_ok hb (iblock im hb)" "agree hb (recov hb (iblock im)) D \<or> agree hb (recov hb (iblock im)) E"
proof -
  obtain n blks where t: "txn hb n blks" "old_or_new hb n blks D E im" using assms by (auto simp: recoverable_def)
  have "log_ok hb (iblock im hb) \<and> (agree hb (recov hb (iblock im)) D \<or> agree hb (recov hb (iblock im)) E)"
  proof (cases "hdr_count (iblock im hb) = 0 \<and> (agree hb (iblock im) D \<or> agree hb (iblock im) E)")
    case True
    then show ?thesis using t(1) by (auto simp: log_ok_def txn_def recov_empty)
  next
    case False
    then have l: "lists n blks (iblock im hb)" "hdr_count (iblock im hb) \<le> int LOGBLOCKS" "agree hb (recov hb (iblock im)) E"
      using t(2) by (auto simp: old_or_new_def)
    have "txn hb n (hdr_block (iblock im hb))" using t(1) txn_cong l(1) by (metis lists_def)
    then show ?thesis using l by (simp add: log_ok_def lists_def)
  qed
  then show "log_ok hb (iblock im hb)" "agree hb (recov hb (iblock im)) D \<or> agree hb (recov hb (iblock im)) E" by simp_all
qed

lemma agree_trans: "agree hb C D \<Longrightarrow> agree hb D E \<Longrightarrow> agree hb C E"
  by (simp add: agree_def)

section \<open>Properties\<close>

lemma doesE:
  assumes "does K r Q"
  obtains x t where "drive r = Ok x t" "Q x t" "\<And>im. im \<in> crash_imgs r \<Longrightarrow> K im"
  using assms unfolding does_def by blast

lemma drive_img: "drive r = Ok x t \<Longrightarrow> img t \<in> crash_imgs r"
proof (induction r)
  case (Sleep s k)
  from Sleep.prems obtain u where u: "disk_turn dev_serve s = Ok () u" "drive (k u) = Ok x t" by (auto simp: bnd_Ok_iff)
  then show ?case using Sleep.IH [of "k u"] by auto
qed auto

text \<open>
  (C1) A file system operation is atomic across crashes. From a state between transactions, an operation of at most
  \<open>MAXOPBLOCKS\<close> block updates (\<^verbatim>\<open>begin_op\<close>; read, modify, \<^verbatim>\<open>log_write\<close> and release each block; \<^verbatim>\<open>end_op\<close>) runs to
  completion, leaves all the updates on the disk and the log empty; and if the machine stops at any point in between, then
  \<^verbatim>\<open>initlog\<close> at the next boot completes and every block outside the log area holds either what it held
  before the operation, for all blocks, or what it holds after it, for all blocks.
\<close>

theorem logged_op_atomic:
  fixes s :: "'a klog_scheme"
  assumes "quiet d p s" "log_dev s = d" "outstanding s = 0" "committing s = 0" "unat (log_start s) + LOGBLOCKS < 2 ^ 31"
    and "list_all (proper (log_start s)) ups" "length ups \<le> MAXOPBLOCKS"
  shows "(\<exists>t. drive (logged_op d ups s) = Ok () t \<and> quiet d p t \<and> agree (log_start s) (view d t) (fold put ups (view d s))) \<and>
    (\<forall>q su. \<forall>r :: 'b klog_scheme. booted d q r \<longrightarrow> img r \<in> crash_imgs (logged_op d ups s) \<longrightarrow> logstart su = log_start s \<longrightarrow>
      (\<exists>u. drive (initlog d su r) = Ok () u \<and> quiet d q u \<and>
        (agree (log_start s) (view d u) (view d s) \<or> agree (log_start s) (view d u) (fold put ups (view d s)))))"
proof (intro conjI allI impI)
  obtain t where t: "drive (logged_op d ups s) = Ok () t" "quiet d p t \<and> agree (log_start s) (view d t) (fold put ups (view d s))"
    and K: "\<And>im. im \<in> crash_imgs (logged_op d ups s) \<Longrightarrow> recoverable (log_start s) (view d s) (fold put ups (view d s)) im"
    by (rule doesE [OF does_logged_op [OF assms]]) auto
  then show "\<exists>t. drive (logged_op d ups s) = Ok () t \<and> quiet d p t \<and> agree (log_start s) (view d t) (fold put ups (view d s))" by blast
  fix q and su :: superblock and r :: "'b klog_scheme"
  assume r: "booted d q r" "img r \<in> crash_imgs (logged_op d ups s)" "logstart su = log_start s"
  note ok = recoverable_ok [OF K [OF r(2)], folded r(3)]
  obtain u where "drive (initlog d su r) = Ok () u" "quiet d q u \<and> agree (logstart su) (view d u) (recov (logstart su) (iblock (img r)))"
    by (rule doesE [OF does_initlog [OF r(1) ok(1)]]) auto
  then show "\<exists>u. drive (initlog d su r) = Ok () u \<and> quiet d q u \<and>
      (agree (log_start s) (view d u) (view d s) \<or> agree (log_start s) (view d u) (fold put ups (view d s)))"
    using ok(2) agree_trans unfolding r(3) by blast
qed

text \<open>A machine with an empty disk, whose log starts at block 2.\<close>

definition log_machine :: ktrap where
  "log_machine = disk_machine\<lparr>img := (\<lambda>_. 0), log_dev := 1, log_start := 2\<rparr>"

definition log_super :: superblock where
  "log_super = \<lparr>magic = 0, sb_size = 1000, nblocks = 900, ninodes = 200, nlog = 31, logstart = 2, inodestart = 33, bmapstart = 46\<rparr>"

lemma zero_header: "hdr_count (iblock (\<lambda>_. 0) n) = 0"
  by (simp add: iblock_def hdr_of_block ld32_def le_bytes_def)

lemma log_machine_boot:
  obtains t where "binit log_machine = Ok () t" "quiet 1 0 t" "log_dev t = 1" "log_start t = 2" "outstanding t = 0" "committing t = 0"
    "img t = (\<lambda>_. 0)" "\<forall>im. booted 1 0 (t\<lparr>img := im\<rparr>)"
proof -
  have c: "calm 0 log_machine" using disk_machine_ok by (simp add: log_machine_def calm_def NPROC_def vq_idle_def myproc_def)
  have z: "\<forall>b<NBUF. bdev (bufs log_machine b) \<noteq> 1" by (simp add: log_machine_def disk_machine_def zero_machine_def zero_buf_def)
  obtain t where t: "binit log_machine = Ok () t" "cache_inv {} 1 0 t" "img t = img log_machine" "cframe log_machine t"
    "\<forall>c. bdev (bufs t c) = bdev (bufs log_machine c) \<and> brefcnt (bufs t c) = brefcnt (bufs log_machine c)"
    using binit_boot [OF c z] by blast
  have b: "bdev (bufs t c) = 0" "brefcnt (bufs t c) = 0" for c using t(5) by (simp_all add: log_machine_def disk_machine_def zero_machine_def zero_buf_def)
  have f: "lh_n log_machine = 0" "log_dev log_machine = 1" "log_start log_machine = 2" "outstanding log_machine = 0" "committing log_machine = 0" "img log_machine = (\<lambda>_. 0)"
    by (simp_all add: log_machine_def disk_machine_def zero_machine_def)
  have "quiet 1 0 t" using t b f log_fields [OF t(4)] by (simp add: quiet_def zero_header)
  moreover have "tx_ready log_machine" by (simp add: log_machine_def disk_machine_def tx_ready_def zero_machine_def) (rule exI [of _ 0], simp)
  then have "tx_ready t" using cframeD(6) [OF t(4)] by simp
  then have "booted 1 0 (t\<lparr>img := im\<rparr>)" for im
    using t(2) b by (simp add: booted_def cache_inv_def calm_def vq_idle_def cached_once_def buf_ok_def myproc_def bring_def tx_ready_def)
  ultimately show ?thesis using that t f log_fields [OF t(4)] op_fields [OF t(4)] by simp
qed

lemma blockwise_st32: "blockwise (\<lambda>x. st32 x off v)"
  by (simp add: blockwise_def block_def st32_def)

definition two_writes :: "(u32 \<times> ((nat \<Rightarrow> u8) \<Rightarrow> nat \<Rightarrow> u8)) list" where
  "two_writes = [(50, \<lambda>x. st32 x 0 7), (60, \<lambda>x. st32 x 4 9)]"

lemma two_writes_ok: "list_all (proper 2) two_writes" "length two_writes \<le> MAXOPBLOCKS"
  "ld32 ((!) (fold put two_writes D 50)) 0 = 7"
  by (simp_all add: two_writes_def proper_def blockwise_st32 log_area_def LOGBLOCKS_def MAXOPBLOCKS_def put_def ld32_block BSIZE_def ld32_st32)

theorem logged_op_atomic_witness:
  "\<exists>t u w. binit log_machine = Ok () t \<and> drive (logged_op 1 two_writes t) = Ok () u \<and> ld32 ((!) (view 1 u 50)) 0 = 7 \<and>
     drive (initlog 1 log_super (t\<lparr>img := img u\<rparr>)) = Ok () w \<and> quiet 1 0 w"
proof -
  obtain t where t: "binit log_machine = Ok () t" "quiet 1 0 t" "log_dev t = 1" "log_start t = 2" "outstanding t = 0" "committing t = 0"
    "img t = (\<lambda>_. 0)" "\<forall>im. booted 1 0 (t\<lparr>img := im\<rparr>)" by (rule log_machine_boot)
  have g: "unat (log_start t) + LOGBLOCKS < 2 ^ 31" "list_all (proper (log_start t)) two_writes" "(50 :: u32) \<notin> log_area (log_start t)"
    using two_writes_ok by (simp_all add: t(4) LOGBLOCKS_def MAXOPBLOCKS_def log_area_def)
  note th = logged_op_atomic [OF t(2,3,5,6) g(1,2) two_writes_ok(2)]
  from th [THEN conjunct1] obtain u where u: "drive (logged_op 1 two_writes t) = Ok () u" "agree (log_start t) (view 1 u) (fold put two_writes (view 1 t))"
    by blast
  have "view 1 u 50 = fold put two_writes (view 1 t) 50" using u(2) g(3) by (simp add: agree_def)
  then have v: "ld32 ((!) (view 1 u 50)) 0 = 7" by (simp only: two_writes_ok(3))
  have i: "img (t\<lparr>img := img u\<rparr>) \<in> crash_imgs (logged_op 1 two_writes t)" using drive_img [OF u(1)] by simp
  have l: "logstart log_super = log_start t" by (simp add: log_super_def t(4))
  obtain w where "drive (initlog 1 log_super (t\<lparr>img := img u\<rparr>)) = Ok () w" "quiet 1 0 w"
    using th [THEN conjunct2, rule_format, OF t(8) [rule_format] i l] by blast
  then show ?thesis using t(1) u(1) v by blast
qed

text \<open>
  (C11) Recovery is idempotent. Booting on a disk whose log header is intact, \<^verbatim>\<open>initlog\<close> copies every logged block to its
  home location and empties the log; and if the machine stops again at any point of it, the disk then has an intact header
  too and recovers to the same contents outside the log area.
\<close>

theorem initlog_recovers:
  assumes "booted d p r" "log_ok (logstart su) (iblock (img r) (logstart su))"
  shows "(\<exists>t. drive (initlog d su r) = Ok () t \<and> quiet d p t \<and> agree (logstart su) (view d t) (recov (logstart su) (iblock (img r)))) \<and>
    (\<forall>im\<in>crash_imgs (initlog d su r). log_ok (logstart su) (iblock im (logstart su)) \<and>
       agree (logstart su) (recov (logstart su) (iblock im)) (recov (logstart su) (iblock (img r))))"
  by (rule doesE [OF does_initlog [OF assms]]) auto

definition logged_img :: "nat \<Rightarrow> u8" where
  "logged_img i = (if i = 2048 then 1 else if i = 2052 then 50 else if 3072 \<le> i \<and> i < 4096 then 7 else 0)"

lemma le_bytes_4:
  "le_bytes 4 f = or (or (or (ucast (f 0)) (push_bit 8 (ucast (f 1)))) (push_bit 16 (ucast (f 2)))) (push_bit 24 (ucast (f 3)))"
proof -
  have "le_bytes (Suc (Suc (Suc (Suc 0)))) f = or (or (or (ucast (f 0)) (push_bit 8 (ucast (f 1)))) (push_bit 16 (ucast (f 2)))) (push_bit 24 (ucast (f 3)))"
    by (simp add: numeral_2_eq_2 numeral_3_eq_3)
  then show ?thesis by (simp add: numeral_eq_Suc)
qed

lemma logged_img_header: "hdr_count (iblock logged_img 2) = 1" "hdr_block (iblock logged_img 2) 0 = 50" "iblock logged_img 3 = replicate BSIZE 7"
proof -
  show "hdr_count (iblock logged_img 2) = 1" "hdr_block (iblock logged_img 2) 0 = 50"
    by (simp_all add: iblock_def hdr_of_block LOGBLOCKS_def MAXOPBLOCKS_def ld32_def le_bytes_4 logged_img_def BSIZE_def)
  have "logged_img (BSIZE * unat (3 :: u32) + i) = 7" if "i < BSIZE" for i using that by (simp add: logged_img_def BSIZE_def)
  then show "iblock logged_img 3 = replicate BSIZE 7" unfolding iblock_def block_def by (intro nth_equalityI) simp_all
qed

theorem initlog_recovers_witness:
  "\<exists>t u. binit log_machine = Ok () t \<and> drive (initlog 1 log_super (t\<lparr>img := logged_img\<rparr>)) = Ok () u \<and> view 1 u 50 = replicate BSIZE 7"
proof -
  obtain t where t: "binit log_machine = Ok () t" "quiet 1 0 t" "log_dev t = 1" "log_start t = 2" "outstanding t = 0" "committing t = 0"
    "img t = (\<lambda>_. 0)" "\<forall>im. booted 1 0 (t\<lparr>img := im\<rparr>)" by (rule log_machine_boot)
  let ?r = "t\<lparr>img := logged_img\<rparr>"
  have l: "logstart log_super = 2" "(50 :: u32) \<notin> log_area 2" by (simp_all add: log_super_def log_area_def LOGBLOCKS_def MAXOPBLOCKS_def)
  have ok: "log_ok (logstart log_super) (iblock (img ?r) (logstart log_super))"
    using l by (simp add: log_ok_def logged_img_header txn_def inj_on_def LOGBLOCKS_def MAXOPBLOCKS_def)
  have "recov 2 (iblock logged_img) 50 = replicate BSIZE 7" by (simp add: recov_def logged_img_header lblk_def)
  then show ?thesis using initlog_recovers [OF t(8) [rule_format] ok, THEN conjunct1] t(1) l by (auto simp: agree_def)
qed

end
