(* ===== verification/Fsprops.thy ===== *)
theory Fsprops
  imports Transact Fs
begin

unbundle bit_operations_syntax

text \<open>
  The file system over the log: the on-disk inode format, and what \<^verbatim>\<open>iupdate\<close> and \<^verbatim>\<open>bfree\<close> do to the contents of
  the disk within a transaction.
\<close>

section \<open>Byte fields\<close>

lemma ld16_st16: "ld16 (st16 f off v) off = v"
  using le_bytes_byte_of [of 2 v] by (simp add: ld16_def st16_def cong: le_bytes_cong)

lemma ld16_cong: "(\<And>i. i < 2 \<Longrightarrow> f (off + i) = g (off + i)) \<Longrightarrow> ld16 f off = ld16 g off"
  unfolding ld16_def by (rule le_bytes_cong) simp

lemma ld32_cong: "(\<And>i. i < 4 \<Longrightarrow> f (off + i) = g (off + i)) \<Longrightarrow> ld32 f off = ld32 g off"
  unfolding ld32_def by (rule le_bytes_cong) simp

lemma st_other:
  "x < off \<or> off + 2 \<le> x \<Longrightarrow> st16 f off u x = f x" "x < off \<or> off + 4 \<le> x \<Longrightarrow> st32 f off v x = f x"
  by (auto simp: st16_def st32_def)

lemma put_addrs_other: "x < o' + 12 \<or> o' + 12 + 4 * n \<le> x \<Longrightarrow> put_addrs n a o' f x = f x"
  by (induction n) (auto simp: st_other)

lemma put_addrs_at: "i < n \<Longrightarrow> ld32 (put_addrs n a o' f) (o' + 12 + 4 * i) = a i"
proof (induction n)
  case (Suc n)
  show ?case
  proof (cases "i = n")
    case True
    then show ?thesis by (simp add: ld32_st32)
  next
    case False
    then have "ld32 (st32 (put_addrs n a o' f) (o' + 12 + 4 * n) (a n)) (o' + 12 + 4 * i) = ld32 (put_addrs n a o' f) (o' + 12 + 4 * i)"
      using Suc.prems by (intro ld32_st32_other) auto
    then show ?thesis using Suc False by simp
  qed
qed simp

section \<open>Inodes on the disk\<close>

text \<open>The inode as far as it is stored: thirteen addresses.\<close>

definition stored_inode :: "dinode \<Rightarrow> dinode" where
  "stored_inode di = di\<lparr>di_addrs := (\<lambda>i. if i < NDIRECT + 1 then di_addrs di i else 0)\<rparr>"

lemma put_dinode_other: "x < o' \<or> o' + 64 \<le> x \<Longrightarrow> put_dinode di o' f x = f x"
  by (auto simp: put_dinode_def Let_def put_addrs_other st_other NDIRECT_def)

lemma get_put_dinode: "stored_inode (get_dinode (put_dinode di o' f) o') = stored_inode di"
proof -
  let ?f = "put_dinode di o' f"
  let ?f1 = "st16 f o' (di_type di)"
  let ?f2 = "st16 ?f1 (o' + 2) (di_major di)"
  let ?f3 = "st16 ?f2 (o' + 4) (di_minor di)"
  let ?f4 = "st16 ?f3 (o' + 6) (di_nlink di)"
  let ?f5 = "st32 ?f4 (o' + 8) (di_size di)"
  have f: "?f = put_addrs 13 (di_addrs di) o' ?f5" by (simp add: put_dinode_def Let_def NDIRECT_def)
  have lo: "?f x = ?f5 x" if "x < o' + 12" for x unfolding f using that by (simp add: put_addrs_other)
  have "ld16 ?f o' = ld16 ?f1 o'" "ld16 ?f (o' + 2) = ld16 ?f2 (o' + 2)" "ld16 ?f (o' + 4) = ld16 ?f3 (o' + 4)"
    "ld16 ?f (o' + 6) = ld16 ?f4 (o' + 6)" "ld32 ?f (o' + 8) = ld32 ?f5 (o' + 8)"
    by (auto intro!: ld16_cong ld32_cong simp: lo st_other)
  then show ?thesis using put_addrs_at [of _ 13 "di_addrs di" o' ?f5] unfolding f [symmetric]
    by (simp add: stored_inode_def get_dinode_def ld16_st16 ld32_st32 NDIRECT_def fun_eq_iff)
qed

lemma get_dinode_cong: "(\<And>x. o' \<le> x \<Longrightarrow> x < o' + 64 \<Longrightarrow> f x = g x) \<Longrightarrow> stored_inode (get_dinode f o') = stored_inode (get_dinode g o')"
  by (auto simp: stored_inode_def get_dinode_def NDIRECT_def fun_eq_iff intro!: ld16_cong ld32_cong)

definition dinode_at :: "u32 \<Rightarrow> superblock \<Rightarrow> (u32 \<Rightarrow> u8 list) \<Rightarrow> dinode" where
  "dinode_at i su D = stored_inode (get_dinode ((!) (D (IBLOCK i su))) (dioff i))"

lemma dioff_bound: "dioff i + 64 \<le> BSIZE"
proof -
  have "unat i mod IPB < IPB" by (simp add: IPB_def BSIZE_def)
  then show ?thesis by (simp add: dioff_def IPB_def BSIZE_def)
qed

lemma dioff_apart:
  assumes "IBLOCK i su = IBLOCK j su" "i \<noteq> j"
  shows "dioff i + 64 \<le> dioff j \<or> dioff j + 64 \<le> dioff i"
proof -
  have "i div of_nat IPB = j div of_nat IPB" using assms(1) by (simp add: IBLOCK_def)
  then have "unat (i div of_nat IPB) = unat (j div of_nat IPB)" by simp
  then have d: "unat i div 16 = unat j div 16" by (simp add: unat_div IPB_def BSIZE_def)
  have "unat i \<noteq> unat j" using assms(2) by (simp add: word_unat_eq_iff)
  then have "unat i mod 16 \<noteq> unat j mod 16" using d by (metis div_mult_mod_eq)
  moreover have "64 * a + 64 \<le> 64 * b \<or> 64 * b + 64 \<le> 64 * a" if "a \<noteq> b" for a b :: nat using that by arith
  moreover have "dioff k = 64 * (unat k mod 16)" for k by (simp add: dioff_def IPB_def BSIZE_def)
  ultimately show ?thesis by metis
qed

lemma nth_block: "i < BSIZE \<Longrightarrow> block f ! i = f i"
  by (simp add: block_def)

text \<open>Updates that change each byte on its own.\<close>

lemma pointwise_blockwise:
  assumes "\<And>x y i. x i = y i \<Longrightarrow> f x i = f y i"
  shows "blockwise f"
  unfolding blockwise_def block_def map_eq_conv
proof (intro allI impI ballI)
  fix x y :: "nat \<Rightarrow> u8" and i
  assume "\<forall>i\<in>set [0..<BSIZE]. x i = y i" "i \<in> set [0..<BSIZE]"
  then show "f x i = f y i" by (intro assms) (rule bspec)
qed

lemma blockwise_put_dinode: "blockwise (put_dinode di o')"
proof (rule pointwise_blockwise)
  have pa: "put_addrs n a o' x i = put_addrs n a o' y i" if "x i = y i" for n a and x y :: "nat \<Rightarrow> u8" and i
    using that by (induction n) (simp_all add: st32_def)
  show "put_dinode di o' x i = put_dinode di o' y i" if "x i = y i" for x y :: "nat \<Rightarrow> u8" and i
    unfolding put_dinode_def Let_def by (rule pa) (simp add: that st16_def st32_def)
qed

lemma dinode_put:
  "dinode_at j su (put (IBLOCK i su, put_dinode di (dioff i)) D) = (if j = i then stored_inode di else dinode_at j su D)"
proof -
  let ?B = "block (put_dinode di (dioff i) ((!) (D (IBLOCK i su))))"
  have B: "?B ! x = put_dinode di (dioff i) ((!) (D (IBLOCK i su))) x" if "x < BSIZE" for x using that by (rule nth_block)
  have at: "put (IBLOCK i su, put_dinode di (dioff i)) D (IBLOCK j su) = (if IBLOCK j su = IBLOCK i su then ?B else D (IBLOCK j su))"
    by (simp add: put_def)
  show ?thesis
  proof (cases "j = i")
    case True
    have "stored_inode (get_dinode ((!) ?B) (dioff i)) = stored_inode (get_dinode (put_dinode di (dioff i) ((!) (D (IBLOCK i su)))) (dioff i))"
      by (rule get_dinode_cong) (use B dioff_bound [of i] in auto)
    then show ?thesis using True at by (simp add: dinode_at_def get_put_dinode)
  next
    case False
    show ?thesis
    proof (cases "IBLOCK j su = IBLOCK i su")
      case True
      have "stored_inode (get_dinode ((!) ?B) (dioff j)) = stored_inode (get_dinode ((!) (D (IBLOCK i su))) (dioff j))"
        by (rule get_dinode_cong) (use B dioff_bound [of j] dioff_apart [OF True False] in \<open>auto simp: put_dinode_other\<close>)
      then show ?thesis using True False at by (simp add: dinode_at_def)
    qed (use at False in \<open>simp add: dinode_at_def\<close>)
  qed
qed

section \<open>Updating an inode\<close>

lemma fs_fields:
  fixes s t :: "'a kfs_scheme"
  assumes "klog.more t = klog.more s"
  shows "sb t = sb s" "inodes t = inodes s"
  using assms by (cases s; cases t; simp)+

lemma does_iupdate:
  fixes s :: "'a kfs_scheme" and ip :: nat
  defines "m \<equiv> IBLOCK (inum (inodes s ip)) (sb s)"
  assumes "open_tx d p s" "idev (inodes s ip) = d" "m \<notin> log_area (log_start s)" "unat m < 2 ^ 31" "nat (lh_n s) < LOGBLOCKS" "Suc (nat (lh_n s)) < NBUF"
    and "K (img s)"
  shows "does K (iupdate ip s) (\<lambda>_ t. open_tx d p t \<and> view d t = put (m, put_dinode (inode_disk (inodes s ip)) (dioff (inum (inodes s ip)))) (view d s) \<and>
    img t = img s \<and> inodes t = inodes s \<and> sb t = sb s)"
proof -
  let ?f = "put_dinode (inode_disk (inodes s ip)) (dioff (inum (inodes s ip)))"
  have g: "put_dinode (inode_disk (inodes t ip)) (dioff (inum (inodes t ip))) = ?f" if "cframe s t" for t
    unfolding fs_fields(2) [OF log_more [OF that]] ..
  show ?thesis unfolding iupdate_def assms(3) m_def [symmetric]
    by (rule does_mono [OF does_logged [where K = K and g = "\<lambda>t. put_dinode (inode_disk (inodes t ip)) (dioff (inum (inodes t ip)))",
      OF assms(2,4-7) blockwise_put_dinode assms(8) g]], assumption, assumption) (elim conjE, intro conjI fs_fields)
qed

section \<open>The free map\<close>

definition block_used :: "u32 \<Rightarrow> superblock \<Rightarrow> (u32 \<Rightarrow> u8 list) \<Rightarrow> bool" where
  "block_used b su D \<longleftrightarrow> bit (D (BBLOCK b su) ! (unat b mod BPB div 8)) (unat b mod BPB mod 8)"

definition clear_bit :: "nat \<Rightarrow> (nat \<Rightarrow> u8) \<Rightarrow> nat \<Rightarrow> u8" where
  "clear_bit bi f = f(bi div 8 := f (bi div 8) AND NOT (bitmask bi))"

lemma bitmask_bit: "bit (bitmask bi) n \<longleftrightarrow> n = bi mod 8"
  by (auto simp: bitmask_def bit_simps)

lemma and_bitmask: "x AND bitmask bi = 0 \<longleftrightarrow> \<not> bit x (bi mod 8)"
proof
  assume "x AND bitmask bi = 0"
  then have "\<not> bit (x AND bitmask bi) (bi mod 8)" by simp
  then show "\<not> bit x (bi mod 8)" by (simp add: bit_and_iff bitmask_bit)
next
  assume "\<not> bit x (bi mod 8)"
  then show "x AND bitmask bi = 0" by (intro bit_word_eqI) (auto simp: bit_and_iff bitmask_bit)
qed

lemma bit_byte_bound: "unat b mod BPB div 8 < BSIZE"
proof -
  have "unat b mod BPB < BPB" by (simp add: BPB_def BSIZE_def)
  then show ?thesis by (simp add: BPB_def BSIZE_def)
qed

lemma BBLOCK_apart:
  assumes "BBLOCK b su = BBLOCK c su" "unat b mod BPB = unat c mod BPB"
  shows "b = c"
proof -
  have "b div of_nat BPB = c div of_nat BPB" using assms(1) by (simp add: BBLOCK_def)
  then have "unat (b div of_nat BPB) = unat (c div of_nat BPB)" by simp
  then have "unat b div 8192 = unat c div 8192" by (simp add: unat_div BPB_def BSIZE_def)
  moreover have "unat b mod 8192 = unat c mod 8192" using assms(2) by (simp add: BPB_def BSIZE_def)
  ultimately have "unat b = unat c" by (metis div_mult_mod_eq)
  then show ?thesis by (simp add: word_unat_eq_iff)
qed

lemma block_used_put:
  "block_used c su (put (BBLOCK b su, clear_bit (unat b mod BPB)) D) \<longleftrightarrow> c \<noteq> b \<and> block_used c su D"
proof (cases "BBLOCK c su = BBLOCK b su")
  case True
  let ?i = "unat b mod BPB" and ?j = "unat c mod BPB"
  have e: "put (BBLOCK b su, clear_bit ?i) D (BBLOCK c su) = block (clear_bit ?i ((!) (D (BBLOCK b su))))" using True by (simp add: put_def)
  have "c = b \<longleftrightarrow> ?j div 8 = ?i div 8 \<and> ?j mod 8 = ?i mod 8" using BBLOCK_apart [OF True] by (metis div_mult_mod_eq)
  then show ?thesis unfolding block_used_def e nth_block [OF bit_byte_bound] using True
    by (auto simp: clear_bit_def bit_and_iff bit_not_iff bitmask_bit bit_imp_le_length)
qed (auto simp: block_used_def put_def)

text \<open>A continuation may be replaced by one that agrees with it where the first part can end.\<close>

lemma crash_bnd_rest:
  assumes "drive r = Ok x t"
  shows "crash_imgs (f x t) \<subseteq> crash_imgs (bnd r f)"
  using assms
proof (induction r)
  case (Sleep s k)
  from Sleep.prems obtain u where u: "disk_turn dev_serve s = Ok () u" "drive (k u) = Ok x t" by (auto simp: bnd_Ok_iff)
  then show ?case using Sleep.IH [of "k u"] by auto
qed auto

lemma does_bnd_cong:
  assumes "does K r P" "does K (bnd r f) Q" "\<And>x t. P x t \<Longrightarrow> f' x t = f x t"
  shows "does K (bnd r f') Q"
proof -
  obtain x t where r: "drive r = Ok x t" "\<forall>im\<in>crash_imgs r. K im" "P x t" using assms(1) by (auto simp: does_def)
  have "drive (bnd r f') = drive (bnd r f)" using r(1) assms(3) [OF r(3)] by (simp add: drive_bnd)
  moreover have "\<forall>im\<in>crash_imgs (f x t). K im" using crash_bnd_rest [OF r(1), of f] assms(2) by (auto simp: does_def)
  then have "\<forall>im\<in>crash_imgs (bnd r f'). K im" using crash_bnd [OF r(1), of f'] r(2) assms(3) [OF r(3)] by auto
  ultimately show ?thesis using assms(2) by (auto simp: does_def)
qed

lemma blockwise_clear: "blockwise (clear_bit bi)"
  by (rule pointwise_blockwise) (auto simp: clear_bit_def)

lemma open_bread:
  fixes s :: "'a klog_scheme"
  assumes o: "open_tx d p s" and m: "unat m < 2 ^ 31" and K: "K (img s)"
  shows "does K (bread d m s) (fetched {} d p m s)"
proof (rule does_bread)
  have pin: "pinned_from 0 (nat (lh_n s)) (lh_block s) d s" and one: "cached_once d s" using o by (simp_all add: open_tx_def cache_inv_def)
  show "cache_inv {} d p s" "\<exists>b<NBUF. brefcnt (bufs s b) = 0" using o pin by (simp_all add: open_tx_def pinned_from_def)
  show "c \<notin> {} \<and> brefcnt (bufs s c) + 1 \<noteq> 0" if "bufof d m s = Some c" for c
    using that small_Suc [of s c] pin by (simp add: bufof_iff [OF one] pinned_from_def)
qed (use m K in simp_all)

lemma fetched_bytes:
  fixes s t :: "'a kfs_scheme"
  assumes "fetched {} d p m s b t"
  shows "i < BSIZE \<Longrightarrow> bdata (bufs t b) i = view d s m ! i" "sb t = sb s"
proof -
  have t: "cache_inv {b} d p t" "bufof d m t = Some b" "view d t = view d s" "cframe s t" using assms by (simp_all add: fetched_def)
  have v: "block (bdata (bufs t b)) = view d s m" using view_held [OF t(1) _ t(2)] t(3) by simp
  show "i < BSIZE \<Longrightarrow> bdata (bufs t b) i = view d s m ! i" using nth_block [of i "bdata (bufs t b)"] v by simp
  show "sb t = sb s" by (rule fs_fields [OF log_more [OF t(4)]])
qed

lemma does_bfree:
  fixes s :: "'a kfs_scheme" and b :: u32
  defines "m \<equiv> BBLOCK b (sb s)"
  assumes o: "open_tx d p s" and m: "m \<notin> log_area (log_start s)" "unat m < 2 ^ 31" and n: "nat (lh_n s) < LOGBLOCKS" "Suc (nat (lh_n s)) < NBUF"
    and u: "block_used b (sb s) (view d s)" and K: "K (img s)"
  shows "does K (bfree d b s) (\<lambda>_ t. open_tx d p t \<and> view d t = put (m, clear_bit (unat b mod BPB)) (view d s) \<and> img t = img s \<and> inodes t = inodes s \<and> sb t = sb s)"
  unfolding bfree_def m_def [symmetric]
proof (rule does_bnd_cong [OF open_bread [where K = K, OF o m(2) K]])
  show "does K (bnd (bread d m s) (\<lambda>bp s. let s = upd_buf bp (bdata_update (clear_bit (unat b mod BPB))) s in bnd (log_write bp s) (\<lambda>_ s. brelse bp s)))
    (\<lambda>_ t. open_tx d p t \<and> view d t = put (m, clear_bit (unat b mod BPB)) (view d s) \<and> img t = img s \<and> inodes t = inodes s \<and> sb t = sb s)"
    by (rule does_mono [OF does_logged [where K = K and g = "\<lambda>_. clear_bit (unat b mod BPB)", OF o m n blockwise_clear K refl]]) (assumption, elim conjE, intro conjI fs_fields)
next
  fix bp t assume f: "fetched {} d p m s bp t"
  have "bit (bdata (bufs t bp) (unat b mod BPB div 8)) (unat b mod BPB mod 8)"
    using u unfolding fetched_bytes(1) [OF f bit_byte_bound [of b]] block_used_def m_def .
  then show "(let bi = unat b mod BPB in if bdata (bufs t bp) (bi div 8) AND bitmask bi = 0 then Panic ''freeing free block''
      else let s = upd_buf bp (bdata_update (\<lambda>d. d(bi div 8 := d (bi div 8) AND NOT (bitmask bi)))) t in bnd (log_write bp s) (\<lambda>_ s. brelse bp s)) =
    (let s = upd_buf bp (bdata_update (clear_bit (unat b mod BPB))) t in bnd (log_write bp s) (\<lambda>_ s. brelse bp s))"
    by (simp add: Let_def and_bitmask clear_bit_def [abs_def])
qed

section \<open>Properties\<close>

text \<open>
  (C15) Writing an inode. Within a transaction, \<^verbatim>\<open>iupdate\<close> makes the inode on the disk, as every later read sees it, equal to the
  one in memory, field by field, leaves every other inode and every other block as it was, and writes nothing to the disk
  itself: a crash before the commit finds the disk unchanged.
\<close>

theorem iupdate_writes_inode:
  fixes s :: "'a kfs_scheme"
  assumes "open_tx d p s" "idev (inodes s ip) = d" "IBLOCK (inum (inodes s ip)) (sb s) \<notin> log_area (log_start s)"
    and "unat (IBLOCK (inum (inodes s ip)) (sb s)) < 2 ^ 31" "nat (lh_n s) < LOGBLOCKS" "Suc (nat (lh_n s)) < NBUF"
  shows "\<exists>t. drive (iupdate ip s) = Ok () t \<and> open_tx d p t \<and> crash_imgs (iupdate ip s) \<subseteq> {img s} \<and>
    dinode_at j (sb s) (view d t) = (if j = inum (inodes s ip) then stored_inode (inode_disk (inodes s ip)) else dinode_at j (sb s) (view d s)) \<and>
    (m \<noteq> IBLOCK (inum (inodes s ip)) (sb s) \<longrightarrow> view d t m = view d s m)"
proof -
  obtain t where t: "drive (iupdate ip s) = Ok () t" "open_tx d p t"
    "view d t = put (IBLOCK (inum (inodes s ip)) (sb s), put_dinode (inode_disk (inodes s ip)) (dioff (inum (inodes s ip)))) (view d s)"
    and K: "\<And>im. im \<in> crash_imgs (iupdate ip s) \<Longrightarrow> im = img s"
    by (rule doesE [OF does_iupdate [where K = "\<lambda>im. im = img s", OF assms refl]]) auto
  have "view d t m = view d s m" if "m \<noteq> IBLOCK (inum (inodes s ip)) (sb s)" using that by (simp add: t(3) put_def)
  moreover have "dinode_at j (sb s) (view d t) = (if j = inum (inodes s ip) then stored_inode (inode_disk (inodes s ip)) else dinode_at j (sb s) (view d s))"
    unfolding t(3) by (rule dinode_put)
  moreover have "crash_imgs (iupdate ip s) \<subseteq> {img s}" using K by blast
  ultimately show ?thesis using t(1,2) by (intro exI [of _ t] conjI impI)
qed

text \<open>The file system on the machine with the empty disk, in a transaction.\<close>

definition fs_inode :: inode where
  "fs_inode = \<lparr>idev = 1, inum = 5, iref = 1, ivalid = 1, itype = T_FILE, imajor = 0, iminor = 0, inlink = 1, isize = 77, iaddrs = (\<lambda>i. of_nat (100 + i))\<rparr>"

lemma open_fs [simp]: "open_tx d p (s\<lparr>sb := x, inodes := y\<rparr>) = open_tx d p s"
  by (simp add: open_tx_def pinned_from_def few_refs_def bufof_def cache_inv_def calm_def vq_idle_def cached_once_def buf_ok_def myproc_def bring_def)

lemma fs_boot:
  obtains t where "binit log_machine = Ok () t" "open_tx 1 0 (t\<lparr>outstanding := 1, sb := log_super, inodes := (\<lambda>_. fs_inode)\<rparr>)" "log_start t = 2" "lh_n t = 0"
proof -
  obtain t where t: "binit log_machine = Ok () t" "quiet 1 0 t" "log_dev t = 1" "log_start t = 2" "outstanding t = 0" "committing t = 0"
    "img t = (\<lambda>_. 0)" "\<forall>im. booted 1 0 (t\<lparr>img := im\<rparr>)" by (rule log_machine_boot)
  have "unat (log_start t) + LOGBLOCKS < 2 ^ 31" by (simp add: t(4) LOGBLOCKS_def MAXOPBLOCKS_def)
  from begin_op_quiet(2) [OF t(2,3,5,6) this] show ?thesis using that t by (simp add: quiet_def)
qed

theorem iupdate_writes_inode_witness:
  "\<exists>t u. binit log_machine = Ok () t \<and> drive (iupdate 3 (t\<lparr>outstanding := 1, sb := log_super, inodes := (\<lambda>_. fs_inode)\<rparr>)) = Ok () u \<and>
     di_size (dinode_at 5 log_super (view 1 u)) = 77"
proof -
  obtain t where t: "binit log_machine = Ok () t" "open_tx 1 0 (t\<lparr>outstanding := 1, sb := log_super, inodes := (\<lambda>_. fs_inode)\<rparr>)" "log_start t = 2" "lh_n t = 0"
    by (rule fs_boot)
  let ?s = "t\<lparr>outstanding := 1, sb := log_super, inodes := (\<lambda>_. fs_inode)\<rparr>"
  have b: "IBLOCK 5 log_super = 33" by (simp add: IBLOCK_def IPB_def BSIZE_def log_super_def)
  have "\<exists>u. drive (iupdate 3 ?s) = Ok () u \<and> open_tx 1 0 u \<and> crash_imgs (iupdate 3 ?s) \<subseteq> {img ?s} \<and>
    dinode_at 5 (sb ?s) (view 1 u) = (if 5 = inum (inodes ?s 3) then stored_inode (inode_disk (inodes ?s 3)) else dinode_at 5 (sb ?s) (view 1 ?s)) \<and>
    (33 \<noteq> IBLOCK (inum (inodes ?s 3)) (sb ?s) \<longrightarrow> view 1 u 33 = view 1 ?s 33)"
    by (rule iupdate_writes_inode [OF t(2)]) (simp_all add: fs_inode_def b t(3,4) log_area_def LOGBLOCKS_def NBUF_def MAXOPBLOCKS_def)
  then show ?thesis using t(1) by (auto simp: fs_inode_def stored_inode_def inode_disk_def)
qed

text \<open>
  (C25) Freeing a block. Within a transaction, \<^verbatim>\<open>bfree\<close> of a block in use clears its bit in the free map and no other, changes no
  other block and writes nothing to the disk itself; freeing a block that is not in use panics.
\<close>

theorem bfree_frees:
  fixes s :: "'a kfs_scheme"
  assumes "open_tx d p s" "BBLOCK b (sb s) \<notin> log_area (log_start s)" "unat (BBLOCK b (sb s)) < 2 ^ 31" "nat (lh_n s) < LOGBLOCKS" "Suc (nat (lh_n s)) < NBUF"
  shows "if block_used b (sb s) (view d s)
    then \<exists>t. drive (bfree d b s) = Ok () t \<and> open_tx d p t \<and> crash_imgs (bfree d b s) \<subseteq> {img s} \<and>
      (block_used c (sb s) (view d t) \<longleftrightarrow> c \<noteq> b \<and> block_used c (sb s) (view d s)) \<and> (m \<noteq> BBLOCK b (sb s) \<longrightarrow> view d t m = view d s m)
    else drive (bfree d b s) = Panic ''freeing free block''"
proof (cases "block_used b (sb s) (view d s)")
  case True
  obtain t where t: "drive (bfree d b s) = Ok () t" "open_tx d p t" "view d t = put (BBLOCK b (sb s), clear_bit (unat b mod BPB)) (view d s)"
    and K: "\<And>im. im \<in> crash_imgs (bfree d b s) \<Longrightarrow> im = img s"
    by (rule doesE [OF does_bfree [where K = "\<lambda>im. im = img s", OF assms True refl]]) auto
  have "view d t m = view d s m" if "m \<noteq> BBLOCK b (sb s)" using that by (simp add: t(3) put_def)
  moreover have "block_used c (sb s) (view d t) \<longleftrightarrow> c \<noteq> b \<and> block_used c (sb s) (view d s)" unfolding t(3) by (rule block_used_put)
  moreover have "crash_imgs (bfree d b s) \<subseteq> {img s}" using K by blast
  ultimately show ?thesis unfolding if_P [OF True] using t(1,2) by (intro exI [of _ t] conjI impI)
next
  case False
  obtain bp t where f: "drive (bread d (BBLOCK b (sb s)) s) = Ok bp t" "fetched {} d p (BBLOCK b (sb s)) s bp t"
    by (rule doesE [OF open_bread [where K = "\<lambda>_. True", OF assms(1,3) TrueI]])
  have "\<not> bit (bdata (bufs t bp) (unat b mod BPB div 8)) (unat b mod BPB mod 8)"
    using False unfolding fetched_bytes(1) [OF f(2) bit_byte_bound [of b]] block_used_def .
  then show ?thesis using False f(1) by (simp add: bfree_def drive_bnd Let_def and_bitmask)
qed

definition used_img :: "nat \<Rightarrow> u8" where
  "used_img i = (if i = 46 * BSIZE then 0x80 else 0)"

theorem bfree_frees_witness:
  "\<exists>t u. binit log_machine = Ok () t \<and>
     drive (bfree 1 7 (t\<lparr>img := used_img, outstanding := 1, sb := log_super, inodes := (\<lambda>_. fs_inode)\<rparr>)) = Ok () u \<and> \<not> block_used 7 log_super (view 1 u)"
proof -
  obtain t where t: "binit log_machine = Ok () t" "quiet 1 0 t" "log_dev t = 1" "log_start t = 2" "outstanding t = 0" "committing t = 0"
    "img t = (\<lambda>_. 0)" "\<forall>im. booted 1 0 (t\<lparr>img := im\<rparr>)" by (rule log_machine_boot)
  let ?t = "t\<lparr>img := used_img\<rparr>"
  have "used_img (BSIZE * 2 + i) = 0" if "i < BSIZE" for i using that by (simp add: used_img_def BSIZE_def)
  then have "iblock used_img 2 = iblock (\<lambda>_. 0) 2" by (simp add: iblock_def block_def)
  then have "hdr_count (iblock used_img 2) = 0" by (simp add: zero_header)
  moreover have "lh_n t = 0" using t(2) by (simp add: quiet_def)
  ultimately have q: "quiet 1 0 ?t" using t(4,8) by (simp add: quiet_def booted_def)
  have g: "log_dev ?t = 1" "outstanding ?t = 0" "committing ?t = 0" "unat (log_start ?t) + LOGBLOCKS < 2 ^ 31"
    using t by (simp_all add: LOGBLOCKS_def MAXOPBLOCKS_def)
  let ?s = "?t\<lparr>outstanding := 1, sb := log_super, inodes := (\<lambda>_. fs_inode)\<rparr>"
  have o: "open_tx 1 0 ?s" using begin_op_quiet(2) [OF q g] by simp
  have b: "BBLOCK 7 log_super = 46" by (simp add: BBLOCK_def BPB_def BSIZE_def log_super_def)
  have "view 1 ?s 46 = view 1 ?t 46" by (simp add: view_def bufof_def split: option.split)
  also have "\<dots> = iblock used_img 46" using quiet_view [OF q] by simp
  finally have u: "block_used 7 log_super (view 1 ?s)" by (simp add: block_used_def b iblock_def nth_block BPB_def BSIZE_def used_img_def bit_numeral_rec)
  have "if block_used 7 (sb ?s) (view 1 ?s)
    then \<exists>t. drive (bfree 1 7 ?s) = Ok () t \<and> open_tx 1 0 t \<and> crash_imgs (bfree 1 7 ?s) \<subseteq> {img ?s} \<and>
      (block_used 7 (sb ?s) (view 1 t) \<longleftrightarrow> 7 \<noteq> (7 :: u32) \<and> block_used 7 (sb ?s) (view 1 ?s)) \<and> (46 \<noteq> BBLOCK 7 (sb ?s) \<longrightarrow> view 1 t 46 = view 1 ?s 46)
    else drive (bfree 1 7 ?s) = Panic ''freeing free block''"
    by (rule bfree_frees [OF o]) (use t(2,4) b in \<open>simp_all add: quiet_def log_area_def LOGBLOCKS_def NBUF_def MAXOPBLOCKS_def\<close>)
  then show ?thesis using u t(1) by auto
qed

end
