(* ===== verification/Fulllog.thy ===== *)
theory Fulllog
  imports Transact
begin

text \<open>
  Operations of several processes that share one transaction, and what happens when together they fill the log.
\<close>

section \<open>Operations in progress at the same time\<close>

text \<open>
  Each process of a list begins an operation, then each makes its updates, then each ends its operation; the hart switches from
  one process to the next in between.
\<close>

type_synonym updates = "(u32 \<times> ((nat \<Rightarrow> u8) \<Rightarrow> nat \<Rightarrow> u8)) list"

definition run_as :: "nat \<Rightarrow> 'a klog_scheme \<Rightarrow> 'a klog_scheme" where
  "run_as q s = s\<lparr>curproc := Some q\<rparr>"

definition begin_all :: "(nat \<times> updates) list \<Rightarrow> 'a klog_scheme \<Rightarrow> ('a klog_scheme, unit) out" where
  "begin_all pops s = foreach pops (\<lambda>x s. begin_op (run_as (fst x) s)) s"

definition update_all :: "u32 \<Rightarrow> (nat \<times> updates) list \<Rightarrow> 'a klog_scheme \<Rightarrow> ('a klog_scheme, unit) out" where
  "update_all d pops s = foreach pops (\<lambda>x s. foreach (snd x) (\<lambda>u s. logged_update d (fst u) (snd u) s) (run_as (fst x) s)) s"

definition end_all :: "(nat \<times> updates) list \<Rightarrow> 'a klog_scheme \<Rightarrow> ('a klog_scheme, unit) out" where
  "end_all pops s = foreach pops (\<lambda>x s. end_op (run_as (fst x) s)) s"

lemma run_as_cache: "cache_inv {} d p s \<Longrightarrow> q < NPROC \<Longrightarrow> cache_inv {} d q (run_as q s)"
  by (simp add: run_as_def cache_inv_def calm_def vq_idle_def cached_once_def buf_ok_def myproc_def bring_def)

lemma run_as_tx: "in_tx d p s \<Longrightarrow> q < NPROC \<Longrightarrow> in_tx d q (run_as q s)"
proof -
  assume a: "in_tx d p s" "q < NPROC"
  have "bufof d m (run_as q s) = bufof d m s" for m by (simp add: run_as_def bufof_def)
  then have "pins n blks d (run_as q s) = pins n blks d s" for n blks by (simp add: pins_def few_refs_def) (simp add: run_as_def)
  then show ?thesis using a run_as_cache [of d p s q] by (simp add: in_tx_def) (simp add: run_as_def)
qed

lemma run_as_fields [simp]:
  "lh_n (run_as q s) = lh_n s" "lh_block (run_as q s) = lh_block s" "log_start (run_as q s) = log_start s" "log_dev (run_as q s) = log_dev s"
  "outstanding (run_as q s) = outstanding s" "committing (run_as q s) = committing s" "img (run_as q s) = img s" "homes (run_as q s) = homes s"
  "held (run_as q s) = held s" "patience (run_as q s) = patience s"
  by (simp_all add: run_as_def homes_def)

section \<open>Beginning\<close>

text \<open>The reservation of \<^verbatim>\<open>begin_op\<close> admits an operation while the blocks it may write fit into the log.\<close>

lemma begin_op_admits:
  assumes "held s = {}" "0 < patience s" "committing s = 0" "lh_n s + (outstanding s + 1) * int MAXOPBLOCKS \<le> int LOGBLOCKS"
  shows "begin_op s = Ok () (s\<lparr>outstanding := outstanding s + 1\<rparr>)"
proof -
  obtain n where n: "patience s = Suc n" using assms(2) by (cases "patience s") auto
  have "s\<lparr>outstanding := outstanding s + 1, held := {}\<rparr> = s\<lparr>outstanding := outstanding s + 1\<rparr>" using assms(1) by simp
  then show ?thesis using assms n by (simp add: begin_op_def acquire_def release_def)
qed

definition before_tx :: "u32 \<Rightarrow> nat \<Rightarrow> nat \<Rightarrow> 'a klog_scheme \<Rightarrow> bool" where
  "before_tx d p k s \<longleftrightarrow> quiet d p s \<and> log_dev s = d \<and> committing s = 0 \<and> outstanding s = int k"

lemma before_in_tx:
  assumes "before_tx d p k s" "0 < k" "unat (log_start s) + LOGBLOCKS < 2 ^ 31"
  shows "in_tx d p s" "lh_n s = 0"
  using assms by (simp_all add: before_tx_def quiet_def in_tx_def pins_def few_refs_def txn_def)

lemma begin_all_done:
  assumes "before_tx d p k s" "\<forall>x\<in>set pops. fst x < NPROC" "(k + length pops) * MAXOPBLOCKS \<le> LOGBLOCKS"
  shows "\<exists>q t. begin_all pops s = Ok () t \<and> before_tx d q (k + length pops) t \<and> log_start t = log_start s"
  using assms
proof (induction pops arbitrary: k p s)
  case Nil
  then show ?case by (auto simp: begin_all_def)
next
  case (Cons x pops)
  let ?r = "run_as (fst x) s"
  let ?t = "?r\<lparr>outstanding := outstanding ?r + 1\<rparr>"
  have c: "cache_inv {} d (fst x) ?r" using Cons.prems run_as_cache [of d p s "fst x"] by (simp add: before_tx_def quiet_def)
  have "int (Suc k) * int MAXOPBLOCKS \<le> int LOGBLOCKS" using Cons.prems(3) by (simp add: LOGBLOCKS_def MAXOPBLOCKS_def)
  then have b: "begin_op ?r = Ok () ?t"
    by (intro begin_op_admits) (use Cons.prems(1) c in \<open>simp_all add: before_tx_def quiet_def cache_inv_def calm_def add.commute\<close>)
  have "before_tx d (fst x) (Suc k) ?t"
    using Cons.prems(1) c by (simp add: before_tx_def quiet_def) (simp add: run_as_def)
  then have "\<exists>q t. begin_all pops ?t = Ok () t \<and> before_tx d q (Suc k + length pops) t \<and> log_start t = log_start ?t"
    by (rule Cons.IH) (use Cons.prems in simp_all)
  then show ?case by (simp add: begin_all_def b)
qed

section \<open>Updating\<close>

text \<open>Updates of blocks that are not in the log yet, as many as there is room for.\<close>

lemma does_new_updates:
  fixes s :: "'a klog_scheme"
  assumes "in_tx d p s" "list_all (proper (log_start s)) ups" "distinct (map fst ups)" "fst ` set ups \<inter> homes s = {}"
    "lh_n s + int (length ups) \<le> int LOGBLOCKS"
  shows "does (\<lambda>_. True) (foreach ups (\<lambda>u s. logged_update d (fst u) (snd u) s) s)
    (\<lambda>_ t. in_tx d p t \<and> log_start t = log_start s \<and> outstanding t = outstanding s \<and> lh_n t = lh_n s + int (length ups) \<and> homes t = homes s \<union> fst ` set ups)"
  using assms
proof (induction ups arbitrary: s)
  case Nil
  then show ?case by (simp add: does_Ok)
next
  case (Cons u ups)
  have l: "0 \<le> lh_n s" using Cons.prems(1) by (simp add: in_tx_def)
  have n: "nat (lh_n s) < LOGBLOCKS" using Cons.prems(5) l by simp
  have u: "fst u \<notin> log_area (log_start s)" "unat (fst u) < 2 ^ 31" "blockwise (snd u)" "fst u \<notin> homes s" using Cons.prems(2,4) by (simp_all add: proper_def)
  have step: "does (\<lambda>_. True) (logged_update d (fst u) (snd u) s)
    (\<lambda>_ t. in_tx d p t \<and> view d t = put (fst u, snd u) (view d s) \<and> img t = img s \<and> log_start t = log_start s \<and> (\<exists>b. enlisted (fst u) b s t))"
    unfolding logged_update_def by (rule does_enlist [where K = "\<lambda>_. True" and g = "\<lambda>_. snd u", OF Cons.prems(1) u(1,2) n u(3)]) simp_all
  show ?case unfolding foreach.simps
  proof (rule does_bnd [OF step], elim conjE exE)
    fix t :: "'a klog_scheme" and b assume t: "in_tx d p t" "log_start t = log_start s" "enlisted (fst u) b s t"
    have e: "lh_n t = lh_n s + 1" "outstanding t = outstanding s" "lh_block t = (lh_block s)(nat (lh_n s) := fst u)"
      using t(3) u(4) by (simp_all add: enlisted_def)
    have h: "homes t = insert (fst u) (homes s)"
      using l by (auto simp: homes_def e nat_add_distrib lessThan_Suc)
    have "does (\<lambda>_. True) (foreach ups (\<lambda>u s. logged_update d (fst u) (snd u) s) t)
      (\<lambda>_ v. in_tx d p v \<and> log_start v = log_start t \<and> outstanding v = outstanding t \<and> lh_n v = lh_n t + int (length ups) \<and> homes v = homes t \<union> fst ` set ups)"
      by (rule Cons.IH) (use t Cons.prems h e in auto)
    then show "does (\<lambda>_. True) (foreach ups (\<lambda>u s. logged_update d (fst u) (snd u) s) t)
      (\<lambda>_ v. in_tx d p v \<and> log_start v = log_start s \<and> outstanding v = outstanding s \<and> lh_n v = lh_n s + int (length (u # ups)) \<and>
        homes v = homes s \<union> fst ` set (u # ups))"
      by (rule does_mono) (use t e h in auto)
  qed
qed

abbreviation blocks_of :: "(nat \<times> updates) list \<Rightarrow> u32 list" where
  "blocks_of pops \<equiv> map fst (concat (map snd pops))"

lemma does_update_all:
  fixes s :: "'a klog_scheme"
  assumes "in_tx d p s" "\<forall>x\<in>set pops. fst x < NPROC \<and> list_all (proper (log_start s)) (snd x)" "distinct (blocks_of pops)" "set (blocks_of pops) \<inter> homes s = {}"
    "lh_n s + int (length (blocks_of pops)) \<le> int LOGBLOCKS"
  shows "does (\<lambda>_. True) (update_all d pops s)
    (\<lambda>_ t. \<exists>q. in_tx d q t \<and> outstanding t = outstanding s \<and> lh_n t = lh_n s + int (length (blocks_of pops)))"
  using assms
proof (induction pops arbitrary: s p)
  case Nil
  then show ?case by (auto simp: update_all_def intro!: does_Ok)
next
  case (Cons x pops)
  let ?r = "run_as (fst x) s"
  have r: "in_tx d (fst x) ?r" by (rule run_as_tx [OF Cons.prems(1)]) (use Cons.prems(2) in simp)
  have step: "does (\<lambda>_. True) (foreach (snd x) (\<lambda>u s. logged_update d (fst u) (snd u) s) ?r)
    (\<lambda>_ t. in_tx d (fst x) t \<and> log_start t = log_start ?r \<and> outstanding t = outstanding ?r \<and> lh_n t = lh_n ?r + int (length (snd x)) \<and>
      homes t = homes ?r \<union> fst ` set (snd x))"
    by (rule does_new_updates [OF r]) (use Cons.prems in auto)
  show ?case unfolding update_all_def foreach.simps
  proof (rule does_bnd [OF step], elim conjE)
    fix t :: "'a klog_scheme"
    assume t: "in_tx d (fst x) t" "log_start t = log_start ?r" "outstanding t = outstanding ?r" "lh_n t = lh_n ?r + int (length (snd x))"
      "homes t = homes ?r \<union> fst ` set (snd x)"
    have "does (\<lambda>_. True) (update_all d pops t)
      (\<lambda>_ v. \<exists>q. in_tx d q v \<and> outstanding v = outstanding t \<and> lh_n v = lh_n t + int (length (blocks_of pops)))"
    proof (rule Cons.IH [OF t(1)])
      have "set (blocks_of pops) \<inter> homes s = {}" "set (blocks_of pops) \<inter> fst ` set (snd x) = {}" using Cons.prems(3,4) by (simp_all add: Int_commute Int_Un_distrib)
      then show "set (blocks_of pops) \<inter> homes t = {}" using t(5) by (simp add: Int_Un_distrib)
    qed (use t Cons.prems in simp_all)
    then show "does (\<lambda>_. True) (foreach pops (\<lambda>x s. foreach (snd x) (\<lambda>u s. logged_update d (fst u) (snd u) s) (run_as (fst x) s)) t)
      (\<lambda>_ v. \<exists>q. in_tx d q v \<and> outstanding v = outstanding s \<and> lh_n v = lh_n s + int (length (blocks_of (x # pops))))"
      unfolding update_all_def by (rule does_mono) (use t in auto)
  qed
qed

section \<open>Ending\<close>

text \<open>Pinned buffers for as many blocks as there are buffers: every buffer holds one of the blocks.\<close>

lemma all_pinned:
  assumes one: "cached_once d s" and inj: "inj_on blks {..<NBUF}" and pin: "\<And>i. i < NBUF \<Longrightarrow> \<exists>c. bufof d (blks i) s = Some c \<and> brefcnt (bufs s c) \<noteq> 0"
    and c: "c < NBUF"
  shows "brefcnt (bufs s c) \<noteq> 0 \<and> (\<exists>i<NBUF. bblockno (bufs s c) = blks i)"
proof -
  obtain g where "\<forall>i. i < NBUF \<longrightarrow> bufof d (blks i) s = Some (g i) \<and> brefcnt (bufs s (g i)) \<noteq> 0" using pin by metis
  then have g: "bufof d (blks i) s = Some (g i)" "brefcnt (bufs s (g i)) \<noteq> 0" if "i < NBUF" for i using that by simp_all
  have b: "g i < NBUF" "bblockno (bufs s (g i)) = blks i" if "i < NBUF" for i using g(1) [OF that] by (simp_all add: bufof_iff [OF one])
  have "inj_on g {..<NBUF}"
  proof (rule inj_onI)
    fix i j assume ij: "i \<in> {..<NBUF}" "j \<in> {..<NBUF}" "g i = g j"
    then have "blks i = blks j" using b(2) [of i] b(2) [of j] by simp
    then show "i = j" using inj ij by (simp add: inj_onD)
  qed
  then have "g ` {..<NBUF} = {..<NBUF}" using b(1) by (intro endo_inj_surj) auto
  then obtain i where "i < NBUF" "g i = c" using c by (metis imageE lessThan_iff)
  then show ?thesis using g(2) b(2) by blast
qed

lemma commit_full:
  assumes "cache_inv {} d p s" "log_dev s = d" "lh_n s = int LOGBLOCKS" "txn (log_start s) LOGBLOCKS (lh_block s)"
    and "\<forall>i<LOGBLOCKS. \<exists>c. bufof d (lh_block s i) s = Some c \<and> brefcnt (bufs s c) \<noteq> 0"
  shows "commit s = Panic ''bget: no buffers''"
proof -
  have N: "LOGBLOCKS = NBUF" "nat (lh_n s) = Suc 29" "0 < lh_n s" "0 < LOGBLOCKS" using assms(3) by (simp_all add: LOGBLOCKS_def NBUF_def MAXOPBLOCKS_def)
  have one: "cached_once d s" and h: "held s = {}" using assms(1) by (simp_all add: cache_inv_def calm_def)
  obtain L where L: "bring L s" using assms(1) by (auto simp: cache_inv_def)
  have inj: "inj_on (lh_block s) {..<NBUF}" using assms(4) by (simp add: txn_def N(1) [symmetric])
  have all: "brefcnt (bufs s c) \<noteq> 0 \<and> (\<exists>i<NBUF. bblockno (bufs s c) = lh_block s i)" if "c < NBUF" for c
    by (rule all_pinned [OF one inj _ that]) (use assms(5) in \<open>simp add: N(1) [symmetric]\<close>)
  have sL: "c < NBUF" if "c \<in> set L" for c using L that by (auto simp: bring_def)
  have 0: "lh_block s i \<noteq> lblk (log_start s) 0" if "i < NBUF" for i using txnD(4) [OF assms(4) _ N(4)] that N(1) by simp
  have "find (\<lambda>b. bdev (bufs s b) = d \<and> bblockno (bufs s b) = lblk (log_start s) 0) L = None" unfolding find_None_iff using all sL 0 by metis
  moreover have "find (\<lambda>b. brefcnt (bufs s b) = 0) (rev L) = None" unfolding find_None_iff using all sL by auto
  ultimately have "bread d (lblk (log_start s) 0) s = Panic ''bget: no buffers''" by (simp add: bread_def bget_eq [OF L h])
  then have b: "bread (log_dev s) (log_start s + 1) s = Panic ''bget: no buffers''" using assms(2) by (simp add: lblk_def)
  have "[0..<nat (lh_n s)] = 0 # [1..<nat (lh_n s)]" unfolding N(2) by (subst upt_conv_Cons) simp_all
  then show ?thesis using N(3) b by (simp add: commit_def write_log_def)
qed

text \<open>Ending an operation while others are in progress does not commit.\<close>

lemma end_op_more:
  assumes "held s = {}" "1 < outstanding s" "committing s = 0"
  shows "\<exists>ps. end_op s = Ok () (s\<lparr>procs := ps, outstanding := outstanding s - 1\<rparr>)"
proof -
  let ?s = "s\<lparr>held := {LogLock}, outstanding := outstanding s - 1\<rparr>"
  have "no_plocks ?s" by (simp add: no_plocks_def)
  then obtain ps where "wakeup ChLog ?s = Ok () (?s\<lparr>procs := ps\<rparr>)" using wakeup_sched [of ?s ChLog] by blast
  moreover have "?s\<lparr>procs := ps, held := {}\<rparr> = s\<lparr>procs := ps, outstanding := outstanding s - 1\<rparr>" using assms(1) by simp
  ultimately have "end_op s = Ok () (s\<lparr>procs := ps, outstanding := outstanding s - 1\<rparr>)"
    using assms by (simp add: end_op_def acquire_def release_def Let_def)
  then show ?thesis by blast
qed

lemma in_tx_end: "in_tx d p s \<Longrightarrow> 1 < outstanding s \<Longrightarrow> in_tx d p (s\<lparr>procs := ps, outstanding := outstanding s - 1\<rparr>)"
  by (simp add: in_tx_def pins_def few_refs_def)

lemma commit_full_tx:
  assumes "in_tx d p s" "lh_n s = int LOGBLOCKS"
  shows "commit (s\<lparr>outstanding := 0, committing := 1\<rparr>) = Panic ''bget: no buffers''"
  by (rule commit_full [where d = d and p = p]) (use assms in \<open>simp_all add: in_tx_def pins_def\<close>)

lemma end_all_panics:
  assumes "in_tx d p s" "lh_n s = int LOGBLOCKS" "outstanding s = int (length pops)" "pops \<noteq> []" "\<forall>x\<in>set pops. fst x < NPROC"
  shows "drive (end_all pops s) = Panic ''bget: no buffers''"
  using assms
proof (induction pops arbitrary: s p)
  case (Cons x pops)
  let ?r = "run_as (fst x) s"
  have r: "in_tx d (fst x) ?r" by (rule run_as_tx [OF Cons.prems(1)]) (use Cons.prems(5) in simp)
  have h: "held ?r = {}" "committing ?r = 0" using r by (simp_all add: in_tx_def cache_inv_def calm_def)
  show ?case
  proof (cases "pops = []")
    case True
    then have "outstanding ?r = 1" using Cons.prems(3) by simp
    from end_op_last [OF h(1) this h(2)] show ?thesis using commit_full_tx [OF r] Cons.prems(2) by (simp add: end_all_def)
  next
    case False
    then have o: "1 < outstanding ?r" using Cons.prems(3) by (cases pops) simp_all
    obtain ps where e: "end_op ?r = Ok () (?r\<lparr>procs := ps, outstanding := outstanding ?r - 1\<rparr>)" using end_op_more [OF h(1) o h(2)] by blast
    have "drive (end_all pops (?r\<lparr>procs := ps, outstanding := outstanding ?r - 1\<rparr>)) = Panic ''bget: no buffers''"
      by (rule Cons.IH [OF in_tx_end [OF r o]]) (use Cons.prems False in simp_all)
    then show ?thesis by (simp add: end_all_def e)
  qed
qed simp

section \<open>A full log\<close>

text \<open>
  (C36) A transaction that fills the log cannot be committed, and the kernel lets it come about. From any state between transactions let
  as many processes as the reservation of \<^verbatim>\<open>begin_op\<close> admits begin an operation, and let each of them update the
  \<open>MAXOPBLOCKS\<close> blocks it may update, all of them different: every \<^verbatim>\<open>begin_op\<close> and every \<^verbatim>\<open>log_write\<close> succeeds and the log is full.
  There are as many buffers as log blocks, so every buffer is then pinned, none is left to read a log block into, and the
  \<^verbatim>\<open>commit\<close> of the last \<^verbatim>\<open>end_op\<close> panics.
\<close>

theorem full_log_panics:
  fixes s :: "'a klog_scheme"
  assumes "quiet d p s" "log_dev s = d" "outstanding s = 0" "committing s = 0" "unat (log_start s) + LOGBLOCKS < 2 ^ 31"
    and "length pops = LOGBLOCKS div MAXOPBLOCKS" "distinct (map fst (concat (map snd pops)))"
    and "\<forall>x\<in>set pops. fst x < NPROC \<and> list_all (proper (log_start s)) (snd x) \<and> length (snd x) = MAXOPBLOCKS"
  shows "\<exists>t u. begin_all pops s = Ok () t \<and> drive (update_all d pops t) = Ok () u \<and> lh_n u = int LOGBLOCKS \<and>
    drive (end_all pops u) = Panic ''bget: no buffers''"
proof -
  have pops: "length pops = 3" using assms(6) by (simp add: LOGBLOCKS_def MAXOPBLOCKS_def)
  have "length (blocks_of pops) = sum_list (map (length \<circ> snd) pops)" by (simp add: length_concat comp_def)
  also have "map (length \<circ> snd) pops = map (\<lambda>_. MAXOPBLOCKS) pops" using assms(8) by simp
  finally have n: "length (blocks_of pops) = LOGBLOCKS" using pops by (simp add: sum_list_triv LOGBLOCKS_def)
  have "before_tx d p 0 s" using assms by (simp add: before_tx_def)
  moreover have "(0 + length pops) * MAXOPBLOCKS \<le> LOGBLOCKS" using pops by (simp add: LOGBLOCKS_def)
  ultimately obtain q t where t: "begin_all pops s = Ok () t" "before_tx d q (length pops) t" "log_start t = log_start s"
    using begin_all_done [of d p 0 s pops] assms(8) by auto
  have tx: "in_tx d q t" "lh_n t = 0" using before_in_tx [OF t(2)] pops assms(5) t(3) by simp_all
  have "does (\<lambda>_. True) (update_all d pops t)
      (\<lambda>_ v. \<exists>q. in_tx d q v \<and> outstanding v = outstanding t \<and> lh_n v = lh_n t + int (length (blocks_of pops)))"
    by (rule does_update_all [OF tx(1)]) (use assms(7,8) n tx(2) t(3) in \<open>auto simp: homes_def\<close>)
  then obtain u r where u: "drive (update_all d pops t) = Ok () u" "in_tx d r u" "outstanding u = outstanding t" "lh_n u = int LOGBLOCKS"
    using n tx(2) by (auto elim!: doesE)
  have "drive (end_all pops u) = Panic ''bget: no buffers''"
    by (rule end_all_panics [OF u(2,4)]) (use u(3) t(2) pops assms(8) in \<open>auto simp: before_tx_def\<close>)
  then show ?thesis using t(1) u by blast
qed

text \<open>Three processes that each write ten blocks, from block 100 on.\<close>

definition thirty_writes :: "(nat \<times> updates) list" where
  "thirty_writes = map (\<lambda>q. (q, map (\<lambda>i. (of_nat (100 + 10 * q + i), \<lambda>x. st32 x 0 7)) [0..<10])) [0..<3]"

theorem full_log_panics_witness:
  "\<exists>s t u. binit log_machine = Ok () s \<and> begin_all thirty_writes s = Ok () t \<and> drive (update_all 1 thirty_writes t) = Ok () u \<and>
     drive (end_all thirty_writes u) = Panic ''bget: no buffers''"
proof -
  obtain s where s: "binit log_machine = Ok () s" "quiet 1 0 s" "log_dev s = 1" "log_start s = 2" "outstanding s = 0" "committing s = 0"
    "img s = (\<lambda>_. 0)" "\<forall>im. booted 1 0 (s\<lparr>img := im\<rparr>)" by (rule log_machine_boot)
  have "length thirty_writes = LOGBLOCKS div MAXOPBLOCKS" by (simp add: thirty_writes_def LOGBLOCKS_def MAXOPBLOCKS_def)
  moreover have "distinct (map fst (concat (map snd thirty_writes)))" by (simp add: thirty_writes_def upt_rec)
  moreover have "\<forall>x\<in>set thirty_writes. fst x < NPROC \<and> list_all (proper (log_start s)) (snd x) \<and> length (snd x) = MAXOPBLOCKS"
    by (simp add: thirty_writes_def s(4) upt_rec proper_def blockwise_st32 log_area_def LOGBLOCKS_def MAXOPBLOCKS_def NPROC_def)
  moreover have "unat (log_start s) + LOGBLOCKS < 2 ^ 31" by (simp add: s(4) LOGBLOCKS_def MAXOPBLOCKS_def)
  ultimately show ?thesis using full_log_panics [OF s(2,3,5,6), of thirty_writes] s(1) by blast
qed

end
