(* ===== verification/Vmaprops.thy ===== *)
theory Vmaprops
  imports Machine "HOL-Library.Multiset"
begin

text \<open>
  Placing a memory-mapped region: the sort by exchanges of \<^verbatim>\<open>vma_find_addr\<close> sorts, and its scan finds the highest gap.
\<close>

section \<open>The sort\<close>

definition lower :: "vma \<Rightarrow> vma \<Rightarrow> bool" where
  "lower u v \<longleftrightarrow> vaddr u \<le> vaddr v"

definition vma_pass :: "nat \<Rightarrow> vma list \<Rightarrow> vma list" where
  "vma_pass i xs = fold vma_exchange (map (Pair i) [i + 1..<length xs]) xs"

lemma exchange_props:
  assumes "i < length xs" "j < length xs"
  shows "length (vma_exchange (i, j) xs) = length xs" "mset (vma_exchange (i, j) xs) = mset xs"
    "k \<noteq> i \<Longrightarrow> k \<noteq> j \<Longrightarrow> vma_exchange (i, j) xs ! k = xs ! k"
    "i \<noteq> j \<Longrightarrow> lower (vma_exchange (i, j) xs ! i) (vma_exchange (i, j) xs ! j)" "lower (vma_exchange (i, j) xs ! i) (xs ! i)"
  using assms mset_swap [of j xs i] by (auto simp: vma_exchange_def lower_def nth_list_update)

lemma exchange_above:
  assumes "m \<le> i" "m \<le> j" "i < length xs" "j < length xs" "\<forall>k. m \<le> k \<longrightarrow> k < length xs \<longrightarrow> P (xs ! k)"
  shows "\<forall>k. m \<le> k \<longrightarrow> k < length xs \<longrightarrow> P (vma_exchange (i, j) xs ! k)"
  using assms by (auto simp: vma_exchange_def nth_list_update)

definition passed :: "nat \<Rightarrow> vma list \<Rightarrow> nat \<Rightarrow> vma list \<Rightarrow> bool" where
  "passed i xs j ys \<longleftrightarrow> length ys = length xs \<and> mset ys = mset xs \<and> (\<forall>k<i. ys ! k = xs ! k) \<and>
     (\<forall>k. i \<le> k \<longrightarrow> k < j \<longrightarrow> lower (ys ! i) (ys ! k)) \<and>
     (\<forall>P. (\<forall>k. i \<le> k \<longrightarrow> k < length xs \<longrightarrow> P (xs ! k)) \<longrightarrow> (\<forall>k. i \<le> k \<longrightarrow> k < length xs \<longrightarrow> P (ys ! k)))"

lemma passed_step:
  assumes p: "passed i xs j ys" and ij: "i < j" "j < length xs"
  shows "passed i xs (Suc j) (vma_exchange (i, j) ys)"
proof -
  let ?ys = "vma_exchange (i, j) ys"
  have l: "length ys = length xs" using p by (simp add: passed_def)
  have b: "i < length ys" "j < length ys" using ij l by simp_all
  note e = exchange_props [OF b]
  have "lower (?ys ! i) (?ys ! k)" if k: "i \<le> k" "k < Suc j" for k
  proof (cases "k = j")
    case False
    show ?thesis
    proof (cases "k = i")
      case True
      then show ?thesis by (simp add: lower_def)
    next
      case ki: False
      then have "lower (ys ! i) (ys ! k)" "?ys ! k = ys ! k" using p k False e(3) by (auto simp: passed_def)
      then show ?thesis using e(5) by (auto simp: lower_def)
    qed
  qed (use e(4) ij in simp)
  moreover have "P (?ys ! k)" if "\<forall>k. i \<le> k \<longrightarrow> k < length xs \<longrightarrow> P (xs ! k)" "i \<le> k" "k < length xs" for P k
  proof -
    have "\<forall>k. i \<le> k \<longrightarrow> k < length ys \<longrightarrow> P (ys ! k)" using p that(1) unfolding passed_def l by blast
    then show ?thesis using exchange_above [of i i j ys P] that(2,3) b ij(1) l by simp
  qed
  ultimately show ?thesis using p e ij unfolding passed_def by auto
qed

lemma passed_pass:
  assumes "i < length xs"
  shows "passed i xs (length xs) (vma_pass i xs)"
proof -
  have "passed i xs j (fold vma_exchange (map (Pair i) [i + 1..<j]) xs)" if "i < j" "j \<le> length xs" for j
    using that
  proof (induction j)
    case (Suc j)
    show ?case
    proof (cases "j = i")
      case True
      then show ?thesis by (auto simp: passed_def lower_def less_Suc_eq)
    next
      case False
      then have "passed i xs j (fold vma_exchange (map (Pair i) [i + 1..<j]) xs)" using Suc by simp
      from passed_step [OF this] show ?thesis using Suc.prems False by simp
    qed
  qed simp
  then show ?thesis using assms by (simp add: vma_pass_def)
qed

definition sorted_below :: "nat \<Rightarrow> vma list \<Rightarrow> bool" where
  "sorted_below i xs \<longleftrightarrow> (\<forall>a<i. \<forall>b. a \<le> b \<longrightarrow> b < length xs \<longrightarrow> lower (xs ! a) (xs ! b))"

lemma pass_sorted:
  assumes s: "sorted_below i xs" and i: "i < length xs"
  shows "sorted_below (Suc i) (vma_pass i xs)" "length (vma_pass i xs) = length xs" "mset (vma_pass i xs) = mset xs"
proof -
  have p: "passed i xs (length xs) (vma_pass i xs)" by (rule passed_pass [OF i])
  then show "length (vma_pass i xs) = length xs" "mset (vma_pass i xs) = mset xs" by (simp_all add: passed_def)
  show "sorted_below (Suc i) (vma_pass i xs)" unfolding sorted_below_def
  proof (intro allI impI)
    fix a b assume ab: "a < Suc i" "a \<le> b" "b < length (vma_pass i xs)"
    show "lower (vma_pass i xs ! a) (vma_pass i xs ! b)"
    proof (cases "a = i")
      case False
      then have a: "a < i" "vma_pass i xs ! a = xs ! a" using ab p by (auto simp: passed_def)
      show ?thesis
      proof (cases "b < i")
        case True
        then show ?thesis using a ab s i p by (simp add: passed_def sorted_below_def)
      next
        case b: False
        have "\<forall>k. i \<le> k \<longrightarrow> k < length xs \<longrightarrow> lower (xs ! a) (xs ! k)" using s a by (simp add: sorted_below_def)
        then have "\<forall>k. i \<le> k \<longrightarrow> k < length xs \<longrightarrow> lower (xs ! a) (vma_pass i xs ! k)" using p unfolding passed_def by blast
        then show ?thesis using a b ab p by (simp add: passed_def)
      qed
    qed (use ab p in \<open>auto simp: passed_def\<close>)
  qed
qed

lemma vma_sort_sorts: "sorted_wrt lower (vma_sort xs) \<and> mset (vma_sort xs) = mset xs"
proof -
  let ?n = "length xs"
  have "sorted_below m ys \<and> length ys = ?n \<and> mset ys = mset xs"
    if "ys = fold vma_exchange (concat (map (\<lambda>i. map (Pair i) [i + 1..<?n]) [0..<m])) xs" "m \<le> ?n" for m ys
    using that
  proof (induction m arbitrary: ys)
    case 0
    then show ?case by (simp add: sorted_below_def)
  next
    case (Suc m)
    let ?z = "fold vma_exchange (concat (map (\<lambda>i. map (Pair i) [i + 1..<?n]) [0..<m])) xs"
    have z: "sorted_below m ?z" "length ?z = ?n" "mset ?z = mset xs" using Suc.IH [OF refl] Suc.prems(2) by simp_all
    have "ys = vma_pass m ?z" using Suc.prems(1) z(2) by (simp add: vma_pass_def)
    then show ?case using pass_sorted [OF z(1)] z(2,3) Suc.prems(2) by simp
  qed
  from this [OF refl, of ?n] have "sorted_below ?n (vma_sort xs)" "length (vma_sort xs) = ?n" "mset (vma_sort xs) = mset xs"
    by (simp_all add: vma_sort_def)
  then show ?thesis by (simp add: sorted_wrt_iff_nth_less sorted_below_def)
qed

section \<open>The scan\<close>

text \<open>The bytes of a region, and a place for a new one.\<close>

definition apart :: "u64 \<Rightarrow> u64 \<Rightarrow> vma \<Rightarrow> bool" where
  "apart a len v \<longleftrightarrow> unat a + unat len \<le> unat (vaddr v) \<or> unat (vaddr v) + unat (vlen v) \<le> unat a"

definition region_ok :: "u64 \<Rightarrow> vma \<Rightarrow> bool" where
  "region_ok high v \<longleftrightarrow> vlen v \<noteq> 0 \<and> unat (vaddr v) + unat (vlen v) \<le> unat high"

definition gap_at :: "u64 \<Rightarrow> u64 \<Rightarrow> vma list \<Rightarrow> u64 \<Rightarrow> bool" where
  "gap_at low len vs a \<longleftrightarrow> low \<le> a \<and> (\<forall>v\<in>set vs. apart a len v)"

definition scanned :: "u64 \<Rightarrow> u64 \<Rightarrow> vma list \<Rightarrow> vma list \<Rightarrow> u64 \<times> u64 \<Rightarrow> bool" where
  "scanned low len vs us bc \<longleftrightarrow>
     low \<le> snd bc \<and> (\<forall>v\<in>set vs. unat (vaddr v) + unat (vlen v) \<le> unat (snd bc)) \<and>
     (snd bc = low \<or> (\<exists>v\<in>set vs. unat (snd bc) = unat (vaddr v) + unat (vlen v))) \<and>
     (fst bc \<noteq> 0 \<longrightarrow> gap_at low len (vs @ us) (fst bc) \<and> (\<exists>v\<in>set vs. unat (fst bc) + unat len \<le> unat (vaddr v))) \<and>
     (\<forall>x. gap_at low len (vs @ us) x \<longrightarrow> (\<exists>v\<in>set vs. x < vaddr v) \<longrightarrow> x \<le> fst bc)"

lemma after_all:
  assumes "gap_at low len vs x" "set us \<subseteq> set vs" "\<not> (\<exists>u\<in>set us. x < vaddr u)" "0 < unat len"
    and "cur = low \<or> (\<exists>v\<in>set us. unat cur = unat (vaddr v) + unat (vlen v))"
  shows "unat cur \<le> unat x"
  using assms(5)
proof (elim disjE bexE)
  fix u assume u: "u \<in> set us" "unat cur = unat (vaddr u) + unat (vlen u)"
  have "apart x len u" "\<not> x < vaddr u" using u(1) assms(1-3) by (auto simp: gap_at_def)
  then show ?thesis using u(2) assms(4) unfolding apart_def word_less_nat_alt by linarith
qed (use assms(1) in \<open>simp add: gap_at_def word_le_nat_alt\<close>)

lemma gap_step_scanned:
  assumes s: "scanned low len vs (v # us) bc" and ok: "region_ok high v" and len: "len \<noteq> 0"
    and sorted: "\<forall>u\<in>set us. lower v u" "\<forall>u\<in>set vs. lower u v"
  shows "scanned low len (vs @ [v]) us (gap_step len v bc)"
proof -
  obtain best cur where bc: "bc = (best, cur)" by (cases bc)
  have end_v: "unat (vaddr v + vlen v) = unat (vaddr v) + unat (vlen v)"
    using ok unsigned_less [of high, where 'a = nat] by (simp add: region_ok_def unat_plus_if')
  have vpos: "0 < unat (vlen v)" "0 < unat len" using ok len by (simp_all add: region_ok_def unat_gt_0)
  define b' where "b' = (if vaddr v > cur \<and> vaddr v - cur \<ge> len then vaddr v - len else best)"
  define c' where "c' = (if vaddr v + vlen v > cur then vaddr v + vlen v else cur)"
  have g: "gap_step len v bc = (b', c')" by (simp add: gap_step_def bc b'_def c'_def)
  have S: "low \<le> cur" "\<forall>v\<in>set vs. unat (vaddr v) + unat (vlen v) \<le> unat cur" "cur = low \<or> (\<exists>v\<in>set vs. unat cur = unat (vaddr v) + unat (vlen v))"
    "best \<noteq> 0 \<longrightarrow> gap_at low len (vs @ v # us) best \<and> (\<exists>v\<in>set vs. unat best + unat len \<le> unat (vaddr v))"
    "\<forall>x. gap_at low len (vs @ v # us) x \<longrightarrow> (\<exists>v\<in>set vs. x < vaddr v) \<longrightarrow> x \<le> best"
    using s by (simp_all add: scanned_def bc)
  have c': "unat c' = max (unat cur) (unat (vaddr v) + unat (vlen v))"
    using end_v by (auto simp: c'_def word_less_nat_alt)
  have hit: "unat (vaddr v - len) = unat (vaddr v) - unat len \<and> unat cur + unat len \<le> unat (vaddr v)" if "vaddr v > cur" "vaddr v - cur \<ge> len"
    using that by (auto simp: word_less_nat_alt word_le_nat_alt unat_sub_if')
  have gap: "gap_at low len (vs @ v # us) (vaddr v - len)" if h: "vaddr v > cur" "vaddr v - cur \<ge> len"
  proof -
    have "unat low \<le> unat (vaddr v - len)" using hit [OF h] S(1) unfolding word_le_nat_alt by linarith
    then have "low \<le> vaddr v - len" by (simp add: word_le_nat_alt)
    moreover have "apart (vaddr v - len) len u" if "u \<in> set (vs @ v # us)" for u
      using that hit [OF h] S(2) sorted(1) by (auto simp: apart_def lower_def word_le_nat_alt)
    ultimately show ?thesis by (auto simp: gap_at_def)
  qed
  have best: "gap_at low len (vs @ v # us) b' \<and> (\<exists>u\<in>set (vs @ [v]). unat b' + unat len \<le> unat (vaddr u))" if "b' \<noteq> 0"
  proof (cases "vaddr v > cur \<and> vaddr v - cur \<ge> len")
    case True
    then show ?thesis using gap hit by (auto simp: b'_def)
  next
    case False
    then show ?thesis using S(4) that by (auto simp: b'_def)
  qed
  have top: "x \<le> b'" if x: "gap_at low len (vs @ v # us) x" "\<exists>u\<in>set (vs @ [v]). x < vaddr u" for x
  proof (cases "x < vaddr v")
    case True
    then have xv: "unat x + unat len \<le> unat (vaddr v)" using x(1) vpos by (auto simp: gap_at_def apart_def word_less_nat_alt)
    show ?thesis
    proof (cases "vaddr v > cur \<and> vaddr v - cur \<ge> len")
      case h: True
      then show ?thesis using hit xv by (auto simp: b'_def word_le_nat_alt)
    next
      case h: False
      have "\<exists>u\<in>set vs. x < vaddr u"
      proof (rule ccontr)
        assume n: "\<not> (\<exists>u\<in>set vs. x < vaddr u)"
        have "unat cur \<le> unat x" by (rule after_all [OF x(1) _ n vpos(2) S(3)]) auto
        then show False using h xv vpos by (auto simp: word_less_nat_alt word_le_nat_alt unat_sub_if')
      qed
      then show ?thesis using S(5) x(1) h by (auto simp: b'_def)
    qed
  next
    case False
    then show ?thesis using x(2) sorted(2) by (auto simp: lower_def)
  qed
  have "low \<le> c'" "\<forall>u\<in>set (vs @ [v]). unat (vaddr u) + unat (vlen u) \<le> unat c'"
    "c' = low \<or> (\<exists>u\<in>set (vs @ [v]). unat c' = unat (vaddr u) + unat (vlen u))"
    using S(1-3) c' end_v by (auto simp: word_le_nat_alt c'_def)
  then show ?thesis unfolding scanned_def g fst_conv snd_conv using best top by simp
qed

lemma scan_all:
  assumes "sorted_wrt lower (vs @ us)" "\<forall>v\<in>set us. region_ok high v" "len \<noteq> 0" "scanned low len vs us bc"
  shows "scanned low len (vs @ us) [] (fold (gap_step len) us bc)"
  using assms
proof (induction us arbitrary: vs bc)
  case (Cons v us)
  have "scanned low len (vs @ [v]) us (gap_step len v bc)"
    by (rule gap_step_scanned [of _ _ _ _ _ _ high]) (use Cons.prems in \<open>auto simp: sorted_wrt_append\<close>)
  then show ?case using Cons.IH [of "vs @ [v]" "gap_step len v bc"] Cons.prems by simp
qed simp

section \<open>Properties\<close>

text \<open>
  (C16) Placing a mapping. For any set of regions below the trap frames, the address that \<^verbatim>\<open>vma_find_addr\<close> returns, unless it is 0,
  lies at or above the rounded size of the process, leaves room for the new region below the trap frames and keeps it off
  every region in use; and no address with these properties is higher, so a mapping that fits is never refused.
\<close>

theorem vma_find_addr_highest:
  fixes p :: nat and s :: "'a kproc_scheme"
  assumes "\<forall>i<MAXVMA. vused (vmas (procs s p) i) \<longrightarrow> region_ok (TRAPFRAME NPROC) (vmas (procs s p) i)" "len \<noteq> 0"
  shows "(vma_find_addr p len s \<noteq> 0 \<longrightarrow>
      PGROUNDUP (psz (procs s p)) \<le> vma_find_addr p len s \<and> unat (vma_find_addr p len s) + unat len \<le> unat (TRAPFRAME NPROC) \<and>
      (\<forall>i<MAXVMA. vused (vmas (procs s p) i) \<longrightarrow> apart (vma_find_addr p len s) len (vmas (procs s p) i))) \<and>
    (PGROUNDUP (psz (procs s p)) \<le> x \<and> unat x + unat len \<le> unat (TRAPFRAME NPROC) \<and>
      (\<forall>i<MAXVMA. vused (vmas (procs s p) i) \<longrightarrow> apart x len (vmas (procs s p) i)) \<longrightarrow> x \<le> vma_find_addr p len s)"
proof -
  define vs where "vs = filter vused (map (vmas (procs s p)) [0..<MAXVMA])"
  define ord where "ord = vma_sort vs"
  let ?low = "PGROUNDUP (psz (procs s p))" and ?high = "TRAPFRAME NPROC"
  obtain best cur where bc: "fold (gap_step len) ord (0, ?low) = (best, cur)" by (cases "fold (gap_step len) ord (0, ?low)")
  have so: "sorted_wrt lower ord" "mset ord = mset vs" using vma_sort_sorts by (simp_all add: ord_def)
  then have set: "set ord = set vs" by (metis set_mset_mset)
  have all: "(\<forall>v\<in>set ord. P v) \<longleftrightarrow> (\<forall>i<MAXVMA. vused (vmas (procs s p) i) \<longrightarrow> P (vmas (procs s p) i))" for P
    unfolding set vs_def by auto
  have "scanned ?low len [] ord (0, ?low)" by (simp add: scanned_def)
  then have S: "scanned ?low len ord [] (best, cur)"
    using scan_all [of "[]" ord ?high len ?low "(0, ?low)"] so(1) assms all [of "region_ok ?high"] bc by simp
  define a where "a = (if ?high > cur \<and> ?high - cur \<ge> len then ?high - len else best)"
  have a: "vma_find_addr p len s = a" by (simp add: vma_find_addr_def Let_def vs_def [symmetric] ord_def [symmetric] bc a_def)
  have ok: "\<forall>v\<in>set ord. region_ok ?high v" using assms(1) all by simp
  have hit: "unat (?high - len) = unat ?high - unat len \<and> unat cur + unat len \<le> unat ?high" if "?high > cur" "?high - cur \<ge> len"
    using that by (auto simp: word_less_nat_alt word_le_nat_alt unat_sub_if')
  have sound: "gap_at ?low len ord a \<and> unat a + unat len \<le> unat ?high" if nz: "a \<noteq> 0"
  proof (cases "?high > cur \<and> ?high - cur \<ge> len")
    case True
    then show ?thesis using hit S by (auto simp: a_def scanned_def gap_at_def apart_def word_le_nat_alt)
  next
    case False
    then have "best \<noteq> 0" "a = best" using nz by (auto simp: a_def)
    then show ?thesis using S ok by (force simp: scanned_def region_ok_def)
  qed
  have top: "x \<le> a" if g: "gap_at ?low len ord x" "unat x + unat len \<le> unat ?high" for x
  proof (cases "?high > cur \<and> ?high - cur \<ge> len")
    case True
    then show ?thesis using hit g(2) unfolding a_def word_le_nat_alt by auto
  next
    case h: False
    have "\<exists>v\<in>set ord. x < vaddr v"
    proof (rule ccontr)
      assume n: "\<not> ?thesis"
      have l: "0 < unat len" using assms(2) by (simp add: unat_gt_0)
      have "unat cur \<le> unat x" by (rule after_all [OF g(1) _ n l]) (use S in \<open>auto simp: scanned_def\<close>)
      then show False using h g(2) l by (auto simp: word_less_nat_alt word_le_nat_alt unat_sub_if')
    qed
    then have "x \<le> best" using S g(1) by (simp add: scanned_def)
    then show ?thesis using h by (auto simp: a_def)
  qed
  show ?thesis unfolding a using sound top unfolding gap_at_def all by simp
qed

definition map_machine :: ktrap where
  "map_machine = zero_machine\<lparr>procs := (\<lambda>q. (procs zero_machine q)\<lparr>psz := 4096, vmas := (\<lambda>i. \<lparr>vused = (i = 0), vaddr = TRAPFRAME NPROC - 8192,
     vlen = 4096, vprot = 0, vflags = 0, voff = 0, vfile = None\<rparr>)\<rparr>)\<rparr>"

theorem vma_find_addr_highest_witness: "TRAPFRAME NPROC - 4096 \<le> vma_find_addr 0 4096 map_machine"
proof -
  have ok: "\<forall>i<MAXVMA. vused (vmas (procs map_machine 0) i) \<longrightarrow> region_ok (TRAPFRAME NPROC) (vmas (procs map_machine 0) i)"
    by (simp add: map_machine_def region_ok_def TRAPFRAME_def TRAMPOLINE_def MAXVA_def PGSIZE_def NPROC_def)
  have "PGROUNDUP (psz (procs map_machine 0)) \<le> TRAPFRAME NPROC - 4096" "unat (TRAPFRAME NPROC - 4096) + unat (4096 :: u64) \<le> unat (TRAPFRAME NPROC)"
    "\<forall>i<MAXVMA. vused (vmas (procs map_machine 0) i) \<longrightarrow> apart (TRAPFRAME NPROC - 4096) 4096 (vmas (procs map_machine 0) i)"
    by (simp_all add: map_machine_def apart_def TRAPFRAME_def TRAMPOLINE_def MAXVA_def PGSIZE_def NPROC_def PGROUNDUP_def)
  then show ?thesis using vma_find_addr_highest [OF ok, of 4096 "TRAPFRAME NPROC - 4096"] by simp
qed

end
