(* ===== verification/Sleepwake.thy ===== *)
theory Sleepwake
  imports Sleeplock
begin

text \<open>
  \<^verbatim>\<open>sleep\<close> and \<^verbatim>\<open>wakeup\<close> (\<^verbatim>\<open>kernel/proc.c\<close>) instruction by instruction, at work in the sleep locks (\<^verbatim>\<open>kernel/sleeplock.c\<close>). The
  definitions of the theory of processes run each of these routines as a whole up to its switch; here every lock operation
  and every access to a shared field is a step of its own, and the processes take their steps in any order on any number of harts.
  What makes this safe is the order of the two lock operations at the start of \<^verbatim>\<open>sleep\<close>.
\<close>

section \<open>Processes\<close>

text \<open>
  Where a process stands: outside; in \<^verbatim>\<open>acquiresleep\<close> (\<open>Acq\<close>), holding the sleep lock, in \<^verbatim>\<open>releasesleep\<close> (\<open>Rel\<close>), in \<^verbatim>\<open>sleep\<close>
  (\<open>Slp\<close>; \<open>SlpOff\<close> is off the hart, after the switch) or in the loop of \<^verbatim>\<open>wakeup\<close> (\<open>Wk\<close>, with the index of the process it looks at).
\<close>

datatype spc =
    Out
  | AcqLk | AcqTest | AcqLocked | AcqPid | AcqUnlk | Holds
  | RelLk | RelLocked | RelPid | RelUnlk
  | SlpLock | SlpUnlk | SlpChan | SlpState | SlpSched | SlpOff | SlpTidy | SlpUnlock | SlpRelk
  | WkNext nat | WkTest nat | WkUnlock nat

record slp_sys =
  slp :: sleeplock
  lk :: "nat option"
  plk :: "nat \<Rightarrow> nat option"
  ptab :: "nat \<Rightarrow> proc"
  pos :: "nat \<Rightarrow> spc"

abbreviation move :: "nat \<Rightarrow> spc \<Rightarrow> slp_sys \<Rightarrow> slp_sys" where
  "move t q s \<equiv> s\<lparr>pos := (pos s)(t := q)\<rparr>"

abbreviation upd_ptab :: "nat \<Rightarrow> (proc \<Rightarrow> proc) \<Rightarrow> slp_sys \<Rightarrow> slp_sys" where
  "upd_ptab p f s \<equiv> s\<lparr>ptab := (ptab s)(p := f (ptab s p))\<rparr>"

text \<open>One turn of the spin loop of \<^verbatim>\<open>acquire\<close>, for the inner lock of the sleep lock and for the lock of a process.\<close>

definition take_lk :: "nat \<Rightarrow> spc \<Rightarrow> slp_sys \<Rightarrow> slp_sys" where
  "take_lk t q s = (if lk s = None then move t q (s\<lparr>lk := Some t\<rparr>) else s)"

definition drop_lk :: "nat \<Rightarrow> spc \<Rightarrow> slp_sys \<Rightarrow> slp_sys" where
  "drop_lk t q s = move t q (s\<lparr>lk := None\<rparr>)"

definition take_plk :: "nat \<Rightarrow> nat \<Rightarrow> spc \<Rightarrow> slp_sys \<Rightarrow> slp_sys" where
  "take_plk t p q s = (if plk s p = None then move t q (s\<lparr>plk := (plk s)(p := Some t)\<rparr>) else s)"

definition drop_plk :: "nat \<Rightarrow> nat \<Rightarrow> spc \<Rightarrow> slp_sys \<Rightarrow> slp_sys" where
  "drop_plk t p q s = move t q (s\<lparr>plk := (plk s)(p := None)\<rparr>)"

fun acquiresleep_step :: "nat \<Rightarrow> spc \<Rightarrow> slp_sys \<Rightarrow> slp_sys" where
  "acquiresleep_step t AcqLk s = take_lk t AcqTest s"
| "acquiresleep_step t AcqTest s = (if slocked (slp s) \<noteq> 0 then move t SlpLock s else move t AcqLocked s)"
| "acquiresleep_step t AcqLocked s = move t AcqPid (s\<lparr>slp := (slp s)\<lparr>slocked := 1\<rparr>\<rparr>)"
| "acquiresleep_step t AcqPid s = move t AcqUnlk (s\<lparr>slp := (slp s)\<lparr>spid := pid (ptab s t)\<rparr>\<rparr>)"
| "acquiresleep_step t AcqUnlk s = drop_lk t Holds s"
| "acquiresleep_step t p s = s"

fun releasesleep_step :: "nat \<Rightarrow> spc \<Rightarrow> slp_sys \<Rightarrow> slp_sys" where
  "releasesleep_step t RelLk s = take_lk t RelLocked s"
| "releasesleep_step t RelLocked s = move t RelPid (s\<lparr>slp := (slp s)\<lparr>slocked := 0\<rparr>\<rparr>)"
| "releasesleep_step t RelPid s = move t (WkNext 0) (s\<lparr>slp := (slp s)\<lparr>spid := 0\<rparr>\<rparr>)"
| "releasesleep_step t RelUnlk s = drop_lk t Out s"
| "releasesleep_step t p s = s"

text \<open>
  \<^verbatim>\<open>sleep(lk, &lk->lk)\<close>. The switch of \<^verbatim>\<open>sched\<close> ends in the scheduler, which releases the lock of the process; the scheduler
  switches back to a runnable process after taking its lock and marking it running.
\<close>

fun sleep_step :: "slock \<Rightarrow> nat \<Rightarrow> spc \<Rightarrow> slp_sys \<Rightarrow> slp_sys" where
  "sleep_step l t SlpLock s = take_plk t t SlpUnlk s"
| "sleep_step l t SlpUnlk s = drop_lk t SlpChan s"
| "sleep_step l t SlpChan s = move t SlpState (upd_ptab t (pchan_update (\<lambda>_. ChSlk l)) s)"
| "sleep_step l t SlpState s = move t SlpSched (upd_ptab t (pstate_update (\<lambda>_. SLEEPING)) s)"
| "sleep_step l t SlpSched s = drop_plk t t SlpOff s"
| "sleep_step l t SlpOff s =
     (if pstate (ptab s t) = RUNNABLE \<and> plk s t = None then take_plk t t SlpTidy (upd_ptab t (pstate_update (\<lambda>_. RUNNING)) s) else s)"
| "sleep_step l t SlpTidy s = move t SlpUnlock (upd_ptab t (pchan_update (\<lambda>_. ChNull)) s)"
| "sleep_step l t SlpUnlock s = drop_plk t t SlpRelk s"
| "sleep_step l t SlpRelk s = take_lk t AcqTest s"
| "sleep_step l t p s = s"

fun wakeup_step :: "slock \<Rightarrow> nat \<Rightarrow> spc \<Rightarrow> slp_sys \<Rightarrow> slp_sys" where
  "wakeup_step l t (WkNext p) s =
     (if p < NPROC then (if p \<noteq> t then take_plk t p (WkTest p) s else move t (WkNext (Suc p)) s)
      else move t RelUnlk s)"
| "wakeup_step l t (WkTest p) s =
     move t (WkUnlock p)
       (if pstate (ptab s p) = SLEEPING \<and> pchan (ptab s p) = ChSlk l
        then upd_ptab p (\<lambda>pr. pr\<lparr>pstate := RUNNABLE, priority := 0, ticks_used := 0\<rparr>) s else s)"
| "wakeup_step l t (WkUnlock p) s = drop_plk t p (WkNext (Suc p)) s"
| "wakeup_step l t p s = s"

text \<open>
  A turn of a process: one outside calls \<^verbatim>\<open>acquiresleep\<close>, one that holds the sleep lock calls \<^verbatim>\<open>releasesleep\<close>. A schedule lists
  the turns.
\<close>

definition slp_turn :: "slock \<Rightarrow> nat \<Rightarrow> slp_sys \<Rightarrow> slp_sys" where
  "slp_turn l t s =
     (if t < NPROC then
        let p = pos s t in
        case p of
          Out \<Rightarrow> move t AcqLk s
        | Holds \<Rightarrow> move t RelLk s
        | AcqLk \<Rightarrow> acquiresleep_step t p s | AcqTest \<Rightarrow> acquiresleep_step t p s | AcqLocked \<Rightarrow> acquiresleep_step t p s
        | AcqPid \<Rightarrow> acquiresleep_step t p s | AcqUnlk \<Rightarrow> acquiresleep_step t p s
        | RelLk \<Rightarrow> releasesleep_step t p s | RelLocked \<Rightarrow> releasesleep_step t p s
        | RelPid \<Rightarrow> releasesleep_step t p s | RelUnlk \<Rightarrow> releasesleep_step t p s
        | WkNext _ \<Rightarrow> wakeup_step l t p s | WkTest _ \<Rightarrow> wakeup_step l t p s | WkUnlock _ \<Rightarrow> wakeup_step l t p s
        | _ \<Rightarrow> sleep_step l t p s
      else s)"

definition slp_run :: "slock \<Rightarrow> nat list \<Rightarrow> slp_sys \<Rightarrow> slp_sys" where
  "slp_run l turns s = fold (slp_turn l) turns s"

text \<open>A free sleep lock, and processes none of which sleeps.\<close>

definition slp_init :: "(nat \<Rightarrow> proc) \<Rightarrow> slp_sys" where
  "slp_init ps = \<lparr>slp = \<lparr>slocked = 0, spid = 0\<rparr>, lk = None, plk = (\<lambda>_. None), ptab = ps, pos = (\<lambda>_. Out)\<rparr>"

section \<open>The invariant\<close>

fun in_lk :: "spc \<Rightarrow> bool" where
  "in_lk AcqTest = True" | "in_lk AcqLocked = True" | "in_lk AcqPid = True" | "in_lk AcqUnlk = True"
| "in_lk RelLocked = True" | "in_lk RelPid = True" | "in_lk RelUnlk = True" | "in_lk SlpLock = True" | "in_lk SlpUnlk = True"
| "in_lk (WkNext _) = True" | "in_lk (WkTest _) = True" | "in_lk (WkUnlock _) = True" | "in_lk _ = False"

fun in_plk :: "nat \<Rightarrow> spc \<Rightarrow> nat \<Rightarrow> bool" where
  "in_plk t SlpUnlk i = (i = t)" | "in_plk t SlpChan i = (i = t)" | "in_plk t SlpState i = (i = t)" | "in_plk t SlpSched i = (i = t)"
| "in_plk t SlpTidy i = (i = t)" | "in_plk t SlpUnlock i = (i = t)" | "in_plk t (WkTest j) i = (i = j)" | "in_plk t (WkUnlock j) i = (i = j)"
| "in_plk t _ i = False"

fun has_slp :: "spc \<Rightarrow> bool" where
  "has_slp AcqPid = True" | "has_slp AcqUnlk = True" | "has_slp Holds = True" | "has_slp RelLk = True" | "has_slp RelLocked = True" | "has_slp _ = False"

text \<open>The scheduling fields of a process that stands at a given point, and what it knows of the sleep lock.\<close>

fun fields_ok :: "slock \<Rightarrow> spc \<Rightarrow> proc \<Rightarrow> bool" where
  "fields_ok l SlpState x \<longleftrightarrow> pchan x = ChSlk l \<and> pstate x \<noteq> SLEEPING"
| "fields_ok l SlpSched x \<longleftrightarrow> pchan x = ChSlk l"
| "fields_ok l SlpOff x \<longleftrightarrow> pchan x = ChSlk l"
| "fields_ok l _ x \<longleftrightarrow> pstate x \<noteq> SLEEPING"

fun sees :: "spc \<Rightarrow> u32 \<Rightarrow> bool" where
  "sees SlpLock v = (v \<noteq> 0)" | "sees SlpUnlk v = (v \<noteq> 0)" | "sees AcqLocked v = (v = 0)" | "sees _ v = True"

text \<open>A process on its way to sleep that has given up the inner lock, or asleep; and one that has yet to visit process \<open>i\<close> to wake it.\<close>

fun drowsy :: "spc \<Rightarrow> proc \<Rightarrow> bool" where
  "drowsy SlpChan x = True" | "drowsy SlpState x = True" | "drowsy SlpSched x = True" | "drowsy SlpOff x = (pstate x = SLEEPING)"
| "drowsy _ x = False"

fun will_wake :: "spc \<Rightarrow> nat \<Rightarrow> bool" where
  "will_wake RelPid i = True" | "will_wake (WkNext j) i = (j \<le> i)" | "will_wake (WkTest j) i = (j \<le> i)" | "will_wake (WkUnlock j) i = (j < i)"
| "will_wake _ i = False"

definition slp_inv :: "slock \<Rightarrow> slp_sys \<Rightarrow> bool" where
  "slp_inv l s \<longleftrightarrow>
     (\<forall>t. in_lk (pos s t) \<longleftrightarrow> lk s = Some t) \<and> (\<forall>t i. in_plk t (pos s t) i \<longleftrightarrow> plk s i = Some t) \<and>
     (\<forall>t u. has_slp (pos s t) \<longrightarrow> has_slp (pos s u) \<longrightarrow> t = u) \<and> (slocked (slp s) = 0 \<longrightarrow> (\<forall>t. \<not> has_slp (pos s t))) \<and>
     (\<forall>t. fields_ok l (pos s t) (ptab s t)) \<and> (\<forall>t. sees (pos s t) (slocked (slp s))) \<and>
     (\<forall>i. drowsy (pos s i) (ptab s i) \<longrightarrow> slocked (slp s) = 0 \<longrightarrow> (\<exists>u. will_wake (pos s u) i)) \<and>
     (\<forall>t. pos s t \<noteq> Out \<longrightarrow> t < NPROC)"

lemma slp_invD:
  assumes "slp_inv l s"
  shows "in_lk (pos s t) \<longleftrightarrow> lk s = Some t" "in_plk t (pos s t) i \<longleftrightarrow> plk s i = Some t" "has_slp (pos s t) \<Longrightarrow> has_slp (pos s u) \<Longrightarrow> t = u"
    "slocked (slp s) = 0 \<Longrightarrow> \<not> has_slp (pos s t)" "fields_ok l (pos s t) (ptab s t)" "sees (pos s t) (slocked (slp s))"
    "drowsy (pos s t) (ptab s t) \<Longrightarrow> slocked (slp s) = 0 \<Longrightarrow> \<exists>u. will_wake (pos s u) t" "pos s t \<noteq> Out \<Longrightarrow> t < NPROC"
  using assms unfolding slp_inv_def by blast+

lemma slp_inv_init: "\<forall>i. pstate (ps i) \<noteq> SLEEPING \<Longrightarrow> slp_inv l (slp_init ps)"
  by (simp add: slp_inv_def slp_init_def)

lemma sees_unlocked: "\<not> in_lk p \<Longrightarrow> sees p v"
  by (cases p) auto

text \<open>A step of process \<open>t\<close> from \<open>p\<close> to \<open>q\<close>.\<close>

lemma slp_move_inv:
  assumes inv: "slp_inv l s" and p: "pos s t = p" "pos s' = (pos s)(t := q)" and t: "t < NPROC"
    and lk: "lk s' = (if in_lk q then Some t else if in_lk p then None else lk s)" "in_lk q \<Longrightarrow> in_lk p \<or> lk s = None"
    and plk: "\<And>i. plk s' i = (if in_plk t q i then Some t else if in_plk t p i then None else plk s i)"
      "\<And>i. in_plk t q i \<Longrightarrow> in_plk t p i \<or> plk s i = None"
    and own: "has_slp q \<Longrightarrow> has_slp p \<or> slocked (slp s) = 0" "slocked (slp s') = 0 \<Longrightarrow> \<not> has_slp q \<and> (has_slp p \<or> slocked (slp s) = 0)"
    and fld: "fields_ok l q (ptab s' t)" "\<And>i. i \<noteq> t \<Longrightarrow> fields_ok l (pos s i) (ptab s' i)"
    and see: "sees q (slocked (slp s'))" "in_lk p \<or> slocked (slp s') = slocked (slp s)"
    and drw: "\<And>i. i \<noteq> t \<Longrightarrow> drowsy (pos s i) (ptab s' i) \<Longrightarrow> drowsy (pos s i) (ptab s i)"
      "drowsy q (ptab s' t) \<Longrightarrow> drowsy p (ptab s t) \<or> slocked (slp s') \<noteq> 0"
    and wake: "(\<forall>i. will_wake q i) \<or> (slocked (slp s') = 0 \<longrightarrow> slocked (slp s) = 0) \<and>
      (\<forall>i. will_wake p i \<longrightarrow> will_wake q i \<or> \<not> drowsy (pos s' i) (ptab s' i))"
  shows "slp_inv l s'"
proof -
  note d = slp_invD [OF inv]
  have "in_lk (pos s' a) \<longleftrightarrow> lk s' = Some a" for a
    using d(1) [of a] d(1) [of t] lk p by (cases "a = t"; cases "in_lk q"; cases "in_lk p") auto
  moreover have "in_plk a (pos s' a) i \<longleftrightarrow> plk s' i = Some a" for a i
    using d(2) [of a i] d(2) [of t i] plk [of i] p by (cases "a = t"; cases "in_plk t q i"; cases "in_plk t p i") auto
  moreover have "has_slp (pos s' a) \<Longrightarrow> has_slp (pos s' b) \<Longrightarrow> a = b" for a b
    using d(3) [of a b] d(3) [of t a] d(3) [of t b] d(4) [of a] d(4) [of b] own(1) p by (cases "a = t"; cases "b = t") auto
  moreover have "\<not> has_slp (pos s' a)" if "slocked (slp s') = 0" for a
    using own(2) [OF that] d(3) [of t a] d(4) [of a] p by (cases "a = t") auto
  moreover have "fields_ok l (pos s' a) (ptab s' a)" for a using fld p by (cases "a = t") auto
  moreover have "sees (pos s' a) (slocked (slp s'))" for a
    using see d(6) [of a] d(1) [of a] d(1) [of t] sees_unlocked [of "pos s a"] p by (cases "a = t") auto
  moreover have "\<exists>u. will_wake (pos s' u) a" if a: "drowsy (pos s' a) (ptab s' a)" "slocked (slp s') = 0" for a
  proof (cases "\<forall>i. will_wake q i")
    case True
    then show ?thesis using p by (intro exI [of _ t]) simp
  next
    case False
    then have w: "slocked (slp s) = 0" "will_wake p a \<longrightarrow> will_wake q a" using wake a by auto
    have "drowsy (pos s a) (ptab s a)" using a drw p by (cases "a = t") auto
    then obtain u where u: "will_wake (pos s u) a" using d(7) w(1) by blast
    then show ?thesis using w(2) p by (intro exI [of _ u]) auto
  qed
  moreover have "pos s' a \<noteq> Out \<Longrightarrow> a < NPROC" for a using d(8) [of a] t p by (cases "a = t") auto
  ultimately show ?thesis unfolding slp_inv_def by blast
qed

text \<open>The facts about the process that takes the step.\<close>

lemma slp_step_facts:
  assumes "slp_inv l s" "pos s t = p"
  shows "in_lk p \<longleftrightarrow> lk s = Some t" "\<And>i. in_plk t p i \<longleftrightarrow> plk s i = Some t" "slocked (slp s) = 0 \<Longrightarrow> \<not> has_slp p" "fields_ok l p (ptab s t)"
    "sees p (slocked (slp s))" "\<And>i. fields_ok l (pos s i) (ptab s i)"
  using slp_invD(1,2,4,5,6) [OF assms(1), of t] slp_invD(5) [OF assms(1)] assms(2) by auto

lemmas slp_step_defs = take_lk_def drop_lk_def take_plk_def drop_plk_def

lemma acquiresleep_inv:
  assumes inv: "slp_inv l s" and pt: "pos s t = p" and t: "t < NPROC"
  shows "slp_inv l (acquiresleep_step t p s)"
proof (cases p)
  case AcqLk
  show ?thesis
  proof (cases "lk s = None")
    case True
    show ?thesis by (rule slp_move_inv [OF inv pt, where q = "AcqTest"]) (use slp_step_facts [OF inv pt] t AcqLk True in \<open>simp_all add: slp_step_defs\<close>)
  qed (use AcqLk inv in \<open>auto simp: slp_step_defs\<close>)
next
  case AcqTest
  show ?thesis
  proof (cases "slocked (slp s) = 0")
    case True
    show ?thesis by (rule slp_move_inv [OF inv pt, where q = "AcqLocked"]) (use slp_step_facts [OF inv pt] t AcqTest True in \<open>simp_all add: slp_step_defs\<close>)
  next
    case False
    show ?thesis by (rule slp_move_inv [OF inv pt, where q = "SlpLock"]) (use slp_step_facts [OF inv pt] t AcqTest False in \<open>simp_all add: slp_step_defs\<close>)
  qed
next
  case AcqLocked
  show ?thesis by (rule slp_move_inv [OF inv pt, where q = "AcqPid"]) (use slp_step_facts [OF inv pt] t AcqLocked in \<open>simp_all add: slp_step_defs\<close>)
next
  case AcqPid
  show ?thesis by (rule slp_move_inv [OF inv pt, where q = "AcqUnlk"]) (use slp_step_facts [OF inv pt] t AcqPid in \<open>simp_all add: slp_step_defs\<close>)
next
  case AcqUnlk
  show ?thesis by (rule slp_move_inv [OF inv pt, where q = "Holds"]) (use slp_step_facts [OF inv pt] t AcqUnlk in \<open>simp_all add: slp_step_defs\<close>)
qed (simp_all add: inv)

lemma releasesleep_inv:
  assumes inv: "slp_inv l s" and pt: "pos s t = p" and t: "t < NPROC"
  shows "slp_inv l (releasesleep_step t p s)"
proof (cases p)
  case RelLk
  show ?thesis
  proof (cases "lk s = None")
    case True
    show ?thesis by (rule slp_move_inv [OF inv pt, where q = "RelLocked"]) (use slp_step_facts [OF inv pt] t RelLk True in \<open>simp_all add: slp_step_defs\<close>)
  qed (use RelLk inv in \<open>auto simp: slp_step_defs\<close>)
next
  case RelLocked
  show ?thesis by (rule slp_move_inv [OF inv pt, where q = "RelPid"]) (use slp_step_facts [OF inv pt] t RelLocked in \<open>simp_all add: slp_step_defs\<close>)
next
  case RelPid
  show ?thesis by (rule slp_move_inv [OF inv pt, where q = "WkNext 0"]) (use slp_step_facts [OF inv pt] t RelPid in \<open>simp_all add: slp_step_defs\<close>)
next
  case RelUnlk
  show ?thesis by (rule slp_move_inv [OF inv pt, where q = "Out"]) (use slp_step_facts [OF inv pt] t RelUnlk in \<open>simp_all add: slp_step_defs\<close>)
qed (simp_all add: inv)

lemma sleep_inv:
  assumes inv: "slp_inv l s" and pt: "pos s t = p" and t: "t < NPROC"
  shows "slp_inv l (sleep_step l t p s)"
proof (cases p)
  case SlpLock
  show ?thesis
  proof (cases "plk s t = None")
    case True
    show ?thesis by (rule slp_move_inv [OF inv pt, where q = "SlpUnlk"]) (use slp_step_facts [OF inv pt] t SlpLock True in \<open>simp_all add: slp_step_defs\<close>)
  qed (use SlpLock inv in \<open>auto simp: slp_step_defs\<close>)
next
  case SlpUnlk
  show ?thesis by (rule slp_move_inv [OF inv pt, where q = "SlpChan"]) (use slp_step_facts [OF inv pt] t SlpUnlk in \<open>simp_all add: slp_step_defs\<close>)
next
  case SlpChan
  show ?thesis by (rule slp_move_inv [OF inv pt, where q = "SlpState"]) (use slp_step_facts [OF inv pt] t SlpChan in \<open>simp_all add: slp_step_defs\<close>)
next
  case SlpState
  show ?thesis by (rule slp_move_inv [OF inv pt, where q = "SlpSched"]) (use slp_step_facts [OF inv pt] t SlpState in \<open>simp_all add: slp_step_defs\<close>)
next
  case SlpSched
  show ?thesis by (rule slp_move_inv [OF inv pt, where q = "SlpOff"]) (use slp_step_facts [OF inv pt] t SlpSched in \<open>simp_all add: slp_step_defs\<close>)
next
  case SlpOff
  show ?thesis
  proof (cases "pstate (ptab s t) = RUNNABLE \<and> plk s t = None")
    case True
    show ?thesis by (rule slp_move_inv [OF inv pt, where q = "SlpTidy"]) (use slp_step_facts [OF inv pt] t SlpOff True in \<open>simp_all add: slp_step_defs\<close>)
  qed (use SlpOff inv in \<open>auto simp: slp_step_defs\<close>)
next
  case SlpTidy
  show ?thesis by (rule slp_move_inv [OF inv pt, where q = "SlpUnlock"]) (use slp_step_facts [OF inv pt] t SlpTidy in \<open>simp_all add: slp_step_defs\<close>)
next
  case SlpUnlock
  show ?thesis by (rule slp_move_inv [OF inv pt, where q = "SlpRelk"]) (use slp_step_facts [OF inv pt] t SlpUnlock in \<open>simp_all add: slp_step_defs\<close>)
next
  case SlpRelk
  show ?thesis
  proof (cases "lk s = None")
    case True
    show ?thesis by (rule slp_move_inv [OF inv pt, where q = "AcqTest"]) (use slp_step_facts [OF inv pt] t SlpRelk True in \<open>simp_all add: slp_step_defs\<close>)
  qed (use SlpRelk inv in \<open>auto simp: slp_step_defs\<close>)
qed (simp_all add: inv)

text \<open>The loop of \<^verbatim>\<open>wakeup\<close>: past a process that is drowsy it only gets by waking it.\<close>

lemma wake_test_inv:
  assumes inv: "slp_inv l s" and pt: "pos s t = WkTest i" and t: "t < NPROC"
  shows "slp_inv l (wakeup_step l t (WkTest i) s)"
proof (rule slp_move_inv [OF inv pt, where q = "WkUnlock i"])
  let ?s = "wakeup_step l t (WkTest i) s"
  have plk: "plk s i = Some t" using slp_step_facts(2) [OF inv pt, of i] by simp
  have free: "\<not> in_plk i (pos s i) i" if "i \<noteq> t" using slp_invD(2) [OF inv, of i i] plk that by simp
  have f: "fields_ok l (pos s i) (ptab s i)" by (rule slp_invD(5) [OF inv])
  have off: "pos s i = SlpOff" if "pstate (ptab s i) = SLEEPING" "i \<noteq> t"
    using free [OF that(2)] f that(1) by (cases "pos s i") simp_all
  have awake: "\<not> drowsy (pos s i) (ptab ?s i)" if "i \<noteq> t"
    using free [OF that] f by (cases "pos s i") auto
  show "fields_ok l (WkUnlock i) (ptab ?s t)" using slp_step_facts(4) [OF inv pt] by auto
  show "fields_ok l (pos s a) (ptab ?s a)" if "a \<noteq> t" for a
    using slp_invD(5) [OF inv, of a] off that by (cases "a = i") auto
  show "drowsy (pos s a) (ptab s a)" if "a \<noteq> t" "drowsy (pos s a) (ptab ?s a)" for a
    using that awake by (cases "a = i") (auto split: if_splits)
  show "(\<forall>i'. will_wake (WkUnlock i) i') \<or> (slocked (slp ?s) = 0 \<longrightarrow> slocked (slp s) = 0) \<and>
      (\<forall>a. will_wake (WkTest i) a \<longrightarrow> will_wake (WkUnlock i) a \<or> \<not> drowsy (pos ?s a) (ptab ?s a))"
    using awake by auto
qed (use slp_step_facts [OF inv pt] t in \<open>auto split: if_splits\<close>)

lemma wakeup_inv:
  assumes inv: "slp_inv l s" and pt: "pos s t = p" and t: "t < NPROC"
  shows "slp_inv l (wakeup_step l t p s)"
proof (cases p)
  case (WkNext i)
  have out: "\<not> drowsy (pos s a) x" if "NPROC \<le> a" for a x using slp_invD(8) [OF inv, of a] that by (cases "pos s a = Out") auto
  consider "NPROC \<le> i" | "i < NPROC" "i = t" | "i < NPROC" "i \<noteq> t" "plk s i = None" | "i < NPROC" "i \<noteq> t" "plk s i \<noteq> None" by fastforce
  then show ?thesis
  proof cases
    case 1
    show ?thesis by (rule slp_move_inv [OF inv pt, where q = RelUnlk]) (use slp_step_facts [OF inv pt] t WkNext 1 out in auto)
  next
    case 2
    show ?thesis by (rule slp_move_inv [OF inv pt, where q = "WkNext (Suc i)"]) (use slp_step_facts [OF inv pt] t WkNext 2 in auto)
  next
    case 3
    show ?thesis by (rule slp_move_inv [OF inv pt, where q = "WkTest i"]) (use slp_step_facts [OF inv pt] t WkNext 3 in \<open>auto simp: slp_step_defs\<close>)
  qed (use WkNext inv in \<open>auto simp: slp_step_defs\<close>)
next
  case (WkTest i)
  then show ?thesis using wake_test_inv [OF inv _ t] pt by simp
next
  case (WkUnlock i)
  show ?thesis by (rule slp_move_inv [OF inv pt, where q = "WkNext (Suc i)"]) (use slp_step_facts [OF inv pt] t WkUnlock in \<open>auto simp: slp_step_defs\<close>)
qed (simp_all add: inv)

lemma enter_inv:
  assumes inv: "slp_inv l s" and pt: "pos s t = p" and t: "t < NPROC" and q: "(p, q) \<in> {(Out, AcqLk), (Holds, RelLk)}"
  shows "slp_inv l (move t q s)"
  by (rule slp_move_inv [OF inv pt, where q = q]) (use slp_step_facts [OF inv pt] t q in auto)

lemma slp_turn_inv: "slp_inv l s \<Longrightarrow> slp_inv l (slp_turn l t s)"
  by (cases "pos s t")
     (simp_all add: slp_turn_def Let_def enter_inv acquiresleep_inv releasesleep_inv sleep_inv wakeup_inv
       del: acquiresleep_step.simps releasesleep_step.simps sleep_step.simps wakeup_step.simps)

lemma slp_run_inv: "slp_inv l s \<Longrightarrow> slp_inv l (slp_run l turns s)"
  unfolding slp_run_def by (induction turns arbitrary: s) (simp_all add: slp_turn_inv)

section \<open>Properties\<close>

text \<open>
  (C13) No wakeup is lost, in any interleaving of the steps of \<^verbatim>\<open>acquiresleep\<close>, \<^verbatim>\<open>sleep\<close>, \<^verbatim>\<open>releasesleep\<close> and \<^verbatim>\<open>wakeup\<close>. At most one
  process owns the sleep lock. When a process is asleep in \<^verbatim>\<open>sleep\<close>, or has given up the inner lock on its way there, although the
  sleep lock is free, then another process is still in the loop of \<^verbatim>\<open>wakeup\<close> or just before it and has not yet passed the process;
  and when that loop comes to a process that is asleep, it makes it runnable.
\<close>

theorem sleep_no_lost_wakeup:
  assumes "\<forall>i. pstate (ps i) \<noteq> SLEEPING"
  shows "(has_slp (pos (slp_run l turns (slp_init ps)) t) \<and> has_slp (pos (slp_run l turns (slp_init ps)) u) \<longrightarrow> t = u) \<and>
    (drowsy (pos (slp_run l turns (slp_init ps)) t) (ptab (slp_run l turns (slp_init ps)) t) \<and> slocked (slp (slp_run l turns (slp_init ps))) = 0 \<longrightarrow>
       (\<exists>w. will_wake (pos (slp_run l turns (slp_init ps)) w) t)) \<and>
    (pos (slp_run l turns (slp_init ps)) t = SlpOff \<and> pstate (ptab (slp_run l turns (slp_init ps)) t) = SLEEPING \<and>
       pos (slp_run l turns (slp_init ps)) u = WkTest t \<longrightarrow>
       pstate (ptab (slp_run l (turns @ [u]) (slp_init ps)) t) = RUNNABLE)"
proof -
  let ?s = "slp_run l turns (slp_init ps)"
  have inv: "slp_inv l ?s" by (rule slp_run_inv [OF slp_inv_init [OF assms]])
  note d = slp_invD [OF inv]
  have "pstate (ptab (slp_turn l u ?s) t) = RUNNABLE" if "pos ?s t = SlpOff" "pstate (ptab ?s t) = SLEEPING" "pos ?s u = WkTest t"
    using that d(5) [of t] d(8) [of u] by (simp add: slp_turn_def)
  moreover have "slp_run l (turns @ [u]) (slp_init ps) = slp_turn l u ?s" by (simp add: slp_run_def)
  ultimately show ?thesis using d(3) [of t u] d(7) [of t] by simp
qed

text \<open>Process 0 takes the lock, process 1 falls asleep on it, and process 0 releases it and comes to process 1.\<close>

definition slp_turns :: "nat list" where
  "slp_turns = replicate 6 0 @ replicate 8 1 @ replicate 6 0"

definition running_procs :: "nat \<Rightarrow> proc" where
  "running_procs i = \<lparr>pstate = RUNNING, pchan = ChNull, pkilled = 0, xstate = 0, pid = int i, tgid = 0, thread_count = 0, parent = None, kstack = 0, psz = 0,
     ppagetable = 0, trapframe = 0, pcontext = \<lparr>ctx_ra = NoCode, ctx_sp = 0\<rparr>, ofile = (\<lambda>_. None), cwd = None,
     vmas = (\<lambda>_. \<lparr>vused = False, vaddr = 0, vlen = 0, vprot = 0, vflags = 0, voff = 0, vfile = None\<rparr>), priority = 0, ticks_used = 0, pname = (\<lambda>_. 0)\<rparr>"

lemma slp_turns_pos:
  "pos (slp_run (BufSlk 0) slp_turns (slp_init running_procs)) 1 = SlpOff"
  "pstate (ptab (slp_run (BufSlk 0) slp_turns (slp_init running_procs)) 1) = SLEEPING"
  "pos (slp_run (BufSlk 0) slp_turns (slp_init running_procs)) 0 = WkTest 1"
  "slocked (slp (slp_run (BufSlk 0) slp_turns (slp_init running_procs))) = 0"
  by code_simp+

theorem sleep_no_lost_wakeup_witness:
  "(\<exists>w. will_wake (pos (slp_run (BufSlk 0) slp_turns (slp_init running_procs)) w) 1) \<and>
   pstate (ptab (slp_run (BufSlk 0) (slp_turns @ [0]) (slp_init running_procs)) 1) = RUNNABLE"
proof -
  have "\<forall>i. pstate (running_procs i) \<noteq> SLEEPING" by (simp add: running_procs_def)
  note th = sleep_no_lost_wakeup [OF this, of "BufSlk 0" slp_turns 1 0]
  have "drowsy (pos (slp_run (BufSlk 0) slp_turns (slp_init running_procs)) 1) (ptab (slp_run (BufSlk 0) slp_turns (slp_init running_procs)) 1)"
    unfolding slp_turns_pos(1) by (simp only: drowsy.simps slp_turns_pos(2))
  then show ?thesis using th slp_turns_pos by blast
qed

end
