(* ===== verification/Grep.thy ===== *)
theory Grep
  imports Kstring
begin

text \<open>
  \<^verbatim>\<open>user/grep.c\<close>: the pattern matcher and the loop that reads a file through a fixed buffer and prints the lines that match.
  A C string is the list of its bytes before the terminating zero.
\<close>

section \<open>The matcher\<close>

abbreviation caret :: u8 where "caret \<equiv> 94"
abbreviation star :: u8 where "star \<equiv> 42"
abbreviation dot :: u8 where "dot \<equiv> 46"
abbreviation dollar :: u8 where "dollar \<equiv> 36"
abbreviation newline :: u8 where "newline \<equiv> 10"

function matchhere :: "u8 list \<Rightarrow> u8 list \<Rightarrow> bool"
  and matchstar :: "u8 \<Rightarrow> u8 list \<Rightarrow> u8 list \<Rightarrow> bool" where
  "matchhere re ts =
     (case re of
        [] \<Rightarrow> True
      | c # re' \<Rightarrow>
          if re' \<noteq> [] \<and> hd re' = star then matchstar c (tl re') ts
          else if c = dollar \<and> re' = [] then ts = []
          else (case ts of [] \<Rightarrow> False | t # ts' \<Rightarrow> if c = dot \<or> c = t then matchhere re' ts' else False))"
| "matchstar c re ts =
     (if matchhere re ts then True
      else (case ts of [] \<Rightarrow> False | t # ts' \<Rightarrow> if t = c \<or> c = dot then matchstar c re ts' else False))"
  by pat_completeness auto
termination
proof (relation "measure (\<lambda>x. case x of Inl (re, ts) \<Rightarrow> 2 * (length re + length ts) | Inr (c, re, ts) \<Rightarrow> 2 * (length re + length ts) + 1)",
    goal_cases)
  case (2 re ts c re')
  then show ?case by (cases re') auto
qed auto

declare matchhere.simps [simp del] matchstar.simps [simp del]

fun match_from :: "u8 list \<Rightarrow> u8 list \<Rightarrow> bool" where
  "match_from re [] = matchhere re []"
| "match_from re (t # ts) = (if matchhere re (t # ts) then True else match_from re ts)"

definition match :: "u8 list \<Rightarrow> u8 list \<Rightarrow> bool" where
  "match re ts = (case re of c # re' \<Rightarrow> if c = caret then matchhere re' ts else match_from re ts | [] \<Rightarrow> match_from re ts)"

section \<open>The language of a pattern\<close>

text \<open>A pattern is a sequence of single characters and starred characters, perhaps with a \<^verbatim>\<open>$\<close> at its end.\<close>

datatype item = One u8 | Many u8

fun parse :: "u8 list \<Rightarrow> item list \<times> bool" where
  "parse [] = ([], False)"
| "parse (c # re) =
     (if re \<noteq> [] \<and> hd re = star then (let (xs, e) = parse (tl re) in (Many c # xs, e))
      else if c = dollar \<and> re = [] then ([], True)
      else (let (xs, e) = parse re in (One c # xs, e)))"

definition fits :: "u8 \<Rightarrow> u8 \<Rightarrow> bool" where
  "fits c t \<longleftrightarrow> c = dot \<or> c = t"

fun lang :: "item list \<Rightarrow> u8 list set" where
  "lang [] = {[]}"
| "lang (One c # xs) = {t # w | t w. fits c t \<and> w \<in> lang xs}"
| "lang (Many c # xs) = {v @ w | v w. list_all (fits c) v \<and> w \<in> lang xs}"

text \<open>A match at the start of the ts: a word of the language, up to the end of the ts if the pattern is anchored there.\<close>

definition matches_here :: "item list \<times> bool \<Rightarrow> u8 list \<Rightarrow> bool" where
  "matches_here p ts \<longleftrightarrow> (\<exists>w rest. ts = w @ rest \<and> w \<in> lang (fst p) \<and> (snd p \<longrightarrow> rest = []))"

lemma matches_hereI: "ts = w @ rest \<Longrightarrow> w \<in> lang xs \<Longrightarrow> (e \<Longrightarrow> rest = []) \<Longrightarrow> matches_here (xs, e) ts"
  by (auto simp: matches_here_def)

lemma matches_hereE:
  assumes "matches_here (xs, e) ts"
  obtains w rest where "ts = w @ rest" "w \<in> lang xs" "e \<longrightarrow> rest = []"
  using assms by (auto simp: matches_here_def)

lemma matches_one: "matches_here (One c # xs, e) ts \<longleftrightarrow> (\<exists>t ts'. ts = t # ts' \<and> fits c t \<and> matches_here (xs, e) ts')"
proof
  assume "matches_here (One c # xs, e) ts"
  then obtain u rest where u: "ts = u @ rest" "u \<in> lang (One c # xs)" "e \<longrightarrow> rest = []" by (rule matches_hereE)
  then obtain t w where "u = t # w" "fits c t" "w \<in> lang xs" by auto
  then show "\<exists>t ts'. ts = t # ts' \<and> fits c t \<and> matches_here (xs, e) ts'" using u by (auto intro: matches_hereI)
next
  assume "\<exists>t ts'. ts = t # ts' \<and> fits c t \<and> matches_here (xs, e) ts'"
  then obtain t w rest where "ts = (t # w) @ rest" "fits c t" "w \<in> lang xs" "e \<longrightarrow> rest = []" by (elim exE conjE matches_hereE) auto
  then show "matches_here (One c # xs, e) ts" by (intro matches_hereI [where w = "t # w" and rest = rest]) auto
qed

lemma manyI: "list_all (fits c) v \<Longrightarrow> w \<in> lang xs \<Longrightarrow> v @ w \<in> lang (Many c # xs)"
  by auto

lemma matches_many:
  "matches_here (Many c # xs, e) ts \<longleftrightarrow> matches_here (xs, e) ts \<or> (\<exists>t ts'. ts = t # ts' \<and> fits c t \<and> matches_here (Many c # xs, e) ts')"
proof
  assume "matches_here (Many c # xs, e) ts"
  then obtain u rest where u: "ts = u @ rest" "u \<in> lang (Many c # xs)" "e \<longrightarrow> rest = []" by (rule matches_hereE)
  then obtain v w where "u = v @ w" "list_all (fits c) v" "w \<in> lang xs" by auto
  then have a: "ts = v @ w @ rest" "list_all (fits c) v" "w \<in> lang xs" "e \<longrightarrow> rest = []" using u by auto
  show "matches_here (xs, e) ts \<or> (\<exists>t ts'. ts = t # ts' \<and> fits c t \<and> matches_here (Many c # xs, e) ts')"
  proof (cases v)
    case Nil
    then show ?thesis using a by (auto simp: matches_here_def)
  next
    case (Cons t v')
    then have "matches_here (Many c # xs, e) (v' @ w @ rest)" using a by (intro matches_hereI [where w = "v' @ w" and rest = rest] manyI) auto
    then show ?thesis using a Cons by auto
  qed
next
  assume "matches_here (xs, e) ts \<or> (\<exists>t ts'. ts = t # ts' \<and> fits c t \<and> matches_here (Many c # xs, e) ts')"
  then show "matches_here (Many c # xs, e) ts"
  proof
    assume "matches_here (xs, e) ts"
    then obtain w rest where "ts = ([] @ w) @ rest" "w \<in> lang xs" "e \<longrightarrow> rest = []" by (elim matches_hereE) auto
    then show ?thesis by (intro matches_hereI [where w = "[] @ w" and rest = rest] manyI) auto
  next
    assume "\<exists>t ts'. ts = t # ts' \<and> fits c t \<and> matches_here (Many c # xs, e) ts'"
    then obtain t u rest where u: "ts = t # u @ rest" "fits c t" "u \<in> lang (Many c # xs)" "e \<longrightarrow> rest = []" by (elim exE conjE matches_hereE) simp
    then obtain v w where "u = v @ w" "list_all (fits c) v" "w \<in> lang xs" by auto
    then have "ts = (t # v) @ w @ rest" "list_all (fits c) (t # v)" "w \<in> lang xs" "e \<longrightarrow> rest = []" using u by auto
    then show ?thesis by (intro matches_hereI [where w = "(t # v) @ w" and rest = rest] manyI) auto
  qed
qed

lemma matchhere_lang:
  "matchhere re ts \<longleftrightarrow> matches_here (parse re) ts"
  "matchstar c re ts \<longleftrightarrow> matches_here (Many c # fst (parse re), snd (parse re)) ts"
proof (induction re ts and c re ts rule: matchhere_matchstar.induct)
  case (1 re ts)
  show ?case
  proof (cases re)
    case Nil
    then show ?thesis by (simp add: matchhere.simps matches_here_def)
  next
    case (Cons c re')
    show ?thesis
    proof (cases "re' \<noteq> [] \<and> hd re' = star")
      case True
      then show ?thesis using 1(1) [OF Cons] Cons by (simp add: matchhere.simps [of "c # re'"] split: prod.split)
    next
      case False
      show ?thesis
      proof (cases "c = dollar \<and> re' = []")
        case True
        then show ?thesis using Cons False by (auto simp: matchhere.simps [of "[dollar]"] matches_here_def)
      next
        case F: False
        have "parse re = (One c # fst (parse re'), snd (parse re'))" using Cons False F by (auto split: prod.split)
        then show ?thesis using Cons False F 1(2) [OF Cons False F]
          by (auto simp: matchhere.simps [of "c # re'"] matches_one fits_def split: list.split)
      qed
    qed
  qed
next
  case (2 c re ts)
  then show ?case
    by (subst matchstar.simps, subst matches_many) (auto simp: fits_def split: list.split)
qed

lemma match_from_iff: "match_from re ts \<longleftrightarrow> (\<exists>pre suf. ts = pre @ suf \<and> matchhere re suf)"
proof (induction ts)
  case (Cons t ts)
  have "(\<exists>pre suf. t # ts = pre @ suf \<and> matchhere re suf) \<longleftrightarrow> matchhere re (t # ts) \<or> (\<exists>pre suf. ts = pre @ suf \<and> matchhere re suf)"
    by (auto simp: Cons_eq_append_conv)
  then show ?case using Cons by simp
qed simp

section \<open>The loop over a file\<close>

text \<open>
  \<^verbatim>\<open>strchr\<close> of \<^verbatim>\<open>user/ulib.c\<close> on the bytes of a string, up to a zero. The inner loop takes complete lines off the buffer,
  printing those that match, and returns the rest; the outer loop refills the buffer. A \<^verbatim>\<open>read\<close> returns at least one and
  at most the requested number of bytes while there is input; how many is up to the file, here a function of what remains.
\<close>

primrec strchr :: "u8 list \<Rightarrow> u8 \<Rightarrow> nat option" where
  "strchr [] c = None"
| "strchr (b # bs) c = (if b = 0 then None else if b = c then Some 0 else map_option Suc (strchr bs c))"

lemma strchr_Some: "strchr p c = Some k \<Longrightarrow> k < length p \<and> p ! k = c \<and> c \<notin> set (take k p) \<and> 0 \<notin> set (take k p)"
  by (induction p arbitrary: k) (auto split: if_splits)

lemma strchr_None: "0 \<notin> set p \<Longrightarrow> strchr p c = None \<longleftrightarrow> c \<notin> set p"
  by (induction p) auto

function grep_lines :: "u8 list \<Rightarrow> u8 list \<Rightarrow> u8 list \<times> u8 list" where
  "grep_lines pat p =
     (case strchr p newline of
        None \<Rightarrow> ([], p)
      | Some k \<Rightarrow>
          let (out, rest) = grep_lines pat (drop (Suc k) p)
          in ((if match pat (take k p) then take (Suc k) p else []) @ out, rest))"
  by pat_completeness auto
termination
  by (relation "measure (\<lambda>(pat, p). length p)") (auto dest!: strchr_Some)

declare grep_lines.simps [simp del]

text \<open>
  The loop around \<^verbatim>\<open>read\<close>. The input is what the reads deliver before the first one that returns 0 or an error, either of which ends
  the loop; \<open>rsz\<close> says how the input is cut into reads.
\<close>

function grep :: "u8 list \<Rightarrow> (nat \<Rightarrow> nat) \<Rightarrow> u8 list \<Rightarrow> u8 list \<Rightarrow> u8 list" where
  "grep pat rsz buf inp =
     (let n = min (1024 - length buf - 1) (min (Suc (rsz (length inp))) (length inp)) in
      if n = 0 then []
      else
        let (out, rest) = grep_lines pat (buf @ take n inp)
        in out @ grep pat rsz rest (drop n inp))"
  by pat_completeness auto
termination
  by (relation "measure (\<lambda>(pat, rsz, buf, inp). length inp)") auto

declare grep.simps [simp del]

text \<open>The complete lines of a file, and the output for some of them.\<close>

primrec full_lines :: "u8 list \<Rightarrow> u8 list \<Rightarrow> u8 list list" where
  "full_lines cur [] = []"
| "full_lines cur (b # bs) = (if b = newline then cur # full_lines [] bs else full_lines (cur @ [b]) bs)"

definition selected :: "u8 list \<Rightarrow> u8 list list \<Rightarrow> u8 list" where
  "selected pat ls = concat (map (\<lambda>l. l @ [newline]) (filter (match pat) ls))"

definition short_lines :: "u8 list \<Rightarrow> bool" where
  "short_lines xs \<longleftrightarrow> (\<forall>pre l suf. xs = pre @ l @ suf \<longrightarrow> newline \<notin> set l \<longrightarrow> length l < 1023)"

lemma full_lines_app: "newline \<notin> set l \<Longrightarrow> full_lines cur (l @ q) = full_lines (cur @ l) q"
  by (induction l arbitrary: cur) auto

lemma full_lines_none: "newline \<notin> set l \<Longrightarrow> full_lines cur l = []"
  using full_lines_app [of l cur "[]"] by simp

lemma grep_lines_spec:
  assumes "0 \<notin> set p"
  shows "\<exists>L. fst (grep_lines pat p) = selected pat L \<and> (\<forall>q. full_lines [] (p @ q) = L @ full_lines [] (snd (grep_lines pat p) @ q)) \<and>
    newline \<notin> set (snd (grep_lines pat p)) \<and> (\<exists>pre. p = pre @ snd (grep_lines pat p))"
  using assms
proof (induction pat p rule: grep_lines.induct)
  case (1 pat p)
  show ?case
  proof (cases "strchr p newline")
    case None
    then show ?thesis using 1(2) strchr_None [OF 1(2), of newline] by (auto simp: grep_lines.simps [of pat p] selected_def intro!: exI [of _ "[]"])
  next
    case (Some k)
    let ?p = "drop (Suc k) p"
    note k = strchr_Some [OF Some]
    have p: "p = take k p @ newline # ?p" using id_take_nth_drop [of k p] k by simp
    have "0 \<notin> set ?p" using 1(2) by (auto dest: in_set_dropD)
    from 1(1) [OF Some this] obtain L pre where L: "fst (grep_lines pat ?p) = selected pat L" "newline \<notin> set (snd (grep_lines pat ?p))"
      "\<forall>q. full_lines [] (?p @ q) = L @ full_lines [] (snd (grep_lines pat ?p) @ q)" "?p = pre @ snd (grep_lines pat ?p)" by blast
    have e: "snd (grep_lines pat p) = snd (grep_lines pat ?p)"
      "fst (grep_lines pat p) = (if match pat (take k p) then take (Suc k) p else []) @ fst (grep_lines pat ?p)"
      by (simp_all add: grep_lines.simps [of pat p] Some split: prod.split)
    have a: "full_lines [] (p @ q) = (take k p # L) @ full_lines [] (snd (grep_lines pat p) @ q)" for q
      using full_lines_app [of "take k p" "[]" "newline # ?p @ q"] L(3) k e by (subst p) simp
    have b: "fst (grep_lines pat p) = selected pat (take k p # L)"
      using e L(1) k by (simp add: selected_def take_Suc_conv_app_nth)
    have c: "p = (take k p @ newline # pre) @ snd (grep_lines pat p)" using p L(4) e(1) by (metis append.assoc append_Cons)
    have d: "newline \<notin> set (snd (grep_lines pat p))" using L(2) e(1) by simp
    show ?thesis by (rule exI [of _ "take k p # L"], intro conjI allI, rule b, rule a, rule d, rule exI, rule c)
  qed
qed

lemma short_suffix: "short_lines (xs @ ys) \<Longrightarrow> short_lines ys"
  unfolding short_lines_def by (metis append.assoc)

lemma grep_selects:
  assumes "0 \<notin> set (buf @ inp)" "short_lines (buf @ inp)" "newline \<notin> set buf"
  shows "grep pat rsz buf inp = selected pat (full_lines [] (buf @ inp))"
  using assms
proof (induction pat rsz buf inp rule: grep.induct)
  case (1 pat rsz buf inp)
  define n where "n = min (1024 - length buf - 1) (min (Suc (rsz (length inp))) (length inp))"
  have b: "length buf < 1023" using 1(3,4) unfolding short_lines_def by (metis append_Nil)
  show ?case
  proof (cases "n = 0")
    case True
    then have "inp = []" using b by (auto simp: n_def min_def split: if_splits)
    then show ?thesis using 1(4) by (simp add: grep.simps [of pat rsz buf] full_lines_none selected_def)
  next
    case False
    let ?p = "buf @ take n inp"
    obtain out rest where g: "grep_lines pat ?p = (out, rest)" by (cases "grep_lines pat ?p")
    have "0 \<notin> set ?p" using 1(2) by (auto dest: in_set_takeD)
    from grep_lines_spec [OF this, of pat, unfolded g fst_conv snd_conv] obtain L pre where L: "out = selected pat L" "\<forall>q. full_lines [] (?p @ q) = L @ full_lines [] (rest @ q)"
      "newline \<notin> set rest" "?p = pre @ rest" by blast
    have whole: "buf @ inp = ?p @ drop n inp" by simp
    also have "\<dots> = pre @ (rest @ drop n inp)" using L(4) by simp
    finally have s: "buf @ inp = pre @ (rest @ drop n inp)" .
    have "grep pat rsz rest (drop n inp) = selected pat (full_lines [] (rest @ drop n inp))"
    proof (rule 1(1) [OF n_def False g [symmetric] refl])
      show "0 \<notin> set (rest @ drop n inp)" using 1(2) unfolding s by simp
      show "short_lines (rest @ drop n inp)" using 1(3) short_suffix unfolding s by blast
    qed (rule L(3))
    then have "grep pat rsz buf inp = selected pat (L @ full_lines [] (rest @ drop n inp))"
      unfolding grep.simps [of pat rsz buf inp] n_def [symmetric] Let_def g using False L(1) by (simp add: selected_def)
    then show ?thesis using L(2) whole by metis
  qed
qed

section \<open>Properties\<close>

text \<open>
  (C23) The matcher decides the language of its pattern: it accepts a text exactly when some stretch of it, at its start if the
  pattern begins with \<^verbatim>\<open>^\<close> and at its end if it ends with \<^verbatim>\<open>$\<close>, is a word of the pattern, where \<^verbatim>\<open>.\<close> stands for any
  character and \<^verbatim>\<open>c*\<close> for any number of characters \<^verbatim>\<open>c\<close>.
\<close>

theorem match_language:
  "match re ts \<longleftrightarrow>
     (if re \<noteq> [] \<and> hd re = caret then matches_here (parse (tl re)) ts
      else \<exists>pre suf. ts = pre @ suf \<and> matches_here (parse re) suf)"
  by (cases re) (simp_all add: match_def match_from_iff matchhere_lang(1))

text \<open>
  (C24) \<^verbatim>\<open>grep\<close> prints the complete lines of its input that match the pattern, in order, each with its newline, however the
  input is cut into reads and although it is read through a buffer of 1024 bytes, provided that the input has no zero bytes
  and that every line leaves room for the terminating zero.
\<close>

theorem grep_filters:
  assumes "0 \<notin> set inp" "short_lines inp"
  shows "grep pat rsz [] inp = selected pat (full_lines [] inp)"
  using grep_selects [of "[]" inp pat rsz] assms by simp

theorem grep_filters_witness:
  "grep [97, star] (\<lambda>_. 2) [] [97, 98, newline, 99, newline, 97] = selected [97, star] [[97, 98], [99]]"
proof -
  have "short_lines [97, 98, newline, 99, newline, 97]" unfolding short_lines_def
  proof (intro allI impI)
    fix pre l suf :: "u8 list"
    assume "[97, 98, newline, 99, newline, 97] = pre @ l @ suf"
    from arg_cong [OF this, of length] show "length l < 1023" by simp
  qed
  then show ?thesis using grep_filters [of "[97, 98, newline, 99, newline, 97]" "[97, star]" "\<lambda>_. 2"] by simp
qed

end
