(* ===== verification/Semaphore.thy ===== *)
theory Semaphore
  imports Prelude
begin

text \<open>
  \<^verbatim>\<open>user/semaphore.c\<close>: counting semaphores for the threads of a process, built from a spin lock on the word \<^verbatim>\<open>lock\<close> and the
  futex system calls on the word \<^verbatim>\<open>value\<close>. Any number of threads run \<^verbatim>\<open>sem_down\<close> and \<^verbatim>\<open>sem_up\<close> in any interleaving; a
  step of a thread is one load, one store or one test-and-set of shared memory, or one step of a futex system call: \<^verbatim>\<open>value++\<close> and
  \<^verbatim>\<open>value--\<close> are a load and a later store. In the kernel the system calls run under \<^verbatim>\<open>futex_lock\<close>, and \<^verbatim>\<open>sleep\<close> releases it and falls
  asleep in one step for every thread that wakes the channel under that lock, as the theory of \<^verbatim>\<open>sleep\<close> and \<^verbatim>\<open>wakeup\<close> shows. The value is
  an integer: an increment beyond the range of \<^verbatim>\<open>int\<close> has no defined result in C, and the counting property assumes and concludes
  that the values stay in range.
\<close>

section \<open>Threads\<close>

text \<open>Where a thread stands; the numbers are the value loaded by \<^verbatim>\<open>value--\<close> or \<^verbatim>\<open>value++\<close>, the local variable
  \<^verbatim>\<open>val\<close> and the second argument of \<^verbatim>\<open>futex_wait\<close>. The two counters, which are not part of the program, count the stores.\<close>

datatype pc =
    Idle
  | DownLock | DownTest | DownLoad | DownStore int | DownUnlock | DownRead | DownGiveUp int
  | WaitEnter int | WaitCheck int | WaitSleep int | Asleep int
  | UpLock | UpLoad | UpStore int | WakeEnter | WakeAll | WakeExit | UpUnlock

record sem_t =
  slock :: nat
  svalue :: int

record sem_sys =
  sem :: sem_t
  futex_lk :: "nat option"
  pcs :: "nat \<Rightarrow> pc"
  ndown :: nat
  nup :: nat

abbreviation goto :: "nat \<Rightarrow> pc \<Rightarrow> sem_sys \<Rightarrow> sem_sys" where
  "goto t p s \<equiv> s\<lparr>pcs := (pcs s)(t := p)\<rparr>"

abbreviation set_lock :: "nat \<Rightarrow> sem_sys \<Rightarrow> sem_sys" where
  "set_lock l s \<equiv> s\<lparr>sem := (sem s)\<lparr>slock := l\<rparr>\<rparr>"

abbreviation set_value :: "int \<Rightarrow> sem_sys \<Rightarrow> sem_sys" where
  "set_value v s \<equiv> s\<lparr>sem := (sem s)\<lparr>svalue := v\<rparr>\<rparr>"

text \<open>\<^verbatim>\<open>futex\<close> with \<^verbatim>\<open>FUTEX_LOCK\<close> and the value 0: one turn of the loop around the test-and-set.\<close>

definition futex_spin :: "nat \<Rightarrow> pc \<Rightarrow> sem_sys \<Rightarrow> sem_sys" where
  "futex_spin t p s = (let old = slock (sem s); s = set_lock 1 s in if old \<noteq> 0 then s else goto t p s)"

definition futex_unlock :: "nat \<Rightarrow> pc \<Rightarrow> sem_sys \<Rightarrow> sem_sys" where
  "futex_unlock t p s = goto t p (set_lock 0 s)"

text \<open>Taking the kernel's lock: a turn of its spin loop.\<close>

definition enter_kernel :: "nat \<Rightarrow> pc \<Rightarrow> sem_sys \<Rightarrow> sem_sys" where
  "enter_kernel t p s = (if futex_lk s = None then goto t p (s\<lparr>futex_lk := Some t\<rparr>) else s)"

definition wake_pc :: "pc \<Rightarrow> pc" where
  "wake_pc p = (case p of Asleep v \<Rightarrow> WaitEnter v | _ \<Rightarrow> p)"

definition sem_init :: "int \<Rightarrow> sem_sys" where
  "sem_init val = \<lparr>sem = \<lparr>slock = 0, svalue = val\<rparr>, futex_lk = None, pcs = (\<lambda>_. Idle), ndown = 0, nup = 0\<rparr>"

fun sem_down :: "nat \<Rightarrow> pc \<Rightarrow> sem_sys \<Rightarrow> sem_sys" where
  "sem_down t DownLock s = futex_spin t DownTest s"
| "sem_down t DownTest s =
     (if svalue (sem s) > 0 then goto t DownLoad s else goto t DownRead s)"
| "sem_down t DownLoad s = goto t (DownStore (svalue (sem s))) s"
| "sem_down t (DownStore x) s = goto t DownUnlock ((set_value (x - 1) s)\<lparr>ndown := ndown s + 1\<rparr>)"
| "sem_down t DownUnlock s = futex_unlock t Idle s"
| "sem_down t DownRead s = goto t (DownGiveUp (svalue (sem s))) s"
| "sem_down t (DownGiveUp val) s = futex_unlock t (WaitEnter val) s"
| "sem_down t p s = s"

text \<open>
  The system call \<^verbatim>\<open>futex_wait\<close>; the flag says whether its \<^verbatim>\<open>copyin\<close> succeeds. Whatever it returns, \<^verbatim>\<open>sem_down\<close> goes back to its lock.
\<close>

fun futex_wait :: "nat \<Rightarrow> bool \<Rightarrow> pc \<Rightarrow> sem_sys \<Rightarrow> sem_sys" where
  "futex_wait t ok (WaitEnter val) s = enter_kernel t (WaitCheck val) s"
| "futex_wait t ok (WaitCheck val) s =
     (if \<not> ok then goto t DownLock (s\<lparr>futex_lk := None\<rparr>)
      else if svalue (sem s) \<noteq> val then goto t DownLock (s\<lparr>futex_lk := None\<rparr>) else goto t (WaitSleep val) s)"
| "futex_wait t ok (WaitSleep val) s = goto t (Asleep val) (s\<lparr>futex_lk := None\<rparr>)"
| "futex_wait t ok p s = s"

fun futex_wake :: "nat \<Rightarrow> pc \<Rightarrow> sem_sys \<Rightarrow> sem_sys" where
  "futex_wake t WakeEnter s = enter_kernel t WakeAll s"
| "futex_wake t WakeAll s = goto t WakeExit (s\<lparr>pcs := wake_pc \<circ> pcs s\<rparr>)"
| "futex_wake t WakeExit s = goto t UpUnlock (s\<lparr>futex_lk := None\<rparr>)"
| "futex_wake t p s = s"

fun sem_up :: "nat \<Rightarrow> pc \<Rightarrow> sem_sys \<Rightarrow> sem_sys" where
  "sem_up t UpLock s = futex_spin t UpLoad s"
| "sem_up t UpLoad s = goto t (UpStore (svalue (sem s))) s"
| "sem_up t (UpStore x) s = goto t WakeEnter ((set_value (x + 1) s)\<lparr>nup := nup s + 1\<rparr>)"
| "sem_up t UpUnlock s = futex_unlock t Idle s"
| "sem_up t p s = s"

text \<open>
  A turn of a thread; an idle thread calls \<^verbatim>\<open>sem_down\<close> or \<^verbatim>\<open>sem_up\<close>. A schedule lists the turns, each with a flag for the choice
  that is made there, the call or the success of \<^verbatim>\<open>copyin\<close>.
\<close>

definition turn_of :: "nat \<times> bool \<Rightarrow> sem_sys \<Rightarrow> sem_sys" where
  "turn_of x s =
     (let t = fst x; p = pcs s t in
      case p of
        Idle \<Rightarrow> goto t (if snd x then DownLock else UpLock) s
      | DownLock \<Rightarrow> sem_down t p s | DownTest \<Rightarrow> sem_down t p s | DownLoad \<Rightarrow> sem_down t p s | DownStore _ \<Rightarrow> sem_down t p s
      | DownUnlock \<Rightarrow> sem_down t p s | DownRead \<Rightarrow> sem_down t p s | DownGiveUp _ \<Rightarrow> sem_down t p s
      | WaitEnter _ \<Rightarrow> futex_wait t (snd x) p s | WaitCheck _ \<Rightarrow> futex_wait t (snd x) p s | WaitSleep _ \<Rightarrow> futex_wait t (snd x) p s
      | Asleep _ \<Rightarrow> s
      | WakeEnter \<Rightarrow> futex_wake t p s | WakeAll \<Rightarrow> futex_wake t p s | WakeExit \<Rightarrow> futex_wake t p s
      | _ \<Rightarrow> sem_up t p s)"

definition sem_run :: "(nat \<times> bool) list \<Rightarrow> sem_sys \<Rightarrow> sem_sys" where
  "sem_run sched s = fold turn_of sched s"

section \<open>The invariant\<close>

definition in_lock :: "pc \<Rightarrow> bool" where
  "in_lock p = (case p of DownTest \<Rightarrow> True | DownLoad \<Rightarrow> True | DownStore _ \<Rightarrow> True | DownUnlock \<Rightarrow> True | DownRead \<Rightarrow> True | DownGiveUp _ \<Rightarrow> True
     | UpLoad \<Rightarrow> True | UpStore _ \<Rightarrow> True | WakeEnter \<Rightarrow> True | WakeAll \<Rightarrow> True | WakeExit \<Rightarrow> True | UpUnlock \<Rightarrow> True | _ \<Rightarrow> False)"

definition in_kernel :: "pc \<Rightarrow> bool" where
  "in_kernel p = (case p of WaitCheck _ \<Rightarrow> True | WaitSleep _ \<Rightarrow> True | WakeAll \<Rightarrow> True | WakeExit \<Rightarrow> True | _ \<Rightarrow> False)"

definition sleepy :: "pc \<Rightarrow> bool" where
  "sleepy p = (case p of WaitSleep _ \<Rightarrow> True | Asleep _ \<Rightarrow> True | _ \<Rightarrow> False)"

definition wakes :: "pc \<Rightarrow> bool" where
  "wakes p \<longleftrightarrow> p = WakeEnter \<or> p = WakeAll"

text \<open>The number a thread waits on is the value it saw, which was zero.\<close>

definition waits_on :: "pc \<Rightarrow> int option" where
  "waits_on p = (case p of DownGiveUp v \<Rightarrow> Some v | WaitEnter v \<Rightarrow> Some v | WaitCheck v \<Rightarrow> Some v | WaitSleep v \<Rightarrow> Some v | Asleep v \<Rightarrow> Some v | _ \<Rightarrow> None)"

text \<open>What a thread between two accesses to the value knows of it.\<close>

definition knows :: "pc \<Rightarrow> int \<Rightarrow> bool" where
  "knows p v = (case p of DownLoad \<Rightarrow> 0 < v | DownStore x \<Rightarrow> x = v \<and> 0 < v | DownRead \<Rightarrow> v \<le> 0 | UpStore x \<Rightarrow> x = v | _ \<Rightarrow> True)"

definition sem_inv :: "int \<Rightarrow> sem_sys \<Rightarrow> bool" where
  "sem_inv v0 s \<longleftrightarrow>
     (\<forall>t u. in_lock (pcs s t) \<longrightarrow> in_lock (pcs s u) \<longrightarrow> t = u) \<and> (slock (sem s) = 0 \<longrightarrow> (\<forall>t. \<not> in_lock (pcs s t))) \<and>
     (\<forall>t. in_kernel (pcs s t) \<longleftrightarrow> futex_lk s = Some t) \<and>
     svalue (sem s) = v0 + int (nup s) - int (ndown s) \<and> 0 \<le> svalue (sem s) \<and>
     (\<forall>t v. waits_on (pcs s t) = Some v \<longrightarrow> v = 0) \<and>
     ((\<exists>t. sleepy (pcs s t)) \<longrightarrow> 0 < svalue (sem s) \<longrightarrow> (\<exists>u. wakes (pcs s u))) \<and>
     (\<forall>t. knows (pcs s t) (svalue (sem s)))"

lemmas pc_preds = in_lock_def in_kernel_def sleepy_def wakes_def waits_on_def knows_def wake_pc_def

lemma wake_preds: "in_lock (wake_pc p) = in_lock p" "in_kernel (wake_pc p) = in_kernel p" "waits_on (wake_pc p) = waits_on p"
  "sleepy (wake_pc p) \<Longrightarrow> in_kernel p" "wakes (wake_pc p) = wakes p" "knows (wake_pc p) v = knows p v"
  by (auto simp: pc_preds split: pc.splits)

lemma knows_unlocked: "\<not> in_lock p \<Longrightarrow> knows p v"
  by (auto simp: pc_preds split: pc.splits)

lemma sem_inv_init: "0 \<le> v0 \<Longrightarrow> sem_inv v0 (sem_init v0)"
  by (simp add: sem_inv_def sem_init_def pc_preds)

lemma sem_invD:
  assumes "sem_inv v0 s"
  shows "in_lock (pcs s t) \<Longrightarrow> in_lock (pcs s u) \<Longrightarrow> t = u" "slock (sem s) = 0 \<Longrightarrow> \<not> in_lock (pcs s t)"
    "in_kernel (pcs s t) \<longleftrightarrow> futex_lk s = Some t" "svalue (sem s) = v0 + int (nup s) - int (ndown s)" "0 \<le> svalue (sem s)"
    "waits_on (pcs s t) = Some v \<Longrightarrow> v = 0" "sleepy (pcs s t) \<Longrightarrow> 0 < svalue (sem s) \<Longrightarrow> \<exists>u. wakes (pcs s u)"
    "knows (pcs s t) (svalue (sem s))"
  using assms unfolding sem_inv_def by blast+

lemma in_lock_eval [simp]:
  "\<not> in_lock Idle" "\<not> in_lock DownLock" "in_lock DownTest" "in_lock DownLoad" "in_lock (DownStore v)"
  "in_lock DownUnlock" "in_lock DownRead" "in_lock (DownGiveUp v)" "\<not> in_lock (WaitEnter v)" "\<not> in_lock (WaitCheck v)"
  "\<not> in_lock (WaitSleep v)" "\<not> in_lock (Asleep v)" "\<not> in_lock UpLock" "in_lock UpLoad" "in_lock (UpStore v)"
  "in_lock WakeEnter" "in_lock WakeAll" "in_lock WakeExit" "in_lock UpUnlock"
  by (simp_all add: in_lock_def)

lemma in_kernel_eval [simp]:
  "\<not> in_kernel Idle" "\<not> in_kernel DownLock" "\<not> in_kernel DownTest" "\<not> in_kernel DownLoad" "\<not> in_kernel (DownStore v)"
  "\<not> in_kernel DownUnlock" "\<not> in_kernel DownRead" "\<not> in_kernel (DownGiveUp v)" "\<not> in_kernel (WaitEnter v)" "in_kernel (WaitCheck v)"
  "in_kernel (WaitSleep v)" "\<not> in_kernel (Asleep v)" "\<not> in_kernel UpLock" "\<not> in_kernel UpLoad" "\<not> in_kernel (UpStore v)"
  "\<not> in_kernel WakeEnter" "in_kernel WakeAll" "in_kernel WakeExit" "\<not> in_kernel UpUnlock"
  by (simp_all add: in_kernel_def)

lemma sleepy_eval [simp]:
  "\<not> sleepy Idle" "\<not> sleepy DownLock" "\<not> sleepy DownTest" "\<not> sleepy DownLoad" "\<not> sleepy (DownStore v)"
  "\<not> sleepy DownUnlock" "\<not> sleepy DownRead" "\<not> sleepy (DownGiveUp v)" "\<not> sleepy (WaitEnter v)" "\<not> sleepy (WaitCheck v)"
  "sleepy (WaitSleep v)" "sleepy (Asleep v)" "\<not> sleepy UpLock" "\<not> sleepy UpLoad" "\<not> sleepy (UpStore v)"
  "\<not> sleepy WakeEnter" "\<not> sleepy WakeAll" "\<not> sleepy WakeExit" "\<not> sleepy UpUnlock"
  by (simp_all add: sleepy_def)

lemma wakes_eval [simp]:
  "\<not> wakes Idle" "\<not> wakes DownLock" "\<not> wakes DownTest" "\<not> wakes DownLoad" "\<not> wakes (DownStore v)"
  "\<not> wakes DownUnlock" "\<not> wakes DownRead" "\<not> wakes (DownGiveUp v)" "\<not> wakes (WaitEnter v)" "\<not> wakes (WaitCheck v)"
  "\<not> wakes (WaitSleep v)" "\<not> wakes (Asleep v)" "\<not> wakes UpLock" "\<not> wakes UpLoad" "\<not> wakes (UpStore v)"
  "wakes WakeEnter" "wakes WakeAll" "\<not> wakes WakeExit" "\<not> wakes UpUnlock"
  by (simp_all add: wakes_def)

lemma waits_on_eval [simp]:
  "waits_on Idle = None" "waits_on DownLock = None" "waits_on DownTest = None" "waits_on DownLoad = None" "waits_on (DownStore v) = None"
  "waits_on DownUnlock = None" "waits_on DownRead = None" "waits_on (DownGiveUp v) = Some v" "waits_on (WaitEnter v) = Some v" "waits_on (WaitCheck v) = Some v"
  "waits_on (WaitSleep v) = Some v" "waits_on (Asleep v) = Some v" "waits_on UpLock = None" "waits_on UpLoad = None" "waits_on (UpStore v) = None"
  "waits_on WakeEnter = None" "waits_on WakeAll = None" "waits_on WakeExit = None" "waits_on UpUnlock = None"
  by (simp_all add: waits_on_def)

lemma knows_eval [simp]:
  "knows Idle w" "knows DownLock w" "knows DownTest w" "knows DownLoad w = (0 < w)" "knows (DownStore v) w = (v = w \<and> 0 < w)"
  "knows DownUnlock w" "knows DownRead w = (w \<le> 0)" "knows (DownGiveUp v) w" "knows (WaitEnter v) w" "knows (WaitCheck v) w"
  "knows (WaitSleep v) w" "knows (Asleep v) w" "knows UpLock w" "knows UpLoad w" "knows (UpStore v) w = (v = w)"
  "knows WakeEnter w" "knows WakeAll w" "knows WakeExit w" "knows UpUnlock w"
  by (simp_all add: knows_def)

text \<open>A step that moves one thread from \<open>p\<close> to \<open>q\<close>.\<close>

lemma move_inv:
  assumes inv: "sem_inv v0 s" and p: "pcs s' = (pcs s)(t := q)" "pcs s t = p"
    and lock: "in_lock q \<Longrightarrow> in_lock p \<or> slock (sem s) = 0" "slock (sem s') = 0 \<Longrightarrow> \<not> in_lock q \<and> (in_lock p \<or> slock (sem s) = 0)"
    and kern: "futex_lk s' = (if in_kernel q then Some t else if in_kernel p then None else futex_lk s)" "in_kernel q \<Longrightarrow> in_kernel p \<or> futex_lk s = None"
    and val: "svalue (sem s') = v0 + int (nup s') - int (ndown s')" "0 \<le> svalue (sem s')" "\<And>v. waits_on q = Some v \<Longrightarrow> v = 0"
    and wake: "wakes q \<or> (\<forall>a. \<not> sleepy (pcs s a)) \<and> \<not> sleepy q \<or> \<not> wakes p \<and> svalue (sem s') \<le> svalue (sem s) \<and> (sleepy q \<longrightarrow> sleepy p \<or> svalue (sem s') = 0)"
    and know: "knows q (svalue (sem s'))" "in_lock p \<or> svalue (sem s') = svalue (sem s)"
  shows "sem_inv v0 s'"
proof -
  note d = sem_invD [OF inv]
  have "in_lock (pcs s' a) \<Longrightarrow> in_lock (pcs s' b) \<Longrightarrow> a = b" for a b
    using d(1) [of a b] d(1) [of t a] d(1) [of t b] d(2) [of a] d(2) [of b] lock(1) p by (cases "a = t"; cases "b = t") auto
  moreover have "\<not> in_lock (pcs s' a)" if "slock (sem s') = 0" for a
    using lock(2) [OF that] d(1) [of t a] d(2) [of a] p by (cases "a = t") auto
  moreover have "in_kernel (pcs s' a) \<longleftrightarrow> futex_lk s' = Some a" for a
    using d(3) [of a] d(3) [of t] kern p by (cases "a = t"; cases "in_kernel q"; cases "in_kernel p") auto
  moreover have "x = 0" if "waits_on (pcs s' a) = Some x" for a x
    using that d(6) [of a x] val(3) [of x] p by (cases "a = t") auto
  moreover have "\<exists>u. wakes (pcs s' u)" if s: "sleepy (pcs s' a)" "0 < svalue (sem s')" for a
  proof (cases "wakes q")
    case True
    then show ?thesis using p by (intro exI [of _ t]) simp
  next
    case False
    have "sleepy (pcs s a) \<or> sleepy q" using s p by (auto split: if_splits)
    then have w: "\<not> wakes p" "0 < svalue (sem s)" using wake s False by auto
    have "sleepy (pcs s a)" using wake False s p w by (cases "a = t") auto
    then obtain u where "wakes (pcs s u)" using d(7) w(2) by blast
    then show ?thesis using w(1) p by (intro exI [of _ u]) auto
  qed
  moreover have "knows (pcs s' a) (svalue (sem s'))" for a
    using know d(8) [of a] d(1) [of t a] knows_unlocked [of "pcs s a"] p by (cases "a = t") auto
  ultimately show ?thesis using val(1,2) unfolding sem_inv_def by blast
qed

lemma wake_all_inv:
  assumes inv: "sem_inv v0 s" and p: "pcs s t = WakeAll"
  shows "sem_inv v0 (futex_wake t WakeAll s)"
proof -
  note d = sem_invD [OF inv]
  let ?s = "s\<lparr>pcs := wake_pc \<circ> pcs s\<rparr>"
  have k: "in_kernel (pcs s a) \<longleftrightarrow> a = t" for a using d(3) [of a] d(3) [of t] p by (auto simp: in_kernel_def)
  have ns: "\<not> sleepy (pcs ?s a)" for a using k [of a] wake_preds(4) [of "pcs s a"] p by (cases "a = t") (auto simp: sleepy_def wake_pc_def)
  have w: "sem_inv v0 ?s" using inv ns unfolding sem_inv_def by (auto simp: wake_preds)
  have "pcs ?s t = WakeAll" using p by (simp add: wake_pc_def)
  then have "sem_inv v0 (goto t WakeExit ?s)"
    by (rule move_inv [OF w, where q = WakeExit and t = t, rotated]) (use d(4,5) ns d(3) [of t] p d(2) [of t] in simp_all)
  then show ?thesis by simp
qed

lemma step_facts:
  assumes "sem_inv v0 s" "pcs s t = p"
  shows "slock (sem s) = 0 \<Longrightarrow> \<not> in_lock p" "in_kernel p \<longleftrightarrow> futex_lk s = Some t" "svalue (sem s) = v0 + int (nup s) - int (ndown s)"
    "0 \<le> svalue (sem s)" "waits_on p = Some w \<Longrightarrow> w = 0" "knows p (svalue (sem s))"
  using sem_invD(2,3,8) [OF assms(1), of t] sem_invD(4,5) [OF assms(1)] sem_invD(6) [OF assms(1), of t w] assms(2) by auto

lemmas step_defs = futex_spin_def futex_unlock_def enter_kernel_def Let_def fun_upd_idem

lemma sem_down_inv:
  assumes inv: "sem_inv v0 s" and pt: "pcs s t = p"
  shows "sem_inv v0 (sem_down t p s)"
proof (cases p)
  case DownLock
  show ?thesis
  proof (cases "slock (sem s) = 0")
    case True
    show ?thesis by (rule move_inv [OF inv _ pt, where q = "DownTest"]) (use step_facts [OF inv pt] pt DownLock True in \<open>simp_all add: step_defs del: not_None_eq\<close>)
  next
    case False
    show ?thesis by (rule move_inv [OF inv _ pt, where q = "DownLock"]) (use step_facts [OF inv pt] pt DownLock False in \<open>simp_all add: step_defs del: not_None_eq\<close>)
  qed
next
  case DownTest
  show ?thesis
  proof (cases "svalue (sem s) > 0")
    case True
    show ?thesis by (rule move_inv [OF inv _ pt, where q = "DownLoad"]) (use step_facts [OF inv pt] pt DownTest True in \<open>simp_all add: step_defs del: not_None_eq\<close>)
  next
    case False
    show ?thesis by (rule move_inv [OF inv _ pt, where q = "DownRead"]) (use step_facts [OF inv pt] pt DownTest False in \<open>simp_all add: step_defs del: not_None_eq\<close>)
  qed
next
  case DownLoad
  show ?thesis by (rule move_inv [OF inv _ pt, where q = "DownStore (svalue (sem s))"]) (use step_facts [OF inv pt] pt DownLoad in \<open>simp_all add: step_defs del: not_None_eq\<close>)
next
  case (DownStore v)
  show ?thesis by (rule move_inv [OF inv _ pt, where q = "DownUnlock"]) (use step_facts [OF inv pt] pt DownStore in \<open>simp_all add: step_defs del: not_None_eq\<close>)
next
  case DownUnlock
  show ?thesis by (rule move_inv [OF inv _ pt, where q = "Idle"]) (use step_facts [OF inv pt] pt DownUnlock in \<open>simp_all add: step_defs del: not_None_eq\<close>)
next
  case DownRead
  show ?thesis by (rule move_inv [OF inv _ pt, where q = "DownGiveUp (svalue (sem s))"]) (use step_facts [OF inv pt] pt DownRead in \<open>simp_all add: step_defs del: not_None_eq\<close>)
next
  case (DownGiveUp v)
  show ?thesis by (rule move_inv [OF inv _ pt, where q = "WaitEnter v"]) (use step_facts [OF inv pt] pt DownGiveUp in \<open>simp_all add: step_defs del: not_None_eq\<close>)
qed (simp_all add: inv)

lemma futex_wait_inv:
  assumes inv: "sem_inv v0 s" and pt: "pcs s t = p"
  shows "sem_inv v0 (futex_wait t ok p s)"
proof (cases p)
  case (WaitEnter v)
  show ?thesis
  proof (cases "futex_lk s = None")
    case True
    show ?thesis by (rule move_inv [OF inv _ pt, where q = "WaitCheck v"]) (use step_facts [OF inv pt] pt WaitEnter True in \<open>simp_all add: step_defs del: not_None_eq\<close>)
  next
    case False
    show ?thesis by (rule move_inv [OF inv _ pt, where q = "WaitEnter v"]) (use step_facts [OF inv pt] pt WaitEnter False in \<open>simp_all add: step_defs del: not_None_eq\<close>)
  qed
next
  case (WaitCheck v)
  show ?thesis
  proof (cases "ok \<and> svalue (sem s) = v")
    case True
    show ?thesis by (rule move_inv [OF inv _ pt, where q = "WaitSleep v"]) (use step_facts [OF inv pt] pt WaitCheck True in \<open>simp_all add: step_defs del: not_None_eq\<close>)
  next
    case False
    show ?thesis by (rule move_inv [OF inv _ pt, where q = "DownLock"]) (use step_facts [OF inv pt] pt WaitCheck False in \<open>simp_all split: if_splits\<close>)
  qed
next
  case (WaitSleep v)
  show ?thesis by (rule move_inv [OF inv _ pt, where q = "Asleep v"]) (use step_facts [OF inv pt] pt WaitSleep in \<open>simp_all add: step_defs del: not_None_eq\<close>)
qed (simp_all add: inv)

lemma futex_wake_inv:
  assumes inv: "sem_inv v0 s" and pt: "pcs s t = p"
  shows "sem_inv v0 (futex_wake t p s)"
proof (cases p)
  case WakeEnter
  show ?thesis
  proof (cases "futex_lk s = None")
    case True
    show ?thesis by (rule move_inv [OF inv _ pt, where q = "WakeAll"]) (use step_facts [OF inv pt] pt WakeEnter True in \<open>simp_all add: step_defs del: not_None_eq\<close>)
  next
    case False
    show ?thesis by (rule move_inv [OF inv _ pt, where q = "WakeEnter"]) (use step_facts [OF inv pt] pt WakeEnter False in \<open>simp_all add: step_defs del: not_None_eq\<close>)
  qed
next
  case WakeAll
  then show ?thesis using wake_all_inv [OF inv] pt by simp
next
  case WakeExit
  show ?thesis by (rule move_inv [OF inv _ pt, where q = "UpUnlock"]) (use step_facts [OF inv pt] pt WakeExit in \<open>simp_all add: step_defs del: not_None_eq\<close>)
qed (simp_all add: inv)

lemma sem_up_inv:
  assumes inv: "sem_inv v0 s" and pt: "pcs s t = p"
  shows "sem_inv v0 (sem_up t p s)"
proof (cases p)
  case UpLock
  show ?thesis
  proof (cases "slock (sem s) = 0")
    case True
    show ?thesis by (rule move_inv [OF inv _ pt, where q = "UpLoad"]) (use step_facts [OF inv pt] pt UpLock True in \<open>simp_all add: step_defs del: not_None_eq\<close>)
  next
    case False
    show ?thesis by (rule move_inv [OF inv _ pt, where q = "UpLock"]) (use step_facts [OF inv pt] pt UpLock False in \<open>simp_all add: step_defs del: not_None_eq\<close>)
  qed
next
  case UpLoad
  show ?thesis by (rule move_inv [OF inv _ pt, where q = "UpStore (svalue (sem s))"]) (use step_facts [OF inv pt] pt UpLoad in \<open>simp_all add: step_defs del: not_None_eq\<close>)
next
  case (UpStore v)
  show ?thesis by (rule move_inv [OF inv _ pt, where q = "WakeEnter"]) (use step_facts [OF inv pt] pt UpStore in \<open>simp_all add: step_defs del: not_None_eq\<close>)
next
  case UpUnlock
  show ?thesis by (rule move_inv [OF inv _ pt, where q = "Idle"]) (use step_facts [OF inv pt] pt UpUnlock in \<open>simp_all add: step_defs del: not_None_eq\<close>)
qed (simp_all add: inv)

lemma call_inv:
  assumes inv: "sem_inv v0 s" and pt: "pcs s t = Idle" and q: "q = DownLock \<or> q = UpLock"
  shows "sem_inv v0 (goto t q s)"
  by (rule move_inv [OF inv _ pt, where q = q]) (use step_facts [OF inv pt] q in auto)

lemma turn_inv: "sem_inv v0 s \<Longrightarrow> sem_inv v0 (turn_of x s)"
  by (cases "pcs s (fst x)")
     (simp_all add: turn_of_def Let_def call_inv sem_down_inv futex_wait_inv futex_wake_inv sem_up_inv del: sem_down.simps futex_wait.simps futex_wake.simps sem_up.simps)

lemma run_inv: "sem_inv v0 s \<Longrightarrow> sem_inv v0 (sem_run sched s)"
  unfolding sem_run_def by (induction sched arbitrary: s) (simp_all add: turn_inv)

section \<open>Properties\<close>

text \<open>
  (C22) The semaphore counts. Whatever the interleaving of the loads and stores, and as long as the initial value and the increments
  together stay below the bound of \<^verbatim>\<open>int\<close>, no increment or decrement is lost: the value is the initial value plus the stores of
  \<^verbatim>\<open>value++\<close> minus those of \<^verbatim>\<open>value--\<close>. It is never negative and in the range of \<^verbatim>\<open>int\<close>, and at most one thread at a time is between
  taking and releasing the lock of the semaphore.
\<close>

theorem semaphore_counts:
  assumes "0 \<le> v0" "v0 + int (nup (sem_run sched (sem_init v0))) < 2 ^ 31"
  shows "svalue (sem (sem_run sched (sem_init v0))) = v0 + int (nup (sem_run sched (sem_init v0))) - int (ndown (sem_run sched (sem_init v0))) \<and>
    0 \<le> svalue (sem (sem_run sched (sem_init v0))) \<and> svalue (sem (sem_run sched (sem_init v0))) < 2 ^ 31 \<and>
    (in_lock (pcs (sem_run sched (sem_init v0)) t) \<and> in_lock (pcs (sem_run sched (sem_init v0)) u) \<longrightarrow> t = u)"
proof -
  note d = sem_invD [OF run_inv [OF sem_inv_init [OF assms(1)], of sched]]
  have "svalue (sem (sem_run sched (sem_init v0))) < 2 ^ 31" using d(4) assms(2) by linarith
  then show ?thesis using d(1,4,5) by blast
qed

definition two_threads :: "(nat \<times> bool) list" where
  "two_threads = [(0, True), (0, True), (1, False), (0, True), (1, False), (0, True), (1, False), (0, True), (0, True),
     (1, False), (1, False), (0, True), (1, False)]"

theorem semaphore_counts_witness:
  "svalue (sem (sem_run two_threads (sem_init 1))) = 1 \<and> nup (sem_run two_threads (sem_init 1)) = 1 \<and> ndown (sem_run two_threads (sem_init 1)) = 1"
proof -
  have "nup (sem_run two_threads (sem_init 1)) = 1" "ndown (sem_run two_threads (sem_init 1)) = 1" by code_simp+
  then show ?thesis using semaphore_counts [of 1 two_threads 0 1] by simp
qed

text \<open>
  (C4) No wake-up is lost. Whenever a thread sleeps in \<^verbatim>\<open>futex_wait\<close> although the value is positive, some thread is on its way
  through \<^verbatim>\<open>futex_wake\<close> and has yet to wake the sleepers; so when every other thread is idle, a thread sleeps only on a
  semaphore whose value is zero.
\<close>

theorem no_lost_wakeup:
  assumes "0 \<le> v0" "pcs (sem_run sched (sem_init v0)) t = Asleep v"
  shows "svalue (sem (sem_run sched (sem_init v0))) = 0 \<or> (\<exists>u. wakes (pcs (sem_run sched (sem_init v0)) u))"
proof -
  note d = sem_invD [OF run_inv [OF sem_inv_init [OF assms(1)], of sched]]
  have "sleepy (pcs (sem_run sched (sem_init v0)) t)" using assms(2) by simp
  then show ?thesis using d(5) d(7) by fastforce
qed

definition sleeper :: "(nat \<times> bool) list" where
  "sleeper = replicate 8 (0, True) @ replicate 4 (1, False)"

theorem no_lost_wakeup_witness:
  "svalue (sem (sem_run sleeper (sem_init 0))) = 1 \<and> pcs (sem_run sleeper (sem_init 0)) 0 = Asleep 0 \<and>
   (\<exists>u. wakes (pcs (sem_run sleeper (sem_init 0)) u))"
proof -
  have s: "pcs (sem_run sleeper (sem_init 0)) 0 = Asleep 0" "svalue (sem (sem_run sleeper (sem_init 0))) = 1" by code_simp+
  then show ?thesis using no_lost_wakeup [OF _ s(1)] by simp
qed

end
