(* ===== verification/Spec2Isabelle.thy ===== *)
theory Spec2Isabelle
  imports Vmprops Schedprops Clockprops Consprops Pipeprops Fsprops Fulllog Vmaprops Sleepwake Grep Semaphore
begin

text \<open>
  A verification library for xv6 on RISC-V with copy-on-write fork, lazy allocation, memory-mapped files, a multi-level
  feedback queue, threads and futexes. It models all C code of the kernel (\<^verbatim>\<open>kernel/\<close>), function by function and with the
  source's names, and two user-level components, the pattern search and the semaphores (\<^verbatim>\<open>user/\<close>).

  \<^bold>\<open>The program.\<close> A hart enters the kernel through \<^verbatim>\<open>trap.c\<close>, which serves device interrupts (\<^verbatim>\<open>uart.c\<close>, \<^verbatim>\<open>virtio_disk.c\<close>), the
  clock and page faults (\<^verbatim>\<open>vm.c\<close>) or dispatches a system call (\<^verbatim>\<open>syscall.c\<close>, \<^verbatim>\<open>sysproc.c\<close>, \<^verbatim>\<open>sysfile.c\<close>). Processes and threads
  (\<^verbatim>\<open>proc.c\<close>) sleep on channels and are chosen by a scheduler with four queues. Memory comes in pages with reference counts
  (\<^verbatim>\<open>kalloc.c\<close>), shared by page tables after a fork. Files are layers: open files and pipes (\<^verbatim>\<open>file.c\<close>, \<^verbatim>\<open>pipe.c\<close>), inodes and
  directories (\<^verbatim>\<open>fs.c\<close>), a write-ahead log (\<^verbatim>\<open>log.c\<close>), a cache of blocks (\<^verbatim>\<open>bio.c\<close>) and the disk driver.

  \<^bold>\<open>How the code is modelled.\<close> The kernel state is a record that grows layer by layer, each theory extending the record of the
  one below: \<open>kcpu\<close> (locks held by this hart), \<open>kmem\<close> (memory, free list, reference counts), \<open>kvm\<close>, \<open>kproc\<close> (process table),
  \<open>kuart\<close>, \<open>kslp\<close> (sleep locks), \<open>kdisk\<close> (buffers, virtio queue, disk contents), \<open>klog\<close>, \<open>kfs\<close>, \<open>kfile\<close>, \<open>kcons\<close>, \<open>ktick\<close>, \<open>ktrap\<close>.
  A function of the source is a function from such a state to an outcome (type \<open>out\<close> of \<open>Prelude\<close>): it returns a value and a
  state, panics with the message of the source, gives up the processor (\<open>Sleep\<close>, with the rest of the run as a function
  of the state found on resumption, so that everything other processes do in between is covered), or diverges. A null
  pointer that the code would dereference panics as the trap it causes. Machine integers are words of their width; \<^verbatim>\<open>int\<close>
  variables that cannot overflow are integers; for the value of a semaphore, which can, the property says under which bound. Pointers to table entries are indices. Loops over tables are recursions
  over lists; scans of linked structures and of strings carry the number of elements that bounds them, and the loops
  that sleep until a condition holds are bounded by the ghost field \<open>patience\<close>, whose exhaustion is \<open>Diverge\<close>: a theorem
  that such a call returns assumes only the number of sleeps that the situation needs.

  \<^bold>\<open>Theories of the model,\<close> with the sources they translate.
  \<^item> \<open>Prelude\<close>, \<open>Mem\<close>, \<open>Riscv\<close>: outcomes and loops, byte memory, \<^verbatim>\<open>types.h\<close>, \<^verbatim>\<open>riscv.h\<close>, \<^verbatim>\<open>memlayout.h\<close>, \<^verbatim>\<open>param.h\<close>.
  \<^item> \<open>Kstring\<close>, \<open>Spinlock\<close>, \<open>Kalloc\<close>: \<^verbatim>\<open>string.c\<close>, \<^verbatim>\<open>spinlock.c\<close> (at the level of harts that interleave, and at the level of the set
    of held locks that all other components use), \<^verbatim>\<open>kalloc.c\<close>.
  \<^item> \<open>Vm\<close>, \<open>Usermem\<close>: \<^verbatim>\<open>vm.c\<close>. \<open>Proc\<close>, \<open>Procfs\<close>: \<^verbatim>\<open>proc.c\<close>. \<open>Exec\<close>: \<^verbatim>\<open>exec.c\<close>, \<^verbatim>\<open>elf.h\<close>.
  \<^item> \<open>Printf\<close>: \<^verbatim>\<open>printf.c\<close> and the transmit side of \<^verbatim>\<open>uart.c\<close>. \<open>Console\<close>: \<^verbatim>\<open>console.c\<close> and the receive side. \<open>Sleeplock\<close>: \<^verbatim>\<open>sleeplock.c\<close>.
  \<^item> \<open>Sleepwake\<close>: \<^verbatim>\<open>sleep\<close>, \<^verbatim>\<open>wakeup\<close>, \<^verbatim>\<open>acquiresleep\<close> and \<^verbatim>\<open>releasesleep\<close> once more, one lock operation or memory access at a time and interleaved.
  \<^item> \<open>Virtio\<close>, \<open>Bio\<close>, \<open>Log\<close>, \<open>Fs\<close>, \<open>Ftable\<close>, \<open>Pipe\<close>, \<open>File\<close>: \<^verbatim>\<open>virtio_disk.c\<close>, \<^verbatim>\<open>bio.c\<close>, \<^verbatim>\<open>log.c\<close>, \<^verbatim>\<open>fs.c\<close>, \<^verbatim>\<open>file.c\<close>, \<^verbatim>\<open>pipe.c\<close>.
  \<^item> \<open>Sysargs\<close>, \<open>Sysfile\<close>, \<open>Sysproc\<close>, \<open>Trap\<close>: \<^verbatim>\<open>syscall.c\<close>, \<^verbatim>\<open>sysfile.c\<close>, \<^verbatim>\<open>sysproc.c\<close>, \<^verbatim>\<open>trap.c\<close>, \<^verbatim>\<open>plic.c\<close>, \<^verbatim>\<open>start.c\<close>, \<^verbatim>\<open>main.c\<close>.
  \<^item> \<open>Grep\<close>, \<open>Semaphore\<close>: \<^verbatim>\<open>user/grep.c\<close>, \<^verbatim>\<open>user/semaphore.c\<close> with the futex routine of \<^verbatim>\<open>user/ulib.c\<close>.

  \<^bold>\<open>What is proved.\<close>
  \<^item> \<open>Spinlock\<close>: mutual exclusion for any number of harts and any interleaving; the set-level routines refine the hart-level ones.
    The locale \<open>spin_api\<close> is the contract, interpreted at both levels.
  \<^item> \<open>Kalloc\<close>: the allocator keeps the free list, the reference counts and the pages in use apart; allocation, release,
    sharing and start-up. The locale \<open>page_alloc\<close> is its contract.
  \<^item> \<open>Ptree\<close>, \<open>Vmspec\<close>, \<open>Vmcopy\<close>, \<open>Vmprops\<close>: a page table in memory as a tree of leaf entries; mapping, unmapping and the copy for fork
    in terms of leaf entries and reference counts, failures undone. \<open>Cow\<close>, \<open>Usercopy\<close>: page faults on shared pages, and the
    copies between kernel and user memory as the user sees it. \<open>Vmaprops\<close>: placement of mapped regions.
  \<^item> \<open>Procprops\<close>, \<open>Schedprops\<close>, \<open>Clockprops\<close>: misuse of sleep and wakeup, the scheduler's choice, the feedback queues as a state machine, the boost.
    \<open>Sleepwake\<close>: no interleaving of the steps of sleep and wakeup loses a wakeup. \<open>Semaphore\<close>: the same for the futex-based semaphores, and that
    they count.
  \<^item> \<open>Printprops\<close>, \<open>Consprops\<close>, \<open>Pipeprops\<close>: number output, termination of printf, line editing and pipes as operations on lists. The
    locale \<open>ring\<close> holds what the two circular buffers share.
  \<^item> \<open>Diskprops\<close>, \<open>Bcache\<close>, \<open>Blockops\<close>: one disk transfer with the interrupt and any device that keeps the virtio contract (\<open>virtio_device\<close>
    in \<open>Virtio\<close>, kept by \<open>dev_serve\<close>, which the theories above run with); the cache as a ring of buffers and as a
    store of blocks; rules for runs of block operations. \<open>drive\<close> runs an operation with every sleep filled by the device serving the
    queue and the interrupt waking the sleeper; \<open>crash_imgs\<close> collects the disk contents at which the machine may stop.
    The rule format \<open>does K r Q\<close> says that the run ends, that its result satisfies \<open>Q\<close>, and every disk at a crash satisfies \<open>K\<close>.
  \<^item> \<open>Logspec\<close>, \<open>Logloops\<close>, \<open>Crash\<close>, \<open>Transact\<close>, \<open>Fulllog\<close>, \<open>Fsprops\<close>: the steps and loops of the log, recovery, atomicity of a file system operation
    across crashes, concurrent operations that fill the log, and inodes and the free map on top of it.
  \<^item> \<open>Machine\<close>, \<open>Vmdemo\<close>: concrete machines at which the hypotheses of the properties hold.

  \<^bold>\<open>Assumptions of the model.\<close> Between two sleeps a kernel routine runs without interference: data shared between harts is protected
  by the locks the code holds, which the lock-level theorems justify. The transfer of one block is atomic, and in the
  crash theorems no other process uses the disk during the operation. User memory is reached through the page tables as the
  hardware does, without a translation cache. The disk is not part of the source: what is assumed of it is that it does every well-formed request and reports
  success. A string argument of \<^verbatim>\<open>printf\<close> is null or points to a terminated string.

  \<^bold>\<open>Not modelled.\<close> The assembly (\<^verbatim>\<open>entry.S\<close>, \<^verbatim>\<open>swtch.S\<close>, \<^verbatim>\<open>trampoline.S\<close>, \<^verbatim>\<open>kernelvec.S\<close>), whose effect is the entry and exit at the C functions; the
  accessors of control registers in \<^verbatim>\<open>riscv.h\<close>, which are single instructions; \<^verbatim>\<open>defs.h\<close>; the remaining user library and
  user programs, which pass arguments to system calls and print results or test the kernel; and \<^verbatim>\<open>mkfs.c\<close>, a host program.
\<close>

end
